(* ===== verification/Prelude.thy ===== *)
theory Prelude
  imports Main "HOL-Library.Word" "HOL-Library.Char_ord" "HOL-Library.List_Lexorder"
begin

text \<open>
  What the component theories share: the Go types the model uses, the result type of
  fallible code with its sequencing operator, Go's strings, byte slices and association-list
  maps, and the generic lemmas on them.

  \<^item> \<open>rbind\<close> is Go's \<open>x, err := f(); if err != nil { return err }\<close>: the rest of the
    function runs only when the call returned no error.
  \<^item> A Go string is a sequence of bytes; it is a \<^typ>\<open>string\<close> here (a \<^typ>\<open>char\<close> is one
    byte), and \<open>string_of_bytes\<close>, \<open>bytes_of_string\<close> are the conversions
    \<open>string(b)\<close> and \<open>[]byte(s)\<close>.
  \<^item> A Go map that the code only reads and writes by key is a map \<open>'k \<rightharpoonup> 'v\<close>; one the code
    ranges over is an association list whose order stands for the (unspecified) iteration
    order, with the operations \<open>alist_get\<close>, \<open>alist_set\<close> and \<open>alist_del\<close>.
\<close>

unbundle bit_operations_syntax

type_synonym byte = "8 word"
type_synonym u16 = "16 word"
type_synonym u32 = "32 word"
type_synonym u64 = "64 word"
type_synonym bytes = "byte list"

named_theorems wire_simps \<open>rewriting of successful reads and writes of the wire layer\<close>
named_theorems trie_simps \<open>lookups in a subscription trie after an update\<close>

section \<open>Fallible code\<close>

definition rbind :: "'e + 'a \<Rightarrow> ('a \<Rightarrow> 'e + 'b) \<Rightarrow> 'e + 'b" where
  "rbind m f = (case m of Inl e \<Rightarrow> Inl e | Inr x \<Rightarrow> f x)"

lemma rbind_simps [simp]:
  "rbind (Inl e) f = Inl e"
  "rbind (Inr x) f = f x"
  by (simp_all add: rbind_def)

lemma rbind_eq_Inr: "rbind m f = Inr y \<longleftrightarrow> (\<exists>x. m = Inr x \<and> f x = Inr y)"
  by (cases m) auto

lemma rbind_eq_Inl: "rbind m f = Inl e \<longleftrightarrow> m = Inl e \<or> (\<exists>x. m = Inr x \<and> f x = Inl e)"
  by (cases m) auto

lemma rbind_cong [fundef_cong]:
  "m = m' \<Longrightarrow> (\<And>x. m' = Inr x \<Longrightarrow> f x = f' x) \<Longrightarrow> rbind m f = rbind m' f'"
  by (cases m') auto

lemma rbind_Inr_E:
  assumes "rbind m f = Inr y"
  obtains x where "m = Inr x" "f x = Inr y"
  using assms by (auto simp: rbind_eq_Inr)

lemma if_Inl_eq_Inr [simp]:
  "(if b then Inl e else m) = Inr y \<longleftrightarrow> \<not> b \<and> m = Inr y"
  "(if b then m else Inl e) = Inr y \<longleftrightarrow> b \<and> m = Inr y"
  by auto

section \<open>Go strings\<close>

definition string_of_bytes :: "bytes \<Rightarrow> string" where
  "string_of_bytes = map (\<lambda>b. char_of (unat b))"

definition bytes_of_string :: "string \<Rightarrow> bytes" where
  "bytes_of_string = map (\<lambda>c. of_nat (of_char c))"

lemma unat_of_char_byte [simp]: "unat (of_nat (of_char c) :: byte) = of_char c"
proof -
  have "(of_char c :: nat) < 256"
    using nat_of_char_less_256 [of c] by simp
  then show ?thesis
    by (simp add: unat_of_nat take_bit_eq_mod)
qed

lemma string_of_bytes_of_string [simp]: "string_of_bytes (bytes_of_string s) = s"
  by (simp add: string_of_bytes_def bytes_of_string_def o_def)

lemma bytes_of_string_of_bytes [simp]: "bytes_of_string (string_of_bytes b) = b"
proof -
  have "of_nat (of_char (char_of (unat x) :: char)) = x" for x :: byte
  proof -
    have "unat x < 256" using unsigned_less [of x, where ?'a = nat] by simp
    then have "(of_char (char_of (unat x) :: char) :: nat) = unat x" by simp
    then show ?thesis by simp
  qed
  then show ?thesis
    by (simp add: string_of_bytes_def bytes_of_string_def o_def)
qed

lemma length_string_bytes [simp]:
  "length (string_of_bytes b) = length b"
  "length (bytes_of_string s) = length s"
  by (simp_all add: string_of_bytes_def bytes_of_string_def)

text \<open>The decimal rendering of \<open>fmt.Sprintf("%d", n)\<close> for a non-negative number.\<close>

fun itoa_nat :: "nat \<Rightarrow> string" where
  "itoa_nat n =
     (if n < 10 then [char_of (48 + n)] else itoa_nat (n div 10) @ [char_of (48 + n mod 10)])"

declare itoa_nat.simps [simp del]

definition itoa :: "int \<Rightarrow> string" where
  "itoa i = (if i < 0 then CHR ''-'' # itoa_nat (nat (- i)) else itoa_nat (nat i))"

text \<open>\<open>append([]byte(nil), xs...)\<close>: Go returns nil, not an empty slice, when \<open>xs\<close> is empty.\<close>

definition append_nil :: "bytes \<Rightarrow> bytes option" where
  "append_nil xs = (if xs = [] then None else Some xs)"

section \<open>Association lists as Go maps that are ranged over\<close>

definition alist_get :: "('k \<times> 'v) list \<Rightarrow> 'k \<Rightarrow> 'v option" where
  "alist_get m k = map_of m k"

fun alist_set :: "'k \<Rightarrow> 'v \<Rightarrow> ('k \<times> 'v) list \<Rightarrow> ('k \<times> 'v) list" where
  "alist_set k v [] = [(k, v)]"
| "alist_set k v ((k', v') # m) = (if k' = k then (k, v) # m else (k', v') # alist_set k v m)"

definition alist_del :: "'k \<Rightarrow> ('k \<times> 'v) list \<Rightarrow> ('k \<times> 'v) list" where
  "alist_del k m = filter (\<lambda>(k', v). k' \<noteq> k) m"

abbreviation alist_keys :: "('k \<times> 'v) list \<Rightarrow> 'k list" where
  "alist_keys m \<equiv> map fst m"

lemma alist_get_Nil [simp]: "alist_get [] k = None"
  by (simp add: alist_get_def)

lemma alist_get_Cons [simp]:
  "alist_get ((k', v) # m) k = (if k' = k then Some v else alist_get m k)"
  by (simp add: alist_get_def)

lemma alist_get_set [simp]:
  "alist_get (alist_set k v m) k' = (if k' = k then Some v else alist_get m k')"
  by (induction k v m rule: alist_set.induct) auto

lemma alist_get_del [simp]:
  "alist_get (alist_del k m) k' = (if k' = k then None else alist_get m k')"
  by (induction m) (auto simp: alist_del_def)

lemma set_keys_alist_set [simp]: "fst ` set (alist_set k v m) = insert k (fst ` set m)"
  by (induction k v m rule: alist_set.induct) auto

lemma distinct_alist_set [simp]: "distinct (alist_keys m) \<Longrightarrow> distinct (alist_keys (alist_set k v m))"
proof (induction k v m rule: alist_set.induct)
  case (2 k v k' v' m)
  then show ?case
    using set_keys_alist_set [of k v m] by (auto simp: image_iff)
qed simp

lemma distinct_alist_del [simp]: "distinct (alist_keys m) \<Longrightarrow> distinct (alist_keys (alist_del k m))"
  by (simp add: alist_del_def distinct_map_filter)

lemma alist_get_Some_in: "alist_get m k = Some v \<Longrightarrow> (k, v) \<in> set m"
  by (simp add: alist_get_def map_of_SomeD)

lemma alist_get_eq_Some_iff:
  "distinct (alist_keys m) \<Longrightarrow> alist_get m k = Some v \<longleftrightarrow> (k, v) \<in> set m"
  by (simp add: alist_get_def)

lemma alist_get_None_iff: "alist_get m k = None \<longleftrightarrow> k \<notin> fst ` set m"
  by (simp add: alist_get_def map_of_eq_None_iff)

end
