(* ===== verification/Mqtt_Packet.thy ===== *)
theory Mqtt_Packet
  imports Prelude
begin

text \<open>
  The in-memory model of MQTT 5 control packets: src/pkg/mqtt5/packet.go, properties.go and
  reason.go. A pointer field that may be nil is an \<open>option\<close>; \<open>CorrelationData\<close> and
  \<open>AuthData\<close> are byte slices whose nil-ness the code tests, so they are options too, while
  the other byte slices (payload, will message, password, reason lists) are plain lists: no
  code distinguishes a nil from an empty slice there. The interface \<open>Packet\<close> is the datatype
  \<open>Packet\<close> with one constructor per struct that implements it, the interface
  \<open>Properties\<close> the datatype \<open>Properties\<close>.
\<close>

type_synonym PacketType = byte
type_synonym ReasonCode = byte

section \<open>Packet types\<close>

abbreviation (input) CONNECT :: PacketType where "CONNECT \<equiv> 1"
abbreviation (input) CONNACK :: PacketType where "CONNACK \<equiv> 2"
abbreviation (input) PUBLISH :: PacketType where "PUBLISH \<equiv> 3"
abbreviation (input) PUBACK :: PacketType where "PUBACK \<equiv> 4"
abbreviation (input) PUBREC :: PacketType where "PUBREC \<equiv> 5"
abbreviation (input) PUBREL :: PacketType where "PUBREL \<equiv> 6"
abbreviation (input) PUBCOMP :: PacketType where "PUBCOMP \<equiv> 7"
abbreviation (input) SUBSCRIBE :: PacketType where "SUBSCRIBE \<equiv> 8"
abbreviation (input) SUBACK :: PacketType where "SUBACK \<equiv> 9"
abbreviation (input) UNSUBSCRIBE :: PacketType where "UNSUBSCRIBE \<equiv> 10"
abbreviation (input) UNSUBACK :: PacketType where "UNSUBACK \<equiv> 11"
abbreviation (input) PINGREQ :: PacketType where "PINGREQ \<equiv> 12"
abbreviation (input) PINGRESP :: PacketType where "PINGRESP \<equiv> 13"
abbreviation (input) DISCONNECT :: PacketType where "DISCONNECT \<equiv> 14"
abbreviation (input) AUTH :: PacketType where "AUTH \<equiv> 15"
abbreviation (input) WILLPROPERTIES :: PacketType where "WILLPROPERTIES \<equiv> 16"

section \<open>Property identifiers\<close>

abbreviation (input) PropPayloadFormat :: byte where "PropPayloadFormat \<equiv> 1"
abbreviation (input) PropMessageExpiry :: byte where "PropMessageExpiry \<equiv> 2"
abbreviation (input) PropContentType :: byte where "PropContentType \<equiv> 3"
abbreviation (input) PropResponseTopic :: byte where "PropResponseTopic \<equiv> 8"
abbreviation (input) PropCorrelationData :: byte where "PropCorrelationData \<equiv> 9"
abbreviation (input) PropSubscriptionIdentifier :: byte where "PropSubscriptionIdentifier \<equiv> 11"
abbreviation (input) PropSessionExpiryInterval :: byte where "PropSessionExpiryInterval \<equiv> 17"
abbreviation (input) PropAssignedClientID :: byte where "PropAssignedClientID \<equiv> 18"
abbreviation (input) PropServerKeepAlive :: byte where "PropServerKeepAlive \<equiv> 19"
abbreviation (input) PropAuthMethod :: byte where "PropAuthMethod \<equiv> 21"
abbreviation (input) PropAuthData :: byte where "PropAuthData \<equiv> 22"
abbreviation (input) PropRequestProblemInfo :: byte where "PropRequestProblemInfo \<equiv> 23"
abbreviation (input) PropWillDelayInterval :: byte where "PropWillDelayInterval \<equiv> 24"
abbreviation (input) PropRequestResponseInfo :: byte where "PropRequestResponseInfo \<equiv> 25"
abbreviation (input) PropResponseInfo :: byte where "PropResponseInfo \<equiv> 26"
abbreviation (input) PropServerReference :: byte where "PropServerReference \<equiv> 28"
abbreviation (input) PropReasonString :: byte where "PropReasonString \<equiv> 31"
abbreviation (input) PropReceiveMaximum :: byte where "PropReceiveMaximum \<equiv> 33"
abbreviation (input) PropTopicAliasMaximum :: byte where "PropTopicAliasMaximum \<equiv> 34"
abbreviation (input) PropTopicAlias :: byte where "PropTopicAlias \<equiv> 35"
abbreviation (input) PropMaximumQOS :: byte where "PropMaximumQOS \<equiv> 36"
abbreviation (input) PropRetainAvailable :: byte where "PropRetainAvailable \<equiv> 37"
abbreviation (input) PropUser :: byte where "PropUser \<equiv> 38"
abbreviation (input) PropMaximumPacketSize :: byte where "PropMaximumPacketSize \<equiv> 39"
abbreviation (input) PropWildcardSubAvailable :: byte where "PropWildcardSubAvailable \<equiv> 40"
abbreviation (input) PropSubIDAvailable :: byte where "PropSubIDAvailable \<equiv> 41"
abbreviation (input) PropSharedSubAvailable :: byte where "PropSharedSubAvailable \<equiv> 42"

section \<open>Reason codes\<close>

abbreviation (input) ConnAckSuccess :: ReasonCode where "ConnAckSuccess \<equiv> 0"
abbreviation (input) ConnAckUnspecifiedError :: ReasonCode where "ConnAckUnspecifiedError \<equiv> 128"
abbreviation (input) ConnAckMalformedPacket :: ReasonCode where "ConnAckMalformedPacket \<equiv> 129"
abbreviation (input) ConnAckProtocolError :: ReasonCode where "ConnAckProtocolError \<equiv> 130"
abbreviation (input) ConnAckImplementationSpecificError :: ReasonCode where "ConnAckImplementationSpecificError \<equiv> 131"
abbreviation (input) ConnAckUnsupportedProtocolVersion :: ReasonCode where "ConnAckUnsupportedProtocolVersion \<equiv> 132"
abbreviation (input) ConnAckInvalidClientID :: ReasonCode where "ConnAckInvalidClientID \<equiv> 133"
abbreviation (input) ConnAckBadUsernameOrPassword :: ReasonCode where "ConnAckBadUsernameOrPassword \<equiv> 134"
abbreviation (input) ConnAckNotAuthorized :: ReasonCode where "ConnAckNotAuthorized \<equiv> 135"
abbreviation (input) ConnAckServerUnavailable :: ReasonCode where "ConnAckServerUnavailable \<equiv> 136"
abbreviation (input) ConnAckServerBusy :: ReasonCode where "ConnAckServerBusy \<equiv> 137"
abbreviation (input) ConnAckBanned :: ReasonCode where "ConnAckBanned \<equiv> 138"
abbreviation (input) ConnAckBadAuthenticationMethod :: ReasonCode where "ConnAckBadAuthenticationMethod \<equiv> 140"
abbreviation (input) ConnAckTopicNameInvalid :: ReasonCode where "ConnAckTopicNameInvalid \<equiv> 144"
abbreviation (input) ConnAckPacketTooLarge :: ReasonCode where "ConnAckPacketTooLarge \<equiv> 149"
abbreviation (input) ConnAckQuotaExceeded :: ReasonCode where "ConnAckQuotaExceeded \<equiv> 151"
abbreviation (input) ConnAckPayloadFormatInvalid :: ReasonCode where "ConnAckPayloadFormatInvalid \<equiv> 153"
abbreviation (input) ConnAckRetainNotSupported :: ReasonCode where "ConnAckRetainNotSupported \<equiv> 154"
abbreviation (input) ConnAckQoSNotSupported :: ReasonCode where "ConnAckQoSNotSupported \<equiv> 155"
abbreviation (input) ConnAckUseAnotherServer :: ReasonCode where "ConnAckUseAnotherServer \<equiv> 156"
abbreviation (input) ConnAckServerMoved :: ReasonCode where "ConnAckServerMoved \<equiv> 157"
abbreviation (input) ConnAckConnectionRateExceeded :: ReasonCode where "ConnAckConnectionRateExceeded \<equiv> 159"
abbreviation (input) PubackSuccess :: ReasonCode where "PubackSuccess \<equiv> 0"
abbreviation (input) PubackNoMatchingSubscribers :: ReasonCode where "PubackNoMatchingSubscribers \<equiv> 16"
abbreviation (input) PubackUnspecifiedError :: ReasonCode where "PubackUnspecifiedError \<equiv> 128"
abbreviation (input) PubackImplementationSpecificError :: ReasonCode where "PubackImplementationSpecificError \<equiv> 131"
abbreviation (input) PubackNotAuthorized :: ReasonCode where "PubackNotAuthorized \<equiv> 135"
abbreviation (input) PubackTopicNameInvalid :: ReasonCode where "PubackTopicNameInvalid \<equiv> 144"
abbreviation (input) PubackPacketIdentifierInUse :: ReasonCode where "PubackPacketIdentifierInUse \<equiv> 145"
abbreviation (input) PubackQuotaExceeded :: ReasonCode where "PubackQuotaExceeded \<equiv> 151"
abbreviation (input) PubackPayloadFormatInvalid :: ReasonCode where "PubackPayloadFormatInvalid \<equiv> 153"
abbreviation (input) PubackRetainNotSupported :: ReasonCode where "PubackRetainNotSupported \<equiv> 154"
abbreviation (input) PubackQoSNotSupported :: ReasonCode where "PubackQoSNotSupported \<equiv> 155"
abbreviation (input) PubrecSuccess :: ReasonCode where "PubrecSuccess \<equiv> 0"
abbreviation (input) PubrecNoMatchingSubscribers :: ReasonCode where "PubrecNoMatchingSubscribers \<equiv> 16"
abbreviation (input) PubrecUnspecifiedError :: ReasonCode where "PubrecUnspecifiedError \<equiv> 128"
abbreviation (input) PubrecImplementationSpecificError :: ReasonCode where "PubrecImplementationSpecificError \<equiv> 131"
abbreviation (input) PubrecNotAuthorized :: ReasonCode where "PubrecNotAuthorized \<equiv> 135"
abbreviation (input) PubrecTopicNameInvalid :: ReasonCode where "PubrecTopicNameInvalid \<equiv> 144"
abbreviation (input) PubrecPacketIdentifierInUse :: ReasonCode where "PubrecPacketIdentifierInUse \<equiv> 145"
abbreviation (input) PubrecQuotaExceeded :: ReasonCode where "PubrecQuotaExceeded \<equiv> 151"
abbreviation (input) PubrecPayloadFormatInvalid :: ReasonCode where "PubrecPayloadFormatInvalid \<equiv> 153"
abbreviation (input) PubrecRetainNotSupported :: ReasonCode where "PubrecRetainNotSupported \<equiv> 154"
abbreviation (input) PubrecQoSNotSupported :: ReasonCode where "PubrecQoSNotSupported \<equiv> 155"
abbreviation (input) PubrelSuccess :: ReasonCode where "PubrelSuccess \<equiv> 0"
abbreviation (input) PubrelPacketIdentifierNotFound :: ReasonCode where "PubrelPacketIdentifierNotFound \<equiv> 146"
abbreviation (input) PubcompSuccess :: ReasonCode where "PubcompSuccess \<equiv> 0"
abbreviation (input) PubcompPacketIdentifierNotFound :: ReasonCode where "PubcompPacketIdentifierNotFound \<equiv> 146"
abbreviation (input) SubackGrantedQoS0 :: ReasonCode where "SubackGrantedQoS0 \<equiv> 0"
abbreviation (input) SubackGrantedQoS1 :: ReasonCode where "SubackGrantedQoS1 \<equiv> 1"
abbreviation (input) SubackGrantedQoS2 :: ReasonCode where "SubackGrantedQoS2 \<equiv> 2"
abbreviation (input) SubackUnspecifiederror :: ReasonCode where "SubackUnspecifiederror \<equiv> 128"
abbreviation (input) SubackImplementationspecificerror :: ReasonCode where "SubackImplementationspecificerror \<equiv> 131"
abbreviation (input) SubackNotauthorized :: ReasonCode where "SubackNotauthorized \<equiv> 135"
abbreviation (input) SubackTopicFilterinvalid :: ReasonCode where "SubackTopicFilterinvalid \<equiv> 143"
abbreviation (input) SubackPacketIdentifierinuse :: ReasonCode where "SubackPacketIdentifierinuse \<equiv> 145"
abbreviation (input) SubackQuotaexceeded :: ReasonCode where "SubackQuotaexceeded \<equiv> 151"
abbreviation (input) SubackSharedSubscriptionnotsupported :: ReasonCode where "SubackSharedSubscriptionnotsupported \<equiv> 158"
abbreviation (input) SubackSubscriptionIdentifiersnotsupported :: ReasonCode where "SubackSubscriptionIdentifiersnotsupported \<equiv> 161"
abbreviation (input) SubackWildcardsubscriptionsnotsupported :: ReasonCode where "SubackWildcardsubscriptionsnotsupported \<equiv> 162"
abbreviation (input) UnsubackSuccess :: ReasonCode where "UnsubackSuccess \<equiv> 0"
abbreviation (input) UnsubackNoSubscriptionFound :: ReasonCode where "UnsubackNoSubscriptionFound \<equiv> 17"
abbreviation (input) UnsubackUnspecifiedError :: ReasonCode where "UnsubackUnspecifiedError \<equiv> 128"
abbreviation (input) UnsubackImplementationSpecificError :: ReasonCode where "UnsubackImplementationSpecificError \<equiv> 131"
abbreviation (input) UnsubackNotAuthorized :: ReasonCode where "UnsubackNotAuthorized \<equiv> 135"
abbreviation (input) UnsubackTopicFilterInvalid :: ReasonCode where "UnsubackTopicFilterInvalid \<equiv> 143"
abbreviation (input) UnsubackPacketIdentifierInUse :: ReasonCode where "UnsubackPacketIdentifierInUse \<equiv> 145"
abbreviation (input) DisconnectNormalDisconnection :: ReasonCode where "DisconnectNormalDisconnection \<equiv> 0"
abbreviation (input) DisconnectDisconnectWithWillMessage :: ReasonCode where "DisconnectDisconnectWithWillMessage \<equiv> 4"
abbreviation (input) DisconnectUnspecifiedError :: ReasonCode where "DisconnectUnspecifiedError \<equiv> 128"
abbreviation (input) DisconnectMalformedPacket :: ReasonCode where "DisconnectMalformedPacket \<equiv> 129"
abbreviation (input) DisconnectProtocolError :: ReasonCode where "DisconnectProtocolError \<equiv> 130"
abbreviation (input) DisconnectImplementationSpecificError :: ReasonCode where "DisconnectImplementationSpecificError \<equiv> 131"
abbreviation (input) DisconnectNotAuthorized :: ReasonCode where "DisconnectNotAuthorized \<equiv> 135"
abbreviation (input) DisconnectServerBusy :: ReasonCode where "DisconnectServerBusy \<equiv> 137"
abbreviation (input) DisconnectServerShuttingDown :: ReasonCode where "DisconnectServerShuttingDown \<equiv> 139"
abbreviation (input) DisconnectBadAuthenticationMethod :: ReasonCode where "DisconnectBadAuthenticationMethod \<equiv> 140"
abbreviation (input) DisconnectKeepAliveTimeout :: ReasonCode where "DisconnectKeepAliveTimeout \<equiv> 141"
abbreviation (input) DisconnectSessionTakenOver :: ReasonCode where "DisconnectSessionTakenOver \<equiv> 142"
abbreviation (input) DisconnectTopicFilterInvalid :: ReasonCode where "DisconnectTopicFilterInvalid \<equiv> 143"
abbreviation (input) DisconnectTopicNameInvalid :: ReasonCode where "DisconnectTopicNameInvalid \<equiv> 144"
abbreviation (input) DisconnectReceiveMaximumExceeded :: ReasonCode where "DisconnectReceiveMaximumExceeded \<equiv> 147"
abbreviation (input) DisconnectTopicAliasInvalid :: ReasonCode where "DisconnectTopicAliasInvalid \<equiv> 148"
abbreviation (input) DisconnectPacketTooLarge :: ReasonCode where "DisconnectPacketTooLarge \<equiv> 149"
abbreviation (input) DisconnectMessageRateTooHigh :: ReasonCode where "DisconnectMessageRateTooHigh \<equiv> 150"
abbreviation (input) DisconnectQuotaExceeded :: ReasonCode where "DisconnectQuotaExceeded \<equiv> 151"
abbreviation (input) DisconnectAdministrativeAction :: ReasonCode where "DisconnectAdministrativeAction \<equiv> 152"
abbreviation (input) DisconnectPayloadFormatInvalid :: ReasonCode where "DisconnectPayloadFormatInvalid \<equiv> 153"
abbreviation (input) DisconnectRetainNotSupported :: ReasonCode where "DisconnectRetainNotSupported \<equiv> 154"
abbreviation (input) DisconnectQoSNotSupported :: ReasonCode where "DisconnectQoSNotSupported \<equiv> 155"
abbreviation (input) DisconnectUseAnotherServer :: ReasonCode where "DisconnectUseAnotherServer \<equiv> 156"
abbreviation (input) DisconnectServerMoved :: ReasonCode where "DisconnectServerMoved \<equiv> 157"
abbreviation (input) DisconnectSharedSubscriptionNotSupported :: ReasonCode where "DisconnectSharedSubscriptionNotSupported \<equiv> 158"
abbreviation (input) DisconnectConnectionRateExceeded :: ReasonCode where "DisconnectConnectionRateExceeded \<equiv> 159"
abbreviation (input) DisconnectMaximumConnectTime :: ReasonCode where "DisconnectMaximumConnectTime \<equiv> 160"
abbreviation (input) DisconnectSubscriptionIdentifiersNotSupported :: ReasonCode where "DisconnectSubscriptionIdentifiersNotSupported \<equiv> 161"
abbreviation (input) DisconnectWildcardSubscriptionsNotSupported :: ReasonCode where "DisconnectWildcardSubscriptionsNotSupported \<equiv> 162"
abbreviation (input) AuthSuccess :: ReasonCode where "AuthSuccess \<equiv> 0"
abbreviation (input) AuthContinueAuthentication :: ReasonCode where "AuthContinueAuthentication \<equiv> 24"
abbreviation (input) AuthReauthenticate :: ReasonCode where "AuthReauthenticate \<equiv> 25"

section \<open>Property structs\<close>

record User =
  user_Key :: string
  user_Value :: string

record PublishProperties =
  pp_PayloadFormat :: "byte option"
  pp_MessageExpiry :: "u32 option"
  pp_WillDelayInterval :: "u32 option"
  pp_ContentType :: string
  pp_ResponseTopic :: string
  pp_CorrelationData :: "bytes option"
  pp_TopicAlias :: "u16 option"
  pp_SubscriptionIdentifier :: "int list"
  pp_User :: "User list"

record ConnectProperties =
  cnp_SessionExpiryInterval :: "u32 option"
  cnp_AuthMethod :: string
  cnp_AuthData :: "bytes option"
  cnp_RequestProblemInfo :: "byte option"
  cnp_RequestResponseInfo :: "byte option"
  cnp_ReceiveMaximum :: "u16 option"
  cnp_TopicAliasMaximum :: "u16 option"
  cnp_MaximumPacketSize :: "u32 option"
  cnp_User :: "User list"

record ConnAckProperties =
  cap_SessionExpiryInterval :: "u32 option"
  cap_AssignedClientID :: string
  cap_ServerKeepAlive :: "u16 option"
  cap_AuthMethod :: string
  cap_AuthData :: "bytes option"
  cap_ResponseInfo :: string
  cap_ServerReference :: string
  cap_ReasonString :: string
  cap_ReceiveMaximum :: "u16 option"
  cap_TopicAliasMaximum :: "u16 option"
  cap_MaximumQOS :: "byte option"
  cap_RetainAvailable :: "byte option"
  cap_WildcardSubAvailable :: "byte option"
  cap_SubIDAvailable :: "byte option"
  cap_SharedSubAvailable :: "byte option"
  cap_MaximumPacketSize :: "u32 option"
  cap_User :: "User list"

record SubscribeProperties =
  sbp_SubscriptionIdentifier :: "int option"
  sbp_User :: "User list"

record SubackProperties =
  sap_ReasonString :: string
  sap_User :: "User list"

record UnsubscribeProperties =
  usp_User :: "User list"

record UnsubackProperties =
  uap_ReasonString :: string
  uap_User :: "User list"

record PubackProperties =
  pap_ReasonString :: string
  pap_User :: "User list"

record PubrecProperties =
  prp_ReasonString :: string
  prp_User :: "User list"

record PubrelProperties =
  plp_ReasonString :: string
  plp_User :: "User list"

record PubcompProperties =
  pcp_ReasonString :: string
  pcp_User :: "User list"

record DisconnectProperties =
  dsp_SessionExpiryInterval :: "u32 option"
  dsp_ServerReference :: string
  dsp_ReasonString :: string
  dsp_User :: "User list"

record AuthProperties =
  aup_AuthMethod :: string
  aup_AuthData :: "bytes option"
  aup_ReasonString :: string
  aup_User :: "User list"

text \<open>The zero values, Go's \<open>&PublishProperties{}\<close> and so on.\<close>

definition PublishProperties0 :: PublishProperties where
  "PublishProperties0 = \<lparr>pp_PayloadFormat = None, pp_MessageExpiry = None, pp_WillDelayInterval = None,
     pp_ContentType = [], pp_ResponseTopic = [], pp_CorrelationData = None, pp_TopicAlias =
     None, pp_SubscriptionIdentifier = [], pp_User = []\<rparr>"

definition ConnectProperties0 :: ConnectProperties where
  "ConnectProperties0 = \<lparr>cnp_SessionExpiryInterval = None, cnp_AuthMethod = [], cnp_AuthData = None,
     cnp_RequestProblemInfo = None, cnp_RequestResponseInfo = None, cnp_ReceiveMaximum =
     None, cnp_TopicAliasMaximum = None, cnp_MaximumPacketSize = None, cnp_User = []\<rparr>"

definition ConnAckProperties0 :: ConnAckProperties where
  "ConnAckProperties0 = \<lparr>cap_SessionExpiryInterval = None, cap_AssignedClientID = [], cap_ServerKeepAlive = None,
     cap_AuthMethod = [], cap_AuthData = None, cap_ResponseInfo = [], cap_ServerReference =
     [], cap_ReasonString = [], cap_ReceiveMaximum = None, cap_TopicAliasMaximum = None,
     cap_MaximumQOS = None, cap_RetainAvailable = None, cap_WildcardSubAvailable = None,
     cap_SubIDAvailable = None, cap_SharedSubAvailable = None, cap_MaximumPacketSize = None,
     cap_User = []\<rparr>"

definition SubscribeProperties0 :: SubscribeProperties where
  "SubscribeProperties0 = \<lparr>sbp_SubscriptionIdentifier = None, sbp_User = []\<rparr>"

definition SubackProperties0 :: SubackProperties where
  "SubackProperties0 = \<lparr>sap_ReasonString = [], sap_User = []\<rparr>"

definition UnsubscribeProperties0 :: UnsubscribeProperties where
  "UnsubscribeProperties0 = \<lparr>usp_User = []\<rparr>"

definition UnsubackProperties0 :: UnsubackProperties where
  "UnsubackProperties0 = \<lparr>uap_ReasonString = [], uap_User = []\<rparr>"

definition PubackProperties0 :: PubackProperties where
  "PubackProperties0 = \<lparr>pap_ReasonString = [], pap_User = []\<rparr>"

definition PubrecProperties0 :: PubrecProperties where
  "PubrecProperties0 = \<lparr>prp_ReasonString = [], prp_User = []\<rparr>"

definition PubrelProperties0 :: PubrelProperties where
  "PubrelProperties0 = \<lparr>plp_ReasonString = [], plp_User = []\<rparr>"

definition PubcompProperties0 :: PubcompProperties where
  "PubcompProperties0 = \<lparr>pcp_ReasonString = [], pcp_User = []\<rparr>"

definition DisconnectProperties0 :: DisconnectProperties where
  "DisconnectProperties0 = \<lparr>dsp_SessionExpiryInterval = None, dsp_ServerReference = [], dsp_ReasonString = [],
     dsp_User = []\<rparr>"

definition AuthProperties0 :: AuthProperties where
  "AuthProperties0 = \<lparr>aup_AuthMethod = [], aup_AuthData = None, aup_ReasonString = [], aup_User = []\<rparr>"

lemmas props0_defs =
  PublishProperties0_def ConnectProperties0_def ConnAckProperties0_def
  SubscribeProperties0_def SubackProperties0_def UnsubscribeProperties0_def
  UnsubackProperties0_def PubackProperties0_def PubrecProperties0_def PubrelProperties0_def
  PubcompProperties0_def DisconnectProperties0_def AuthProperties0_def

datatype Properties =
    PublishProps PublishProperties
  | ConnectProps ConnectProperties
  | ConnAckProps ConnAckProperties
  | SubscribeProps SubscribeProperties
  | SubackProps SubackProperties
  | UnsubscribeProps UnsubscribeProperties
  | UnsubackProps UnsubackProperties
  | PubackProps PubackProperties
  | PubrecProps PubrecProperties
  | PubrelProps PubrelProperties
  | PubcompProps PubcompProperties
  | DisconnectProps DisconnectProperties
  | AuthProps AuthProperties

fun GetUserProperties :: "Properties option \<Rightarrow> User list" where
  "GetUserProperties None = []"
| "GetUserProperties (Some (PublishProps p)) = pp_User p"
| "GetUserProperties (Some (ConnectProps p)) = cnp_User p"
| "GetUserProperties (Some (ConnAckProps p)) = cap_User p"
| "GetUserProperties (Some (SubscribeProps p)) = sbp_User p"
| "GetUserProperties (Some (SubackProps p)) = sap_User p"
| "GetUserProperties (Some (UnsubscribeProps p)) = usp_User p"
| "GetUserProperties (Some (UnsubackProps p)) = uap_User p"
| "GetUserProperties (Some (PubackProps p)) = pap_User p"
| "GetUserProperties (Some (PubrecProps p)) = prp_User p"
| "GetUserProperties (Some (PubrelProps p)) = plp_User p"
| "GetUserProperties (Some (PubcompProps p)) = pcp_User p"
| "GetUserProperties (Some (DisconnectProps p)) = dsp_User p"
| "GetUserProperties (Some (AuthProps p)) = aup_User p"

fun SetUserProperties :: "User list \<Rightarrow> Properties \<Rightarrow> Properties" where
  "SetUserProperties us (PublishProps p) = PublishProps (p\<lparr>pp_User := us\<rparr>)"
| "SetUserProperties us (ConnectProps p) = ConnectProps (p\<lparr>cnp_User := us\<rparr>)"
| "SetUserProperties us (ConnAckProps p) = ConnAckProps (p\<lparr>cap_User := us\<rparr>)"
| "SetUserProperties us (SubscribeProps p) = SubscribeProps (p\<lparr>sbp_User := us\<rparr>)"
| "SetUserProperties us (SubackProps p) = SubackProps (p\<lparr>sap_User := us\<rparr>)"
| "SetUserProperties us (UnsubscribeProps p) = UnsubscribeProps (p\<lparr>usp_User := us\<rparr>)"
| "SetUserProperties us (UnsubackProps p) = UnsubackProps (p\<lparr>uap_User := us\<rparr>)"
| "SetUserProperties us (PubackProps p) = PubackProps (p\<lparr>pap_User := us\<rparr>)"
| "SetUserProperties us (PubrecProps p) = PubrecProps (p\<lparr>prp_User := us\<rparr>)"
| "SetUserProperties us (PubrelProps p) = PubrelProps (p\<lparr>plp_User := us\<rparr>)"
| "SetUserProperties us (PubcompProps p) = PubcompProps (p\<lparr>pcp_User := us\<rparr>)"
| "SetUserProperties us (DisconnectProps p) = DisconnectProps (p\<lparr>dsp_User := us\<rparr>)"
| "SetUserProperties us (AuthProps p) = AuthProps (p\<lparr>aup_User := us\<rparr>)"

text \<open>\<open>propertyString\<close>, the debug rendering of the user properties.\<close>

definition propertyString :: "User list \<Rightarrow> string" where
  "propertyString users =
     concat (map (\<lambda>u. [CHR 0x09] @ user_Key u @ '':'' @ user_Value u @ [CHR 0x0A]) users)"

section \<open>Packet structs\<close>

record Connect =
  cn_WillMessage :: bytes
  cn_Password :: bytes
  cn_Username :: string
  cn_ProtocolName :: string
  cn_ClientID :: string
  cn_WillTopic :: string
  cn_Properties :: "ConnectProperties option"
  cn_WillProperties :: "PublishProperties option"
  cn_KeepAlive :: u16
  cn_ProtocolVersion :: byte
  cn_WillQOS :: byte
  cn_PasswordFlag :: bool
  cn_UsernameFlag :: bool
  cn_WillRetain :: bool
  cn_WillFlag :: bool
  cn_CleanStart :: bool

definition Connect0 :: Connect where
  "Connect0 = \<lparr>cn_WillMessage = [], cn_Password = [], cn_Username = [], cn_ProtocolName = [],
     cn_ClientID = [], cn_WillTopic = [], cn_Properties = None, cn_WillProperties = None,
     cn_KeepAlive = 0, cn_ProtocolVersion = 0, cn_WillQOS = 0, cn_PasswordFlag = False,
     cn_UsernameFlag = False, cn_WillRetain = False, cn_WillFlag = False, cn_CleanStart = False\<rparr>"

text \<open>\<open>(c *Connect) PackFlags\<close>: the CONNECT flags byte.\<close>

definition PackFlags :: "Connect \<Rightarrow> byte" where
  "PackFlags c =
     (let flags = 0;
          flags = (if cn_UsernameFlag c then flags OR 128 else flags);
          flags = (if cn_PasswordFlag c then flags OR 64 else flags);
          flags = (if cn_WillFlag c
                   then (let flags = flags OR 4;
                             flags = flags OR push_bit 3 (cn_WillQOS c)
                         in if cn_WillRetain c then flags OR 32 else flags)
                   else flags);
          flags = (if cn_CleanStart c then flags OR 2 else flags)
      in flags)"

record ConnAck =
  ca_Properties :: "ConnAckProperties option"
  ca_ReasonCode :: byte
  ca_SessionPresent :: bool

record Publish =
  pub_Payload :: bytes
  pub_Topic :: string
  pub_Properties :: "PublishProperties option"
  pub_PacketID :: u16
  pub_QoS :: byte
  pub_Duplicate :: bool
  pub_Retain :: bool

record Puback =
  pa_Properties :: "PubackProperties option"
  pa_PacketID :: u16
  pa_ReasonCode :: byte

record Pubrec =
  pr_Properties :: "PubrecProperties option"
  pr_PacketID :: u16
  pr_ReasonCode :: byte

record Pubrel =
  pl_Properties :: "PubrelProperties option"
  pl_PacketID :: u16
  pl_ReasonCode :: byte

record Pubcomp =
  pc_Properties :: "PubcompProperties option"
  pc_PacketID :: u16
  pc_ReasonCode :: byte

record SubOptions =
  so_Topic :: string
  so_QoS :: byte
  so_RetainHandling :: byte
  so_NoLocal :: bool
  so_RetainAsPublished :: bool

text \<open>\<open>(s *SubOptions) Pack\<close>: the subscription options byte.\<close>

definition Pack :: "SubOptions \<Rightarrow> byte" where
  "Pack s =
     (let out = 0;
          out = out OR (so_QoS s AND 3);
          out = (if so_NoLocal s then out OR 4 else out);
          out = (if so_RetainAsPublished s then out OR 8 else out);
          out = out OR (push_bit 4 (so_RetainHandling s) AND 48)
      in out)"

record Subscribe =
  sb_Properties :: "SubscribeProperties option"
  sb_Subscriptions :: "SubOptions list"
  sb_PacketID :: u16

record Suback =
  sa_Properties :: "SubackProperties option"
  sa_Reasons :: bytes
  sa_PacketID :: u16

record Unsubscribe =
  us_Topics :: "string list"
  us_Properties :: "UnsubscribeProperties option"
  us_PacketID :: u16

record Unsuback =
  ua_Reasons :: bytes
  ua_Properties :: "UnsubackProperties option"
  ua_PacketID :: u16

record Disconnect =
  ds_Properties :: "DisconnectProperties option"
  ds_ReasonCode :: byte

record Auth =
  au_Properties :: "AuthProperties option"
  au_ReasonCode :: byte

datatype Packet =
    PConnect Connect
  | PConnAck ConnAck
  | PPublish Publish
  | PPuback Puback
  | PPubrec Pubrec
  | PPubrel Pubrel
  | PPubcomp Pubcomp
  | PSubscribe Subscribe
  | PSuback Suback
  | PUnsubscribe Unsubscribe
  | PUnsuback Unsuback
  | PPingreq
  | PPingresp
  | PDisconnect Disconnect
  | PAuth Auth

text \<open>The method \<open>PacketType()\<close> of each struct.\<close>

fun PacketType_of :: "Packet \<Rightarrow> PacketType" where
  "PacketType_of (PConnect _) = CONNECT"
| "PacketType_of (PConnAck _) = CONNACK"
| "PacketType_of (PPublish _) = PUBLISH"
| "PacketType_of (PPuback _) = PUBACK"
| "PacketType_of (PPubrec _) = PUBREC"
| "PacketType_of (PPubrel _) = PUBREL"
| "PacketType_of (PPubcomp _) = PUBCOMP"
| "PacketType_of (PSubscribe _) = SUBSCRIBE"
| "PacketType_of (PSuback _) = SUBACK"
| "PacketType_of (PUnsubscribe _) = UNSUBSCRIBE"
| "PacketType_of (PUnsuback _) = UNSUBACK"
| "PacketType_of PPingreq = PINGREQ"
| "PacketType_of PPingresp = PINGRESP"
| "PacketType_of (PDisconnect _) = DISCONNECT"
| "PacketType_of (PAuth _) = AUTH"

section \<open>Control packets\<close>

record FixedHeader =
  fh_Type :: PacketType
  fh_Flags :: byte
  fh_RemainingLength :: int

record ControlPacket =
  cp_Content :: "Packet option"
  cp_Packet :: "Packet option"
  cp_FixedHeader :: FixedHeader

definition CanonicalPacket :: "ControlPacket option \<Rightarrow> Packet option" where
  "CanonicalPacket c =
     (case c of
        None \<Rightarrow> None
      | Some c \<Rightarrow> (if cp_Content c \<noteq> None then cp_Content c else cp_Packet c))"

text \<open>\<open>SetPacket\<close> and \<open>setPacket\<close>: content and header type in step.\<close>

definition setPacket :: "ControlPacket \<Rightarrow> Packet option \<Rightarrow> ControlPacket" where
  "setPacket c packet =
     (let c = c\<lparr>cp_Content := packet, cp_Packet := packet\<rparr>
      in case packet of
           None \<Rightarrow> c
         | Some p \<Rightarrow>
             (let h = (cp_FixedHeader c)\<lparr>fh_Type := PacketType_of p\<rparr>;
                  h = (if fh_Type h = PUBREL \<or> fh_Type h = SUBSCRIBE \<or> fh_Type h = UNSUBSCRIBE
                       then h\<lparr>fh_Flags := 2\<rparr> else h)
              in c\<lparr>cp_FixedHeader := h\<rparr>))"

text \<open>\<open>NewControlPacket\<close>: the empty packet of a type, nil for a number that is no type.\<close>

definition NewControlPacket :: "PacketType \<Rightarrow> ControlPacket option" where
  "NewControlPacket packetType =
     (let cp = \<lparr>cp_Content = None, cp_Packet = None,
                cp_FixedHeader = \<lparr>fh_Type = packetType, fh_Flags = 0, fh_RemainingLength = 0\<rparr>\<rparr>;
          cp2 = cp\<lparr>cp_FixedHeader := (cp_FixedHeader cp)\<lparr>fh_Flags := 2\<rparr>\<rparr>
      in if packetType = CONNECT then
           Some (setPacket cp (Some (PConnect (Connect0\<lparr>cn_ProtocolName := ''MQTT'',
             cn_ProtocolVersion := 5, cn_Properties := Some ConnectProperties0\<rparr>))))
         else if packetType = CONNACK then
           Some (setPacket cp (Some (PConnAck
             \<lparr>ca_Properties = Some ConnAckProperties0, ca_ReasonCode = 0, ca_SessionPresent = False\<rparr>)))
         else if packetType = PUBLISH then
           Some (setPacket cp (Some (PPublish
             \<lparr>pub_Payload = [], pub_Topic = [], pub_Properties = Some PublishProperties0,
              pub_PacketID = 0, pub_QoS = 0, pub_Duplicate = False, pub_Retain = False\<rparr>)))
         else if packetType = PUBACK then
           Some (setPacket cp (Some (PPuback
             \<lparr>pa_Properties = Some PubackProperties0, pa_PacketID = 0, pa_ReasonCode = 0\<rparr>)))
         else if packetType = PUBREC then
           Some (setPacket cp (Some (PPubrec
             \<lparr>pr_Properties = Some PubrecProperties0, pr_PacketID = 0, pr_ReasonCode = 0\<rparr>)))
         else if packetType = PUBREL then
           Some (setPacket cp2 (Some (PPubrel
             \<lparr>pl_Properties = Some PubrelProperties0, pl_PacketID = 0, pl_ReasonCode = 0\<rparr>)))
         else if packetType = PUBCOMP then
           Some (setPacket cp (Some (PPubcomp
             \<lparr>pc_Properties = Some PubcompProperties0, pc_PacketID = 0, pc_ReasonCode = 0\<rparr>)))
         else if packetType = SUBSCRIBE then
           Some (setPacket cp2 (Some (PSubscribe
             \<lparr>sb_Properties = Some SubscribeProperties0, sb_Subscriptions = [], sb_PacketID = 0\<rparr>)))
         else if packetType = SUBACK then
           Some (setPacket cp (Some (PSuback
             \<lparr>sa_Properties = Some SubackProperties0, sa_Reasons = [], sa_PacketID = 0\<rparr>)))
         else if packetType = UNSUBSCRIBE then
           Some (setPacket cp2 (Some (PUnsubscribe
             \<lparr>us_Topics = [], us_Properties = Some UnsubscribeProperties0, us_PacketID = 0\<rparr>)))
         else if packetType = UNSUBACK then
           Some (setPacket cp (Some (PUnsuback
             \<lparr>ua_Reasons = [], ua_Properties = Some UnsubackProperties0, ua_PacketID = 0\<rparr>)))
         else if packetType = PINGREQ then Some (setPacket cp (Some PPingreq))
         else if packetType = PINGRESP then Some (setPacket cp (Some PPingresp))
         else if packetType = DISCONNECT then
           Some (setPacket cp (Some (PDisconnect
             \<lparr>ds_Properties = Some DisconnectProperties0, ds_ReasonCode = 0\<rparr>)))
         else if packetType = AUTH then
           Some (setPacket cp (Some (PAuth
             \<lparr>au_Properties = Some AuthProperties0, au_ReasonCode = 0\<rparr>)))
         else None)"

text \<open>\<open>(c *ControlPacket) PacketID\<close>.\<close>

definition PacketID :: "ControlPacket option \<Rightarrow> u16" where
  "PacketID c =
     (case CanonicalPacket c of
        Some (PPublish p) \<Rightarrow> pub_PacketID p
      | Some (PPuback p) \<Rightarrow> pa_PacketID p
      | Some (PPubrec p) \<Rightarrow> pr_PacketID p
      | Some (PPubrel p) \<Rightarrow> pl_PacketID p
      | Some (PPubcomp p) \<Rightarrow> pc_PacketID p
      | Some (PSubscribe p) \<Rightarrow> sb_PacketID p
      | Some (PSuback p) \<Rightarrow> sa_PacketID p
      | Some (PUnsubscribe p) \<Rightarrow> us_PacketID p
      | Some (PUnsuback p) \<Rightarrow> ua_PacketID p
      | _ \<Rightarrow> 0)"

definition packetNames :: "string list" where
  "packetNames = [[], ''CONNECT'', ''CONNACK'', ''PUBLISH'', ''PUBACK'', ''PUBREC'', ''PUBREL'',
     ''PUBCOMP'', ''SUBSCRIBE'', ''SUBACK'', ''UNSUBSCRIBE'', ''UNSUBACK'', ''PINGREQ'',
     ''PINGRESP'', ''DISCONNECT'', ''AUTH'']"

definition PacketTypeName :: "PacketType \<Rightarrow> string" where
  "PacketTypeName packetType =
     (if unat packetType < length packetNames then packetNames ! unat packetType
      else ''UNKNOWN'')"

text \<open>\<open>(p *Publish) ToControlPacket\<close>.\<close>

definition Publish_ToControlPacket :: "Publish \<Rightarrow> ControlPacket" where
  "Publish_ToControlPacket p =
     (let flags = push_bit 1 (pub_QoS p);
          flags = (if pub_Duplicate p then flags OR 8 else flags);
          flags = (if pub_Retain p then flags OR 1 else flags);
          cp = \<lparr>cp_Content = None, cp_Packet = None,
                cp_FixedHeader = \<lparr>fh_Type = PUBLISH, fh_Flags = flags, fh_RemainingLength = 0\<rparr>\<rparr>;
          cp = setPacket cp (Some (PPublish p))
      in cp\<lparr>cp_FixedHeader := (cp_FixedHeader cp)\<lparr>fh_Flags := flags\<rparr>\<rparr>)"

definition Pubrec_ToControlPacket :: "Pubrec \<Rightarrow> ControlPacket" where
  "Pubrec_ToControlPacket p =
     setPacket \<lparr>cp_Content = None, cp_Packet = None,
       cp_FixedHeader = \<lparr>fh_Type = PUBREC, fh_Flags = 0, fh_RemainingLength = 0\<rparr>\<rparr>
       (Some (PPubrec p))"

section \<open>Properties of the packet constructors\<close>

lemma CanonicalPacket_setPacket: "CanonicalPacket (Some (setPacket c (Some p))) = Some p"
  by (simp add: CanonicalPacket_def setPacket_def Let_def)

lemma fh_Type_setPacket: "fh_Type (cp_FixedHeader (setPacket c (Some p))) = PacketType_of p"
  by (simp add: setPacket_def Let_def)

lemma PacketType_of_bounds: "1 \<le> PacketType_of p \<and> PacketType_of p \<le> 15"
  by (cases p) simp_all

end
