(* ===== verification/Topic_Filter.thy ===== *)
theory Topic_Filter
  imports Prelude
begin

text \<open>
  Topic names and topic filters: src/pkg/mqtt5/topic (level splitting, filter validation, the
  matcher, share topics) and src/pkg/brokerapi/sharedsubscription/parser.go. The abstract
  matching relation \<open>filter_matches\<close> is the MQTT 5 rule for wildcards on levels; the
  matchers of the other components are compared with it.
\<close>

section \<open>Go's string functions\<close>

text \<open>\<open>strings.Split(s, "/")\<close> and \<open>strings.Join(ls, "/")\<close> for a one-byte separator.\<close>

fun split_on :: "char \<Rightarrow> string \<Rightarrow> string list" where
  "split_on c [] = [[]]"
| "split_on c (x # xs) =
     (if x = c then [] # split_on c xs
      else (case split_on c xs of [] \<Rightarrow> [[x]] | y # ys \<Rightarrow> (x # y) # ys))"

fun join_on :: "char \<Rightarrow> string list \<Rightarrow> string" where
  "join_on c [] = []"
| "join_on c [l] = l"
| "join_on c (l # ls) = l @ c # join_on c ls"

definition has_prefix :: "string \<Rightarrow> string \<Rightarrow> bool" where
  "has_prefix p s = (take (length p) s = p)"

definition trim_prefix :: "string \<Rightarrow> string \<Rightarrow> string" where
  "trim_prefix p s = (if has_prefix p s then drop (length p) s else s)"

text \<open>\<open>strings.SplitN(s, "/", 2)\<close>.\<close>

definition splitN2 :: "char \<Rightarrow> string \<Rightarrow> string list" where
  "splitN2 c s =
     (if c \<in> set s
      then [takeWhile (\<lambda>x. x \<noteq> c) s, tl (dropWhile (\<lambda>x. x \<noteq> c) s)]
      else [s])"

definition contains_wildcard :: "string \<Rightarrow> bool" where
  "contains_wildcard s = (CHR ''+'' \<in> set s \<or> CHR ''#'' \<in> set s)"

section \<open>Levels, validation and matching\<close>

definition SplitTopicLevels :: "string \<Rightarrow> string list" where
  "SplitTopicLevels topic = (if topic = [] then [] else split_on CHR ''/'' topic)"

definition HasWildcard :: "string \<Rightarrow> bool" where
  "HasWildcard topic = (CHR ''+'' \<in> set topic \<or> CHR ''#'' \<in> set topic)"

datatype topicFilterValidationError =
    errTopicFilterEmpty
  | errSharedSubscriptionFormat
  | errSharedSubscriptionGroupSyntax
  | errMultiWildcardSyntax
  | errSingleWildcardSyntax

fun topicFilterError :: "topicFilterValidationError \<Rightarrow> string" where
  "topicFilterError errTopicFilterEmpty = ''topic filter must be non-empty''"
| "topicFilterError errSharedSubscriptionFormat =
     ''shared subscription must be $share/{group}/{filter}''"
| "topicFilterError errSharedSubscriptionGroupSyntax =
     ''shared subscription share name must not contain wildcards''"
| "topicFilterError errMultiWildcardSyntax =
     ''multi-level wildcard must occupy the final segment''"
| "topicFilterError errSingleWildcardSyntax =
     ''single-level wildcard must occupy an entire segment''"

text \<open>The loop over the levels; the level is the last one when no level is left after it.\<close>

fun validateLevels :: "string list \<Rightarrow> topicFilterValidationError + unit" where
  "validateLevels [] = Inr ()"
| "validateLevels (level # levels) =
     (if level = ''#'' then
        (if levels \<noteq> [] then Inl errMultiWildcardSyntax else validateLevels levels)
      else if CHR ''#'' \<in> set level then Inl errMultiWildcardSyntax
      else if CHR ''+'' \<in> set level \<and> level \<noteq> ''+'' then Inl errSingleWildcardSyntax
      else validateLevels levels)"

definition ValidateTopicFilterSyntax :: "string \<Rightarrow> topicFilterValidationError + unit" where
  "ValidateTopicFilterSyntax filt =
     (if filt = [] then Inl errTopicFilterEmpty
      else if has_prefix ''$share/'' filt then
        (let rest = trim_prefix ''$share/'' filt;
             parts = splitN2 CHR ''/'' rest
         in if length parts \<noteq> 2 \<or> parts ! 0 = [] \<or> parts ! 1 = []
            then Inl errSharedSubscriptionFormat
            else if contains_wildcard (parts ! 0) then Inl errSharedSubscriptionGroupSyntax
            else validateLevels (SplitTopicLevels (parts ! 1)))
      else validateLevels (SplitTopicLevels filt))"

text \<open>
  The loop of \<open>MatchTopicFilter\<close>: the two lists are the levels from index \<open>idx\<close> on, so
  \<open>idx >= len(topicLevels)\<close> is an empty second list and \<open>idx == len(filterLevels)-1\<close> an
  empty rest of the first.
\<close>

fun matchFilterLevels :: "string list \<Rightarrow> string list \<Rightarrow> bool" where
  "matchFilterLevels [] topicLevels = (topicLevels = [])"
| "matchFilterLevels (filterLevel # fs) topicLevels =
     (if filterLevel = ''#'' then fs = []
      else if filterLevel = ''+'' then
        (case topicLevels of [] \<Rightarrow> False | _ # ts \<Rightarrow> matchFilterLevels fs ts)
      else
        (case topicLevels of
           [] \<Rightarrow> False
         | t # ts \<Rightarrow> (if filterLevel \<noteq> t then False else matchFilterLevels fs ts)))"

definition MatchTopicFilter :: "string \<Rightarrow> string \<Rightarrow> bool" where
  "MatchTopicFilter filt topic =
     (if filt = [] \<or> topic = [] then False
      else
        (let filterLevels = SplitTopicLevels filt;
             topicLevels = SplitTopicLevels topic
         in if length filterLevels = 0 \<or> length topicLevels = 0 then False
            else if has_prefix ''$'' (hd topicLevels) \<and> \<not> has_prefix ''$'' (hd filterLevels)
            then False
            else matchFilterLevels filterLevels topicLevels))"

section \<open>Share topics\<close>

definition IsShareTopic :: "string \<Rightarrow> bool" where
  "IsShareTopic shareTopic = has_prefix ''$share/'' shareTopic"

text \<open>\<open>strings.Index\<close> splits at the first slash; -1 is the absence of a slash.\<close>

definition ParseShareTopic :: "string \<Rightarrow> string \<times> string" where
  "ParseShareTopic shareTopic =
     (if \<not> IsShareTopic shareTopic then ([], shareTopic)
      else
        (let shareNameSubTopic = trim_prefix ''$share/'' shareTopic
         in case splitN2 CHR ''/'' shareNameSubTopic of
              [grp, sub] \<Rightarrow> (grp, sub)
            | _ \<Rightarrow> ([], [])))"

datatype shareParseError =
    notSharedSubscription string
  | missingShareName
  | missingTopicFilter
  | emptyShareName
  | shareNameWildcard
  | emptyTopicFilter

definition IsSharedSubscription :: "string \<Rightarrow> bool" where
  "IsSharedSubscription topicFilter = has_prefix ''$share/'' topicFilter"

definition ParseSharedSubscription :: "string \<Rightarrow> shareParseError + string \<times> string" where
  "ParseSharedSubscription topicFilter =
     (if \<not> IsSharedSubscription topicFilter then Inl (notSharedSubscription topicFilter)
      else
        (let withoutPrefix = drop (length ''$share/'') topicFilter
         in if withoutPrefix = [] then Inl missingShareName
            else
              (let levels = SplitTopicLevels withoutPrefix
               in if length levels < 2 then Inl missingTopicFilter
                  else
                    (let shareGroup = hd levels
                     in if shareGroup = [] then Inl emptyShareName
                        else if contains_wildcard shareGroup then Inl shareNameWildcard
                        else
                          (let actualTopicFilter = join_on CHR ''/'' (tl levels)
                           in if actualTopicFilter = [] then Inl emptyTopicFilter
                              else Inr (shareGroup, actualTopicFilter))))))"

definition BuildSharedSubscriptionTopicFilter :: "string \<Rightarrow> string \<Rightarrow> string" where
  "BuildSharedSubscriptionTopicFilter shareGroup topicFilter =
     ''$share/'' @ shareGroup @ ''/'' @ topicFilter"

section \<open>The matching relation of the standard\<close>

text \<open>
  A filter matches a topic level by level: \<open>#\<close> as the last level matches any rest (also none),
  \<open>+\<close> one level, any other level itself.
\<close>

inductive filter_matches :: "string list \<Rightarrow> string list \<Rightarrow> bool" where
  fm_end: "filter_matches [] []"
| fm_hash: "filter_matches [''#''] ts"
| fm_plus: "filter_matches fs ts \<Longrightarrow> filter_matches (''+'' # fs) (t # ts)"
| fm_level: "filter_matches fs ts \<Longrightarrow> l \<noteq> ''#'' \<Longrightarrow> l \<noteq> ''+'' \<Longrightarrow> filter_matches (l # fs) (l # ts)"

inductive_simps filter_matches_Nil [simp]: "filter_matches [] ts"
inductive_simps filter_matches_Cons: "filter_matches (l # fs) ts"

code_pred filter_matches .

text \<open>A topic whose first level starts with a dollar sign is hidden from leading wildcards.\<close>

definition dollar_hidden :: "string list \<Rightarrow> string list \<Rightarrow> bool" where
  "dollar_hidden filterLevels topicLevels =
     (has_prefix ''$'' (hd topicLevels) \<and> \<not> has_prefix ''$'' (hd filterLevels))"

section \<open>Lemmas on splitting and joining\<close>

lemma split_on_nonempty [simp]: "split_on c s \<noteq> []"
  by (induction c s rule: split_on.induct) (auto split: list.splits)

lemma length_split_on [simp]: "0 < length (split_on c s)"
  by simp

lemma join_split_on [simp]: "join_on c (split_on c s) = s"
proof (induction c s rule: split_on.induct)
  case (2 c x xs)
  obtain y ys where yys: "split_on c xs = y # ys"
    by (cases "split_on c xs") auto
  with 2 show ?case
    by (cases ys) auto
qed simp

lemma split_on_no_sep: "l \<in> set (split_on c s) \<Longrightarrow> c \<notin> set l"
  by (induction c s arbitrary: l rule: split_on.induct) (auto split: list.splits if_splits)

lemma split_on_single: "c \<notin> set l \<Longrightarrow> split_on c l = [l]"
  by (induction l) auto

lemma split_on_append: "c \<notin> set l \<Longrightarrow> split_on c (l @ c # s) = l # split_on c s"
  by (induction l) auto

lemma split_join_on:
  "ls \<noteq> [] \<Longrightarrow> (\<And>l. l \<in> set ls \<Longrightarrow> c \<notin> set l) \<Longrightarrow> split_on c (join_on c ls) = ls"
  by (induction c ls rule: join_on.induct) (auto simp: split_on_single split_on_append)

lemma set_split_on: "x \<in> set s \<and> x \<noteq> c \<longleftrightarrow> (\<exists>l \<in> set (split_on c s). x \<in> set l)"
proof (induction c s rule: split_on.induct)
  case (2 c y xs)
  obtain z zs where "split_on c xs = z # zs"
    by (cases "split_on c xs") auto
  with 2 show ?case by auto
qed simp

lemma SplitTopicLevels_eq_Nil [simp]: "SplitTopicLevels t = [] \<longleftrightarrow> t = []"
  by (simp add: SplitTopicLevels_def)

lemma SplitTopicLevels_nonempty: "t \<noteq> [] \<Longrightarrow> SplitTopicLevels t = split_on CHR ''/'' t"
  by (simp add: SplitTopicLevels_def)

lemma join_SplitTopicLevels [simp]: "join_on CHR ''/'' (SplitTopicLevels t) = t"
  by (simp add: SplitTopicLevels_def)

lemma SplitTopicLevels_inject: "SplitTopicLevels s = SplitTopicLevels t \<longleftrightarrow> s = t"
  by (metis join_SplitTopicLevels)

lemma level_no_slash: "l \<in> set (SplitTopicLevels t) \<Longrightarrow> CHR ''/'' \<notin> set l"
  by (auto simp: SplitTopicLevels_def dest: split_on_no_sep split: if_splits)

lemma wildcard_in_levels:
  "x \<noteq> CHR ''/'' \<Longrightarrow> x \<in> set t \<longleftrightarrow> (\<exists>l \<in> set (SplitTopicLevels t). x \<in> set l)"
  using set_split_on [of x t "CHR ''/''"] by (auto simp: SplitTopicLevels_def)

section \<open>Lemmas on validation and matching\<close>

text \<open>What validation accepts, without the order in which it finds faults.\<close>

fun levels_ok :: "string list \<Rightarrow> bool" where
  "levels_ok [] = True"
| "levels_ok (l # ls) =
     ((if l = ''#'' then ls = []
       else CHR ''#'' \<notin> set l \<and> (CHR ''+'' \<in> set l \<longrightarrow> l = ''+'')) \<and> levels_ok ls)"

lemma validateLevels_iff: "validateLevels ls = Inr () \<longleftrightarrow> levels_ok ls"
  by (induction ls) auto

lemma filter_matches_iff_matchFilterLevels:
  "matchFilterLevels fs ts \<longleftrightarrow> filter_matches fs ts"
proof (induction fs ts rule: matchFilterLevels.induct)
  case (2 f fs ts)
  then show ?case
    by (auto simp: filter_matches_Cons [of f fs] split: list.splits)
qed simp

lemma takeWhile_dropWhile_sep:
  "c \<in> set s \<Longrightarrow> s = takeWhile (\<lambda>x. x \<noteq> c) s @ c # tl (dropWhile (\<lambda>x. x \<noteq> c) s)"
  by (induction s) auto

lemma splitN2_cases:
  obtains (none) "c \<notin> set s" "splitN2 c s = [s]"
  | (two) a b where "s = a @ c # b" "c \<notin> set a" "splitN2 c s = [a, b]"
proof (cases "c \<in> set s")
  case True
  then have "splitN2 c s = [takeWhile (\<lambda>x. x \<noteq> c) s, tl (dropWhile (\<lambda>x. x \<noteq> c) s)]"
    by (simp add: splitN2_def)
  moreover have "c \<notin> set (takeWhile (\<lambda>x. x \<noteq> c) s)"
    by (auto dest: set_takeWhileD)
  ultimately show ?thesis
    using takeWhile_dropWhile_sep [OF True] two by blast
qed (auto simp: splitN2_def intro: none)

lemma splitN2_append: "c \<notin> set a \<Longrightarrow> splitN2 c (a @ c # b) = [a, b]"
  by (simp add: splitN2_def takeWhile_append dropWhile_append)

lemma has_prefix_append: "has_prefix p (p @ s)"
  by (simp add: has_prefix_def)

lemma has_prefix_split: "has_prefix p s \<Longrightarrow> s = p @ drop (length p) s"
  unfolding has_prefix_def by (metis append_take_drop_id)

lemma ParseSharedSubscription_Inr_iff:
  "ParseSharedSubscription s = Inr (g, f) \<longleftrightarrow>
     s = BuildSharedSubscriptionTopicFilter g f \<and>
     g \<noteq> [] \<and> CHR ''/'' \<notin> set g \<and> \<not> contains_wildcard g \<and> f \<noteq> []"
  (is "?L \<longleftrightarrow> ?R")
proof
  assume L: ?L
  define r where "r = drop (length ''$share/'') s"
  have s: "s = ''$share/'' @ r"
    using L has_prefix_split [of "''$share/''" s]
    by (auto simp: ParseSharedSubscription_def IsSharedSubscription_def r_def split: if_splits)
  have "r \<noteq> []" and len: "2 \<le> length (SplitTopicLevels r)"
    and g: "g = hd (SplitTopicLevels r)" "g \<noteq> []" "\<not> contains_wildcard g"
    and f: "f = join_on CHR ''/'' (tl (SplitTopicLevels r))" "f \<noteq> []"
    using L by (auto simp: ParseSharedSubscription_def r_def Let_def split: if_splits)
  obtain x xs where x: "SplitTopicLevels r = x # xs" "xs \<noteq> []"
    using len by (cases "SplitTopicLevels r") (auto simp: Suc_le_eq)
  then have "r = g @ CHR ''/'' # f"
    using join_SplitTopicLevels [of r] g(1) f(1) by (cases xs) auto
  moreover have "CHR ''/'' \<notin> set g"
    using level_no_slash [of x r] x g(1) by auto
  ultimately show ?R
    using s g f by (simp add: BuildSharedSubscriptionTopicFilter_def)
next
  assume R: ?R
  have "SplitTopicLevels (g @ CHR ''/'' # f) = g # SplitTopicLevels f"
    using R by (simp add: SplitTopicLevels_def split_on_append)
  moreover have "SplitTopicLevels f \<noteq> []"
    using R by simp
  ultimately show ?L
    using R by (auto simp: ParseSharedSubscription_def IsSharedSubscription_def has_prefix_def
      BuildSharedSubscriptionTopicFilter_def Let_def Suc_le_eq not_less)
qed

end
