(* ===== verification/Wire_Base.thy ===== *)
theory Wire_Base
  imports Mqtt_Packet
begin

text \<open>
  The lowest layer of the MQTT 5 codec in src/pkg/mqtt5/wire: structured errors (errors.go),
  variable byte integers (vbi.go), the read cursor and the write helpers (cursor.go) and the
  fixed header (fixed_header.go). A \<open>bytes.Buffer\<close> is the byte list written so far; a writer
  takes it and returns it extended. A cursor is the struct of the code, passed and returned;
  \<open>cur_at p pre xs\<close> is the cursor that has read \<open>pre\<close> and still has \<open>xs\<close> to read.

  The locale \<open>field_codec\<close> is what the packet codecs need of a field: reading what was written
  gives the value back and nothing else reads as that value.
\<close>

section \<open>Errors\<close>

datatype ErrorKind =
    ErrMalformedPacket
  | ErrProtocolError
  | ErrPacketTooLarge
  | ErrUnsupportedProtocolVersion
  | ErrImplementation

text \<open>The errors of package io the readers return.\<close>

datatype io_error = EOF | ErrUnexpectedEOF | IOError string

record WireError =
  we_Kind :: ErrorKind
  we_Packet :: PacketType
  we_Field :: string
  we_Reason :: ReasonCode
  we_Message :: string
  we_PacketSize :: int
  we_MaxPacketSize :: int
  we_Cause :: "io_error option"

datatype error = IOErr io_error | WireErr WireError

definition wireError ::
  "ErrorKind \<Rightarrow> PacketType \<Rightarrow> string \<Rightarrow> string \<Rightarrow> io_error option \<Rightarrow> WireError" where
  "wireError kind packet field message cause =
     \<lparr>we_Kind = kind, we_Packet = packet, we_Field = field,
      we_Reason =
        (case kind of
           ErrPacketTooLarge \<Rightarrow> DisconnectPacketTooLarge
         | ErrUnsupportedProtocolVersion \<Rightarrow> ConnAckUnsupportedProtocolVersion
         | ErrProtocolError \<Rightarrow> DisconnectProtocolError
         | ErrMalformedPacket \<Rightarrow> DisconnectMalformedPacket
         | ErrImplementation \<Rightarrow> DisconnectImplementationSpecificError),
      we_Message = message, we_PacketSize = 0, we_MaxPacketSize = 0, we_Cause = cause\<rparr>"

definition malformed :: "PacketType \<Rightarrow> string \<Rightarrow> string \<Rightarrow> error" where
  "malformed packet field message = WireErr (wireError ErrMalformedPacket packet field message None)"

definition protocol :: "PacketType \<Rightarrow> string \<Rightarrow> string \<Rightarrow> error" where
  "protocol packet field message = WireErr (wireError ErrProtocolError packet field message None)"

definition implementation :: "PacketType \<Rightarrow> string \<Rightarrow> string \<Rightarrow> error" where
  "implementation packet field message = WireErr (wireError ErrImplementation packet field message None)"

definition wrapMalformed :: "PacketType \<Rightarrow> string \<Rightarrow> string \<Rightarrow> io_error \<Rightarrow> error" where
  "wrapMalformed packet field message err =
     WireErr (wireError ErrMalformedPacket packet field message (Some err))"

definition tooLarge :: "PacketType \<Rightarrow> int \<Rightarrow> int \<Rightarrow> error" where
  "tooLarge packet sz mx =
     WireErr ((wireError ErrPacketTooLarge packet ''remaining length''
        (''packet size '' @ itoa sz @ '' exceeds maximum '' @ itoa mx) None)
       \<lparr>we_PacketSize := sz, we_MaxPacketSize := mx\<rparr>)"

definition unsupportedVersion :: "byte \<Rightarrow> error" where
  "unsupportedVersion version =
     WireErr (wireError ErrUnsupportedProtocolVersion CONNECT ''protocol version''
       (''unsupported protocol version '' @ itoa (uint version)) None)"

fun io_error_Error :: "io_error \<Rightarrow> string" where
  "io_error_Error EOF = ''EOF''"
| "io_error_Error ErrUnexpectedEOF = ''unexpected EOF''"
| "io_error_Error (IOError s) = s"

text \<open>\<open>(e *WireError) Error\<close>.\<close>

definition WireError_Error :: "WireError \<Rightarrow> string" where
  "WireError_Error e =
     (let msg = we_Message e;
          msg = (if msg = [] then ''mqtt wire error'' else msg);
          msg = (if we_Packet e \<noteq> 0 then PacketTypeName (we_Packet e) @ '' '' @ msg else msg);
          msg = (if we_Field e \<noteq> [] then msg @ '' ('' @ we_Field e @ '')'' else msg)
      in case we_Cause e of None \<Rightarrow> msg | Some c \<Rightarrow> msg @ '': '' @ io_error_Error c)"

fun error_Error :: "error \<Rightarrow> string" where
  "error_Error (IOErr e) = io_error_Error e"
| "error_Error (WireErr e) = WireError_Error e"

definition classifyReadError :: "PacketType \<Rightarrow> string \<Rightarrow> error \<Rightarrow> error" where
  "classifyReadError packet field err =
     (case err of
        WireErr e \<Rightarrow> WireErr e
      | IOErr e \<Rightarrow> wrapMalformed packet field ''failed to read field'' e)"

section \<open>Fixed header\<close>

abbreviation maxRemainingLength :: int where
  "maxRemainingLength \<equiv> 268435455"

definition minimalVBIBytes :: "int \<Rightarrow> nat" where
  "minimalVBIBytes value =
     (if value < 128 then 1 else if value < 16384 then 2 else if value < 2097152 then 3 else 4)"

definition validateFixedHeaderFlags :: "PacketType \<Rightarrow> byte \<Rightarrow> error + unit" where
  "validateFixedHeaderFlags packetType flags =
     (if packetType = PUBLISH then
        (let qos = drop_bit 1 flags AND 3;
             dup = (flags AND 8 \<noteq> 0)
         in if qos = 3
            then Inl (malformed packetType ''fixed header flags'' ''PUBLISH QoS 3 is reserved'')
            else if qos = 0 \<and> dup
            then Inl (malformed packetType ''fixed header flags'' ''PUBLISH QoS 0 must not set DUP'')
            else Inr ())
      else if packetType = PUBREL \<or> packetType = SUBSCRIBE \<or> packetType = UNSUBSCRIBE then
        (if flags = 2 then Inr ()
         else Inl (malformed packetType ''fixed header flags'' ''invalid fixed header flags''))
      else
        (if flags = 0 then Inr ()
         else Inl (malformed packetType ''fixed header flags'' ''invalid fixed header flags'')))"

definition fixedHeaderFlags :: "Packet \<Rightarrow> error + byte" where
  "fixedHeaderFlags content =
     (case content of
        PPublish p \<Rightarrow>
          (if pub_QoS p = 3 then Inl (malformed PUBLISH ''qos'' ''PUBLISH QoS 3 is reserved'')
           else if pub_QoS p = 0 \<and> pub_Duplicate p
           then Inl (malformed PUBLISH ''fixed header flags'' ''PUBLISH QoS 0 must not set DUP'')
           else
             (let flags = push_bit 1 (pub_QoS p);
                  flags = (if pub_Duplicate p then flags OR 8 else flags);
                  flags = (if pub_Retain p then flags OR 1 else flags)
              in Inr flags))
      | PPubrel _ \<Rightarrow> Inr 2
      | PSubscribe _ \<Rightarrow> Inr 2
      | PUnsubscribe _ \<Rightarrow> Inr 2
      | _ \<Rightarrow> Inr 0)"

text \<open>
  An \<open>io.Reader\<close> is the bytes it will deliver and the error it reports when they are used up;
  \<open>ReadFull\<close> is \<open>io.ReadFull\<close>: an end of file in the middle of the read is
  \<open>ErrUnexpectedEOF\<close>, an empty read never fails.
\<close>

record io_reader =
  rd_data :: bytes
  rd_end :: io_error

definition ReadFull :: "io_reader \<Rightarrow> nat \<Rightarrow> error + bytes \<times> io_reader" where
  "ReadFull r n =
     (if n \<le> length (rd_data r)
      then Inr (take n (rd_data r), r\<lparr>rd_data := drop n (rd_data r)\<rparr>)
      else if rd_data r \<noteq> [] \<and> rd_end r = EOF then Inl (IOErr ErrUnexpectedEOF)
      else Inl (IOErr (rd_end r)))"

text \<open>The loop of \<open>readRemainingLength\<close> from iteration \<open>width\<close> on.\<close>

function readRemainingLength_loop ::
  "io_reader \<Rightarrow> nat \<Rightarrow> int \<Rightarrow> int \<Rightarrow> error + (int \<times> nat) \<times> io_reader" where
  "readRemainingLength_loop r width value multiplier =
     (if width > 4
      then Inl (malformed 0 ''remaining length'' ''malformed variable byte integer'')
      else
        rbind (ReadFull r 1) (\<lambda>(digits, r).
          (let digit = hd digits;
               value = value + uint (digit AND 127) * multiplier
           in if value > maxRemainingLength
              then Inl (malformed 0 ''remaining length'' ''remaining length exceeds MQTT maximum'')
              else if digit AND 128 = 0 then
                (if width \<noteq> minimalVBIBytes value
                 then Inl (malformed 0 ''remaining length''
                            ''remaining length is not minimally encoded'')
                 else Inr ((value, width), r))
              else readRemainingLength_loop r (width + 1) value (multiplier * 128))))"
  by pat_completeness auto
termination
  by (relation "measure (\<lambda>(r, width, value, multiplier). 5 - width)") auto

definition readRemainingLength :: "io_reader \<Rightarrow> error + (int \<times> nat) \<times> io_reader" where
  "readRemainingLength r = readRemainingLength_loop r 1 0 1"

text \<open>The loop of \<open>encodeRemainingLength\<close>.\<close>

fun encodeRemainingLength_loop :: "nat \<Rightarrow> bytes" where
  "encodeRemainingLength_loop n =
     (let digit = of_nat (n mod 128) :: byte;
          n' = n div 128
      in if n' > 0 then (digit OR 128) # encodeRemainingLength_loop n' else [digit])"

definition encodeRemainingLength :: "int \<Rightarrow> error + bytes" where
  "encodeRemainingLength n =
     (if n < 0 \<or> n > maxRemainingLength
      then Inl (malformed 0 ''remaining length'' ''remaining length exceeds MQTT maximum'')
      else Inr (encodeRemainingLength_loop (nat n)))"

declare readRemainingLength_loop.simps [simp del] encodeRemainingLength_loop.simps [simp del]

section \<open>UTF-8\<close>

text \<open>\<open>utf8.Valid\<close>: no overlong forms, no surrogates, nothing above U+10FFFF.\<close>

definition in_range :: "byte \<Rightarrow> byte \<Rightarrow> byte \<Rightarrow> bool" where
  "in_range lo hi b = (lo \<le> b \<and> b \<le> hi)"

fun utf8_valid :: "bytes \<Rightarrow> bool" where
  "utf8_valid [] = True"
| "utf8_valid (b # bs) =
     (if b < 128 then utf8_valid bs
      else if in_range 194 223 b then
        (case bs of c1 # r \<Rightarrow> in_range 128 191 c1 \<and> utf8_valid r | _ \<Rightarrow> False)
      else if in_range 224 239 b then
        (case bs of
           c1 # c2 # r \<Rightarrow>
             in_range (if b = 224 then 160 else 128) (if b = 237 then 159 else 191) c1 \<and>
             in_range 128 191 c2 \<and> utf8_valid r
         | _ \<Rightarrow> False)
      else if in_range 240 244 b then
        (case bs of
           c1 # c2 # c3 # r \<Rightarrow>
             in_range (if b = 240 then 144 else 128) (if b = 244 then 143 else 191) c1 \<and>
             in_range 128 191 c2 \<and> in_range 128 191 c3 \<and> utf8_valid r
         | _ \<Rightarrow> False)
      else False)"

section \<open>The cursor\<close>

record cursor =
  cur_packet :: PacketType
  cur_data :: bytes
  cur_pos :: nat

definition newCursor :: "PacketType \<Rightarrow> bytes \<Rightarrow> cursor" where
  "newCursor packet data = \<lparr>cur_packet = packet, cur_data = data, cur_pos = 0\<rparr>"

definition remaining :: "cursor \<Rightarrow> int" where
  "remaining c = int (length (cur_data c)) - int (cur_pos c)"

definition readByte :: "string \<Rightarrow> cursor \<Rightarrow> error + byte \<times> cursor" where
  "readByte field c =
     (if remaining c < 1 then Inl (malformed (cur_packet c) field ''field is truncated'')
      else Inr (cur_data c ! cur_pos c, c\<lparr>cur_pos := cur_pos c + 1\<rparr>))"

definition readBytes :: "string \<Rightarrow> int \<Rightarrow> cursor \<Rightarrow> error + bytes \<times> cursor" where
  "readBytes field n c =
     (if n < 0 \<or> remaining c < n
      then Inl (malformed (cur_packet c) field ''field is truncated'')
      else Inr (take (nat n) (drop (cur_pos c) (cur_data c)),
                c\<lparr>cur_pos := cur_pos c + nat n\<rparr>))"

definition readUint16 :: "string \<Rightarrow> cursor \<Rightarrow> error + u16 \<times> cursor" where
  "readUint16 field c =
     rbind (readBytes field 2 c) (\<lambda>(b, c).
       Inr (push_bit 8 (ucast (b ! 0)) OR ucast (b ! 1), c))"

definition readUint32 :: "string \<Rightarrow> cursor \<Rightarrow> error + u32 \<times> cursor" where
  "readUint32 field c =
     rbind (readBytes field 4 c) (\<lambda>(b, c).
       Inr (push_bit 24 (ucast (b ! 0)) OR push_bit 16 (ucast (b ! 1)) OR
            push_bit 8 (ucast (b ! 2)) OR ucast (b ! 3), c))"

definition readBinary :: "string \<Rightarrow> cursor \<Rightarrow> error + bytes \<times> cursor" where
  "readBinary field c =
     rbind (readUint16 (field @ '' length'') c) (\<lambda>(n, c).
     rbind (readBytes field (uint n) c) (\<lambda>(out, c).
       Inr (out, c)))"

definition readString :: "string \<Rightarrow> cursor \<Rightarrow> error + string \<times> cursor" where
  "readString field c =
     rbind (readBinary field c) (\<lambda>(data, c').
       if \<not> utf8_valid data then Inl (malformed (cur_packet c) field ''malformed UTF-8 string'')
       else if 0 \<in> set data
       then Inl (malformed (cur_packet c) field ''UTF-8 string contains null character'')
       else Inr (string_of_bytes data, c'))"

function readVBI_loop :: "string \<Rightarrow> nat \<Rightarrow> int \<Rightarrow> int \<Rightarrow> cursor \<Rightarrow> error + int \<times> cursor" where
  "readVBI_loop field width value multiplier c =
     (if width > 4 then Inl (malformed (cur_packet c) field ''malformed variable byte integer'')
      else
        rbind (readByte field c) (\<lambda>(digit, c).
          (let value = value + uint (digit AND 127) * multiplier
           in if value > maxRemainingLength
              then Inl (malformed (cur_packet c) field
                         ''variable byte integer exceeds MQTT maximum'')
              else if digit AND 128 = 0 then
                (if width \<noteq> minimalVBIBytes value
                 then Inl (malformed (cur_packet c) field
                            ''variable byte integer is not minimally encoded'')
                 else Inr (value, c))
              else readVBI_loop field (width + 1) value (multiplier * 128) c)))"
  by pat_completeness auto
termination
  by (relation "measure (\<lambda>(field, width, value, multiplier, c). 5 - width)") auto

declare readVBI_loop.simps [simp del]

definition readVBI :: "string \<Rightarrow> cursor \<Rightarrow> error + int \<times> cursor" where
  "readVBI field c = readVBI_loop field 1 0 1 c"

section \<open>Writers\<close>

definition writeUint16 :: "bytes \<Rightarrow> u16 \<Rightarrow> bytes" where
  "writeUint16 buf value = buf @ [ucast (drop_bit 8 value), ucast value]"

definition writeUint32 :: "bytes \<Rightarrow> u32 \<Rightarrow> bytes" where
  "writeUint32 buf value =
     buf @ [ucast (drop_bit 24 value), ucast (drop_bit 16 value), ucast (drop_bit 8 value),
            ucast value]"

definition writeBinary :: "bytes \<Rightarrow> PacketType \<Rightarrow> string \<Rightarrow> bytes \<Rightarrow> error + bytes" where
  "writeBinary buf packet field value =
     (if length value > 65535
      then Inl (malformed packet field ''binary data exceeds two-byte length prefix'')
      else Inr (writeUint16 buf (of_nat (length value)) @ value))"

definition writeString :: "bytes \<Rightarrow> PacketType \<Rightarrow> string \<Rightarrow> string \<Rightarrow> error + bytes" where
  "writeString buf packet field value =
     (if length value > 65535
      then Inl (malformed packet field ''UTF-8 string exceeds two-byte length prefix'')
      else if \<not> utf8_valid (bytes_of_string value)
      then Inl (malformed packet field ''malformed UTF-8 string'')
      else if 0 \<in> set (bytes_of_string value)
      then Inl (malformed packet field ''UTF-8 string contains null character'')
      else Inr (writeUint16 buf (of_nat (length value)) @ bytes_of_string value))"

definition writeVBI :: "bytes \<Rightarrow> PacketType \<Rightarrow> string \<Rightarrow> int \<Rightarrow> error + bytes" where
  "writeVBI buf packet field value =
     (case encodeRemainingLength value of
        Inl err \<Rightarrow> Inl (malformed packet field (error_Error err))
      | Inr encoded \<Rightarrow> Inr (buf @ encoded))"

section \<open>Cursors in the middle of a read\<close>

definition cur_at :: "PacketType \<Rightarrow> bytes \<Rightarrow> bytes \<Rightarrow> cursor" where
  "cur_at p pre xs = \<lparr>cur_packet = p, cur_data = pre @ xs, cur_pos = length pre\<rparr>"

lemma newCursor_at: "newCursor p xs = cur_at p [] xs"
  by (simp add: newCursor_def cur_at_def)

lemma remaining_at [simp]: "remaining (cur_at p pre xs) = int (length xs)"
  by (simp add: remaining_def cur_at_def)

lemma cur_packet_at [simp]: "cur_packet (cur_at p pre xs) = p"
  by (simp add: cur_at_def)

lemma cur_at_inject [simp]: "cur_at p a xs = cur_at q b ys \<longleftrightarrow> p = q \<and> a = b \<and> xs = ys"
  by (auto simp: cur_at_def)

lemma readByte_at [simp]:
  "readByte f (cur_at p pre xs) =
     (case xs of
        [] \<Rightarrow> Inl (malformed p f ''field is truncated'')
      | b # ys \<Rightarrow> Inr (b, cur_at p (pre @ [b]) ys))"
  by (cases xs) (simp_all add: readByte_def cur_at_def remaining_def)

lemma readBytes_at:
  "readBytes f n (cur_at p pre xs) =
     (if n < 0 \<or> int (length xs) < n then Inl (malformed p f ''field is truncated'')
      else Inr (take (nat n) xs, cur_at p (pre @ take (nat n) xs) (drop (nat n) xs)))"
  by (auto simp: readBytes_def cur_at_def remaining_def)

lemma readBytes_at_append [simp]:
  "n = int (length ys) \<Longrightarrow>
     readBytes f n (cur_at p pre (ys @ xs)) = Inr (ys, cur_at p (pre @ ys) xs)"
  by (simp add: readBytes_at)

lemma readBytes_at_Inr_iff:
  "readBytes f n (cur_at p pre xs) = Inr (ys, c) \<longleftrightarrow>
     0 \<le> n \<and> (\<exists>zs. xs = ys @ zs \<and> int (length ys) = n \<and> c = cur_at p (pre @ ys) zs)"
proof (cases "n < 0 \<or> int (length xs) < n")
  case False
  then have "nat n \<le> length xs" and "0 \<le> n" by auto
  then show ?thesis
    by (auto simp: readBytes_at intro!: exI [of _ "drop (nat n) xs"])
qed (auto simp: readBytes_at)

section \<open>The contract of a field\<close>

locale field_codec =
  fixes enc :: "'a \<Rightarrow> bytes"
    and dec :: "string \<Rightarrow> cursor \<Rightarrow> error + 'a \<times> cursor"
    and valid :: "'a \<Rightarrow> bool"
  assumes dec_enc: "valid x \<Longrightarrow>
      dec f (cur_at p pre (enc x @ rest)) = Inr (x, cur_at p (pre @ enc x) rest)"
    and dec_sound: "dec f (cur_at p pre xs) = Inr (x, c) \<Longrightarrow>
      valid x \<and> (\<exists>rest. xs = enc x @ rest \<and> c = cur_at p (pre @ enc x) rest)"
begin

text \<open>The encoding is prefix-free: what follows a field cannot change how it is read.\<close>

lemma enc_prefix_free:
  assumes "valid x" and "valid y" and "enc x @ r = enc y @ s"
  shows "x = y \<and> r = s"
proof -
  have "dec f (cur_at p [] (enc x @ r)) = Inr (x, cur_at p (enc x) r)" for f p
    using dec_enc [OF assms(1), of f p "[]"] by simp
  moreover have "dec f (cur_at p [] (enc x @ r)) = Inr (y, cur_at p (enc y) s)" for f p
    using dec_enc [OF assms(2), of f p "[]"] assms(3) by simp
  ultimately show ?thesis
    using assms(3) by force
qed

lemma dec_remaining:
  assumes "dec f (cur_at p pre xs) = Inr (x, c)"
  shows "remaining c = int (length xs) - int (length (enc x))"
  using dec_sound [OF assms] by auto

lemma dec_at_obtain:
  assumes "dec f (cur_at p pre xs) = Inr (x, c)"
  obtains rest where "valid x" "xs = enc x @ rest" "c = cur_at p (pre @ enc x) rest"
  using dec_sound [OF assms] by blast

end

text \<open>Two fields in a row, each with its own field name, are a field.\<close>

locale pair_codec = a: field_codec enca deca valida + b: field_codec encb decb validb
  for enca :: "'a \<Rightarrow> bytes" and deca valida
    and encb :: "'b \<Rightarrow> bytes" and decb validb +
  fixes fa :: "string \<Rightarrow> string" and fb :: "string \<Rightarrow> string"
begin

lemma pair_dec_enc:
  "valida x \<and> validb y \<Longrightarrow>
     rbind (deca (fa f) (cur_at p pre ((enca x @ encb y) @ rest)))
       (\<lambda>(x, c). rbind (decb (fb f) c) (\<lambda>(y, c). Inr ((x, y), c))) =
     Inr ((x, y), cur_at p (pre @ enca x @ encb y) rest)"
  using a.dec_enc [of x "fa f" p pre "encb y @ rest"] b.dec_enc [of y "fb f" p "pre @ enca x" rest]
  by simp

lemma pair_dec_sound:
  assumes "rbind (deca (fa f) (cur_at p pre xs))
       (\<lambda>(x, c). rbind (decb (fb f) c) (\<lambda>(y, c). Inr ((x, y), c))) = Inr ((u, v), c)"
  shows "valida u \<and> validb v \<and>
    (\<exists>rest. xs = (enca u @ encb v) @ rest \<and> c = cur_at p (pre @ enca u @ encb v) rest)"
proof -
  obtain c1 where 1: "deca (fa f) (cur_at p pre xs) = Inr (u, c1)" "decb (fb f) c1 = Inr (v, c)"
    using assms by (auto simp: rbind_eq_Inr)
  obtain r1 where r1: "valida u" "xs = enca u @ r1" "c1 = cur_at p (pre @ enca u) r1"
    by (rule a.dec_at_obtain [OF 1(1)])
  obtain r2 where "validb v" "r1 = encb v @ r2" "c = cur_at p ((pre @ enca u) @ encb v) r2"
    using b.dec_at_obtain [OF 1(2) [unfolded r1(3)]] by blast
  with r1 show ?thesis by auto
qed

end

sublocale pair_codec \<subseteq> pair: field_codec
  "\<lambda>(x, y). enca x @ encb y"
  "\<lambda>f c. rbind (deca (fa f) c) (\<lambda>(x, c). rbind (decb (fb f) c) (\<lambda>(y, c). Inr ((x, y), c)))"
  "\<lambda>(x, y). valida x \<and> validb y"
proof
  fix z :: "'a \<times> 'b" and f p pre rest
  assume "case z of (x, y) \<Rightarrow> valida x \<and> validb y"
  then show "rbind (deca (fa f) (cur_at p pre ((case z of (x, y) \<Rightarrow> enca x @ encb y) @ rest)))
      (\<lambda>(x, c). rbind (decb (fb f) c) (\<lambda>(y, c). Inr ((x, y), c))) =
    Inr (z, cur_at p (pre @ (case z of (x, y) \<Rightarrow> enca x @ encb y)) rest)"
    using pair_dec_enc by (cases z) auto
next
  fix f p pre xs and z :: "'a \<times> 'b" and c
  assume "rbind (deca (fa f) (cur_at p pre xs))
      (\<lambda>(x, c). rbind (decb (fb f) c) (\<lambda>(y, c). Inr ((x, y), c))) = Inr (z, c)"
  then show "(case z of (x, y) \<Rightarrow> valida x \<and> validb y) \<and>
    (\<exists>rest. xs = (case z of (x, y) \<Rightarrow> enca x @ encb y) @ rest \<and>
      c = cur_at p (pre @ (case z of (x, y) \<Rightarrow> enca x @ encb y)) rest)"
    using pair_dec_sound [of f p pre xs] by (cases z) auto
qed

section \<open>Bytes and fixed-width integers\<close>

interpretation byte_field: field_codec "\<lambda>b. [b]" readByte "\<lambda>_. True"
  by unfold_locales (auto split: list.splits)

lemma u16_join_split: "push_bit 8 (ucast (ucast (drop_bit 8 v) :: byte)) OR ucast (ucast v :: byte) = (v :: u16)"
  by (rule bit_word_eqI) (auto simp: bit_simps)

lemma u16_split_join:
  "ucast (drop_bit 8 (push_bit 8 (ucast a) OR ucast b :: u16)) = (a :: byte)"
  "ucast (push_bit 8 (ucast a) OR ucast b :: u16) = (b :: byte)"
  by (rule bit_word_eqI; auto simp: bit_simps dest: bit_imp_le_length)+

lemma u32_join_split:
  "push_bit 24 (ucast (ucast (drop_bit 24 v) :: byte)) OR push_bit 16 (ucast (ucast (drop_bit 16 v) :: byte)) OR
   push_bit 8 (ucast (ucast (drop_bit 8 v) :: byte)) OR ucast (ucast v :: byte) = (v :: u32)"
proof (rule bit_word_eqI)
  fix n assume "n < LENGTH(32)"
  then consider "n < 8" | "8 \<le> n" "n < 16" | "16 \<le> n" "n < 24" | "24 \<le> n" "n < 32"
    by fastforce
  then show "bit (push_bit 24 (ucast (ucast (drop_bit 24 v) :: byte)) OR
      push_bit 16 (ucast (ucast (drop_bit 16 v) :: byte)) OR
      push_bit 8 (ucast (ucast (drop_bit 8 v) :: byte)) OR ucast (ucast v :: byte) :: u32) n = bit v n"
    by cases (auto simp: bit_simps)
qed

lemma u32_split_join:
  fixes a b c d :: byte
  defines "w \<equiv> (push_bit 24 (ucast a) OR push_bit 16 (ucast b) OR push_bit 8 (ucast c) OR ucast d :: u32)"
  shows "ucast (drop_bit 24 w) = a" "ucast (drop_bit 16 w) = b" "ucast (drop_bit 8 w) = c" "ucast w = d"
  unfolding w_def by (rule bit_word_eqI; auto simp: bit_simps dest: bit_imp_le_length)+

interpretation u16_field: field_codec "writeUint16 []" readUint16 "\<lambda>_. True"
proof
  fix x :: u16 and f p pre rest
  show "readUint16 f (cur_at p pre (writeUint16 [] x @ rest)) =
      Inr (x, cur_at p (pre @ writeUint16 [] x) rest)"
    using readBytes_at_append [of 2 "writeUint16 [] x" f p pre rest]
    by (simp add: readUint16_def writeUint16_def u16_join_split)
next
  fix f p pre xs and x :: u16 and c
  assume "readUint16 f (cur_at p pre xs) = Inr (x, c)"
  then obtain ys zs where ys: "xs = ys @ zs" "length ys = 2" "c = cur_at p (pre @ ys) zs"
      and x: "x = push_bit 8 (ucast (ys ! 0)) OR ucast (ys ! 1)"
    by (auto simp: readUint16_def rbind_eq_Inr readBytes_at_Inr_iff)
  obtain a b where ab: "ys = [a, b]"
    using ys(2) by (auto simp: numeral_2_eq_2 length_Suc_conv)
  have "x = push_bit 8 (ucast a) OR ucast b"
    using x ab by simp
  then have "writeUint16 [] x = ys"
    by (simp only: writeUint16_def u16_split_join ab append_Nil)
  with ys show "True \<and> (\<exists>rest. xs = writeUint16 [] x @ rest \<and>
      c = cur_at p (pre @ writeUint16 [] x) rest)"
    by auto
qed

interpretation u32_field: field_codec "writeUint32 []" readUint32 "\<lambda>_. True"
proof
  fix x :: u32 and f p pre rest
  show "readUint32 f (cur_at p pre (writeUint32 [] x @ rest)) =
      Inr (x, cur_at p (pre @ writeUint32 [] x) rest)"
    using readBytes_at_append [of 4 "writeUint32 [] x" f p pre rest]
    by (simp add: readUint32_def writeUint32_def numeral_2_eq_2 numeral_3_eq_3 u32_join_split)
next
  fix f p pre xs and x :: u32 and c
  assume "readUint32 f (cur_at p pre xs) = Inr (x, c)"
  then obtain ys zs where ys: "xs = ys @ zs" "length ys = 4" "c = cur_at p (pre @ ys) zs"
      and x: "x = push_bit 24 (ucast (ys ! 0)) OR push_bit 16 (ucast (ys ! 1)) OR
        push_bit 8 (ucast (ys ! 2)) OR ucast (ys ! 3)"
    by (auto simp: readUint32_def rbind_eq_Inr readBytes_at_Inr_iff)
  obtain a b d e where ab: "ys = [a, b, d, e]"
    using ys(2) by (auto simp: eval_nat_numeral length_Suc_conv)
  have "x = push_bit 24 (ucast a) OR push_bit 16 (ucast b) OR push_bit 8 (ucast d) OR ucast e"
    using x ab by (simp add: numeral_2_eq_2 numeral_3_eq_3)
  then have "writeUint32 [] x = ys"
    by (simp only: writeUint32_def u32_split_join ab append_Nil)
  with ys show "True \<and> (\<exists>rest. xs = writeUint32 [] x @ rest \<and>
      c = cur_at p (pre @ writeUint32 [] x) rest)"
    by auto
qed

lemma writeUint16_append: "writeUint16 buf v = buf @ writeUint16 [] v"
  by (simp add: writeUint16_def)

lemma writeUint32_append: "writeUint32 buf v = buf @ writeUint32 [] v"
  by (simp add: writeUint32_def)

lemma length_writeUint [simp]: "length (writeUint16 [] v) = 2" "length (writeUint32 [] w) = 4"
  by (simp_all add: writeUint16_def writeUint32_def)

section \<open>Variable byte integers\<close>

lemma byte_and_127: "uint ((d :: byte) AND 127) = uint d mod 128"
proof -
  have "uint (d AND 127) = uint d AND 127"
    by (simp add: unsigned_and_eq)
  also have "\<dots> = take_bit 7 (uint d)"
    using take_bit_eq_mask [of 7 "uint d"] by (simp add: mask_eq_exp_minus_1)
  finally show ?thesis
    by (simp add: take_bit_eq_mod)
qed

lemma byte_and_128: "(d :: byte) AND 128 = 0 \<longleftrightarrow> uint d < 128"
proof -
  have "d AND 2 ^ 7 = 0 \<longleftrightarrow> \<not> bit d 7"
    by (rule and_exp_eq_0_iff_not_bit)
  moreover have "bit d 7 \<longleftrightarrow> odd (uint d div 2 ^ 7)"
    using bit_uint_iff [of d 7] by (simp add: bit_iff_odd)
  moreover have "odd (u div 128) \<longleftrightarrow> \<not> u < 128" if "0 \<le> u" "u < 256" for u :: int
  proof (cases "u < 128")
    case False
    then have "u div 128 = 1" using that by (intro int_div_pos_eq [of _ _ _ "u - 128"]) auto
    then show ?thesis using False by simp
  qed (use that in \<open>simp add: div_pos_pos_trivial\<close>)
  ultimately show ?thesis
    using uint_lt2p [of d] by simp
qed

lemma byte_or_128: "k < 128 \<Longrightarrow> uint (of_nat k OR 128 :: byte) = int k + 128"
proof -
  assume k: "k < 128"
  have "uint (of_nat k :: byte) = int k"
    using k by (simp add: unsigned_of_nat take_bit_eq_mod)
  then have "uint (of_nat k OR 128 :: byte) = int k OR 128"
    by (simp add: unsigned_or_eq)
  also have "\<dots> = int k + 128"
  proof (rule disjunctive_add [symmetric])
    fix n
    have "\<not> bit (128 :: int) n" if "n \<noteq> 7"
      using bit_exp_iff [of 7 n, where 'a = int] that by simp
    moreover have "\<not> bit (int k) 7"
      using k by (simp add: bit_iff_odd)
    ultimately show "\<not> bit (int k) n \<or> \<not> bit (128 :: int) n"
      by (cases "n = 7") auto
  qed
  finally show ?thesis .
qed

abbreviation encVBI :: "int \<Rightarrow> bytes" where
  "encVBI n \<equiv> encodeRemainingLength_loop (nat n)"

abbreviation valid_vbi :: "int \<Rightarrow> bool" where
  "valid_vbi n \<equiv> 0 \<le> n \<and> n \<le> maxRemainingLength"

lemma minimalVBIBytes_eq:
  assumes "1 \<le> w" "w \<le> 4" "0 \<le> V"
  shows "w = minimalVBIBytes V \<longleftrightarrow> (w = 1 \<or> 128 ^ (w - 1) \<le> V) \<and> (w = 4 \<or> V < 128 ^ w)"
proof -
  have "w \<in> {1, 2, 3, 4}" using assms by auto
  then show ?thesis
    by (auto simp: minimalVBIBytes_def numeral_2_eq_2 numeral_3_eq_3)
qed

lemma width_le_4:
  assumes "1 \<le> w" "128 ^ (w - 1) \<le> V" "V \<le> maxRemainingLength"
  shows "w \<le> (4 :: nat)"
proof (rule ccontr)
  assume "\<not> w \<le> 4"
  then have "(128 :: int) ^ 4 \<le> 128 ^ (w - 1)"
    by (intro power_increasing) auto
  with assms show False by simp
qed

text \<open>
  The loop invariant: after \<open>w - 1\<close> digits the value read so far is below \<open>128 ^ (w - 1)\<close>, the
  multiplier.
\<close>

lemma vbi_final_width:
  assumes "1 \<le> w" "w \<le> 4" "0 \<le> v" "v < m" "m = 128 ^ (w - 1)" "0 \<le> n" "n < 128"
  shows "w = minimalVBIBytes (v + n * m) \<longleftrightarrow> w = 1 \<or> 0 < n"
proof -
  have m: "0 < m" using assms by simp
  have hi: "v + n * m < 128 ^ w"
  proof -
    have "n * m \<le> 127 * m" using assms m by (intro mult_right_mono) auto
    then have "v + n * m < 128 * m" using assms by linarith
    also have "128 * m = 128 ^ w" using assms by (cases w) auto
    finally show ?thesis .
  qed
  have lo: "m \<le> v + n * m \<longleftrightarrow> 0 < n"
  proof
    assume "0 < n"
    then have "1 * m \<le> n * m" using m by (intro mult_right_mono) auto
    then show "m \<le> v + n * m" using assms by linarith
  next
    assume "m \<le> v + n * m"
    then show "0 < n" using assms by (cases "n = 0") auto
  qed
  have "0 \<le> v + n * m" using assms m by simp
  then show ?thesis
    using minimalVBIBytes_eq [of w "v + n * m"] assms hi lo by auto
qed

lemma vbi_width_bound:
  assumes "1 \<le> w" "0 \<le> v" "w = 1 \<or> 0 < n" "v + n * 128 ^ (w - 1) \<le> maxRemainingLength"
  shows "w \<le> 4"
proof (cases "w = 1")
  case False
  then have "1 * (128 ^ (w - 1) :: int) \<le> n * 128 ^ (w - 1)"
    using assms by (intro mult_right_mono) auto
  then show ?thesis
    using assms width_le_4 [of w "v + n * 128 ^ (w - 1)"] by linarith
qed simp

lemma vbi_step_arith:
  fixes m :: int
  assumes "0 \<le> v" "v < m"
  shows "0 \<le> v + int (n mod 128) * m" "v + int (n mod 128) * m < 128 * m"
    "v + int (n mod 128) * m + int (n div 128) * (128 * m) = v + int n * m"
    "v + int (n mod 128) * m \<le> v + int n * m"
proof -
  have "int (n mod 128) * m \<le> 127 * m" using assms by (intro mult_right_mono) auto
  then show "v + int (n mod 128) * m < 128 * m" using assms by linarith
  show "0 \<le> v + int (n mod 128) * m" using assms by simp
  have n: "int n = int (n mod 128) + int (n div 128) * 128"
    by (metis mod_div_mult_eq of_nat_add of_nat_mult of_nat_numeral)
  then show "v + int (n mod 128) * m + int (n div 128) * (128 * m) = v + int n * m"
    by (metis add.assoc distrib_right mult.assoc)
  have "int (n mod 128) * m \<le> int n * m"
    using assms by (intro mult_right_mono) auto
  then show "v + int (n mod 128) * m \<le> v + int n * m" by simp
qed

lemma encodeRemainingLength_loop_small: "n < 128 \<Longrightarrow> encodeRemainingLength_loop n = [of_nat n]"
  by (simp add: encodeRemainingLength_loop.simps)

lemma encodeRemainingLength_loop_large:
  "128 \<le> n \<Longrightarrow> encodeRemainingLength_loop n =
     (of_nat (n mod 128) OR 128) # encodeRemainingLength_loop (n div 128)"
  by (simp add: encodeRemainingLength_loop.simps [of n] Let_def)

lemma readVBI_loop_step:
  assumes "w \<le> 4"
  shows "readVBI_loop f w v m (cur_at p pre (d # xs)) =
    (let v' = v + (uint d mod 128) * m in
     if v' > maxRemainingLength
     then Inl (malformed p f ''variable byte integer exceeds MQTT maximum'')
     else if uint d < 128 then
       (if w \<noteq> minimalVBIBytes v'
        then Inl (malformed p f ''variable byte integer is not minimally encoded'')
        else Inr (v', cur_at p (pre @ [d]) xs))
     else readVBI_loop f (Suc w) v' (128 * m) (cur_at p (pre @ [d]) xs))"
  using assms
  by (simp add: readVBI_loop.simps [of f w v m] byte_and_127 byte_and_128 Let_def mult.commute)

lemma readVBI_loop_enc:
  assumes "1 \<le> w" "0 \<le> v" "v < m" "m = 128 ^ (w - 1)" "w = 1 \<or> 0 < n"
    and "v + int n * m \<le> maxRemainingLength"
  shows "readVBI_loop f w v m (cur_at p pre (encodeRemainingLength_loop n @ rest)) =
    Inr (v + int n * m, cur_at p (pre @ encodeRemainingLength_loop n) rest)"
  using assms
proof (induction n arbitrary: w v m pre rule: less_induct)
  case (less n)
  have w4: "w \<le> 4"
    using vbi_width_bound [of w v "int n"] less.prems by simp
  show ?case
  proof (cases "n < 128")
    case True
    obtain d :: byte where d: "encodeRemainingLength_loop n = [d]" "uint d = int n"
      using True by (simp add: encodeRemainingLength_loop_small unsigned_of_nat take_bit_eq_mod)
    have w: "minimalVBIBytes (v + int n * m) = w"
      using vbi_final_width [of w v m "int n"] less.prems w4 True by simp
    show ?thesis
      using less.prems(6) True d w by (simp add: readVBI_loop_step [OF w4] Let_def)
  next
    case False
    obtain d :: byte where d: "encodeRemainingLength_loop n = d # encodeRemainingLength_loop (n div 128)"
        "uint d = int (n mod 128) + 128"
      using False byte_or_128 [of "n mod 128"] encodeRemainingLength_loop_large [of n] by auto
    then have dm: "uint d mod 128 = int (n mod 128)"
      by (simp add: zmod_int)
    note a = vbi_step_arith [of v m n, OF less.prems(2,3)]
    have Sw: "128 * m = (128 :: int) ^ (Suc w - 1)"
      using less.prems(1,4) by (cases w) auto
    have pos: "0 < n div 128" "n div 128 < n"
      using False by (simp_all add: div_greater_zero_iff)
    have le: "v + int (n mod 128) * m + int (n div 128) * (128 * m) \<le> maxRemainingLength"
      unfolding a(3) by (rule less.prems(6))
    have "readVBI_loop f (Suc w) (v + int (n mod 128) * m) (128 * m)
        (cur_at p (pre @ [d]) (encodeRemainingLength_loop (n div 128) @ rest)) =
      Inr (v + int n * m, cur_at p ((pre @ [d]) @ encodeRemainingLength_loop (n div 128)) rest)"
      using less.IH [OF pos(2) _ a(1,2) Sw _ le, of "pre @ [d]"] pos(1) unfolding a(3) by simp
    moreover have "\<not> maxRemainingLength < v + int (n mod 128) * m" "\<not> uint d < 128"
      using a(4) less.prems(6) d(2) by linarith+
    ultimately show ?thesis
      by (simp add: d(1) readVBI_loop_step [OF w4] dm Let_def)
  qed
qed

lemma byte_mod_128: "128 \<le> uint (d :: byte) \<Longrightarrow> uint d mod 128 = uint d - 128"
  using uint_lt2p [of d] by (intro int_mod_pos_eq [of _ _ 1]) auto

lemma readVBI_loop_sound:
  assumes "readVBI_loop f w v m (cur_at p pre xs) = Inr (x, c)"
    and "1 \<le> w" "0 \<le> v" "v < m" "m = 128 ^ (w - 1)"
  shows "\<exists>n rest. xs = encodeRemainingLength_loop n @ rest \<and> x = v + int n * m \<and>
    x \<le> maxRemainingLength \<and> (w = 1 \<or> 0 < n) \<and>
    c = cur_at p (pre @ encodeRemainingLength_loop n) rest"
  using assms
proof (induction "5 - w" arbitrary: w v m pre xs)
  case 0
  then show ?case by (simp add: readVBI_loop.simps [of f w])
next
  case (Suc k)
  then have w4: "w \<le> 4" by simp
  obtain d ys where xs: "xs = d # ys"
    using Suc.prems(1) w4 by (cases xs) (auto simp: readVBI_loop.simps [of f w])
  define n0 where "n0 = nat (uint d mod 128)"
  have n0: "int n0 = uint d mod 128" "n0 < 128"
    by (auto simp: n0_def nat_less_iff)
  let ?v = "v + int n0 * m"
  have m: "0 < m" using Suc.prems by simp
  have le: "?v \<le> maxRemainingLength"
    using Suc.prems(1) by (simp add: readVBI_loop_step [OF w4] xs n0 Let_def split: if_splits)
  show ?case
  proof (cases "uint d < 128")
    case True
    then have d: "uint d = int n0" using n0 by (simp add: n0_def)
    have res: "x = ?v" "w = minimalVBIBytes ?v" "c = cur_at p (pre @ [d]) ys"
      using Suc.prems(1) True le
      by (auto simp: readVBI_loop_step [OF w4] xs n0 Let_def split: if_splits)
    have "d = of_nat n0"
      unfolding word_uint_eq_iff using d n0 by (simp add: unsigned_of_nat take_bit_eq_mod)
    then have "encodeRemainingLength_loop n0 = [d]"
      using n0 by (simp add: encodeRemainingLength_loop_small)
    moreover have "w = 1 \<or> 0 < n0"
      using vbi_final_width [OF Suc.prems(2) w4 Suc.prems(3-5), of "int n0"] n0(2) res(2) [symmetric]
      by simp
    ultimately show ?thesis
      using res le xs by (intro exI [of _ n0] exI [of _ ys]) simp
  next
    case False
    have rec: "readVBI_loop f (Suc w) ?v (128 * m) (cur_at p (pre @ [d]) ys) = Inr (x, c)"
      using Suc.prems(1) False le
      by (simp add: readVBI_loop_step [OF w4] xs n0 Let_def split: if_splits)
    have "int n0 * m \<le> 127 * m" using n0 m by (intro mult_right_mono) auto
    then have "?v < 128 * m" using Suc.prems by linarith
    moreover have "128 * m = 128 ^ (Suc w - 1)" using Suc.prems by (cases w) auto
    moreover have k: "k = 5 - Suc w" using Suc.hyps(2) by simp
    ultimately obtain n rest where n: "ys = encodeRemainingLength_loop n @ rest"
        "x = ?v + int n * (128 * m)" "x \<le> maxRemainingLength" "0 < n"
        "c = cur_at p ((pre @ [d]) @ encodeRemainingLength_loop n) rest"
      using Suc.hyps(1) [OF k rec] Suc.prems(2,3) m by auto
    let ?N = "n0 + 128 * n"
    have N: "?N mod 128 = n0" "?N div 128 = n" "128 \<le> ?N" using n0 n(4) by auto
    have "uint d = int n0 + 128"
      using byte_mod_128 [of d] False n0 by simp
    then have "d = of_nat n0 OR 128"
      unfolding word_uint_eq_iff by (simp add: byte_or_128 n0(2))
    then have "encodeRemainingLength_loop ?N = d # encodeRemainingLength_loop n"
      using encodeRemainingLength_loop_large [OF N(3)] N by simp
    moreover have "x = v + int ?N * m"
      using n(2) by (simp add: algebra_simps)
    ultimately show ?thesis
      using n xs by (intro exI [of _ ?N] exI [of _ rest]) simp
  qed
qed

interpretation vbi_field: field_codec encVBI readVBI valid_vbi
proof
  fix x :: int and f p pre rest
  assume "valid_vbi x"
  then show "readVBI f (cur_at p pre (encVBI x @ rest)) = Inr (x, cur_at p (pre @ encVBI x) rest)"
    using readVBI_loop_enc [of 1 0 1 "nat x" f p pre rest] by (simp add: readVBI_def)
next
  fix f p pre xs and x :: int and c
  assume "readVBI f (cur_at p pre xs) = Inr (x, c)"
  then obtain n rest where "xs = encodeRemainingLength_loop n @ rest" "x = int n"
      "x \<le> maxRemainingLength" "c = cur_at p (pre @ encodeRemainingLength_loop n) rest"
    using readVBI_loop_sound [of f 1 0 1 p pre xs x c] by (auto simp: readVBI_def)
  then show "valid_vbi x \<and> (\<exists>rest. xs = encVBI x @ rest \<and> c = cur_at p (pre @ encVBI x) rest)"
    by auto
qed


lemma writeVBI_Inr_iff: "writeVBI buf p f n = Inr b \<longleftrightarrow> valid_vbi n \<and> b = buf @ encVBI n"
  by (auto simp: writeVBI_def encodeRemainingLength_def)

text \<open>\<open>readRemainingLength\<close> accepts from a stream what \<open>readVBI\<close> accepts from a cursor.\<close>

abbreviation reader_at :: "io_error \<Rightarrow> bytes \<Rightarrow> io_reader" where
  "reader_at e xs \<equiv> \<lparr>rd_data = xs, rd_end = e\<rparr>"

lemma readRemainingLength_loop_step:
  assumes "w \<le> 4"
  shows "readRemainingLength_loop (reader_at e (d # ys)) w v m =
    (let v' = v + (uint d mod 128) * m in
     if v' > maxRemainingLength
     then Inl (malformed 0 ''remaining length'' ''remaining length exceeds MQTT maximum'')
     else if uint d < 128 then
       (if w \<noteq> minimalVBIBytes v'
        then Inl (malformed 0 ''remaining length'' ''remaining length is not minimally encoded'')
        else Inr ((v', w), reader_at e ys))
     else readRemainingLength_loop (reader_at e ys) (Suc w) v' (128 * m))"
  using assms by (simp add: readRemainingLength_loop.simps [of _ w] ReadFull_def Let_def
      byte_and_127 byte_and_128 mult.commute)

lemma readRemainingLength_loop_iff:
  "(readRemainingLength_loop (reader_at e xs) w v m = Inr ((x, k), r)) \<longleftrightarrow>
     (\<exists>pre' rest. readVBI_loop f w v m (cur_at p pre xs) = Inr (x, cur_at p pre' rest) \<and>
        r = reader_at e rest \<and> k = minimalVBIBytes x \<and> pre' @ rest = pre @ xs)"
proof (induction "5 - w" arbitrary: w v m xs pre)
  case 0
  then show ?case by (simp add: readRemainingLength_loop.simps [of _ w] readVBI_loop.simps [of f w])
next
  case (Suc n)
  then have w4: "w \<le> 4" and n: "n = 5 - Suc w" by auto
  show ?case
  proof (cases xs)
    case Nil
    then show ?thesis
      using w4 by (simp add: readRemainingLength_loop.simps [of _ w] readVBI_loop.simps [of f w]
          ReadFull_def)
  next
    case (Cons d ys)
    let ?v = "v + (uint d mod 128) * m"
    consider "?v > maxRemainingLength" | "?v \<le> maxRemainingLength" "uint d < 128"
      | "?v \<le> maxRemainingLength" "\<not> uint d < 128" by linarith
    then show ?thesis
    proof cases
      case 3
      then show ?thesis
        using Suc.hyps(1) [OF n, of ys ?v "128 * m" "pre @ [d]"]
        by (simp add: Cons readRemainingLength_loop_step [OF w4] readVBI_loop_step [OF w4] Let_def)
    qed (auto simp: Cons readRemainingLength_loop_step [OF w4] readVBI_loop_step [OF w4] Let_def)
  qed
qed

lemma readRemainingLength_enc:
  "valid_vbi n \<Longrightarrow> readRemainingLength (reader_at e (encVBI n @ rest)) =
     Inr ((n, minimalVBIBytes n), reader_at e rest)"
  unfolding readRemainingLength_def
    readRemainingLength_loop_iff [where f = "[]" and p = 0 and pre = "[]"]
  using vbi_field.dec_enc [of n "[]" 0 "[]" rest] by (simp add: readVBI_def)

lemma readRemainingLength_sound:
  assumes "readRemainingLength (reader_at e xs) = Inr ((n, k), r)"
  obtains rest where "valid_vbi n" "xs = encVBI n @ rest" "k = minimalVBIBytes n"
    "r = reader_at e rest"
proof -
  obtain pre' rest where "readVBI [] (cur_at 0 [] xs) = Inr (n, cur_at 0 pre' rest)"
      "r = reader_at e rest" "k = minimalVBIBytes n"
    using assms unfolding readRemainingLength_def readVBI_def
      readRemainingLength_loop_iff [where f = "[]" and p = 0 and pre = "[]"] by auto
  then show thesis
    using vbi_field.dec_sound [of "[]" 0 "[]" xs] that by fastforce
qed

section \<open>Binary data and strings\<close>

abbreviation valid_binary :: "bytes \<Rightarrow> bool" where
  "valid_binary v \<equiv> length v \<le> 65535"

definition encBinary :: "bytes \<Rightarrow> bytes" where
  "encBinary v = writeUint16 [] (of_nat (length v)) @ v"

definition valid_string :: "string \<Rightarrow> bool" where
  "valid_string s \<longleftrightarrow> length s \<le> 65535 \<and> utf8_valid (bytes_of_string s) \<and>
     0 \<notin> set (bytes_of_string s)"

definition encString :: "string \<Rightarrow> bytes" where
  "encString s = encBinary (bytes_of_string s)"

lemma uint_length_u16: "length v \<le> 65535 \<Longrightarrow> uint (of_nat (length v) :: u16) = int (length v)"
  by (simp add: unsigned_of_nat take_bit_eq_mod)

lemma writeBinary_Inr_iff:
  "writeBinary buf p f v = Inr b \<longleftrightarrow> valid_binary v \<and> b = buf @ encBinary v"
  by (auto simp: writeBinary_def encBinary_def writeUint16_def)

lemma writeString_Inr_iff:
  "writeString buf p f s = Inr b \<longleftrightarrow> valid_string s \<and> b = buf @ encString s"
  by (auto simp: writeString_def encString_def encBinary_def valid_string_def writeUint16_def)

interpretation binary_field: field_codec encBinary readBinary valid_binary
proof
  fix x f p pre rest
  assume "valid_binary x"
  then show "readBinary f (cur_at p pre (encBinary x @ rest)) = Inr (x, cur_at p (pre @ encBinary x) rest)"
    using u16_field.dec_enc [where x = "of_nat (length x)"]
    by (simp add: readBinary_def encBinary_def uint_length_u16)
next
  fix f p pre xs x c
  assume "readBinary f (cur_at p pre xs) = Inr (x, c)"
  then obtain n c1 where 1: "readUint16 (f @ '' length'') (cur_at p pre xs) = Inr (n, c1)"
      and 2: "readBytes f (uint n) c1 = Inr (x, c)"
    by (auto simp: readBinary_def rbind_eq_Inr)
  obtain r1 where r1: "xs = writeUint16 [] n @ r1" "c1 = cur_at p (pre @ writeUint16 [] n) r1"
    by (rule u16_field.dec_at_obtain [OF 1])
  obtain r2 where r2: "r1 = x @ r2" "int (length x) = uint n"
      "c = cur_at p ((pre @ writeUint16 [] n) @ x) r2"
    using 2 by (auto simp: r1(2) readBytes_at_Inr_iff)
  have "length x \<le> 65535" using r2(2) uint_lt2p [of n] by simp
  moreover have "n = of_nat (length x)"
    using r2(2) by (metis of_int_of_nat_eq word_of_int_uint)
  ultimately show "valid_binary x \<and> (\<exists>rest. xs = encBinary x @ rest \<and> c = cur_at p (pre @ encBinary x) rest)"
    using r1 r2 by (auto simp: encBinary_def)
qed

interpretation string_field: field_codec encString readString valid_string
proof
  fix x f p pre rest
  assume "valid_string x"
  then show "readString f (cur_at p pre (encString x @ rest)) = Inr (x, cur_at p (pre @ encString x) rest)"
    using binary_field.dec_enc [of "bytes_of_string x" f p pre rest]
    by (simp add: readString_def encString_def valid_string_def)
next
  fix f p pre xs x c
  assume "readString f (cur_at p pre xs) = Inr (x, c)"
  then obtain d where 1: "readBinary f (cur_at p pre xs) = Inr (d, c)" and
      d: "utf8_valid d" "0 \<notin> set d" "x = string_of_bytes d"
    by (auto simp: readString_def rbind_eq_Inr split: if_splits)
  show "valid_string x \<and> (\<exists>rest. xs = encString x @ rest \<and> c = cur_at p (pre @ encString x) rest)"
    using binary_field.dec_sound [OF 1] d by (simp add: valid_string_def encString_def)
qed

end
