(* ===== verification/Wire_Props.thy ===== *)
theory Wire_Props
  imports Wire_Base Topic_Filter
begin

text \<open>
  MQTT 5 properties on the wire (\<open>pkg/mqtt5/wire/properties.go\<close>): the specification table, the
  decoder of a property section, the assignment of a decoded value to the property struct of the
  packet, and the encoders. Encoders return the buffer they extend; a decoder returns the struct it
  fills. A property interface value that may be nil is an option.

  Lemmas: what each encoder appends is the concatenation of its items, the decoder reads such a
  concatenation back item by item, and folding the assignments gives the encoded struct again.
\<close>

section \<open>Specification table\<close>

datatype PropertyValueType =
    propertyByte
  | propertyTwoByteInteger
  | propertyFourByteInteger
  | propertyVariableByteInteger
  | propertyBinaryData
  | propertyString
  | propertyStringPair

datatype RepeatPolicy = repeatNever | repeatAllowed

record PropertySpec =
  ps_ID :: byte
  ps_Name :: string
  ps_Type :: PropertyValueType
  ps_Allowed :: u32
  ps_Repeat :: RepeatPolicy

definition mask :: "PacketType list \<Rightarrow> u32" where
  "mask packetTypes = foldl (\<lambda>out t. out OR push_bit (unat t) 1) 0 packetTypes"

definition packetAllowed :: "PropertySpec \<Rightarrow> PacketType \<Rightarrow> bool" where
  "packetAllowed spec packet = (ps_Allowed spec AND push_bit (unat packet) 1 \<noteq> 0)"

definition propertySpecs :: "byte \<Rightarrow> PropertySpec option" where
  "propertySpecs = map_of [
     (PropPayloadFormat, \<lparr>ps_ID = PropPayloadFormat, ps_Name = ''Payload Format Indicator'',
       ps_Type = propertyByte,
       ps_Allowed = mask [PUBLISH, WILLPROPERTIES],
       ps_Repeat = repeatNever\<rparr>),
     (PropMessageExpiry, \<lparr>ps_ID = PropMessageExpiry, ps_Name = ''Message Expiry Interval'',
       ps_Type = propertyFourByteInteger,
       ps_Allowed = mask [PUBLISH, WILLPROPERTIES],
       ps_Repeat = repeatNever\<rparr>),
     (PropContentType, \<lparr>ps_ID = PropContentType, ps_Name = ''Content Type'',
       ps_Type = propertyString,
       ps_Allowed = mask [PUBLISH, WILLPROPERTIES],
       ps_Repeat = repeatNever\<rparr>),
     (PropResponseTopic, \<lparr>ps_ID = PropResponseTopic, ps_Name = ''Response Topic'',
       ps_Type = propertyString,
       ps_Allowed = mask [PUBLISH, WILLPROPERTIES],
       ps_Repeat = repeatNever\<rparr>),
     (PropCorrelationData, \<lparr>ps_ID = PropCorrelationData, ps_Name = ''Correlation Data'',
       ps_Type = propertyBinaryData,
       ps_Allowed = mask [PUBLISH, WILLPROPERTIES],
       ps_Repeat = repeatNever\<rparr>),
     (PropSubscriptionIdentifier, \<lparr>ps_ID = PropSubscriptionIdentifier, ps_Name = ''Subscription Identifier'',
       ps_Type = propertyVariableByteInteger,
       ps_Allowed = mask [PUBLISH, SUBSCRIBE],
       ps_Repeat = repeatNever\<rparr>),
     (PropSessionExpiryInterval, \<lparr>ps_ID = PropSessionExpiryInterval, ps_Name = ''Session Expiry Interval'',
       ps_Type = propertyFourByteInteger,
       ps_Allowed = mask [CONNECT, CONNACK, DISCONNECT],
       ps_Repeat = repeatNever\<rparr>),
     (PropAssignedClientID, \<lparr>ps_ID = PropAssignedClientID, ps_Name = ''Assigned Client Identifier'',
       ps_Type = propertyString,
       ps_Allowed = mask [CONNACK],
       ps_Repeat = repeatNever\<rparr>),
     (PropServerKeepAlive, \<lparr>ps_ID = PropServerKeepAlive, ps_Name = ''Server Keep Alive'',
       ps_Type = propertyTwoByteInteger,
       ps_Allowed = mask [CONNACK],
       ps_Repeat = repeatNever\<rparr>),
     (PropAuthMethod, \<lparr>ps_ID = PropAuthMethod, ps_Name = ''Authentication Method'',
       ps_Type = propertyString,
       ps_Allowed = mask [CONNECT, CONNACK, AUTH],
       ps_Repeat = repeatNever\<rparr>),
     (PropAuthData, \<lparr>ps_ID = PropAuthData, ps_Name = ''Authentication Data'',
       ps_Type = propertyBinaryData,
       ps_Allowed = mask [CONNECT, CONNACK, AUTH],
       ps_Repeat = repeatNever\<rparr>),
     (PropRequestProblemInfo, \<lparr>ps_ID = PropRequestProblemInfo, ps_Name = ''Request Problem Information'',
       ps_Type = propertyByte,
       ps_Allowed = mask [CONNECT],
       ps_Repeat = repeatNever\<rparr>),
     (PropWillDelayInterval, \<lparr>ps_ID = PropWillDelayInterval, ps_Name = ''Will Delay Interval'',
       ps_Type = propertyFourByteInteger,
       ps_Allowed = mask [WILLPROPERTIES],
       ps_Repeat = repeatNever\<rparr>),
     (PropRequestResponseInfo, \<lparr>ps_ID = PropRequestResponseInfo, ps_Name = ''Request Response Information'',
       ps_Type = propertyByte,
       ps_Allowed = mask [CONNECT],
       ps_Repeat = repeatNever\<rparr>),
     (PropResponseInfo, \<lparr>ps_ID = PropResponseInfo, ps_Name = ''Response Information'',
       ps_Type = propertyString,
       ps_Allowed = mask [CONNACK],
       ps_Repeat = repeatNever\<rparr>),
     (PropServerReference, \<lparr>ps_ID = PropServerReference, ps_Name = ''Server Reference'',
       ps_Type = propertyString,
       ps_Allowed = mask [CONNACK, DISCONNECT],
       ps_Repeat = repeatNever\<rparr>),
     (PropReasonString, \<lparr>ps_ID = PropReasonString, ps_Name = ''Reason String'',
       ps_Type = propertyString,
       ps_Allowed = mask [CONNACK, PUBACK, PUBREC, PUBREL, PUBCOMP, SUBACK, UNSUBACK, DISCONNECT,
         AUTH],
       ps_Repeat = repeatNever\<rparr>),
     (PropReceiveMaximum, \<lparr>ps_ID = PropReceiveMaximum, ps_Name = ''Receive Maximum'',
       ps_Type = propertyTwoByteInteger,
       ps_Allowed = mask [CONNECT, CONNACK],
       ps_Repeat = repeatNever\<rparr>),
     (PropTopicAliasMaximum, \<lparr>ps_ID = PropTopicAliasMaximum, ps_Name = ''Topic Alias Maximum'',
       ps_Type = propertyTwoByteInteger,
       ps_Allowed = mask [CONNECT, CONNACK],
       ps_Repeat = repeatNever\<rparr>),
     (PropTopicAlias, \<lparr>ps_ID = PropTopicAlias, ps_Name = ''Topic Alias'',
       ps_Type = propertyTwoByteInteger,
       ps_Allowed = mask [PUBLISH],
       ps_Repeat = repeatNever\<rparr>),
     (PropMaximumQOS, \<lparr>ps_ID = PropMaximumQOS, ps_Name = ''Maximum QoS'',
       ps_Type = propertyByte,
       ps_Allowed = mask [CONNACK],
       ps_Repeat = repeatNever\<rparr>),
     (PropRetainAvailable, \<lparr>ps_ID = PropRetainAvailable, ps_Name = ''Retain Available'',
       ps_Type = propertyByte,
       ps_Allowed = mask [CONNACK],
       ps_Repeat = repeatNever\<rparr>),
     (PropUser, \<lparr>ps_ID = PropUser, ps_Name = ''User Property'',
       ps_Type = propertyStringPair,
       ps_Allowed = mask [CONNECT, CONNACK, PUBLISH, WILLPROPERTIES, PUBACK, PUBREC, PUBREL,
         PUBCOMP, SUBSCRIBE, SUBACK, UNSUBSCRIBE, UNSUBACK, DISCONNECT, AUTH],
       ps_Repeat = repeatAllowed\<rparr>),
     (PropMaximumPacketSize, \<lparr>ps_ID = PropMaximumPacketSize, ps_Name = ''Maximum Packet Size'',
       ps_Type = propertyFourByteInteger,
       ps_Allowed = mask [CONNECT, CONNACK],
       ps_Repeat = repeatNever\<rparr>),
     (PropWildcardSubAvailable, \<lparr>ps_ID = PropWildcardSubAvailable, ps_Name = ''Wildcard Subscription Available'',
       ps_Type = propertyByte,
       ps_Allowed = mask [CONNACK],
       ps_Repeat = repeatNever\<rparr>),
     (PropSubIDAvailable, \<lparr>ps_ID = PropSubIDAvailable, ps_Name = ''Subscription Identifier Available'',
       ps_Type = propertyByte,
       ps_Allowed = mask [CONNACK],
       ps_Repeat = repeatNever\<rparr>),
     (PropSharedSubAvailable, \<lparr>ps_ID = PropSharedSubAvailable, ps_Name = ''Shared Subscription Available'',
       ps_Type = propertyByte,
       ps_Allowed = mask [CONNACK],
       ps_Repeat = repeatNever\<rparr>)]"

text \<open>\<open>propertySpecs[id]\<close> read without the \<open>ok\<close> result: the zero value for an unknown id.\<close>

definition propertySpecName :: "byte \<Rightarrow> string" where
  "propertySpecName pid = (case propertySpecs pid of None \<Rightarrow> [] | Some spec \<Rightarrow> ps_Name spec)"

record propertyValue =
  pv_byteValue :: byte
  pv_uint16Value :: u16
  pv_uint32Value :: u32
  pv_vbiValue :: int
  pv_binaryValue :: "bytes option"
  pv_stringValue :: string
  pv_userValue :: User

definition propertyValue0 :: propertyValue where
  "propertyValue0 = \<lparr>pv_byteValue = 0, pv_uint16Value = 0, pv_uint32Value = 0, pv_vbiValue = 0,
     pv_binaryValue = None, pv_stringValue = [],
     pv_userValue = \<lparr>user_Key = [], user_Value = []\<rparr>\<rparr>"

section \<open>Decoding\<close>

definition propertyRepeatAllowed :: "PropertySpec \<Rightarrow> PacketType \<Rightarrow> bool" where
  "propertyRepeatAllowed spec packet =
     (if ps_Repeat spec = repeatAllowed then True
      else ps_ID spec = PropSubscriptionIdentifier \<and> packet = PUBLISH)"

definition readPropertyValue :: "PropertySpec \<Rightarrow> cursor \<Rightarrow> error + propertyValue \<times> cursor" where
  "readPropertyValue spec c =
     (case ps_Type spec of
        propertyByte \<Rightarrow>
          rbind (readByte (ps_Name spec) c) (\<lambda>(value, c).
            Inr (propertyValue0\<lparr>pv_byteValue := value\<rparr>, c))
      | propertyTwoByteInteger \<Rightarrow>
          rbind (readUint16 (ps_Name spec) c) (\<lambda>(value, c).
            Inr (propertyValue0\<lparr>pv_uint16Value := value\<rparr>, c))
      | propertyFourByteInteger \<Rightarrow>
          rbind (readUint32 (ps_Name spec) c) (\<lambda>(value, c).
            Inr (propertyValue0\<lparr>pv_uint32Value := value\<rparr>, c))
      | propertyVariableByteInteger \<Rightarrow>
          rbind (readVBI (ps_Name spec) c) (\<lambda>(value, c).
            Inr (propertyValue0\<lparr>pv_vbiValue := value\<rparr>, c))
      | propertyBinaryData \<Rightarrow>
          rbind (readBinary (ps_Name spec) c) (\<lambda>(value, c).
            Inr (propertyValue0\<lparr>pv_binaryValue := append_nil value\<rparr>, c))
      | propertyString \<Rightarrow>
          rbind (readString (ps_Name spec) c) (\<lambda>(value, c).
            Inr (propertyValue0\<lparr>pv_stringValue := value\<rparr>, c))
      | propertyStringPair \<Rightarrow>
          rbind (readString (ps_Name spec @ '' key'') c) (\<lambda>(key, c).
          rbind (readString (ps_Name spec @ '' value'') c) (\<lambda>(value, c).
            Inr (propertyValue0\<lparr>pv_userValue := \<lparr>user_Key = key, user_Value = value\<rparr>\<rparr>, c))))"

definition validateTopicName :: "PacketType \<Rightarrow> string \<Rightarrow> string \<Rightarrow> bool \<Rightarrow> error + unit" where
  "validateTopicName packet field topic allowEmpty =
     (if topic = [] then
        (if allowEmpty then Inr ()
         else Inl (malformed packet field ''topic name must be non-empty''))
      else if contains_wildcard topic
      then Inl (malformed packet field ''topic name must not contain wildcards'')
      else Inr ())"

definition validatePropertyValue ::
  "PacketType \<Rightarrow> PropertySpec \<Rightarrow> propertyValue \<Rightarrow> error + unit" where
  "validatePropertyValue packet spec value =
     (if ps_ID spec \<in> set [PropPayloadFormat, PropRequestProblemInfo, PropRequestResponseInfo,
           PropRetainAvailable, PropWildcardSubAvailable, PropSubIDAvailable,
           PropSharedSubAvailable] then
        (if pv_byteValue value > 1
         then Inl (malformed packet (ps_Name spec) ''boolean byte property must be 0 or 1'')
         else Inr ())
      else if ps_ID spec = PropMaximumQOS then
        (if pv_byteValue value > 1
         then Inl (malformed packet (ps_Name spec) ''maximum QoS must be 0 or 1'')
         else Inr ())
      else if ps_ID spec = PropReceiveMaximum then
        (if pv_uint16Value value = 0
         then Inl (malformed packet (ps_Name spec) ''receive maximum must be non-zero'')
         else Inr ())
      else if ps_ID spec = PropTopicAlias then
        (if pv_uint16Value value = 0
         then Inl (malformed packet (ps_Name spec) ''topic alias must be non-zero'')
         else Inr ())
      else if ps_ID spec = PropMaximumPacketSize then
        (if pv_uint32Value value = 0
         then Inl (malformed packet (ps_Name spec) ''maximum packet size must be non-zero'')
         else Inr ())
      else if ps_ID spec = PropSubscriptionIdentifier then
        (if pv_vbiValue value = 0
         then Inl (malformed packet (ps_Name spec) ''subscription identifier must be non-zero'')
         else Inr ())
      else if ps_ID spec = PropResponseTopic then
        validateTopicName packet (ps_Name spec) (pv_stringValue value) False
      else Inr ())"

section \<open>Assigning a decoded value\<close>

text \<open>The two pointers \<open>reason\<close> and \<open>users\<close> of \<open>assignReasonUserProperty\<close> are passed by value and returned.\<close>

definition assignReasonUserProperty ::
  "string \<Rightarrow> User list \<Rightarrow> byte \<Rightarrow> propertyValue \<Rightarrow> error + string \<times> User list" where
  "assignReasonUserProperty reason users pid value =
     (if pid = PropReasonString then Inr (pv_stringValue value, users)
      else if pid = PropUser then Inr (reason, users @ [pv_userValue value])
      else Inr (reason, users))"

definition assignPublishProperty ::
  "PublishProperties \<Rightarrow> byte \<Rightarrow> propertyValue \<Rightarrow> error + PublishProperties" where
  "assignPublishProperty p pid value =
     (if pid = PropPayloadFormat then Inr (p\<lparr>pp_PayloadFormat := Some (pv_byteValue value)\<rparr>)
      else if pid = PropMessageExpiry then Inr (p\<lparr>pp_MessageExpiry := Some (pv_uint32Value value)\<rparr>)
      else if pid = PropWillDelayInterval then Inr (p\<lparr>pp_WillDelayInterval := Some (pv_uint32Value value)\<rparr>)
      else if pid = PropContentType then Inr (p\<lparr>pp_ContentType := pv_stringValue value\<rparr>)
      else if pid = PropResponseTopic then Inr (p\<lparr>pp_ResponseTopic := pv_stringValue value\<rparr>)
      else if pid = PropCorrelationData then Inr (p\<lparr>pp_CorrelationData := pv_binaryValue value\<rparr>)
      else if pid = PropTopicAlias then Inr (p\<lparr>pp_TopicAlias := Some (pv_uint16Value value)\<rparr>)
      else if pid = PropSubscriptionIdentifier then Inr (p\<lparr>pp_SubscriptionIdentifier := pp_SubscriptionIdentifier p @ [pv_vbiValue value]\<rparr>)
      else if pid = PropUser then Inr (p\<lparr>pp_User := pp_User p @ [pv_userValue value]\<rparr>)
      else Inr p)"

definition assignConnectProperty ::
  "ConnectProperties \<Rightarrow> byte \<Rightarrow> propertyValue \<Rightarrow> error + ConnectProperties" where
  "assignConnectProperty p pid value =
     (if pid = PropSessionExpiryInterval then Inr (p\<lparr>cnp_SessionExpiryInterval := Some (pv_uint32Value value)\<rparr>)
      else if pid = PropAuthMethod then Inr (p\<lparr>cnp_AuthMethod := pv_stringValue value\<rparr>)
      else if pid = PropAuthData then Inr (p\<lparr>cnp_AuthData := pv_binaryValue value\<rparr>)
      else if pid = PropRequestProblemInfo then Inr (p\<lparr>cnp_RequestProblemInfo := Some (pv_byteValue value)\<rparr>)
      else if pid = PropRequestResponseInfo then Inr (p\<lparr>cnp_RequestResponseInfo := Some (pv_byteValue value)\<rparr>)
      else if pid = PropReceiveMaximum then Inr (p\<lparr>cnp_ReceiveMaximum := Some (pv_uint16Value value)\<rparr>)
      else if pid = PropTopicAliasMaximum then Inr (p\<lparr>cnp_TopicAliasMaximum := Some (pv_uint16Value value)\<rparr>)
      else if pid = PropMaximumPacketSize then Inr (p\<lparr>cnp_MaximumPacketSize := Some (pv_uint32Value value)\<rparr>)
      else if pid = PropUser then Inr (p\<lparr>cnp_User := cnp_User p @ [pv_userValue value]\<rparr>)
      else Inr p)"

definition assignConnackProperty ::
  "ConnAckProperties \<Rightarrow> byte \<Rightarrow> propertyValue \<Rightarrow> error + ConnAckProperties" where
  "assignConnackProperty p pid value =
     (if pid = PropSessionExpiryInterval then Inr (p\<lparr>cap_SessionExpiryInterval := Some (pv_uint32Value value)\<rparr>)
      else if pid = PropAssignedClientID then Inr (p\<lparr>cap_AssignedClientID := pv_stringValue value\<rparr>)
      else if pid = PropServerKeepAlive then Inr (p\<lparr>cap_ServerKeepAlive := Some (pv_uint16Value value)\<rparr>)
      else if pid = PropAuthMethod then Inr (p\<lparr>cap_AuthMethod := pv_stringValue value\<rparr>)
      else if pid = PropAuthData then Inr (p\<lparr>cap_AuthData := pv_binaryValue value\<rparr>)
      else if pid = PropResponseInfo then Inr (p\<lparr>cap_ResponseInfo := pv_stringValue value\<rparr>)
      else if pid = PropServerReference then Inr (p\<lparr>cap_ServerReference := pv_stringValue value\<rparr>)
      else if pid = PropReasonString then Inr (p\<lparr>cap_ReasonString := pv_stringValue value\<rparr>)
      else if pid = PropReceiveMaximum then Inr (p\<lparr>cap_ReceiveMaximum := Some (pv_uint16Value value)\<rparr>)
      else if pid = PropTopicAliasMaximum then Inr (p\<lparr>cap_TopicAliasMaximum := Some (pv_uint16Value value)\<rparr>)
      else if pid = PropMaximumQOS then Inr (p\<lparr>cap_MaximumQOS := Some (pv_byteValue value)\<rparr>)
      else if pid = PropRetainAvailable then Inr (p\<lparr>cap_RetainAvailable := Some (pv_byteValue value)\<rparr>)
      else if pid = PropWildcardSubAvailable then Inr (p\<lparr>cap_WildcardSubAvailable := Some (pv_byteValue value)\<rparr>)
      else if pid = PropSubIDAvailable then Inr (p\<lparr>cap_SubIDAvailable := Some (pv_byteValue value)\<rparr>)
      else if pid = PropSharedSubAvailable then Inr (p\<lparr>cap_SharedSubAvailable := Some (pv_byteValue value)\<rparr>)
      else if pid = PropMaximumPacketSize then Inr (p\<lparr>cap_MaximumPacketSize := Some (pv_uint32Value value)\<rparr>)
      else if pid = PropUser then Inr (p\<lparr>cap_User := cap_User p @ [pv_userValue value]\<rparr>)
      else Inr p)"

definition assignSubscribeProperty ::
  "SubscribeProperties \<Rightarrow> byte \<Rightarrow> propertyValue \<Rightarrow> error + SubscribeProperties" where
  "assignSubscribeProperty p pid value =
     (if pid = PropSubscriptionIdentifier then Inr (p\<lparr>sbp_SubscriptionIdentifier := Some (pv_vbiValue value)\<rparr>)
      else if pid = PropUser then Inr (p\<lparr>sbp_User := sbp_User p @ [pv_userValue value]\<rparr>)
      else Inr p)"

definition assignSubackProperty ::
  "SubackProperties \<Rightarrow> byte \<Rightarrow> propertyValue \<Rightarrow> error + SubackProperties" where
  "assignSubackProperty p pid value =
     rbind (assignReasonUserProperty (sap_ReasonString p) (sap_User p) pid value) (\<lambda>(reason, users).
       Inr (p\<lparr>sap_ReasonString := reason, sap_User := users\<rparr>))"

definition assignUnsubscribeProperty ::
  "UnsubscribeProperties \<Rightarrow> byte \<Rightarrow> propertyValue \<Rightarrow> error + UnsubscribeProperties" where
  "assignUnsubscribeProperty p pid value =
     (if pid = PropUser then Inr (p\<lparr>usp_User := usp_User p @ [pv_userValue value]\<rparr>)
      else Inr p)"

definition assignUnsubackProperty ::
  "UnsubackProperties \<Rightarrow> byte \<Rightarrow> propertyValue \<Rightarrow> error + UnsubackProperties" where
  "assignUnsubackProperty p pid value =
     rbind (assignReasonUserProperty (uap_ReasonString p) (uap_User p) pid value) (\<lambda>(reason, users).
       Inr (p\<lparr>uap_ReasonString := reason, uap_User := users\<rparr>))"

definition assignPubackProperty ::
  "PubackProperties \<Rightarrow> byte \<Rightarrow> propertyValue \<Rightarrow> error + PubackProperties" where
  "assignPubackProperty p pid value =
     rbind (assignReasonUserProperty (pap_ReasonString p) (pap_User p) pid value) (\<lambda>(reason, users).
       Inr (p\<lparr>pap_ReasonString := reason, pap_User := users\<rparr>))"

definition assignPubrecProperty ::
  "PubrecProperties \<Rightarrow> byte \<Rightarrow> propertyValue \<Rightarrow> error + PubrecProperties" where
  "assignPubrecProperty p pid value =
     rbind (assignReasonUserProperty (prp_ReasonString p) (prp_User p) pid value) (\<lambda>(reason, users).
       Inr (p\<lparr>prp_ReasonString := reason, prp_User := users\<rparr>))"

definition assignPubrelProperty ::
  "PubrelProperties \<Rightarrow> byte \<Rightarrow> propertyValue \<Rightarrow> error + PubrelProperties" where
  "assignPubrelProperty p pid value =
     rbind (assignReasonUserProperty (plp_ReasonString p) (plp_User p) pid value) (\<lambda>(reason, users).
       Inr (p\<lparr>plp_ReasonString := reason, plp_User := users\<rparr>))"

definition assignPubcompProperty ::
  "PubcompProperties \<Rightarrow> byte \<Rightarrow> propertyValue \<Rightarrow> error + PubcompProperties" where
  "assignPubcompProperty p pid value =
     rbind (assignReasonUserProperty (pcp_ReasonString p) (pcp_User p) pid value) (\<lambda>(reason, users).
       Inr (p\<lparr>pcp_ReasonString := reason, pcp_User := users\<rparr>))"

definition assignDisconnectProperty ::
  "DisconnectProperties \<Rightarrow> byte \<Rightarrow> propertyValue \<Rightarrow> error + DisconnectProperties" where
  "assignDisconnectProperty p pid value =
     (if pid = PropSessionExpiryInterval then Inr (p\<lparr>dsp_SessionExpiryInterval := Some (pv_uint32Value value)\<rparr>)
      else if pid = PropServerReference then Inr (p\<lparr>dsp_ServerReference := pv_stringValue value\<rparr>)
      else if pid = PropReasonString then Inr (p\<lparr>dsp_ReasonString := pv_stringValue value\<rparr>)
      else if pid = PropUser then Inr (p\<lparr>dsp_User := dsp_User p @ [pv_userValue value]\<rparr>)
      else Inr p)"

definition assignAuthProperty ::
  "AuthProperties \<Rightarrow> byte \<Rightarrow> propertyValue \<Rightarrow> error + AuthProperties" where
  "assignAuthProperty p pid value =
     (if pid = PropAuthMethod then Inr (p\<lparr>aup_AuthMethod := pv_stringValue value\<rparr>)
      else if pid = PropAuthData then Inr (p\<lparr>aup_AuthData := pv_binaryValue value\<rparr>)
      else if pid = PropReasonString then Inr (p\<lparr>aup_ReasonString := pv_stringValue value\<rparr>)
      else if pid = PropUser then Inr (p\<lparr>aup_User := aup_User p @ [pv_userValue value]\<rparr>)
      else Inr p)"

definition assignProperty ::
  "PacketType \<Rightarrow> Properties \<Rightarrow> PropertySpec \<Rightarrow> propertyValue \<Rightarrow> error + Properties" where
  "assignProperty packet props spec value =
     (case props of
        PublishProps p \<Rightarrow> rbind (assignPublishProperty p (ps_ID spec) value) (\<lambda>p. Inr (PublishProps p))
      | ConnectProps p \<Rightarrow> rbind (assignConnectProperty p (ps_ID spec) value) (\<lambda>p. Inr (ConnectProps p))
      | ConnAckProps p \<Rightarrow> rbind (assignConnackProperty p (ps_ID spec) value) (\<lambda>p. Inr (ConnAckProps p))
      | SubscribeProps p \<Rightarrow> rbind (assignSubscribeProperty p (ps_ID spec) value) (\<lambda>p. Inr (SubscribeProps p))
      | SubackProps p \<Rightarrow> rbind (assignSubackProperty p (ps_ID spec) value) (\<lambda>p. Inr (SubackProps p))
      | UnsubscribeProps p \<Rightarrow> rbind (assignUnsubscribeProperty p (ps_ID spec) value) (\<lambda>p. Inr (UnsubscribeProps p))
      | UnsubackProps p \<Rightarrow> rbind (assignUnsubackProperty p (ps_ID spec) value) (\<lambda>p. Inr (UnsubackProps p))
      | PubackProps p \<Rightarrow> rbind (assignPubackProperty p (ps_ID spec) value) (\<lambda>p. Inr (PubackProps p))
      | PubrecProps p \<Rightarrow> rbind (assignPubrecProperty p (ps_ID spec) value) (\<lambda>p. Inr (PubrecProps p))
      | PubrelProps p \<Rightarrow> rbind (assignPubrelProperty p (ps_ID spec) value) (\<lambda>p. Inr (PubrelProps p))
      | PubcompProps p \<Rightarrow> rbind (assignPubcompProperty p (ps_ID spec) value) (\<lambda>p. Inr (PubcompProps p))
      | DisconnectProps p \<Rightarrow> rbind (assignDisconnectProperty p (ps_ID spec) value) (\<lambda>p. Inr (DisconnectProps p))
      | AuthProps p \<Rightarrow> rbind (assignAuthProperty p (ps_ID spec) value) (\<lambda>p. Inr (AuthProps p)))"

text \<open>Every reader advances the cursor inside the data it was given.\<close>

lemma readByte_pos: "readByte f c = Inr (x, c') \<Longrightarrow> remaining c' = remaining c - 1 \<and> 1 \<le> remaining c"
  by (auto simp: readByte_def remaining_def split: if_splits)

lemma readBytes_pos: "readBytes f n c = Inr (x, c') \<Longrightarrow> remaining c' \<le> remaining c"
  by (auto simp: readBytes_def remaining_def split: if_splits)

lemma readUint16_pos: "readUint16 f c = Inr (x, c') \<Longrightarrow> remaining c' \<le> remaining c"
  by (auto simp: readUint16_def rbind_eq_Inr dest: readBytes_pos)

lemma readUint32_pos: "readUint32 f c = Inr (x, c') \<Longrightarrow> remaining c' \<le> remaining c"
  by (auto simp: readUint32_def rbind_eq_Inr dest: readBytes_pos)

lemma readBinary_pos: "readBinary f c = Inr (x, c') \<Longrightarrow> remaining c' \<le> remaining c"
  by (force simp: readBinary_def rbind_eq_Inr dest: readBytes_pos readUint16_pos)

lemma readString_pos: "readString f c = Inr (x, c') \<Longrightarrow> remaining c' \<le> remaining c"
  by (auto simp: readString_def rbind_eq_Inr split: if_splits dest: readBinary_pos)

lemma readVBI_loop_pos: "readVBI_loop f w v m c = Inr (x, c') \<Longrightarrow> remaining c' \<le> remaining c"
proof (induction f w v m c rule: readVBI_loop.induct)
  case (1 f w v m c)
  then obtain d c1 where d: "\<not> 4 < w" "readByte f c = Inr (d, c1)"
    by (auto simp: readVBI_loop.simps [of f w] rbind_eq_Inr split: if_splits)
  with 1 show ?case
    using readByte_pos [OF d(2)]
    by (fastforce simp: readVBI_loop.simps [of f w] Let_def split: if_splits)
qed

lemma readPropertyValue_pos:
  "readPropertyValue spec c = Inr (x, c') \<Longrightarrow> remaining c' \<le> remaining c"
  by (auto simp: readPropertyValue_def readVBI_def rbind_eq_Inr
      split: PropertyValueType.splits
      dest!: readByte_pos readUint16_pos readUint32_pos readVBI_loop_pos readBinary_pos readString_pos)

text \<open>The loop of \<open>decodeProperties\<close>; \<open>seen\<close> is the set of singleton properties met so far.\<close>

function decodeProperties_loop ::
  "PacketType \<Rightarrow> byte list \<Rightarrow> Properties \<Rightarrow> cursor \<Rightarrow> error + Properties" where
  "decodeProperties_loop packet seen props propCur =
     (if remaining propCur > 0 then
        rbind (readByte ''property id'' propCur) (\<lambda>(pid, propCur1).
          (case propertySpecs pid of
             None \<Rightarrow> Inl (malformed packet ''property id'' ''unknown property'')
           | Some spec \<Rightarrow>
               (if \<not> packetAllowed spec packet
                then Inl (malformed packet (ps_Name spec) ''property is not allowed for packet'')
                else if \<not> propertyRepeatAllowed spec packet \<and> pid \<in> set seen
                then Inl (malformed packet (ps_Name spec) ''duplicate singleton property'')
                else
                  rbind (readPropertyValue spec propCur1) (\<lambda>(value, propCur2).
                  rbind (validatePropertyValue packet spec value) (\<lambda>_.
                  rbind (assignProperty packet props spec value) (\<lambda>props.
                    decodeProperties_loop packet
                      (if propertyRepeatAllowed spec packet then seen else pid # seen)
                      props propCur2))))))
      else Inr props)"
  by pat_completeness auto
termination
  by (relation "measure (\<lambda>(packet, seen, props, c). nat (remaining c))")
    (auto dest!: readByte_pos readPropertyValue_pos)

declare decodeProperties_loop.simps [simp del]

definition decodeProperties ::
  "cursor \<Rightarrow> PacketType \<Rightarrow> Properties \<Rightarrow> error + Properties \<times> cursor" where
  "decodeProperties cur packet props =
     rbind (readVBI ''property length'' cur) (\<lambda>(propertyLength, cur).
       if propertyLength > remaining cur
       then Inl (malformed packet ''property length''
                  ''property length exceeds remaining packet body'')
       else
         (let propCur = newCursor packet
                (take (nat propertyLength) (drop (cur_pos cur) (cur_data cur)));
              cur = cur\<lparr>cur_pos := cur_pos cur + nat propertyLength\<rparr>
          in rbind (decodeProperties_loop packet [] props propCur) (\<lambda>props.
               Inr (props, cur))))"

section \<open>Encoding\<close>

definition appendPropertyHeader :: "bytes \<Rightarrow> PacketType \<Rightarrow> byte \<Rightarrow> error + bytes" where
  "appendPropertyHeader buf packet pid =
     (case propertySpecs pid of
        None \<Rightarrow> Inl (malformed packet ''property id'' ''unknown property'')
      | Some spec \<Rightarrow>
          (if \<not> packetAllowed spec packet
           then Inl (malformed packet (ps_Name spec) ''property is not allowed for packet'')
           else Inr (buf @ [pid])))"

text \<open>\<open>validatePropertyValue(packet, propertySpecs[id], v)\<close>, where \<open>propertySpecs[id]\<close> of an unknown
  id is the zero specification; the header has been written, so the id is known.\<close>

definition validateSpecOf :: "PacketType \<Rightarrow> byte \<Rightarrow> propertyValue \<Rightarrow> error + unit" where
  "validateSpecOf packet pid value =
     (case propertySpecs pid of None \<Rightarrow> Inr () | Some spec \<Rightarrow> validatePropertyValue packet spec value)"

definition appendPropByte :: "bytes \<Rightarrow> PacketType \<Rightarrow> byte \<Rightarrow> byte \<Rightarrow> error + bytes" where
  "appendPropByte buf packet pid value =
     rbind (appendPropertyHeader buf packet pid) (\<lambda>buf.
     rbind (validateSpecOf packet pid (propertyValue0\<lparr>pv_byteValue := value\<rparr>)) (\<lambda>_.
       Inr (buf @ [value])))"

definition appendPropUint16 :: "bytes \<Rightarrow> PacketType \<Rightarrow> byte \<Rightarrow> u16 \<Rightarrow> error + bytes" where
  "appendPropUint16 buf packet pid value =
     rbind (appendPropertyHeader buf packet pid) (\<lambda>buf.
     rbind (validateSpecOf packet pid (propertyValue0\<lparr>pv_uint16Value := value\<rparr>)) (\<lambda>_.
       Inr (writeUint16 buf value)))"

definition appendPropUint32 :: "bytes \<Rightarrow> PacketType \<Rightarrow> byte \<Rightarrow> u32 \<Rightarrow> error + bytes" where
  "appendPropUint32 buf packet pid value =
     rbind (appendPropertyHeader buf packet pid) (\<lambda>buf.
     rbind (validateSpecOf packet pid (propertyValue0\<lparr>pv_uint32Value := value\<rparr>)) (\<lambda>_.
       Inr (writeUint32 buf value)))"

definition appendPropVBI :: "bytes \<Rightarrow> PacketType \<Rightarrow> byte \<Rightarrow> int \<Rightarrow> error + bytes" where
  "appendPropVBI buf packet pid value =
     rbind (appendPropertyHeader buf packet pid) (\<lambda>buf.
     rbind (validateSpecOf packet pid (propertyValue0\<lparr>pv_vbiValue := value\<rparr>)) (\<lambda>_.
       writeVBI buf packet (propertySpecName pid) value))"

definition appendPropBinary :: "bytes \<Rightarrow> PacketType \<Rightarrow> byte \<Rightarrow> bytes \<Rightarrow> error + bytes" where
  "appendPropBinary buf packet pid value =
     rbind (appendPropertyHeader buf packet pid) (\<lambda>buf.
       writeBinary buf packet (propertySpecName pid) value)"

definition appendPropString :: "bytes \<Rightarrow> PacketType \<Rightarrow> byte \<Rightarrow> string \<Rightarrow> error + bytes" where
  "appendPropString buf packet pid value =
     rbind (appendPropertyHeader buf packet pid) (\<lambda>buf.
     rbind (validateSpecOf packet pid (propertyValue0\<lparr>pv_stringValue := value\<rparr>)) (\<lambda>_.
       writeString buf packet (propertySpecName pid) value))"

fun appendUserProperties :: "bytes \<Rightarrow> PacketType \<Rightarrow> User list \<Rightarrow> error + bytes" where
  "appendUserProperties buf packet [] = Inr buf"
| "appendUserProperties buf packet (user # users) =
     rbind (appendPropertyHeader buf packet PropUser) (\<lambda>buf.
     rbind (writeString buf packet ''User Property key'' (user_Key user)) (\<lambda>buf.
     rbind (writeString buf packet ''User Property value'' (user_Value user)) (\<lambda>buf.
       appendUserProperties buf packet users)))"

text \<open>The guards \<open>if p.F != nil\<close> and \<open>if p.F != ""\<close> around the append of one property.\<close>

definition ifSome :: "bytes \<Rightarrow> 'a option \<Rightarrow> (bytes \<Rightarrow> 'a \<Rightarrow> error + bytes) \<Rightarrow> error + bytes" where
  "ifSome buf v app = (case v of None \<Rightarrow> Inr buf | Some x \<Rightarrow> app buf x)"

definition ifNonEmpty :: "bytes \<Rightarrow> string \<Rightarrow> (bytes \<Rightarrow> string \<Rightarrow> error + bytes) \<Rightarrow> error + bytes" where
  "ifNonEmpty buf s app = (if s \<noteq> [] then app buf s else Inr buf)"

definition appendReasonUserProperties ::
  "bytes \<Rightarrow> PacketType \<Rightarrow> string \<Rightarrow> User list \<Rightarrow> error + bytes" where
  "appendReasonUserProperties buf packet reason users =
     rbind (ifNonEmpty buf reason (\<lambda>buf. appendPropString buf packet PropReasonString)) (\<lambda>buf.
       appendUserProperties buf packet users)"

text \<open>The loops of \<open>appendPublishProperties\<close> and \<open>appendConnackProperties\<close> over small tables.\<close>

fun appendSubscriptionIdentifiers :: "bytes \<Rightarrow> PacketType \<Rightarrow> int list \<Rightarrow> error + bytes" where
  "appendSubscriptionIdentifiers buf packet [] = Inr buf"
| "appendSubscriptionIdentifiers buf packet (pid # ids) =
     rbind (appendPropVBI buf packet PropSubscriptionIdentifier pid) (\<lambda>buf.
       appendSubscriptionIdentifiers buf packet ids)"

fun appendStringProps :: "bytes \<Rightarrow> PacketType \<Rightarrow> (byte \<times> string) list \<Rightarrow> error + bytes" where
  "appendStringProps buf packet [] = Inr buf"
| "appendStringProps buf packet ((pid, value) # props) =
     rbind (ifNonEmpty buf value (\<lambda>buf. appendPropString buf packet pid)) (\<lambda>buf.
       appendStringProps buf packet props)"

fun appendByteProps :: "bytes \<Rightarrow> PacketType \<Rightarrow> (byte \<times> byte option) list \<Rightarrow> error + bytes" where
  "appendByteProps buf packet [] = Inr buf"
| "appendByteProps buf packet ((pid, value) # props) =
     rbind (ifSome buf value (\<lambda>buf. appendPropByte buf packet pid)) (\<lambda>buf.
       appendByteProps buf packet props)"

definition appendSubackProperties ::
  "bytes \<Rightarrow> PacketType \<Rightarrow> SubackProperties option \<Rightarrow> error + bytes" where
  "appendSubackProperties buf packet p =
     (case p of None \<Rightarrow> Inr buf | Some p \<Rightarrow>
         appendReasonUserProperties buf packet (sap_ReasonString p) (sap_User p))"

definition appendUnsubscribeProperties ::
  "bytes \<Rightarrow> PacketType \<Rightarrow> UnsubscribeProperties option \<Rightarrow> error + bytes" where
  "appendUnsubscribeProperties buf packet p =
     (case p of None \<Rightarrow> Inr buf | Some p \<Rightarrow>
         appendUserProperties buf packet (usp_User p))"

definition appendUnsubackProperties ::
  "bytes \<Rightarrow> PacketType \<Rightarrow> UnsubackProperties option \<Rightarrow> error + bytes" where
  "appendUnsubackProperties buf packet p =
     (case p of None \<Rightarrow> Inr buf | Some p \<Rightarrow>
         appendReasonUserProperties buf packet (uap_ReasonString p) (uap_User p))"

definition appendPubackProperties ::
  "bytes \<Rightarrow> PacketType \<Rightarrow> PubackProperties option \<Rightarrow> error + bytes" where
  "appendPubackProperties buf packet p =
     (case p of None \<Rightarrow> Inr buf | Some p \<Rightarrow>
         appendReasonUserProperties buf packet (pap_ReasonString p) (pap_User p))"

definition appendPubrecProperties ::
  "bytes \<Rightarrow> PacketType \<Rightarrow> PubrecProperties option \<Rightarrow> error + bytes" where
  "appendPubrecProperties buf packet p =
     (case p of None \<Rightarrow> Inr buf | Some p \<Rightarrow>
         appendReasonUserProperties buf packet (prp_ReasonString p) (prp_User p))"

definition appendPubrelProperties ::
  "bytes \<Rightarrow> PacketType \<Rightarrow> PubrelProperties option \<Rightarrow> error + bytes" where
  "appendPubrelProperties buf packet p =
     (case p of None \<Rightarrow> Inr buf | Some p \<Rightarrow>
         appendReasonUserProperties buf packet (plp_ReasonString p) (plp_User p))"

definition appendPubcompProperties ::
  "bytes \<Rightarrow> PacketType \<Rightarrow> PubcompProperties option \<Rightarrow> error + bytes" where
  "appendPubcompProperties buf packet p =
     (case p of None \<Rightarrow> Inr buf | Some p \<Rightarrow>
         appendReasonUserProperties buf packet (pcp_ReasonString p) (pcp_User p))"

definition appendDisconnectProperties ::
  "bytes \<Rightarrow> PacketType \<Rightarrow> DisconnectProperties option \<Rightarrow> error + bytes" where
  "appendDisconnectProperties buf packet p =
     (case p of None \<Rightarrow> Inr buf | Some p \<Rightarrow>
       rbind (ifSome buf (dsp_SessionExpiryInterval p) (\<lambda>buf. appendPropUint32 buf packet PropSessionExpiryInterval)) (\<lambda>buf.
       rbind (ifNonEmpty buf (dsp_ServerReference p) (\<lambda>buf. appendPropString buf packet PropServerReference)) (\<lambda>buf.
         appendReasonUserProperties buf packet (dsp_ReasonString p) (dsp_User p))))"

definition appendAuthProperties ::
  "bytes \<Rightarrow> PacketType \<Rightarrow> AuthProperties option \<Rightarrow> error + bytes" where
  "appendAuthProperties buf packet p =
     (case p of None \<Rightarrow> Inr buf | Some p \<Rightarrow>
       rbind (ifNonEmpty buf (aup_AuthMethod p) (\<lambda>buf. appendPropString buf packet PropAuthMethod)) (\<lambda>buf.
       rbind (ifSome buf (aup_AuthData p) (\<lambda>buf. appendPropBinary buf packet PropAuthData)) (\<lambda>buf.
         appendReasonUserProperties buf packet (aup_ReasonString p) (aup_User p))))"

definition appendPublishProperties ::
  "bytes \<Rightarrow> PacketType \<Rightarrow> PublishProperties option \<Rightarrow> error + bytes" where
  "appendPublishProperties buf packet p =
     (case p of None \<Rightarrow> Inr buf | Some p \<Rightarrow>
       rbind (ifSome buf (pp_PayloadFormat p) (\<lambda>buf. appendPropByte buf packet PropPayloadFormat)) (\<lambda>buf.
       rbind (ifSome buf (pp_MessageExpiry p) (\<lambda>buf. appendPropUint32 buf packet PropMessageExpiry)) (\<lambda>buf.
       rbind (ifSome buf (pp_WillDelayInterval p) (\<lambda>buf. appendPropUint32 buf packet PropWillDelayInterval)) (\<lambda>buf.
       rbind (ifNonEmpty buf (pp_ContentType p) (\<lambda>buf. appendPropString buf packet PropContentType)) (\<lambda>buf.
       rbind (ifNonEmpty buf (pp_ResponseTopic p) (\<lambda>buf. appendPropString buf packet PropResponseTopic)) (\<lambda>buf.
       rbind (ifSome buf (pp_CorrelationData p) (\<lambda>buf. appendPropBinary buf packet PropCorrelationData)) (\<lambda>buf.
       rbind (ifSome buf (pp_TopicAlias p) (\<lambda>buf. appendPropUint16 buf packet PropTopicAlias)) (\<lambda>buf.
       rbind (appendSubscriptionIdentifiers buf packet (pp_SubscriptionIdentifier p)) (\<lambda>buf.
         appendUserProperties buf packet (pp_User p))))))))))"

definition appendConnectProperties ::
  "bytes \<Rightarrow> PacketType \<Rightarrow> ConnectProperties option \<Rightarrow> error + bytes" where
  "appendConnectProperties buf packet p =
     (case p of None \<Rightarrow> Inr buf | Some p \<Rightarrow>
       rbind (ifSome buf (cnp_SessionExpiryInterval p) (\<lambda>buf. appendPropUint32 buf packet PropSessionExpiryInterval)) (\<lambda>buf.
       rbind (ifNonEmpty buf (cnp_AuthMethod p) (\<lambda>buf. appendPropString buf packet PropAuthMethod)) (\<lambda>buf.
       rbind (ifSome buf (cnp_AuthData p) (\<lambda>buf. appendPropBinary buf packet PropAuthData)) (\<lambda>buf.
       rbind (ifSome buf (cnp_RequestProblemInfo p) (\<lambda>buf. appendPropByte buf packet PropRequestProblemInfo)) (\<lambda>buf.
       rbind (ifSome buf (cnp_RequestResponseInfo p) (\<lambda>buf. appendPropByte buf packet PropRequestResponseInfo)) (\<lambda>buf.
       rbind (ifSome buf (cnp_ReceiveMaximum p) (\<lambda>buf. appendPropUint16 buf packet PropReceiveMaximum)) (\<lambda>buf.
       rbind (ifSome buf (cnp_TopicAliasMaximum p) (\<lambda>buf. appendPropUint16 buf packet PropTopicAliasMaximum)) (\<lambda>buf.
       rbind (ifSome buf (cnp_MaximumPacketSize p) (\<lambda>buf. appendPropUint32 buf packet PropMaximumPacketSize)) (\<lambda>buf.
         appendUserProperties buf packet (cnp_User p))))))))))"

definition appendConnackProperties ::
  "bytes \<Rightarrow> PacketType \<Rightarrow> ConnAckProperties option \<Rightarrow> error + bytes" where
  "appendConnackProperties buf packet p =
     (case p of None \<Rightarrow> Inr buf | Some p \<Rightarrow>
       rbind (ifSome buf (cap_SessionExpiryInterval p) (\<lambda>buf. appendPropUint32 buf packet PropSessionExpiryInterval)) (\<lambda>buf.
       rbind (appendStringProps buf packet
         [(PropAssignedClientID, cap_AssignedClientID p),
          (PropAuthMethod, cap_AuthMethod p),
          (PropResponseInfo, cap_ResponseInfo p),
          (PropServerReference, cap_ServerReference p),
          (PropReasonString, cap_ReasonString p)]) (\<lambda>buf.
       rbind (ifSome buf (cap_ServerKeepAlive p) (\<lambda>buf. appendPropUint16 buf packet PropServerKeepAlive)) (\<lambda>buf.
       rbind (ifSome buf (cap_AuthData p) (\<lambda>buf. appendPropBinary buf packet PropAuthData)) (\<lambda>buf.
       rbind (ifSome buf (cap_ReceiveMaximum p) (\<lambda>buf. appendPropUint16 buf packet PropReceiveMaximum)) (\<lambda>buf.
       rbind (ifSome buf (cap_TopicAliasMaximum p) (\<lambda>buf. appendPropUint16 buf packet PropTopicAliasMaximum)) (\<lambda>buf.
       rbind (appendByteProps buf packet
         [(PropMaximumQOS, cap_MaximumQOS p),
          (PropRetainAvailable, cap_RetainAvailable p),
          (PropWildcardSubAvailable, cap_WildcardSubAvailable p),
          (PropSubIDAvailable, cap_SubIDAvailable p),
          (PropSharedSubAvailable, cap_SharedSubAvailable p)]) (\<lambda>buf.
       rbind (ifSome buf (cap_MaximumPacketSize p) (\<lambda>buf. appendPropUint32 buf packet PropMaximumPacketSize)) (\<lambda>buf.
         appendUserProperties buf packet (cap_User p))))))))))"

definition appendSubscribeProperties ::
  "bytes \<Rightarrow> PacketType \<Rightarrow> SubscribeProperties option \<Rightarrow> error + bytes" where
  "appendSubscribeProperties buf packet p =
     (case p of None \<Rightarrow> Inr buf | Some p \<Rightarrow>
       rbind (ifSome buf (sbp_SubscriptionIdentifier p) (\<lambda>buf. appendPropVBI buf packet PropSubscriptionIdentifier)) (\<lambda>buf.
         appendUserProperties buf packet (sbp_User p)))"

definition appendProperties :: "bytes \<Rightarrow> PacketType \<Rightarrow> Properties \<Rightarrow> error + bytes" where
  "appendProperties buf packet props =
     (case props of
        PublishProps p \<Rightarrow> appendPublishProperties buf packet (Some p)
      | ConnectProps p \<Rightarrow> appendConnectProperties buf packet (Some p)
      | ConnAckProps p \<Rightarrow> appendConnackProperties buf packet (Some p)
      | SubscribeProps p \<Rightarrow> appendSubscribeProperties buf packet (Some p)
      | SubackProps p \<Rightarrow> appendSubackProperties buf packet (Some p)
      | UnsubscribeProps p \<Rightarrow> appendUnsubscribeProperties buf packet (Some p)
      | UnsubackProps p \<Rightarrow> appendUnsubackProperties buf packet (Some p)
      | PubackProps p \<Rightarrow> appendPubackProperties buf packet (Some p)
      | PubrecProps p \<Rightarrow> appendPubrecProperties buf packet (Some p)
      | PubrelProps p \<Rightarrow> appendPubrelProperties buf packet (Some p)
      | PubcompProps p \<Rightarrow> appendPubcompProperties buf packet (Some p)
      | DisconnectProps p \<Rightarrow> appendDisconnectProperties buf packet (Some p)
      | AuthProps p \<Rightarrow> appendAuthProperties buf packet (Some p))"

definition encodeProperties :: "PacketType \<Rightarrow> Properties option \<Rightarrow> error + bytes" where
  "encodeProperties packet props =
     rbind (case props of None \<Rightarrow> Inr [] | Some p \<Rightarrow> appendProperties [] packet p) (\<lambda>body.
     rbind (writeVBI [] packet ''property length'' (int (length body))) (\<lambda>out.
       Inr (out @ body)))"
section \<open>Property items\<close>

text \<open>
  A property section is a list of items, an identifier with a value. \<open>encItem\<close> is one item on the
  wire, \<open>item_ok\<close> says that the item may appear in the packet and carries a legal value.
\<close>

type_synonym item = "byte \<times> propertyValue"

abbreviation pv_Byte :: "byte \<Rightarrow> propertyValue" where
  "pv_Byte v \<equiv> propertyValue0\<lparr>pv_byteValue := v\<rparr>"

abbreviation pv_Uint16 :: "u16 \<Rightarrow> propertyValue" where
  "pv_Uint16 v \<equiv> propertyValue0\<lparr>pv_uint16Value := v\<rparr>"

abbreviation pv_Uint32 :: "u32 \<Rightarrow> propertyValue" where
  "pv_Uint32 v \<equiv> propertyValue0\<lparr>pv_uint32Value := v\<rparr>"

abbreviation pv_VBI :: "int \<Rightarrow> propertyValue" where
  "pv_VBI v \<equiv> propertyValue0\<lparr>pv_vbiValue := v\<rparr>"

abbreviation pv_Binary :: "bytes \<Rightarrow> propertyValue" where
  "pv_Binary v \<equiv> propertyValue0\<lparr>pv_binaryValue := append_nil v\<rparr>"

abbreviation pv_String :: "string \<Rightarrow> propertyValue" where
  "pv_String v \<equiv> propertyValue0\<lparr>pv_stringValue := v\<rparr>"

abbreviation pv_User :: "User \<Rightarrow> propertyValue" where
  "pv_User v \<equiv> propertyValue0\<lparr>pv_userValue := v\<rparr>"

definition nil_bytes :: "bytes option \<Rightarrow> bytes" where
  "nil_bytes v = (case v of None \<Rightarrow> [] | Some b \<Rightarrow> b)"

definition encValue :: "PropertyValueType \<Rightarrow> propertyValue \<Rightarrow> bytes" where
  "encValue t v =
     (case t of
        propertyByte \<Rightarrow> [pv_byteValue v]
      | propertyTwoByteInteger \<Rightarrow> writeUint16 [] (pv_uint16Value v)
      | propertyFourByteInteger \<Rightarrow> writeUint32 [] (pv_uint32Value v)
      | propertyVariableByteInteger \<Rightarrow> encVBI (pv_vbiValue v)
      | propertyBinaryData \<Rightarrow> encBinary (nil_bytes (pv_binaryValue v))
      | propertyString \<Rightarrow> encString (pv_stringValue v)
      | propertyStringPair \<Rightarrow>
          encString (user_Key (pv_userValue v)) @ encString (user_Value (pv_userValue v)))"

definition valid_value :: "PropertyValueType \<Rightarrow> propertyValue \<Rightarrow> bool" where
  "valid_value t v \<longleftrightarrow>
     (case t of
        propertyByte \<Rightarrow> v = pv_Byte (pv_byteValue v)
      | propertyTwoByteInteger \<Rightarrow> v = pv_Uint16 (pv_uint16Value v)
      | propertyFourByteInteger \<Rightarrow> v = pv_Uint32 (pv_uint32Value v)
      | propertyVariableByteInteger \<Rightarrow> v = pv_VBI (pv_vbiValue v) \<and> valid_vbi (pv_vbiValue v)
      | propertyBinaryData \<Rightarrow>
          v = pv_Binary (nil_bytes (pv_binaryValue v)) \<and> valid_binary (nil_bytes (pv_binaryValue v))
      | propertyString \<Rightarrow> v = pv_String (pv_stringValue v) \<and> valid_string (pv_stringValue v)
      | propertyStringPair \<Rightarrow>
          v = pv_User (pv_userValue v) \<and> valid_string (user_Key (pv_userValue v)) \<and>
          valid_string (user_Value (pv_userValue v)))"

definition encItem :: "item \<Rightarrow> bytes" where
  "encItem it =
     fst it # (case propertySpecs (fst it) of None \<Rightarrow> [] | Some spec \<Rightarrow> encValue (ps_Type spec) (snd it))"

abbreviation encItems :: "item list \<Rightarrow> bytes" where
  "encItems items \<equiv> concat (map encItem items)"

definition item_ok :: "PacketType \<Rightarrow> item \<Rightarrow> bool" where
  "item_ok packet it \<longleftrightarrow>
     (case propertySpecs (fst it) of
        None \<Rightarrow> False
      | Some spec \<Rightarrow>
          packetAllowed spec packet \<and> validatePropertyValue packet spec (snd it) = Inr () \<and>
          valid_value (ps_Type spec) (snd it))"

definition repeatable :: "PacketType \<Rightarrow> byte \<Rightarrow> bool" where
  "repeatable packet pid \<longleftrightarrow>
     (case propertySpecs pid of None \<Rightarrow> False | Some spec \<Rightarrow> propertyRepeatAllowed spec packet)"

definition singles :: "PacketType \<Rightarrow> item list \<Rightarrow> byte list" where
  "singles packet items = filter (\<lambda>pid. \<not> repeatable packet pid) (map fst items)"

definition no_dup :: "PacketType \<Rightarrow> byte list \<Rightarrow> item list \<Rightarrow> bool" where
  "no_dup packet seen items \<longleftrightarrow>
     distinct (singles packet items) \<and> set (singles packet items) \<inter> set seen = {}"

definition assignById :: "Properties \<Rightarrow> byte \<Rightarrow> propertyValue \<Rightarrow> Properties" where
  "assignById props pid v =
     (case assignProperty 0 props
         \<lparr>ps_ID = pid, ps_Name = [], ps_Type = propertyByte, ps_Allowed = 0, ps_Repeat = repeatNever\<rparr> v
      of Inl _ \<Rightarrow> props | Inr p \<Rightarrow> p)"

definition assigns :: "Properties \<Rightarrow> item list \<Rightarrow> Properties" where
  "assigns props items = foldl (\<lambda>ps it. assignById ps (fst it) (snd it)) props items"

lemma assigns_simps [simp]:
  "assigns props [] = props"
  "assigns props (it # items) = assigns (assignById props (fst it) (snd it)) items"
  "assigns props (xs @ ys) = assigns (assigns props xs) ys"
  by (simp_all add: assigns_def)

lemmas assign_defs = assignPublishProperty_def assignConnectProperty_def assignConnackProperty_def
  assignSubscribeProperty_def assignSubackProperty_def assignUnsubscribeProperty_def
  assignUnsubackProperty_def assignPubackProperty_def assignPubrecProperty_def
  assignPubrelProperty_def assignPubcompProperty_def assignDisconnectProperty_def
  assignAuthProperty_def assignReasonUserProperty_def

lemma assignProperty_eq:
  "assignProperty packet props spec v = Inr (assignById props (ps_ID spec) v)"
  by (cases props) (simp_all add: assignProperty_def assignById_def assign_defs split del: if_split,
      simp_all add: if_distrib [of "\<lambda>x. rbind x _"] if_distrib [of Inr] if_distrib [of "case_sum _ _"]
        split del: if_split cong: if_cong)

lemma propertySpecs_ID: "propertySpecs pid = Some spec \<Longrightarrow> ps_ID spec = pid"
  unfolding propertySpecs_def by (auto split: if_splits)

lemma nil_bytes_append_nil [simp]: "nil_bytes (append_nil xs) = xs"
  by (simp add: nil_bytes_def append_nil_def)

lemma append_nil_eq_Some [simp]: "append_nil xs = Some ys \<longleftrightarrow> xs = ys \<and> ys \<noteq> []"
  by (auto simp: append_nil_def)

lemma User_eta: "\<lparr>user_Key = user_Key u, user_Value = user_Value u\<rparr> = u"
  by simp

interpretation value_field: field_codec "encValue (ps_Type spec)"
    "\<lambda>f. readPropertyValue (spec\<lparr>ps_Name := f\<rparr>)" "valid_value (ps_Type spec)"
  for spec :: PropertySpec
proof
  fix x f p pre rest
  assume v: "valid_value (ps_Type spec) x"
  then show "readPropertyValue (spec\<lparr>ps_Name := f\<rparr>) (cur_at p pre (encValue (ps_Type spec) x @ rest)) =
      Inr (x, cur_at p (pre @ encValue (ps_Type spec) x) rest)"
    using u16_field.dec_enc [where x = "pv_uint16Value x"] u32_field.dec_enc [where x = "pv_uint32Value x"]
    by (cases "ps_Type spec")
      (simp_all add: readPropertyValue_def encValue_def valid_value_def vbi_field.dec_enc
        binary_field.dec_enc string_field.dec_enc User_eta)
next
  fix f p pre xs x c
  assume "readPropertyValue (spec\<lparr>ps_Name := f\<rparr>) (cur_at p pre xs) = Inr (x, c)"
  then show "valid_value (ps_Type spec) x \<and> (\<exists>rest. xs = encValue (ps_Type spec) x @ rest \<and>
      c = cur_at p (pre @ encValue (ps_Type spec) x) rest)"
    by (cases "ps_Type spec")
      (auto simp: readPropertyValue_def encValue_def valid_value_def rbind_eq_Inr
        elim!: u16_field.dec_at_obtain u32_field.dec_at_obtain vbi_field.dec_at_obtain
          binary_field.dec_at_obtain string_field.dec_at_obtain split: list.splits)
qed

section \<open>Reading a list of items\<close>

lemma no_dup_simps [simp]:
  "no_dup packet seen []"
  "no_dup packet seen (it # items) \<longleftrightarrow>
     (repeatable packet (fst it) \<or> fst it \<notin> set seen) \<and>
     no_dup packet (if repeatable packet (fst it) then seen else fst it # seen) items"
  by (auto simp: no_dup_def singles_def)

lemma decodeProperties_loop_step:
  assumes "propertySpecs pid = Some spec" "packetAllowed spec packet"
    and "propertyRepeatAllowed spec packet \<or> pid \<notin> set seen"
    and "readPropertyValue spec (cur_at packet (pre @ [pid]) xs) = Inr (v, c)"
    and "validatePropertyValue packet spec v = Inr ()"
  shows "decodeProperties_loop packet seen props (cur_at packet pre (pid # xs)) =
    decodeProperties_loop packet (if propertyRepeatAllowed spec packet then seen else pid # seen)
      (assignById props pid v) c"
  using assms propertySpecs_ID [OF assms(1)]
  by (subst decodeProperties_loop.simps) (auto simp: assignProperty_eq)

lemma readPropertyValue_enc:
  "valid_value (ps_Type spec) v \<Longrightarrow>
     readPropertyValue spec (cur_at p pre (encValue (ps_Type spec) v @ rest)) =
     Inr (v, cur_at p (pre @ encValue (ps_Type spec) v) rest)"
  using value_field.dec_enc [of spec v "ps_Name spec" p pre rest] by simp

lemma decodeProperties_loop_items:
  assumes "list_all (item_ok packet) items" and "no_dup packet seen items"
  shows "decodeProperties_loop packet seen props (cur_at packet pre (encItems items)) =
    Inr (assigns props items)"
  using assms
proof (induction items arbitrary: seen props pre)
  case Nil
  then show ?case by (subst decodeProperties_loop.simps) simp
next
  case (Cons it items)
  obtain spec where spec: "propertySpecs (fst it) = Some spec" "packetAllowed spec packet"
      "validatePropertyValue packet spec (snd it) = Inr ()" "valid_value (ps_Type spec) (snd it)"
    using Cons.prems(1) by (auto simp: item_ok_def split: option.splits)
  have rep: "repeatable packet (fst it) = propertyRepeatAllowed spec packet"
    using spec(1) by (simp add: repeatable_def)
  have enc: "encItems (it # items) = fst it # encValue (ps_Type spec) (snd it) @ encItems items"
    using spec(1) by (simp add: encItem_def)
  show ?case
    unfolding enc
    using Cons.prems decodeProperties_loop_step [OF spec(1,2) _ readPropertyValue_enc [OF spec(4)] spec(3)]
    by (simp add: rep Cons.IH)
qed

lemma decodeProperties_loop_sound:
  assumes "decodeProperties_loop packet seen props (cur_at packet pre xs) = Inr props'"
  shows "\<exists>items. xs = encItems items \<and> list_all (item_ok packet) items \<and>
    no_dup packet seen items \<and> props' = assigns props items"
  using assms
proof (induction "length xs" arbitrary: seen props pre xs rule: less_induct)
  case less
  show ?case
  proof (cases xs)
    case Nil
    then show ?thesis
      using less.prems by (subst (asm) decodeProperties_loop.simps) (auto intro!: exI [of _ "[]"])
  next
    case (Cons pid ys)
    then obtain spec v c where spec: "propertySpecs pid = Some spec" "packetAllowed spec packet"
        "propertyRepeatAllowed spec packet \<or> pid \<notin> set seen"
        and rd: "readPropertyValue spec (cur_at packet (pre @ [pid]) ys) = Inr (v, c)"
        and va: "validatePropertyValue packet spec v = Inr ()"
      using less.prems
      by (subst (asm) decodeProperties_loop.simps)
        (auto simp: rbind_eq_Inr split: option.splits if_splits)
    obtain rest where rest: "valid_value (ps_Type spec) v" "ys = encValue (ps_Type spec) v @ rest"
        "c = cur_at packet ((pre @ [pid]) @ encValue (ps_Type spec) v) rest"
      using value_field.dec_sound [where spec = spec and f = "ps_Name spec"] rd by fastforce
    have rep: "repeatable packet pid = propertyRepeatAllowed spec packet"
      using spec(1) by (simp add: repeatable_def)
    have "decodeProperties_loop packet (if repeatable packet pid then seen else pid # seen)
        (assignById props pid v) (cur_at packet ((pre @ [pid]) @ encValue (ps_Type spec) v) rest) =
      Inr props'"
      using less.prems decodeProperties_loop_step [OF spec rd va, of props]
      unfolding Cons rest(3) rep by simp
    moreover have "length rest < length xs" by (simp add: Cons rest(2))
    ultimately obtain items where "rest = encItems items" "list_all (item_ok packet) items"
        "no_dup packet (if repeatable packet pid then seen else pid # seen) items"
        "props' = assigns (assignById props pid v) items"
      using less.hyps by blast
    then show ?thesis
      using Cons rest spec va rep
      by (intro exI [of _ "(pid, v) # items"]) (auto simp: encItem_def item_ok_def)
  qed
qed

text \<open>A property section: its length as a variable byte integer, then the items.\<close>

definition encSection :: "item list \<Rightarrow> bytes" where
  "encSection items = encVBI (int (length (encItems items))) @ encItems items"

definition section_ok :: "PacketType \<Rightarrow> item list \<Rightarrow> bool" where
  "section_ok packet items \<longleftrightarrow> list_all (item_ok packet) items \<and> no_dup packet [] items \<and>
     int (length (encItems items)) \<le> maxRemainingLength"

lemma decodeProperties_at:
  "decodeProperties (cur_at p pre xs) packet props =
     rbind (readVBI ''property length'' (cur_at p pre xs)) (\<lambda>(n, c).
       if n > remaining c
       then Inl (malformed packet ''property length''
                  ''property length exceeds remaining packet body'')
       else rbind (decodeProperties_loop packet [] props
              (cur_at packet [] (take (nat n) (drop (cur_pos c) (cur_data c))))) (\<lambda>props.
            Inr (props, c\<lparr>cur_pos := cur_pos c + nat n\<rparr>)))"
  unfolding decodeProperties_def newCursor_at Let_def ..

lemma decodeProperties_enc:
  assumes "section_ok packet items"
  shows "decodeProperties (cur_at p pre (encSection items @ rest)) packet props =
    Inr (assigns props items, cur_at p (pre @ encSection items) rest)"
proof -
  let ?n = "int (length (encItems items))"
  have "readVBI ''property length'' (cur_at p pre (encVBI ?n @ encItems items @ rest)) =
      Inr (?n, cur_at p (pre @ encVBI ?n) (encItems items @ rest))"
    using assms by (intro vbi_field.dec_enc) (auto simp: section_ok_def)
  moreover have "decodeProperties_loop packet [] props (cur_at packet [] (encItems items)) =
      Inr (assigns props items)"
    using assms by (intro decodeProperties_loop_items) (auto simp: section_ok_def)
  ultimately show ?thesis
    by (simp add: decodeProperties_at encSection_def) (simp add: cur_at_def)
qed

lemma decodeProperties_sound:
  assumes "decodeProperties (cur_at p pre xs) packet props = Inr (props', c)"
  obtains items rest where "section_ok packet items" "xs = encSection items @ rest"
    "props' = assigns props items" "c = cur_at p (pre @ encSection items) rest"
proof -
  obtain n c1 where 1: "readVBI ''property length'' (cur_at p pre xs) = Inr (n, c1)"
      and n: "n \<le> remaining c1"
      and loop: "decodeProperties_loop packet [] props
        (cur_at packet [] (take (nat n) (drop (cur_pos c1) (cur_data c1)))) = Inr props'"
      and c: "c = c1\<lparr>cur_pos := cur_pos c1 + nat n\<rparr>"
    using assms by (auto simp: decodeProperties_at rbind_eq_Inr split: if_splits)
  obtain r1 where r1: "valid_vbi n" "xs = encVBI n @ r1" "c1 = cur_at p (pre @ encVBI n) r1"
    by (rule vbi_field.dec_at_obtain [OF 1])
  obtain items where items: "take (nat n) r1 = encItems items" "list_all (item_ok packet) items"
      "no_dup packet [] items" "props' = assigns props items"
    using decodeProperties_loop_sound [OF loop] r1(3) by (auto simp: cur_at_def)
  have len: "int (length (encItems items)) = n"
    using n r1 items(1) [symmetric] by simp
  have split: "r1 = encItems items @ drop (nat n) r1"
    using items(1) by (metis append_take_drop_id)
  show thesis
  proof (rule that)
    show "section_ok packet items" using items len r1(1) by (simp add: section_ok_def)
    show "xs = encSection items @ drop (nat n) r1"
      using r1(2) split len by (simp add: encSection_def)
    show "c = cur_at p (pre @ encSection items) (drop (nat n) r1)"
      using c r1(3) split len by (auto simp: encSection_def cur_at_def)
  qed (rule items(4))
qed

section \<open>What the encoders append\<close>

definition opt_item :: "byte \<Rightarrow> ('a \<Rightarrow> propertyValue) \<Rightarrow> 'a option \<Rightarrow> item list" where
  "opt_item pid mk v = (case v of None \<Rightarrow> [] | Some x \<Rightarrow> [(pid, mk x)])"

definition str_item :: "byte \<Rightarrow> string \<Rightarrow> item list" where
  "str_item pid s = (if s = [] then [] else [(pid, pv_String s)])"

definition user_items :: "User list \<Rightarrow> item list" where
  "user_items us = map (\<lambda>u. (PropUser, pv_User u)) us"

definition subid_items :: "int list \<Rightarrow> item list" where
  "subid_items ids = map (\<lambda>n. (PropSubscriptionIdentifier, pv_VBI n)) ids"

fun items_of :: "Properties \<Rightarrow> item list" where
  "items_of (PublishProps p) =
     opt_item PropPayloadFormat pv_Byte (pp_PayloadFormat p) @
     opt_item PropMessageExpiry pv_Uint32 (pp_MessageExpiry p) @
     opt_item PropWillDelayInterval pv_Uint32 (pp_WillDelayInterval p) @
     str_item PropContentType (pp_ContentType p) @
     str_item PropResponseTopic (pp_ResponseTopic p) @
     opt_item PropCorrelationData pv_Binary (pp_CorrelationData p) @
     opt_item PropTopicAlias pv_Uint16 (pp_TopicAlias p) @
     subid_items (pp_SubscriptionIdentifier p) @
     user_items (pp_User p)"
| "items_of (ConnectProps p) =
     opt_item PropSessionExpiryInterval pv_Uint32 (cnp_SessionExpiryInterval p) @
     str_item PropAuthMethod (cnp_AuthMethod p) @
     opt_item PropAuthData pv_Binary (cnp_AuthData p) @
     opt_item PropRequestProblemInfo pv_Byte (cnp_RequestProblemInfo p) @
     opt_item PropRequestResponseInfo pv_Byte (cnp_RequestResponseInfo p) @
     opt_item PropReceiveMaximum pv_Uint16 (cnp_ReceiveMaximum p) @
     opt_item PropTopicAliasMaximum pv_Uint16 (cnp_TopicAliasMaximum p) @
     opt_item PropMaximumPacketSize pv_Uint32 (cnp_MaximumPacketSize p) @
     user_items (cnp_User p)"
| "items_of (ConnAckProps p) =
     opt_item PropSessionExpiryInterval pv_Uint32 (cap_SessionExpiryInterval p) @
     str_item PropAssignedClientID (cap_AssignedClientID p) @
     str_item PropAuthMethod (cap_AuthMethod p) @
     str_item PropResponseInfo (cap_ResponseInfo p) @
     str_item PropServerReference (cap_ServerReference p) @
     str_item PropReasonString (cap_ReasonString p) @
     opt_item PropServerKeepAlive pv_Uint16 (cap_ServerKeepAlive p) @
     opt_item PropAuthData pv_Binary (cap_AuthData p) @
     opt_item PropReceiveMaximum pv_Uint16 (cap_ReceiveMaximum p) @
     opt_item PropTopicAliasMaximum pv_Uint16 (cap_TopicAliasMaximum p) @
     opt_item PropMaximumQOS pv_Byte (cap_MaximumQOS p) @
     opt_item PropRetainAvailable pv_Byte (cap_RetainAvailable p) @
     opt_item PropWildcardSubAvailable pv_Byte (cap_WildcardSubAvailable p) @
     opt_item PropSubIDAvailable pv_Byte (cap_SubIDAvailable p) @
     opt_item PropSharedSubAvailable pv_Byte (cap_SharedSubAvailable p) @
     opt_item PropMaximumPacketSize pv_Uint32 (cap_MaximumPacketSize p) @
     user_items (cap_User p)"
| "items_of (SubscribeProps p) =
     opt_item PropSubscriptionIdentifier pv_VBI (sbp_SubscriptionIdentifier p) @
     user_items (sbp_User p)"
| "items_of (SubackProps p) =
     str_item PropReasonString (sap_ReasonString p) @
     user_items (sap_User p)"
| "items_of (UnsubscribeProps p) =
     user_items (usp_User p)"
| "items_of (UnsubackProps p) =
     str_item PropReasonString (uap_ReasonString p) @
     user_items (uap_User p)"
| "items_of (PubackProps p) =
     str_item PropReasonString (pap_ReasonString p) @
     user_items (pap_User p)"
| "items_of (PubrecProps p) =
     str_item PropReasonString (prp_ReasonString p) @
     user_items (prp_User p)"
| "items_of (PubrelProps p) =
     str_item PropReasonString (plp_ReasonString p) @
     user_items (plp_User p)"
| "items_of (PubcompProps p) =
     str_item PropReasonString (pcp_ReasonString p) @
     user_items (pcp_User p)"
| "items_of (DisconnectProps p) =
     opt_item PropSessionExpiryInterval pv_Uint32 (dsp_SessionExpiryInterval p) @
     str_item PropServerReference (dsp_ServerReference p) @
     str_item PropReasonString (dsp_ReasonString p) @
     user_items (dsp_User p)"
| "items_of (AuthProps p) =
     str_item PropAuthMethod (aup_AuthMethod p) @
     opt_item PropAuthData pv_Binary (aup_AuthData p) @
     str_item PropReasonString (aup_ReasonString p) @
     user_items (aup_User p)"

text \<open>A function on buffers that, when it succeeds, has appended exactly these items.\<close>

definition appends :: "(bytes \<Rightarrow> error + bytes) \<Rightarrow> PacketType \<Rightarrow> item list \<Rightarrow> bool" where
  "appends f packet items \<longleftrightarrow>
     (\<forall>buf b. f buf = Inr b \<longleftrightarrow> list_all (item_ok packet) items \<and> b = buf @ encItems items)"

named_theorems appends_intros

lemma appends_Nil [appends_intros]: "appends Inr packet []"
  by (auto simp: appends_def)

lemma appends_bind:
  assumes "appends f packet xs" and "appends g packet ys"
  shows "appends (\<lambda>buf. rbind (f buf) g) packet (xs @ ys)"
  using assms by (auto simp: appends_def rbind_eq_Inr)

definition prop_type :: "byte \<Rightarrow> PropertyValueType option" where
  "prop_type pid = map_option ps_Type (propertySpecs pid)"

lemma prop_types [simp]:
  "prop_type PropPayloadFormat = Some propertyByte"
  "prop_type PropMessageExpiry = Some propertyFourByteInteger"
  "prop_type PropContentType = Some propertyString"
  "prop_type PropResponseTopic = Some propertyString"
  "prop_type PropCorrelationData = Some propertyBinaryData"
  "prop_type PropSubscriptionIdentifier = Some propertyVariableByteInteger"
  "prop_type PropSessionExpiryInterval = Some propertyFourByteInteger"
  "prop_type PropAssignedClientID = Some propertyString"
  "prop_type PropServerKeepAlive = Some propertyTwoByteInteger"
  "prop_type PropAuthMethod = Some propertyString"
  "prop_type PropAuthData = Some propertyBinaryData"
  "prop_type PropRequestProblemInfo = Some propertyByte"
  "prop_type PropWillDelayInterval = Some propertyFourByteInteger"
  "prop_type PropRequestResponseInfo = Some propertyByte"
  "prop_type PropResponseInfo = Some propertyString"
  "prop_type PropServerReference = Some propertyString"
  "prop_type PropReasonString = Some propertyString"
  "prop_type PropReceiveMaximum = Some propertyTwoByteInteger"
  "prop_type PropTopicAliasMaximum = Some propertyTwoByteInteger"
  "prop_type PropTopicAlias = Some propertyTwoByteInteger"
  "prop_type PropMaximumQOS = Some propertyByte"
  "prop_type PropRetainAvailable = Some propertyByte"
  "prop_type PropUser = Some propertyStringPair"
  "prop_type PropMaximumPacketSize = Some propertyFourByteInteger"
  "prop_type PropWildcardSubAvailable = Some propertyByte"
  "prop_type PropSubIDAvailable = Some propertyByte"
  "prop_type PropSharedSubAvailable = Some propertyByte"
  by (simp_all add: prop_type_def propertySpecs_def)

lemma prop_type_obtain:
  assumes "prop_type pid = Some t"
  obtains spec where "propertySpecs pid = Some spec" "ps_Type spec = t" "ps_ID spec = pid"
  using assms propertySpecs_ID by (auto simp: prop_type_def)

lemma appends_header:
  assumes "prop_type pid = Some t"
    and "\<And>spec buf b. propertySpecs pid = Some spec \<Longrightarrow> ps_ID spec = pid \<Longrightarrow> w buf = Inr b \<longleftrightarrow>
      validatePropertyValue packet spec v = Inr () \<and> valid_value t v \<and> b = buf @ encValue t v"
  shows "appends (\<lambda>buf. rbind (appendPropertyHeader buf packet pid) w) packet [(pid, v)]"
proof -
  obtain spec where "propertySpecs pid = Some spec" "ps_Type spec = t" "ps_ID spec = pid"
    by (rule prop_type_obtain [OF assms(1)])
  then show ?thesis
    using assms(2)
    by (auto simp: appends_def rbind_eq_Inr appendPropertyHeader_def item_ok_def encItem_def)
qed

lemma valid_value_simps [simp]:
  "valid_value propertyByte (pv_Byte b)"
  "valid_value propertyTwoByteInteger (pv_Uint16 w)"
  "valid_value propertyFourByteInteger (pv_Uint32 d)"
  "valid_value propertyVariableByteInteger (pv_VBI n) \<longleftrightarrow> valid_vbi n"
  "valid_value propertyBinaryData (pv_Binary xs) \<longleftrightarrow> valid_binary xs"
  "valid_value propertyString (pv_String s) \<longleftrightarrow> valid_string s"
  "valid_value propertyStringPair (pv_User u) \<longleftrightarrow> valid_string (user_Key u) \<and> valid_string (user_Value u)"
  by (simp_all add: valid_value_def)

lemma encValue_simps [simp]:
  "encValue propertyByte (pv_Byte b) = [b]"
  "encValue propertyTwoByteInteger (pv_Uint16 w) = writeUint16 [] w"
  "encValue propertyFourByteInteger (pv_Uint32 d) = writeUint32 [] d"
  "encValue propertyVariableByteInteger (pv_VBI n) = encVBI n"
  "encValue propertyBinaryData (pv_Binary xs) = encBinary xs"
  "encValue propertyString (pv_String s) = encString s"
  "encValue propertyStringPair (pv_User u) = encString (user_Key u) @ encString (user_Value u)"
  by (simp_all add: encValue_def)

lemma rbind_unit_iff: "rbind m (\<lambda>_ :: unit. r) = Inr b \<longleftrightarrow> m = Inr () \<and> r = Inr b"
  by (auto simp: rbind_eq_Inr)

lemma appends_Byte:
  "prop_type pid = Some propertyByte \<Longrightarrow>
     appends (\<lambda>buf. appendPropByte buf packet pid v) packet [(pid, pv_Byte v)]"
  unfolding appendPropByte_def
  by (rule appends_header) (auto simp: validateSpecOf_def rbind_unit_iff)

lemma appends_Uint16:
  "prop_type pid = Some propertyTwoByteInteger \<Longrightarrow>
     appends (\<lambda>buf. appendPropUint16 buf packet pid v) packet [(pid, pv_Uint16 v)]"
  unfolding appendPropUint16_def
  by (rule appends_header) (auto simp: validateSpecOf_def rbind_unit_iff writeUint16_def)

lemma appends_Uint32:
  "prop_type pid = Some propertyFourByteInteger \<Longrightarrow>
     appends (\<lambda>buf. appendPropUint32 buf packet pid v) packet [(pid, pv_Uint32 v)]"
  unfolding appendPropUint32_def
  by (rule appends_header) (auto simp: validateSpecOf_def rbind_unit_iff writeUint32_def)

lemma appends_VBI:
  "prop_type pid = Some propertyVariableByteInteger \<Longrightarrow>
     appends (\<lambda>buf. appendPropVBI buf packet pid v) packet [(pid, pv_VBI v)]"
  unfolding appendPropVBI_def
  by (rule appends_header) (auto simp: validateSpecOf_def rbind_unit_iff writeVBI_Inr_iff)

lemma appends_String:
  "prop_type pid = Some propertyString \<Longrightarrow>
     appends (\<lambda>buf. appendPropString buf packet pid v) packet [(pid, pv_String v)]"
  unfolding appendPropString_def
  by (rule appends_header) (auto simp: validateSpecOf_def rbind_unit_iff writeString_Inr_iff)

lemma appends_Binary:
  assumes "pid = PropCorrelationData \<or> pid = PropAuthData"
  shows "appends (\<lambda>buf. appendPropBinary buf packet pid v) packet [(pid, pv_Binary v)]"
  unfolding appendPropBinary_def
proof (rule appends_header)
  show "prop_type pid = Some propertyBinaryData" using assms by auto
qed (use assms in \<open>auto simp: validatePropertyValue_def writeBinary_Inr_iff\<close>)

lemma appends_User:
  "appends (\<lambda>buf. rbind (appendPropertyHeader buf packet PropUser) (\<lambda>buf.
     rbind (writeString buf packet ''User Property key'' (user_Key u)) (\<lambda>buf.
       writeString buf packet ''User Property value'' (user_Value u)))) packet [(PropUser, pv_User u)]"
  by (rule appends_header [OF prop_types(23)])
    (auto simp: validatePropertyValue_def writeString_Inr_iff rbind_eq_Inr)

lemma rbind_assoc: "rbind (rbind m f) g = rbind m (\<lambda>x. rbind (f x) g)"
  by (cases m) auto

lemma appends_Users: "appends (\<lambda>buf. appendUserProperties buf packet us) packet (user_items us)"
proof (induction us)
  case Nil
  then show ?case using appends_Nil by (simp add: user_items_def)
next
  case (Cons u us)
  then show ?case
    using appends_bind [OF appends_User [of packet u] Cons] by (simp add: user_items_def rbind_assoc)
qed

lemma appends_SubscriptionIdentifiers:
  "appends (\<lambda>buf. appendSubscriptionIdentifiers buf packet ids) packet (subid_items ids)"
proof (induction ids)
  case Nil
  then show ?case using appends_Nil by (simp add: subid_items_def)
next
  case (Cons n ids)
  then show ?case
    using appends_bind [OF appends_VBI [of PropSubscriptionIdentifier packet n] Cons]
    by (simp add: subid_items_def)
qed

lemma appends_ifSome:
  assumes "\<And>x. appends (\<lambda>buf. app buf x) packet [(pid, mk x)]"
  shows "appends (\<lambda>buf. ifSome buf v app) packet (opt_item pid mk v)"
  using assms appends_Nil by (cases v) (simp_all add: ifSome_def opt_item_def)

lemma appends_ifNonEmpty:
  "prop_type pid = Some propertyString \<Longrightarrow>
     appends (\<lambda>buf. ifNonEmpty buf s (\<lambda>buf. appendPropString buf packet pid)) packet (str_item pid s)"
  using appends_Nil appends_String [of pid packet s] by (simp add: ifNonEmpty_def str_item_def)

lemma appends_ReasonUser:
  "appends (\<lambda>buf. appendReasonUserProperties buf packet r us) packet
     (str_item PropReasonString r @ user_items us)"
  unfolding appendReasonUserProperties_def
  by (intro appends_bind appends_ifNonEmpty appends_Users) simp

lemma appends_StringProps:
  "list_all (\<lambda>(pid, s). prop_type pid = Some propertyString) ps \<Longrightarrow>
     appends (\<lambda>buf. appendStringProps buf packet ps) packet (concat (map (\<lambda>(pid, s). str_item pid s) ps))"
proof (induction ps)
  case Nil
  then show ?case using appends_Nil by simp
next
  case (Cons x ps)
  then show ?case
    using appends_bind [OF appends_ifNonEmpty] by (cases x) simp
qed

lemma appends_ByteProps:
  "list_all (\<lambda>(pid, v). prop_type pid = Some propertyByte) ps \<Longrightarrow>
     appends (\<lambda>buf. appendByteProps buf packet ps) packet (concat (map (\<lambda>(pid, v). opt_item pid pv_Byte v) ps))"
proof (induction ps)
  case Nil
  then show ?case using appends_Nil by simp
next
  case (Cons x ps)
  then show ?case
    by (cases x) (auto intro!: appends_bind appends_ifSome appends_Byte)
qed

lemmas append_defs = appendPublishProperties_def appendConnectProperties_def
  appendConnackProperties_def appendSubscribeProperties_def appendSubackProperties_def
  appendUnsubscribeProperties_def appendUnsubackProperties_def appendPubackProperties_def
  appendPubrecProperties_def appendPubrelProperties_def appendPubcompProperties_def
  appendDisconnectProperties_def appendAuthProperties_def

lemma appends_Connack:
  "appends (\<lambda>buf. appendConnackProperties buf packet (Some p)) packet (items_of (ConnAckProps p))"
proof -
  note str = appends_StringProps [of "[(PropAssignedClientID, cap_AssignedClientID p),
      (PropAuthMethod, cap_AuthMethod p), (PropResponseInfo, cap_ResponseInfo p),
      (PropServerReference, cap_ServerReference p), (PropReasonString, cap_ReasonString p)]" packet]
  note byt = appends_ByteProps [of "[(PropMaximumQOS, cap_MaximumQOS p),
      (PropRetainAvailable, cap_RetainAvailable p),
      (PropWildcardSubAvailable, cap_WildcardSubAvailable p),
      (PropSubIDAvailable, cap_SubIDAvailable p),
      (PropSharedSubAvailable, cap_SharedSubAvailable p)]" packet]
  have "appends (\<lambda>buf. appendConnackProperties buf packet (Some p)) packet
    (opt_item PropSessionExpiryInterval pv_Uint32 (cap_SessionExpiryInterval p) @
     (str_item PropAssignedClientID (cap_AssignedClientID p) @
      str_item PropAuthMethod (cap_AuthMethod p) @ str_item PropResponseInfo (cap_ResponseInfo p) @
      str_item PropServerReference (cap_ServerReference p) @
      str_item PropReasonString (cap_ReasonString p)) @
     opt_item PropServerKeepAlive pv_Uint16 (cap_ServerKeepAlive p) @
     opt_item PropAuthData pv_Binary (cap_AuthData p) @
     opt_item PropReceiveMaximum pv_Uint16 (cap_ReceiveMaximum p) @
     opt_item PropTopicAliasMaximum pv_Uint16 (cap_TopicAliasMaximum p) @
     (opt_item PropMaximumQOS pv_Byte (cap_MaximumQOS p) @
      opt_item PropRetainAvailable pv_Byte (cap_RetainAvailable p) @
      opt_item PropWildcardSubAvailable pv_Byte (cap_WildcardSubAvailable p) @
      opt_item PropSubIDAvailable pv_Byte (cap_SubIDAvailable p) @
      opt_item PropSharedSubAvailable pv_Byte (cap_SharedSubAvailable p)) @
     opt_item PropMaximumPacketSize pv_Uint32 (cap_MaximumPacketSize p) @
     user_items (cap_User p))"
    unfolding appendConnackProperties_def option.case
    using str byt
    by (intro appends_bind appends_ifSome appends_ifNonEmpty appends_Users
        appends_Uint16 appends_Uint32 appends_Binary) simp_all
  then show ?thesis by simp
qed

lemma appends_Properties: "appends (\<lambda>buf. appendProperties buf packet props) packet (items_of props)"
  using appends_Connack
  by (cases props)
    (simp_all add: appendProperties_def append_defs appends_Connack [unfolded append_defs option.case items_of.simps],
     (intro appends_bind appends_ifSome appends_ifNonEmpty appends_ReasonUser appends_Users
        appends_SubscriptionIdentifiers appends_Byte appends_Uint16 appends_Uint32 appends_VBI
        appends_Binary; simp)+)

lemma encodeProperties_Some_iff:
  "encodeProperties packet (Some props) = Inr b \<longleftrightarrow>
     list_all (item_ok packet) (items_of props) \<and>
     int (length (encItems (items_of props))) \<le> maxRemainingLength \<and> b = encSection (items_of props)"
  using appends_Properties [of packet props]
  by (auto simp: encodeProperties_def appends_def rbind_eq_Inr writeVBI_Inr_iff encSection_def)

lemma encodeProperties_None: "encodeProperties packet None = Inr (encSection [])"
  by (simp add: encodeProperties_def writeVBI_def encodeRemainingLength_def encSection_def)

section \<open>The items of a struct give the struct back\<close>

definition canon_nil :: "bytes option \<Rightarrow> bytes option" where
  "canon_nil v = (case v of None \<Rightarrow> None | Some b \<Rightarrow> append_nil b)"

text \<open>\<open>canonProps\<close>: a present but empty binary property is decoded as an absent one.\<close>

fun canonProps :: "Properties \<Rightarrow> Properties" where
  "canonProps (PublishProps p) = PublishProps (p\<lparr>pp_CorrelationData := canon_nil (pp_CorrelationData p)\<rparr>)"
| "canonProps (ConnectProps p) = ConnectProps (p\<lparr>cnp_AuthData := canon_nil (cnp_AuthData p)\<rparr>)"
| "canonProps (ConnAckProps p) = ConnAckProps (p\<lparr>cap_AuthData := canon_nil (cap_AuthData p)\<rparr>)"
| "canonProps (AuthProps p) = AuthProps (p\<lparr>aup_AuthData := canon_nil (aup_AuthData p)\<rparr>)"
| "canonProps props = props"

fun zero_of :: "Properties \<Rightarrow> Properties" where
  "zero_of (PublishProps p) = PublishProps PublishProperties0"
| "zero_of (ConnectProps p) = ConnectProps ConnectProperties0"
| "zero_of (ConnAckProps p) = ConnAckProps ConnAckProperties0"
| "zero_of (SubscribeProps p) = SubscribeProps SubscribeProperties0"
| "zero_of (SubackProps p) = SubackProps SubackProperties0"
| "zero_of (UnsubscribeProps p) = UnsubscribeProps UnsubscribeProperties0"
| "zero_of (UnsubackProps p) = UnsubackProps UnsubackProperties0"
| "zero_of (PubackProps p) = PubackProps PubackProperties0"
| "zero_of (PubrecProps p) = PubrecProps PubrecProperties0"
| "zero_of (PubrelProps p) = PubrelProps PubrelProperties0"
| "zero_of (PubcompProps p) = PubcompProps PubcompProperties0"
| "zero_of (DisconnectProps p) = DisconnectProps DisconnectProperties0"
| "zero_of (AuthProps p) = AuthProps AuthProperties0"

definition or_else :: "'a option \<Rightarrow> 'a option \<Rightarrow> 'a option" where
  "or_else v w = (case v of None \<Rightarrow> w | Some x \<Rightarrow> Some x)"

lemma or_else_None [simp]: "or_else v None = v"
  by (cases v) (simp_all add: or_else_def)

lemmas assign_step_defs = assignById_def assignProperty_def assign_defs opt_item_def str_item_def
  or_else_def canon_nil_def

lemma assigns_Publish [simp]:
  "assigns (PublishProps p) (opt_item PropPayloadFormat pv_Byte vb) =
     PublishProps (p\<lparr>pp_PayloadFormat := or_else vb (pp_PayloadFormat p)\<rparr>)"
  "assigns (PublishProps p) (opt_item PropMessageExpiry pv_Uint32 vd) =
     PublishProps (p\<lparr>pp_MessageExpiry := or_else vd (pp_MessageExpiry p)\<rparr>)"
  "assigns (PublishProps p) (opt_item PropWillDelayInterval pv_Uint32 vd) =
     PublishProps (p\<lparr>pp_WillDelayInterval := or_else vd (pp_WillDelayInterval p)\<rparr>)"
  "assigns (PublishProps p) (str_item PropContentType s) =
     PublishProps (p\<lparr>pp_ContentType := (if s = [] then pp_ContentType p else s)\<rparr>)"
  "assigns (PublishProps p) (str_item PropResponseTopic s) =
     PublishProps (p\<lparr>pp_ResponseTopic := (if s = [] then pp_ResponseTopic p else s)\<rparr>)"
  "assigns (PublishProps p) (opt_item PropCorrelationData pv_Binary vx) =
     PublishProps (p\<lparr>pp_CorrelationData := (if vx = None then pp_CorrelationData p else canon_nil vx)\<rparr>)"
  "assigns (PublishProps p) (opt_item PropTopicAlias pv_Uint16 vw) =
     PublishProps (p\<lparr>pp_TopicAlias := or_else vw (pp_TopicAlias p)\<rparr>)"
  by (simp_all add: assign_step_defs split: option.splits)

lemma assigns_users_Publish [simp]:
  "assigns (PublishProps p) (user_items us) =
     PublishProps (p\<lparr>pp_User := pp_User p @ us\<rparr>)"
  by (induction us arbitrary: p) (simp_all add: user_items_def assign_step_defs)

lemma assigns_Connect [simp]:
  "assigns (ConnectProps p) (opt_item PropSessionExpiryInterval pv_Uint32 vd) =
     ConnectProps (p\<lparr>cnp_SessionExpiryInterval := or_else vd (cnp_SessionExpiryInterval p)\<rparr>)"
  "assigns (ConnectProps p) (str_item PropAuthMethod s) =
     ConnectProps (p\<lparr>cnp_AuthMethod := (if s = [] then cnp_AuthMethod p else s)\<rparr>)"
  "assigns (ConnectProps p) (opt_item PropAuthData pv_Binary vx) =
     ConnectProps (p\<lparr>cnp_AuthData := (if vx = None then cnp_AuthData p else canon_nil vx)\<rparr>)"
  "assigns (ConnectProps p) (opt_item PropRequestProblemInfo pv_Byte vb) =
     ConnectProps (p\<lparr>cnp_RequestProblemInfo := or_else vb (cnp_RequestProblemInfo p)\<rparr>)"
  "assigns (ConnectProps p) (opt_item PropRequestResponseInfo pv_Byte vb) =
     ConnectProps (p\<lparr>cnp_RequestResponseInfo := or_else vb (cnp_RequestResponseInfo p)\<rparr>)"
  "assigns (ConnectProps p) (opt_item PropReceiveMaximum pv_Uint16 vw) =
     ConnectProps (p\<lparr>cnp_ReceiveMaximum := or_else vw (cnp_ReceiveMaximum p)\<rparr>)"
  "assigns (ConnectProps p) (opt_item PropTopicAliasMaximum pv_Uint16 vw) =
     ConnectProps (p\<lparr>cnp_TopicAliasMaximum := or_else vw (cnp_TopicAliasMaximum p)\<rparr>)"
  "assigns (ConnectProps p) (opt_item PropMaximumPacketSize pv_Uint32 vd) =
     ConnectProps (p\<lparr>cnp_MaximumPacketSize := or_else vd (cnp_MaximumPacketSize p)\<rparr>)"
  by (simp_all add: assign_step_defs split: option.splits)

lemma assigns_users_Connect [simp]:
  "assigns (ConnectProps p) (user_items us) =
     ConnectProps (p\<lparr>cnp_User := cnp_User p @ us\<rparr>)"
  by (induction us arbitrary: p) (simp_all add: user_items_def assign_step_defs)

lemma assigns_Connack [simp]:
  "assigns (ConnAckProps p) (opt_item PropSessionExpiryInterval pv_Uint32 vd) =
     ConnAckProps (p\<lparr>cap_SessionExpiryInterval := or_else vd (cap_SessionExpiryInterval p)\<rparr>)"
  "assigns (ConnAckProps p) (str_item PropAssignedClientID s) =
     ConnAckProps (p\<lparr>cap_AssignedClientID := (if s = [] then cap_AssignedClientID p else s)\<rparr>)"
  "assigns (ConnAckProps p) (str_item PropAuthMethod s) =
     ConnAckProps (p\<lparr>cap_AuthMethod := (if s = [] then cap_AuthMethod p else s)\<rparr>)"
  "assigns (ConnAckProps p) (str_item PropResponseInfo s) =
     ConnAckProps (p\<lparr>cap_ResponseInfo := (if s = [] then cap_ResponseInfo p else s)\<rparr>)"
  "assigns (ConnAckProps p) (str_item PropServerReference s) =
     ConnAckProps (p\<lparr>cap_ServerReference := (if s = [] then cap_ServerReference p else s)\<rparr>)"
  "assigns (ConnAckProps p) (str_item PropReasonString s) =
     ConnAckProps (p\<lparr>cap_ReasonString := (if s = [] then cap_ReasonString p else s)\<rparr>)"
  "assigns (ConnAckProps p) (opt_item PropServerKeepAlive pv_Uint16 vw) =
     ConnAckProps (p\<lparr>cap_ServerKeepAlive := or_else vw (cap_ServerKeepAlive p)\<rparr>)"
  "assigns (ConnAckProps p) (opt_item PropAuthData pv_Binary vx) =
     ConnAckProps (p\<lparr>cap_AuthData := (if vx = None then cap_AuthData p else canon_nil vx)\<rparr>)"
  "assigns (ConnAckProps p) (opt_item PropReceiveMaximum pv_Uint16 vw) =
     ConnAckProps (p\<lparr>cap_ReceiveMaximum := or_else vw (cap_ReceiveMaximum p)\<rparr>)"
  "assigns (ConnAckProps p) (opt_item PropTopicAliasMaximum pv_Uint16 vw) =
     ConnAckProps (p\<lparr>cap_TopicAliasMaximum := or_else vw (cap_TopicAliasMaximum p)\<rparr>)"
  "assigns (ConnAckProps p) (opt_item PropMaximumQOS pv_Byte vb) =
     ConnAckProps (p\<lparr>cap_MaximumQOS := or_else vb (cap_MaximumQOS p)\<rparr>)"
  "assigns (ConnAckProps p) (opt_item PropRetainAvailable pv_Byte vb) =
     ConnAckProps (p\<lparr>cap_RetainAvailable := or_else vb (cap_RetainAvailable p)\<rparr>)"
  "assigns (ConnAckProps p) (opt_item PropWildcardSubAvailable pv_Byte vb) =
     ConnAckProps (p\<lparr>cap_WildcardSubAvailable := or_else vb (cap_WildcardSubAvailable p)\<rparr>)"
  "assigns (ConnAckProps p) (opt_item PropSubIDAvailable pv_Byte vb) =
     ConnAckProps (p\<lparr>cap_SubIDAvailable := or_else vb (cap_SubIDAvailable p)\<rparr>)"
  "assigns (ConnAckProps p) (opt_item PropSharedSubAvailable pv_Byte vb) =
     ConnAckProps (p\<lparr>cap_SharedSubAvailable := or_else vb (cap_SharedSubAvailable p)\<rparr>)"
  "assigns (ConnAckProps p) (opt_item PropMaximumPacketSize pv_Uint32 vd) =
     ConnAckProps (p\<lparr>cap_MaximumPacketSize := or_else vd (cap_MaximumPacketSize p)\<rparr>)"
  by (simp_all add: assign_step_defs split: option.splits)

lemma assigns_users_Connack [simp]:
  "assigns (ConnAckProps p) (user_items us) =
     ConnAckProps (p\<lparr>cap_User := cap_User p @ us\<rparr>)"
  by (induction us arbitrary: p) (simp_all add: user_items_def assign_step_defs)

lemma assigns_Subscribe [simp]:
  "assigns (SubscribeProps p) (opt_item PropSubscriptionIdentifier pv_VBI vi) =
     SubscribeProps (p\<lparr>sbp_SubscriptionIdentifier := or_else vi (sbp_SubscriptionIdentifier p)\<rparr>)"
  by (simp_all add: assign_step_defs split: option.splits)

lemma assigns_users_Subscribe [simp]:
  "assigns (SubscribeProps p) (user_items us) =
     SubscribeProps (p\<lparr>sbp_User := sbp_User p @ us\<rparr>)"
  by (induction us arbitrary: p) (simp_all add: user_items_def assign_step_defs)

lemma assigns_Suback [simp]:
  "assigns (SubackProps p) (str_item PropReasonString s) =
     SubackProps (p\<lparr>sap_ReasonString := (if s = [] then sap_ReasonString p else s)\<rparr>)"
  by (simp_all add: assign_step_defs split: option.splits)

lemma assigns_users_Suback [simp]:
  "assigns (SubackProps p) (user_items us) =
     SubackProps (p\<lparr>sap_User := sap_User p @ us\<rparr>)"
  by (induction us arbitrary: p) (simp_all add: user_items_def assign_step_defs)

lemma assigns_users_Unsubscribe [simp]:
  "assigns (UnsubscribeProps p) (user_items us) =
     UnsubscribeProps (p\<lparr>usp_User := usp_User p @ us\<rparr>)"
  by (induction us arbitrary: p) (simp_all add: user_items_def assign_step_defs)

lemma assigns_Unsuback [simp]:
  "assigns (UnsubackProps p) (str_item PropReasonString s) =
     UnsubackProps (p\<lparr>uap_ReasonString := (if s = [] then uap_ReasonString p else s)\<rparr>)"
  by (simp_all add: assign_step_defs split: option.splits)

lemma assigns_users_Unsuback [simp]:
  "assigns (UnsubackProps p) (user_items us) =
     UnsubackProps (p\<lparr>uap_User := uap_User p @ us\<rparr>)"
  by (induction us arbitrary: p) (simp_all add: user_items_def assign_step_defs)

lemma assigns_Puback [simp]:
  "assigns (PubackProps p) (str_item PropReasonString s) =
     PubackProps (p\<lparr>pap_ReasonString := (if s = [] then pap_ReasonString p else s)\<rparr>)"
  by (simp_all add: assign_step_defs split: option.splits)

lemma assigns_users_Puback [simp]:
  "assigns (PubackProps p) (user_items us) =
     PubackProps (p\<lparr>pap_User := pap_User p @ us\<rparr>)"
  by (induction us arbitrary: p) (simp_all add: user_items_def assign_step_defs)

lemma assigns_Pubrec [simp]:
  "assigns (PubrecProps p) (str_item PropReasonString s) =
     PubrecProps (p\<lparr>prp_ReasonString := (if s = [] then prp_ReasonString p else s)\<rparr>)"
  by (simp_all add: assign_step_defs split: option.splits)

lemma assigns_users_Pubrec [simp]:
  "assigns (PubrecProps p) (user_items us) =
     PubrecProps (p\<lparr>prp_User := prp_User p @ us\<rparr>)"
  by (induction us arbitrary: p) (simp_all add: user_items_def assign_step_defs)

lemma assigns_Pubrel [simp]:
  "assigns (PubrelProps p) (str_item PropReasonString s) =
     PubrelProps (p\<lparr>plp_ReasonString := (if s = [] then plp_ReasonString p else s)\<rparr>)"
  by (simp_all add: assign_step_defs split: option.splits)

lemma assigns_users_Pubrel [simp]:
  "assigns (PubrelProps p) (user_items us) =
     PubrelProps (p\<lparr>plp_User := plp_User p @ us\<rparr>)"
  by (induction us arbitrary: p) (simp_all add: user_items_def assign_step_defs)

lemma assigns_Pubcomp [simp]:
  "assigns (PubcompProps p) (str_item PropReasonString s) =
     PubcompProps (p\<lparr>pcp_ReasonString := (if s = [] then pcp_ReasonString p else s)\<rparr>)"
  by (simp_all add: assign_step_defs split: option.splits)

lemma assigns_users_Pubcomp [simp]:
  "assigns (PubcompProps p) (user_items us) =
     PubcompProps (p\<lparr>pcp_User := pcp_User p @ us\<rparr>)"
  by (induction us arbitrary: p) (simp_all add: user_items_def assign_step_defs)

lemma assigns_Disconnect [simp]:
  "assigns (DisconnectProps p) (opt_item PropSessionExpiryInterval pv_Uint32 vd) =
     DisconnectProps (p\<lparr>dsp_SessionExpiryInterval := or_else vd (dsp_SessionExpiryInterval p)\<rparr>)"
  "assigns (DisconnectProps p) (str_item PropServerReference s) =
     DisconnectProps (p\<lparr>dsp_ServerReference := (if s = [] then dsp_ServerReference p else s)\<rparr>)"
  "assigns (DisconnectProps p) (str_item PropReasonString s) =
     DisconnectProps (p\<lparr>dsp_ReasonString := (if s = [] then dsp_ReasonString p else s)\<rparr>)"
  by (simp_all add: assign_step_defs split: option.splits)

lemma assigns_users_Disconnect [simp]:
  "assigns (DisconnectProps p) (user_items us) =
     DisconnectProps (p\<lparr>dsp_User := dsp_User p @ us\<rparr>)"
  by (induction us arbitrary: p) (simp_all add: user_items_def assign_step_defs)

lemma assigns_Auth [simp]:
  "assigns (AuthProps p) (str_item PropAuthMethod s) =
     AuthProps (p\<lparr>aup_AuthMethod := (if s = [] then aup_AuthMethod p else s)\<rparr>)"
  "assigns (AuthProps p) (opt_item PropAuthData pv_Binary vx) =
     AuthProps (p\<lparr>aup_AuthData := (if vx = None then aup_AuthData p else canon_nil vx)\<rparr>)"
  "assigns (AuthProps p) (str_item PropReasonString s) =
     AuthProps (p\<lparr>aup_ReasonString := (if s = [] then aup_ReasonString p else s)\<rparr>)"
  by (simp_all add: assign_step_defs split: option.splits)

lemma assigns_users_Auth [simp]:
  "assigns (AuthProps p) (user_items us) =
     AuthProps (p\<lparr>aup_User := aup_User p @ us\<rparr>)"
  by (induction us arbitrary: p) (simp_all add: user_items_def assign_step_defs)

lemma assigns_subids [simp]:
  "assigns (PublishProps p) (subid_items ids) =
     PublishProps (p\<lparr>pp_SubscriptionIdentifier := pp_SubscriptionIdentifier p @ ids\<rparr>)"
  by (induction ids arbitrary: p) (simp_all add: subid_items_def assign_step_defs)

lemma assigns_items_of: "assigns (zero_of props) (items_of props) = canonProps props"
proof (cases props)
  case (PublishProps p)
  then show ?thesis by (cases p) (simp add: props0_defs canon_nil_def)
next
  case (ConnectProps p)
  then show ?thesis by (cases p) (simp add: props0_defs canon_nil_def)
next
  case (ConnAckProps p)
  then show ?thesis by (cases p) (simp add: props0_defs canon_nil_def)
qed (simp_all add: props0_defs canon_nil_def)

section \<open>No duplicates, and what a decoded section re-encodes to\<close>

text \<open>The packets a property struct belongs to.\<close>

fun props_for :: "PacketType \<Rightarrow> Properties \<Rightarrow> bool" where
  "props_for packet (PublishProps p) \<longleftrightarrow> packet = PUBLISH \<or> packet = WILLPROPERTIES"
| "props_for packet (ConnectProps p) \<longleftrightarrow> packet = CONNECT"
| "props_for packet (ConnAckProps p) \<longleftrightarrow> packet = CONNACK"
| "props_for packet (SubscribeProps p) \<longleftrightarrow> packet = SUBSCRIBE"
| "props_for packet (SubackProps p) \<longleftrightarrow> packet = SUBACK"
| "props_for packet (UnsubscribeProps p) \<longleftrightarrow> packet = UNSUBSCRIBE"
| "props_for packet (UnsubackProps p) \<longleftrightarrow> packet = UNSUBACK"
| "props_for packet (PubackProps p) \<longleftrightarrow> packet = PUBACK"
| "props_for packet (PubrecProps p) \<longleftrightarrow> packet = PUBREC"
| "props_for packet (PubrelProps p) \<longleftrightarrow> packet = PUBREL"
| "props_for packet (PubcompProps p) \<longleftrightarrow> packet = PUBCOMP"
| "props_for packet (DisconnectProps p) \<longleftrightarrow> packet = DISCONNECT"
| "props_for packet (AuthProps p) \<longleftrightarrow> packet = AUTH"

lemma singles_append [simp]: "singles packet (xs @ ys) = singles packet xs @ singles packet ys"
  by (simp add: singles_def)

lemma singles_items:
  "set (singles packet (opt_item pid mk v)) \<subseteq> {pid}"
  "set (singles packet (str_item pid s)) \<subseteq> {pid}"
  "distinct (singles packet (opt_item pid mk v))"
  "distinct (singles packet (str_item pid s))"
  by (auto simp: singles_def opt_item_def str_item_def split: option.splits)

lemma singles_users [simp]: "singles packet (user_items us) = []"
  by (simp add: singles_def user_items_def filter_empty_conv repeatable_def propertySpecs_def
      propertyRepeatAllowed_def)

lemma singles_subids [simp]: "singles PUBLISH (subid_items ids) = []"
  by (simp add: singles_def subid_items_def filter_empty_conv repeatable_def propertySpecs_def
      propertyRepeatAllowed_def)

lemma subids_not_in_will:
  "list_all (item_ok WILLPROPERTIES) (subid_items ids) \<Longrightarrow> ids = []"
  by (cases ids) (simp_all add: subid_items_def item_ok_def propertySpecs_def packetAllowed_def mask_def)

lemma distinct_singles_opt:
  "pid \<notin> set (singles packet rest) \<Longrightarrow> distinct (singles packet rest) \<Longrightarrow>
     distinct (singles packet (opt_item pid mk v @ rest))"
  "pid \<notin> set (singles packet rest) \<Longrightarrow> distinct (singles packet rest) \<Longrightarrow>
     distinct (singles packet (str_item pid s @ rest))"
  using singles_items(1) [of packet pid mk v] singles_items(3) [of packet pid mk v]
    singles_items(2) [of packet pid s] singles_items(4) [of packet pid s] by auto

lemma notin_singles_opt:
  "pid \<noteq> pid' \<Longrightarrow> pid \<notin> set (singles packet rest) \<Longrightarrow> pid \<notin> set (singles packet (opt_item pid' mk v @ rest))"
  "pid \<noteq> pid' \<Longrightarrow> pid \<notin> set (singles packet rest) \<Longrightarrow> pid \<notin> set (singles packet (str_item pid' s @ rest))"
  using singles_items(1) [of packet pid' mk v] singles_items(2) [of packet pid' s] by auto

lemma singles_last:
  "pid \<notin> set (singles packet (user_items us))" "distinct (singles packet (user_items us))"
  by simp_all

lemma no_dup_items_of:
  assumes "props_for packet props" and "list_all (item_ok packet) (items_of props)"
  shows "no_dup packet [] (items_of props)"
proof (cases props)
  case (PublishProps p)
  then have "singles packet (subid_items (pp_SubscriptionIdentifier p)) = []"
    using assms subids_not_in_will [of "pp_SubscriptionIdentifier p"]
    by (cases "packet = PUBLISH") (auto simp: subid_items_def [of "[]"] singles_def [of _ "[]"])
  then have tail: "singles packet (subid_items (pp_SubscriptionIdentifier p) @ user_items (pp_User p)) = []"
    by simp
  show ?thesis
    unfolding no_dup_def PublishProps items_of.simps
    by (intro conjI distinct_singles_opt notin_singles_opt) (simp_all only: tail, simp_all)
qed (use assms in \<open>simp_all only: no_dup_def items_of.simps list.set Int_empty_right simp_thms,
     (intro distinct_singles_opt notin_singles_opt singles_last; simp)+\<close>)

lemma item_ok_valid: "item_ok packet (pid, v) \<Longrightarrow> prop_type pid = Some t \<Longrightarrow> valid_value t v"
  by (auto simp: item_ok_def prop_type_def split: option.splits)

lemma valid_value_items [simp]:
  "valid_value propertyByte v \<Longrightarrow> opt_item pid pv_Byte (Some (pv_byteValue v)) = [(pid, v)]"
  "valid_value propertyTwoByteInteger v \<Longrightarrow> opt_item pid pv_Uint16 (Some (pv_uint16Value v)) = [(pid, v)]"
  "valid_value propertyFourByteInteger v \<Longrightarrow> opt_item pid pv_Uint32 (Some (pv_uint32Value v)) = [(pid, v)]"
  "valid_value propertyVariableByteInteger v \<Longrightarrow> opt_item pid pv_VBI (Some (pv_vbiValue v)) = [(pid, v)]"
  "valid_value propertyBinaryData v \<Longrightarrow> opt_item pid pv_Binary (pv_binaryValue v) =
     (if pv_binaryValue v = None then [] else [(pid, v)])"
  "valid_value propertyString v \<Longrightarrow> str_item pid (pv_stringValue v) =
     (if pv_stringValue v = [] then [] else [(pid, v)])"
  "valid_value propertyStringPair v \<Longrightarrow> user_items (us @ [pv_userValue v]) = user_items us @ [(PropUser, v)]"
  "valid_value propertyVariableByteInteger v \<Longrightarrow> subid_items (ids @ [pv_vbiValue v]) =
     subid_items ids @ [(PropSubscriptionIdentifier, v)]"
  by (auto simp: valid_value_def opt_item_def str_item_def user_items_def subid_items_def nil_bytes_def
      split: option.splits)

definition items_le :: "item list \<Rightarrow> item \<Rightarrow> item list \<Rightarrow> bool" where
  "items_le old it new \<longleftrightarrow> set new \<subseteq> insert it (set old) \<and>
     length (encItems new) \<le> length (encItems old) + length (encItem it)"

lemma items_le_simps:
  "items_le xs it xs"
  "items_le old it []"
  "items_le old it [it]"
  "items_le old it (old @ [it])"
  "items_le (old @ b) it b"
  "items_le (old @ b) it (it # b)"
  "items_le (old @ b) it (old @ it # b)"
  "items_le old it new \<Longrightarrow> items_le (a @ old) it (a @ new)"
  "items_le old it new \<Longrightarrow> items_le (old @ b) it (new @ b)"
  by (auto simp: items_le_def)

lemma items_le_assign:
  assumes "item_ok packet (pid, v)"
  shows "items_le (items_of props) (pid, v) (items_of (assignById props pid v))"
proof -
  have val: "prop_type pid = Some t \<Longrightarrow> valid_value t v" for t
    by (rule item_ok_valid [OF assms])
  show ?thesis
    by (cases props)
      (simp_all add: assignById_def assignProperty_def assign_defs items_le_simps val)
qed

lemma assigns_items:
  assumes "list_all (item_ok packet) items"
  shows "set (items_of (assigns props items)) \<subseteq> set items \<union> set (items_of props) \<and>
    length (encItems (items_of (assigns props items))) \<le>
      length (encItems (items_of props)) + length (encItems items)"
  using assms
proof (induction items arbitrary: props)
  case (Cons it items)
  then have "items_le (items_of props) it (items_of (assignById props (fst it) (snd it)))"
    using items_le_assign [of packet "fst it" "snd it"] by simp
  then show ?case
    using Cons.IH [of "assignById props (fst it) (snd it)"] Cons.prems by (auto simp: items_le_def)
qed simp

lemma zero_of_assignById [simp]: "zero_of (assignById props pid v) = zero_of props"
  by (cases props) (simp_all add: assignById_def assignProperty_def assign_defs)

lemma zero_of_assigns [simp]: "zero_of (assigns props items) = zero_of props"
  by (induction items arbitrary: props) simp_all

lemma props_for_zero_of: "props_for packet (zero_of props) = props_for packet props"
  by (cases props) simp_all

lemma items_of_zero [simp]: "items_of (zero_of props) = []"
  by (cases props) (simp_all add: props0_defs opt_item_def str_item_def user_items_def subid_items_def)

text \<open>
  What the decoder accepts can be encoded again: the result of decoding a section has a section of
  its own, no longer than the one that was read, that decodes to the same struct.
\<close>

lemma canonProps_fixed:
  "canonProps (PublishProps p) = PublishProps p \<longleftrightarrow> canon_nil (pp_CorrelationData p) = pp_CorrelationData p"
  "canonProps (ConnectProps q) = ConnectProps q \<longleftrightarrow> canon_nil (cnp_AuthData q) = cnp_AuthData q"
  "canonProps (ConnAckProps r) = ConnAckProps r \<longleftrightarrow> canon_nil (cap_AuthData r) = cap_AuthData r"
  "canonProps (AuthProps s) = AuthProps s \<longleftrightarrow> canon_nil (aup_AuthData s) = aup_AuthData s"
  by (cases p, simp) (cases q, simp, cases r, simp, cases s, simp)

lemma canonProps_assignById:
  assumes "canonProps props = props" and "item_ok packet (pid, v)"
  shows "canonProps (assignById props pid v) = assignById props pid v"
proof -
  have bin: "prop_type pid = Some propertyBinaryData \<Longrightarrow> canon_nil (pv_binaryValue v) = pv_binaryValue v"
    using item_ok_valid [OF assms(2)]
    by (cases "pv_binaryValue v") (auto simp: canon_nil_def valid_value_def nil_bytes_def append_nil_def)
  show ?thesis
    using assms(1)
    by (cases props)
      (simp_all add: assignById_def assignProperty_def assign_defs canonProps_fixed bin
        del: canonProps.simps(1-4))
qed

lemma canonProps_zero [simp]: "canonProps (zero_of props) = zero_of props"
  by (cases props) (simp_all add: props0_defs canon_nil_def)

lemma canonProps_assigns:
  "canonProps props = props \<Longrightarrow> list_all (item_ok packet) items \<Longrightarrow>
     canonProps (assigns props items) = assigns props items"
proof (induction items arbitrary: props)
  case (Cons it items)
  then show ?case
    using canonProps_assignById [of props packet "fst it" "snd it"] by simp
qed simp

lemma decoded_section_ok:
  assumes "section_ok packet items" and "props_for packet props" and "zero_of props = props"
  shows "section_ok packet (items_of (assigns props items))"
    and "length (encItems (items_of (assigns props items))) \<le> length (encItems items)"
proof -
  have all: "list_all (item_ok packet) items" and le: "int (length (encItems items)) \<le> maxRemainingLength"
    using assms(1) by (auto simp: section_ok_def)
  have "items_of props = []" using items_of_zero [of props] assms(3) by simp
  with assigns_items [OF all, of props]
  have sub: "set (items_of (assigns props items)) \<subseteq> set items"
    and len: "length (encItems (items_of (assigns props items))) \<le> length (encItems items)" by auto
  have "list_all (item_ok packet) (items_of (assigns props items))"
    using sub all by (auto simp: list_all_iff)
  moreover have "props_for packet (assigns props items)"
    using props_for_zero_of [of packet "assigns props items"] props_for_zero_of [of packet props]
      assms(2) by simp
  ultimately show "section_ok packet (items_of (assigns props items))"
    using no_dup_items_of le len by (auto simp: section_ok_def)
  show "length (encItems (items_of (assigns props items))) \<le> length (encItems items)"
    by (rule len)
qed

end
