(* ===== verification/Wire_Codec.thy ===== *)
theory Wire_Codec
  imports Wire_Props
begin

text \<open>
  Packets on the wire (\<open>pkg/mqtt5/wire/codec.go\<close>, \<open>reason.go\<close>, \<open>reader.go\<close>, \<open>writer.go\<close>): the
  decoder and the encoder of every packet body, and \<open>Decode\<close> and \<open>Encode\<close> of a whole control packet
  with the fixed header and the size limits. \<open>pkg/mqtt5/packetsize\<close> is at the end of the definitions.

  Lemmas: every encoder is inverted by the decoder of its packet up to \<open>canonPacket\<close>, the form the
  decoder builds, and every decoded packet can be encoded again in no more bytes.
\<close>

section \<open>Reason codes\<close>

definition validReasonCodes :: "PacketType \<Rightarrow> byte set option" where
  "validReasonCodes = map_of [
     (CONNACK, set [
       ConnAckSuccess, ConnAckUnspecifiedError, ConnAckMalformedPacket,
       ConnAckProtocolError, ConnAckImplementationSpecificError,
       ConnAckUnsupportedProtocolVersion, ConnAckInvalidClientID,
       ConnAckBadUsernameOrPassword, ConnAckNotAuthorized, ConnAckServerUnavailable,
       ConnAckServerBusy, ConnAckBanned, ConnAckBadAuthenticationMethod,
       ConnAckTopicNameInvalid, ConnAckPacketTooLarge, ConnAckQuotaExceeded,
       ConnAckPayloadFormatInvalid, ConnAckRetainNotSupported, ConnAckQoSNotSupported,
       ConnAckUseAnotherServer, ConnAckServerMoved, ConnAckConnectionRateExceeded]),
     (PUBACK, set [
       PubackSuccess, PubackNoMatchingSubscribers, PubackUnspecifiedError,
       PubackImplementationSpecificError, PubackNotAuthorized, PubackTopicNameInvalid,
       PubackPacketIdentifierInUse, PubackQuotaExceeded, PubackPayloadFormatInvalid,
       PubackRetainNotSupported, PubackQoSNotSupported]),
     (PUBREC, set [
       PubrecSuccess, PubrecNoMatchingSubscribers, PubrecUnspecifiedError,
       PubrecImplementationSpecificError, PubrecNotAuthorized, PubrecTopicNameInvalid,
       PubrecPacketIdentifierInUse, PubrecQuotaExceeded, PubrecPayloadFormatInvalid,
       PubrecRetainNotSupported, PubrecQoSNotSupported]),
     (PUBREL, set [
       PubrelSuccess, PubrelPacketIdentifierNotFound]),
     (PUBCOMP, set [
       PubcompSuccess, PubcompPacketIdentifierNotFound]),
     (SUBACK, set [
       SubackGrantedQoS0, SubackGrantedQoS1, SubackGrantedQoS2, SubackUnspecifiederror,
       SubackImplementationspecificerror, SubackNotauthorized, SubackTopicFilterinvalid,
       SubackPacketIdentifierinuse, SubackQuotaexceeded,
       SubackSharedSubscriptionnotsupported, SubackSubscriptionIdentifiersnotsupported,
       SubackWildcardsubscriptionsnotsupported]),
     (UNSUBACK, set [
       UnsubackSuccess, UnsubackNoSubscriptionFound, UnsubackUnspecifiedError,
       UnsubackImplementationSpecificError, UnsubackNotAuthorized,
       UnsubackTopicFilterInvalid, UnsubackPacketIdentifierInUse]),
     (DISCONNECT, set [
       DisconnectNormalDisconnection, DisconnectDisconnectWithWillMessage,
       DisconnectUnspecifiedError, DisconnectMalformedPacket, DisconnectProtocolError,
       DisconnectImplementationSpecificError, DisconnectNotAuthorized,
       DisconnectServerBusy, DisconnectServerShuttingDown,
       DisconnectBadAuthenticationMethod, DisconnectKeepAliveTimeout,
       DisconnectSessionTakenOver, DisconnectTopicFilterInvalid,
       DisconnectTopicNameInvalid, DisconnectReceiveMaximumExceeded,
       DisconnectTopicAliasInvalid, DisconnectPacketTooLarge,
       DisconnectMessageRateTooHigh, DisconnectQuotaExceeded,
       DisconnectAdministrativeAction, DisconnectPayloadFormatInvalid,
       DisconnectRetainNotSupported, DisconnectQoSNotSupported,
       DisconnectUseAnotherServer, DisconnectServerMoved,
       DisconnectSharedSubscriptionNotSupported, DisconnectConnectionRateExceeded,
       DisconnectMaximumConnectTime, DisconnectSubscriptionIdentifiersNotSupported,
       DisconnectWildcardSubscriptionsNotSupported]),
     (AUTH, set [
       AuthSuccess, AuthContinueAuthentication, AuthReauthenticate])]"

definition validateReason :: "PacketType \<Rightarrow> byte \<Rightarrow> error + unit" where
  "validateReason packet code =
     (case validReasonCodes packet of
        None \<Rightarrow> Inl (malformed packet ''reason code'' ''reason code is not valid for packet'')
      | Some codes \<Rightarrow>
          (if code \<in> codes then Inr ()
           else Inl (malformed packet ''reason code'' ''reason code is not valid for packet'')))"

fun validateReasons :: "PacketType \<Rightarrow> bytes \<Rightarrow> error + unit" where
  "validateReasons packet [] = Inr ()"
| "validateReasons packet (reason # reasons) =
     rbind (validateReason packet reason) (\<lambda>_. validateReasons packet reasons)"

definition validateTopicFilter :: "PacketType \<Rightarrow> string \<Rightarrow> string \<Rightarrow> error + unit" where
  "validateTopicFilter packet field topic =
     (case ValidateTopicFilterSyntax topic of
        Inl err \<Rightarrow> Inl (malformed packet field (topicFilterError err))
      | Inr () \<Rightarrow> Inr ())"

section \<open>Decoding\<close>

text \<open>
  \<open>decodeProperties\<close> fills the struct its caller points to; the functions below read that struct
  back from the interface value.
\<close>

fun unPublishProps :: "Properties \<Rightarrow> PublishProperties" where
  "unPublishProps (PublishProps p) = p"
| "unPublishProps _ = PublishProperties0"

fun unConnectProps :: "Properties \<Rightarrow> ConnectProperties" where
  "unConnectProps (ConnectProps p) = p"
| "unConnectProps _ = ConnectProperties0"

fun unConnAckProps :: "Properties \<Rightarrow> ConnAckProperties" where
  "unConnAckProps (ConnAckProps p) = p"
| "unConnAckProps _ = ConnAckProperties0"

fun unSubscribeProps :: "Properties \<Rightarrow> SubscribeProperties" where
  "unSubscribeProps (SubscribeProps p) = p"
| "unSubscribeProps _ = SubscribeProperties0"

fun unSubackProps :: "Properties \<Rightarrow> SubackProperties" where
  "unSubackProps (SubackProps p) = p"
| "unSubackProps _ = SubackProperties0"

fun unUnsubscribeProps :: "Properties \<Rightarrow> UnsubscribeProperties" where
  "unUnsubscribeProps (UnsubscribeProps p) = p"
| "unUnsubscribeProps _ = UnsubscribeProperties0"

fun unUnsubackProps :: "Properties \<Rightarrow> UnsubackProperties" where
  "unUnsubackProps (UnsubackProps p) = p"
| "unUnsubackProps _ = UnsubackProperties0"

fun unPubackProps :: "Properties \<Rightarrow> PubackProperties" where
  "unPubackProps (PubackProps p) = p"
| "unPubackProps _ = PubackProperties0"

fun unPubrecProps :: "Properties \<Rightarrow> PubrecProperties" where
  "unPubrecProps (PubrecProps p) = p"
| "unPubrecProps _ = PubrecProperties0"

fun unPubrelProps :: "Properties \<Rightarrow> PubrelProperties" where
  "unPubrelProps (PubrelProps p) = p"
| "unPubrelProps _ = PubrelProperties0"

fun unPubcompProps :: "Properties \<Rightarrow> PubcompProperties" where
  "unPubcompProps (PubcompProps p) = p"
| "unPubcompProps _ = PubcompProperties0"

fun unDisconnectProps :: "Properties \<Rightarrow> DisconnectProperties" where
  "unDisconnectProps (DisconnectProps p) = p"
| "unDisconnectProps _ = DisconnectProperties0"

fun unAuthProps :: "Properties \<Rightarrow> AuthProperties" where
  "unAuthProps (AuthProps p) = p"
| "unAuthProps _ = AuthProperties0"

definition unpackConnectFlags :: "Connect \<Rightarrow> byte \<Rightarrow> error + Connect" where
  "unpackConnectFlags out flags =
     (if flags AND 1 \<noteq> 0
      then Inl (malformed CONNECT ''connect flags'' ''reserved bit must be zero'')
      else
        (let out = out\<lparr>cn_CleanStart := (flags AND 2 \<noteq> 0),
                       cn_WillFlag := (flags AND 4 \<noteq> 0),
                       cn_WillQOS := drop_bit 3 flags AND 3,
                       cn_WillRetain := (flags AND 32 \<noteq> 0),
                       cn_PasswordFlag := (flags AND 64 \<noteq> 0),
                       cn_UsernameFlag := (flags AND 128 \<noteq> 0)\<rparr>
         in if \<not> cn_WillFlag out \<and> cn_WillQOS out \<noteq> 0
            then Inl (malformed CONNECT ''connect flags''
                       ''will QoS must be zero when will flag is false'')
            else if \<not> cn_WillFlag out \<and> cn_WillRetain out
            then Inl (malformed CONNECT ''connect flags''
                       ''will retain must be false when will flag is false'')
            else if cn_WillQOS out = 3
            then Inl (malformed CONNECT ''connect flags'' ''will QoS 3 is reserved'')
            else if cn_PasswordFlag out \<and> \<not> cn_UsernameFlag out
            then Inl (malformed CONNECT ''connect flags'' ''password flag requires username flag'')
            else Inr out))"

text \<open>The three optional parts of the CONNECT payload, in the order they are read.\<close>

definition decodeConnectWill :: "Connect \<Rightarrow> cursor \<Rightarrow> error + Connect \<times> cursor" where
  "decodeConnectWill out cur =
     (if cn_WillFlag out then
        rbind (decodeProperties cur WILLPROPERTIES (PublishProps PublishProperties0)) (\<lambda>(props, cur).
        rbind (readString ''will topic'' cur) (\<lambda>(topic, cur).
        rbind (validateTopicName CONNECT ''will topic'' topic False) (\<lambda>_.
        rbind (readBinary ''will message'' cur) (\<lambda>(msg, cur).
          Inr (out\<lparr>cn_WillProperties := Some (unPublishProps props), cn_WillTopic := topic,
                   cn_WillMessage := msg\<rparr>, cur)))))
      else Inr (out, cur))"

definition decodeConnectUsername :: "Connect \<Rightarrow> cursor \<Rightarrow> error + Connect \<times> cursor" where
  "decodeConnectUsername out cur =
     (if cn_UsernameFlag out then
        rbind (readString ''username'' cur) (\<lambda>(name, cur). Inr (out\<lparr>cn_Username := name\<rparr>, cur))
      else Inr (out, cur))"

definition decodeConnectPassword :: "Connect \<Rightarrow> cursor \<Rightarrow> error + Connect \<times> cursor" where
  "decodeConnectPassword out cur =
     (if cn_PasswordFlag out then
        rbind (readBinary ''password'' cur) (\<lambda>(pw, cur). Inr (out\<lparr>cn_Password := pw\<rparr>, cur))
      else Inr (out, cur))"

definition decodeConnect :: "cursor \<Rightarrow> error + Connect \<times> cursor" where
  "decodeConnect cur =
     (let out = Connect0\<lparr>cn_Properties := Some ConnectProperties0\<rparr> in
      rbind (readString ''protocol name'' cur) (\<lambda>(name, cur).
        (if name \<noteq> ''MQTT''
         then Inl (malformed CONNECT ''protocol name'' ''protocol name must be MQTT'')
         else
           (let out = out\<lparr>cn_ProtocolName := name\<rparr> in
            rbind (readByte ''protocol version'' cur) (\<lambda>(version, cur).
              (if version \<noteq> 5 then Inl (unsupportedVersion version)
               else
                 (let out = out\<lparr>cn_ProtocolVersion := version\<rparr> in
                  rbind (readByte ''connect flags'' cur) (\<lambda>(flags, cur).
                  rbind (unpackConnectFlags out flags) (\<lambda>out.
                  rbind (readUint16 ''keep alive'' cur) (\<lambda>(keepAlive, cur).
                  rbind (decodeProperties cur CONNECT (ConnectProps ConnectProperties0)) (\<lambda>(props, cur).
                  rbind (readString ''client id'' cur) (\<lambda>(clientID, cur).
                  rbind (decodeConnectWill
                          (out\<lparr>cn_KeepAlive := keepAlive, cn_Properties := Some (unConnectProps props),
                               cn_ClientID := clientID\<rparr>) cur) (\<lambda>(out, cur).
                  rbind (decodeConnectUsername out cur) (\<lambda>(out, cur).
                    decodeConnectPassword out cur))))))))))))))"

definition decodeConnack :: "cursor \<Rightarrow> error + ConnAck \<times> cursor" where
  "decodeConnack cur =
     rbind (readByte ''acknowledge flags'' cur) (\<lambda>(flags, cur).
       if flags AND 0xfe \<noteq> 0
       then Inl (malformed CONNACK ''acknowledge flags'' ''reserved bits must be zero'')
       else
         (let sessionPresent = (flags AND 1 \<noteq> 0) in
          rbind (readByte ''reason code'' cur) (\<lambda>(reason, cur).
          rbind (validateReason CONNACK reason) (\<lambda>_.
            (if reason \<noteq> ConnAckSuccess \<and> sessionPresent
             then Inl (malformed CONNACK ''session present''
                        ''session present must be false for unsuccessful CONNACK'')
             else
               rbind (decodeProperties cur CONNACK (ConnAckProps ConnAckProperties0)) (\<lambda>(props, cur).
                 Inr (\<lparr>ca_Properties = Some (unConnAckProps props), ca_ReasonCode = reason,
                       ca_SessionPresent = sessionPresent\<rparr>, cur)))))))"

definition decodePublish :: "cursor \<Rightarrow> byte \<Rightarrow> error + Publish \<times> cursor" where
  "decodePublish cur flags =
     (let dup = (flags AND 8 \<noteq> 0);
          qos = drop_bit 1 flags AND 3;
          retain = (flags AND 1 \<noteq> 0)
      in if qos = 3 then Inl (malformed PUBLISH ''qos'' ''PUBLISH QoS 3 is reserved'')
         else
           rbind (readString ''topic name'' cur) (\<lambda>(topic, cur).
           rbind (if qos > 0 then
                    rbind (readUint16 ''packet identifier'' cur) (\<lambda>(pid, cur).
                      if pid = 0
                      then Inl (malformed PUBLISH ''packet identifier''
                                 ''packet identifier must be non-zero'')
                      else Inr (pid, cur))
                  else Inr (0, cur)) (\<lambda>(pid, cur).
           rbind (decodeProperties cur PUBLISH (PublishProps PublishProperties0)) (\<lambda>(props, cur).
           rbind (if topic = [] then
                    (if pp_TopicAlias (unPublishProps props) = None
                     then Inl (malformed PUBLISH ''topic name''
                                ''topic name is required unless topic alias is present'')
                     else Inr ())
                  else validateTopicName PUBLISH ''topic name'' topic False) (\<lambda>_.
             Inr (\<lparr>pub_Payload = drop (cur_pos cur) (cur_data cur), pub_Topic = topic,
                   pub_Properties = Some (unPublishProps props), pub_PacketID = pid, pub_QoS = qos,
                   pub_Duplicate = dup, pub_Retain = retain\<rparr>,
                  cur\<lparr>cur_pos := length (cur_data cur)\<rparr>))))))"

text \<open>The property struct of an acknowledgement that \<open>decodeAckProperties\<close> passes on.\<close>

definition decodeAckProperties :: "cursor \<Rightarrow> PacketType \<Rightarrow> Packet \<Rightarrow> error + Packet \<times> cursor" where
  "decodeAckProperties cur packetType out =
     (case out of
        PPuback p \<Rightarrow>
          rbind (decodeProperties cur packetType (PubackProps (the (pa_Properties p)))) (\<lambda>(props, cur).
            Inr (PPuback (p\<lparr>pa_Properties := Some (unPubackProps props)\<rparr>), cur))
      | PPubrec p \<Rightarrow>
          rbind (decodeProperties cur packetType (PubrecProps (the (pr_Properties p)))) (\<lambda>(props, cur).
            Inr (PPubrec (p\<lparr>pr_Properties := Some (unPubrecProps props)\<rparr>), cur))
      | PPubrel p \<Rightarrow>
          rbind (decodeProperties cur packetType (PubrelProps (the (pl_Properties p)))) (\<lambda>(props, cur).
            Inr (PPubrel (p\<lparr>pl_Properties := Some (unPubrelProps props)\<rparr>), cur))
      | PPubcomp p \<Rightarrow>
          rbind (decodeProperties cur packetType (PubcompProps (the (pc_Properties p)))) (\<lambda>(props, cur).
            Inr (PPubcomp (p\<lparr>pc_Properties := Some (unPubcompProps props)\<rparr>), cur))
      | _ \<Rightarrow> Inl (implementation packetType ''packet'' ''unsupported ack packet''))"

text \<open>The last step of \<open>decodeAck\<close>: identifier and reason into the struct.\<close>

definition setAck :: "Packet \<Rightarrow> u16 \<Rightarrow> byte \<Rightarrow> Packet" where
  "setAck out packetID reason =
     (case out of
        PPuback p \<Rightarrow> PPuback (p\<lparr>pa_PacketID := packetID, pa_ReasonCode := reason\<rparr>)
      | PPubrec p \<Rightarrow> PPubrec (p\<lparr>pr_PacketID := packetID, pr_ReasonCode := reason\<rparr>)
      | PPubrel p \<Rightarrow> PPubrel (p\<lparr>pl_PacketID := packetID, pl_ReasonCode := reason\<rparr>)
      | PPubcomp p \<Rightarrow> PPubcomp (p\<lparr>pc_PacketID := packetID, pc_ReasonCode := reason\<rparr>)
      | p \<Rightarrow> p)"

definition decodeAck :: "cursor \<Rightarrow> PacketType \<Rightarrow> Packet \<Rightarrow> error + Packet \<times> cursor" where
  "decodeAck cur packetType out =
     rbind (readUint16 ''packet identifier'' cur) (\<lambda>(packetID, cur).
       if packetID = 0
       then Inl (malformed packetType ''packet identifier'' ''packet identifier must be non-zero'')
       else
         rbind (if remaining cur > 0 then
                  rbind (readByte ''reason code'' cur) (\<lambda>(reason, cur).
                  rbind (validateReason packetType reason) (\<lambda>_. Inr (reason, cur)))
                else Inr (0, cur)) (\<lambda>(reason, cur).
         rbind (if remaining cur > 0 then decodeAckProperties cur packetType out
                else Inr (out, cur)) (\<lambda>(out, cur).
           Inr (setAck out packetID reason, cur))))"

text \<open>The loop of \<open>decodeSubscribe\<close> over the topic filters.\<close>

function decodeSubscribe_loop :: "SubOptions list \<Rightarrow> cursor \<Rightarrow> error + SubOptions list \<times> cursor" where
  "decodeSubscribe_loop subs cur =
     (if remaining cur > 0 then
        rbind (readString ''topic filter'' cur) (\<lambda>(topic, cur1).
        rbind (readByte ''subscription options'' cur1) (\<lambda>(opts, cur2).
          (let sub = \<lparr>so_Topic = topic, so_QoS = opts AND 3,
                      so_RetainHandling = drop_bit 4 opts AND 3, so_NoLocal = (opts AND 4 \<noteq> 0),
                      so_RetainAsPublished = (opts AND 8 \<noteq> 0)\<rparr>
           in if so_QoS sub = 3
              then Inl (malformed SUBSCRIBE ''subscription options'' ''QoS 3 is reserved'')
              else if so_RetainHandling sub = 3
              then Inl (malformed SUBSCRIBE ''subscription options'' ''retain handling 3 is reserved'')
              else if opts AND 0xc0 \<noteq> 0
              then Inl (malformed SUBSCRIBE ''subscription options'' ''reserved bits must be zero'')
              else
                rbind (validateTopicFilter SUBSCRIBE ''topic filter'' topic) (\<lambda>_.
                  decodeSubscribe_loop (subs @ [sub]) cur2))))
      else Inr (subs, cur))"
  by pat_completeness auto
termination
  by (relation "measure (\<lambda>(subs, c). nat (remaining c))")
    (auto dest!: readByte_pos readString_pos)

declare decodeSubscribe_loop.simps [simp del]

text \<open>The Packet Identifier that opens SUBSCRIBE, SUBACK, UNSUBSCRIBE and UNSUBACK.\<close>

definition readPacketID :: "PacketType \<Rightarrow> cursor \<Rightarrow> error + u16 \<times> cursor" where
  "readPacketID packetType cur =
     rbind (readUint16 ''packet identifier'' cur) (\<lambda>(pid, cur).
       if pid = 0
       then Inl (malformed packetType ''packet identifier'' ''packet identifier must be non-zero'')
       else Inr (pid, cur))"

definition decodeSubscribe :: "cursor \<Rightarrow> error + Subscribe \<times> cursor" where
  "decodeSubscribe cur =
     rbind (readPacketID SUBSCRIBE cur) (\<lambda>(pid, cur).
     rbind (decodeProperties cur SUBSCRIBE (SubscribeProps SubscribeProperties0)) (\<lambda>(props, cur).
     rbind (decodeSubscribe_loop [] cur) (\<lambda>(subs, cur).
       if subs = []
       then Inl (malformed SUBSCRIBE ''topic filters'' ''at least one topic filter is required'')
       else Inr (\<lparr>sb_Properties = Some (unSubscribeProps props), sb_Subscriptions = subs,
                  sb_PacketID = pid\<rparr>, cur))))"

text \<open>The tail of SUBACK and UNSUBACK: the rest of the body is the list of reason codes.\<close>

definition readReasons :: "PacketType \<Rightarrow> cursor \<Rightarrow> error + bytes \<times> cursor" where
  "readReasons packetType cur =
     (let reasons = drop (cur_pos cur) (cur_data cur)
      in if reasons = []
         then Inl (malformed packetType ''reason codes'' ''at least one reason code is required'')
         else
           rbind (validateReasons packetType reasons) (\<lambda>_.
             Inr (reasons, cur\<lparr>cur_pos := length (cur_data cur)\<rparr>)))"

definition decodeSuback :: "cursor \<Rightarrow> error + Suback \<times> cursor" where
  "decodeSuback cur =
     rbind (readPacketID SUBACK cur) (\<lambda>(pid, cur).
     rbind (decodeProperties cur SUBACK (SubackProps SubackProperties0)) (\<lambda>(props, cur).
     rbind (readReasons SUBACK cur) (\<lambda>(reasons, cur).
       Inr (\<lparr>sa_Properties = Some (unSubackProps props), sa_Reasons = reasons, sa_PacketID = pid\<rparr>,
            cur))))"

lemma readString_less: "readString f c = Inr (x, c') \<Longrightarrow> remaining c' < remaining c"
proof -
  assume "readString f c = Inr (x, c')"
  then obtain n c1 d where "readUint16 (f @ '' length'') c = Inr (n, c1)"
      "readBytes f (uint n) c1 = Inr (d, c')"
    by (auto simp: readString_def readBinary_def rbind_eq_Inr split: if_splits)
  moreover have "remaining c1 < remaining c"
    using calculation(1) by (auto simp: readUint16_def rbind_eq_Inr readBytes_def remaining_def split: if_splits)
  ultimately show ?thesis
    using readBytes_pos by fastforce
qed

function decodeUnsubscribe_loop :: "string list \<Rightarrow> cursor \<Rightarrow> error + string list \<times> cursor" where
  "decodeUnsubscribe_loop topics cur =
     (if remaining cur > 0 then
        rbind (readString ''topic filter'' cur) (\<lambda>(topic, cur1).
        rbind (validateTopicFilter UNSUBSCRIBE ''topic filter'' topic) (\<lambda>_.
          decodeUnsubscribe_loop (topics @ [topic]) cur1))
      else Inr (topics, cur))"
  by pat_completeness auto
termination
  by (relation "measure (\<lambda>(topics, c). nat (remaining c))") (auto dest!: readString_less)

declare decodeUnsubscribe_loop.simps [simp del]

definition decodeUnsubscribe :: "cursor \<Rightarrow> error + Unsubscribe \<times> cursor" where
  "decodeUnsubscribe cur =
     rbind (readPacketID UNSUBSCRIBE cur) (\<lambda>(pid, cur).
     rbind (decodeProperties cur UNSUBSCRIBE (UnsubscribeProps UnsubscribeProperties0)) (\<lambda>(props, cur).
     rbind (decodeUnsubscribe_loop [] cur) (\<lambda>(topics, cur).
       if topics = []
       then Inl (malformed UNSUBSCRIBE ''topic filters'' ''at least one topic filter is required'')
       else Inr (\<lparr>us_Topics = topics, us_Properties = Some (unUnsubscribeProps props),
                  us_PacketID = pid\<rparr>, cur))))"

definition decodeUnsuback :: "cursor \<Rightarrow> error + Unsuback \<times> cursor" where
  "decodeUnsuback cur =
     rbind (readPacketID UNSUBACK cur) (\<lambda>(pid, cur).
     rbind (decodeProperties cur UNSUBACK (UnsubackProps UnsubackProperties0)) (\<lambda>(props, cur).
     rbind (readReasons UNSUBACK cur) (\<lambda>(reasons, cur).
       Inr (\<lparr>ua_Reasons = reasons, ua_Properties = Some (unUnsubackProps props), ua_PacketID = pid\<rparr>,
            cur))))"

definition decodeEmpty :: "cursor \<Rightarrow> Packet \<Rightarrow> error + Packet \<times> cursor" where
  "decodeEmpty cur packet =
     (if remaining cur \<noteq> 0
      then Inl (malformed (PacketType_of packet) ''remaining length'' ''remaining length must be zero'')
      else Inr (packet, cur))"

definition decodeDisconnect :: "cursor \<Rightarrow> error + Disconnect \<times> cursor" where
  "decodeDisconnect cur =
     (if remaining cur = 0
      then Inr (\<lparr>ds_Properties = Some DisconnectProperties0,
                 ds_ReasonCode = DisconnectNormalDisconnection\<rparr>, cur)
      else
        rbind (readByte ''reason code'' cur) (\<lambda>(reason, cur).
        rbind (validateReason DISCONNECT reason) (\<lambda>_.
          if remaining cur > 0 then
            rbind (decodeProperties cur DISCONNECT (DisconnectProps DisconnectProperties0)) (\<lambda>(props, cur).
              Inr (\<lparr>ds_Properties = Some (unDisconnectProps props), ds_ReasonCode = reason\<rparr>, cur))
          else Inr (\<lparr>ds_Properties = Some DisconnectProperties0, ds_ReasonCode = reason\<rparr>, cur))))"

definition decodeAuth :: "cursor \<Rightarrow> error + Auth \<times> cursor" where
  "decodeAuth cur =
     (if remaining cur = 0
      then Inr (\<lparr>au_Properties = Some AuthProperties0, au_ReasonCode = AuthSuccess\<rparr>, cur)
      else
        rbind (readByte ''reason code'' cur) (\<lambda>(reason, cur).
        rbind (validateReason AUTH reason) (\<lambda>_.
          if remaining cur > 0 then
            rbind (decodeProperties cur AUTH (AuthProps AuthProperties0)) (\<lambda>(props, cur).
              Inr (\<lparr>au_Properties = Some (unAuthProps props), au_ReasonCode = reason\<rparr>, cur))
          else Inr (\<lparr>au_Properties = Some AuthProperties0, au_ReasonCode = reason\<rparr>, cur))))"

text \<open>The switch of \<open>decodePacket\<close>; \<open>decodePacket\<close> then refuses trailing bytes.\<close>

definition decodeBody :: "PacketType \<Rightarrow> byte \<Rightarrow> cursor \<Rightarrow> error + Packet \<times> cursor" where
  "decodeBody packetType flags cur =
     (if packetType = CONNECT then rbind (decodeConnect cur) (\<lambda>(p, cur). Inr (PConnect p, cur))
      else if packetType = CONNACK then rbind (decodeConnack cur) (\<lambda>(p, cur). Inr (PConnAck p, cur))
      else if packetType = PUBLISH then
        rbind (decodePublish cur flags) (\<lambda>(p, cur). Inr (PPublish p, cur))
      else if packetType = PUBACK then
        decodeAck cur packetType (PPuback \<lparr>pa_Properties = Some PubackProperties0,
          pa_PacketID = 0, pa_ReasonCode = 0\<rparr>)
      else if packetType = PUBREC then
        decodeAck cur packetType (PPubrec \<lparr>pr_Properties = Some PubrecProperties0,
          pr_PacketID = 0, pr_ReasonCode = 0\<rparr>)
      else if packetType = PUBREL then
        decodeAck cur packetType (PPubrel \<lparr>pl_Properties = Some PubrelProperties0,
          pl_PacketID = 0, pl_ReasonCode = 0\<rparr>)
      else if packetType = PUBCOMP then
        decodeAck cur packetType (PPubcomp \<lparr>pc_Properties = Some PubcompProperties0,
          pc_PacketID = 0, pc_ReasonCode = 0\<rparr>)
      else if packetType = SUBSCRIBE then
        rbind (decodeSubscribe cur) (\<lambda>(p, cur). Inr (PSubscribe p, cur))
      else if packetType = SUBACK then rbind (decodeSuback cur) (\<lambda>(p, cur). Inr (PSuback p, cur))
      else if packetType = UNSUBSCRIBE then
        rbind (decodeUnsubscribe cur) (\<lambda>(p, cur). Inr (PUnsubscribe p, cur))
      else if packetType = UNSUBACK then
        rbind (decodeUnsuback cur) (\<lambda>(p, cur). Inr (PUnsuback p, cur))
      else if packetType = PINGREQ then decodeEmpty cur PPingreq
      else if packetType = PINGRESP then decodeEmpty cur PPingresp
      else if packetType = DISCONNECT then
        rbind (decodeDisconnect cur) (\<lambda>(p, cur). Inr (PDisconnect p, cur))
      else if packetType = AUTH then rbind (decodeAuth cur) (\<lambda>(p, cur). Inr (PAuth p, cur))
      else Inl (malformed packetType ''packet type'' ''unknown packet type''))"

definition decodePacket :: "PacketType \<Rightarrow> byte \<Rightarrow> bytes \<Rightarrow> error + Packet" where
  "decodePacket packetType flags body =
     rbind (decodeBody packetType flags (newCursor packetType body)) (\<lambda>(packet, cur).
       if remaining cur \<noteq> 0
       then Inl (malformed packetType ''body'' ''packet body has trailing bytes'')
       else Inr packet)"

section \<open>Encoding\<close>

definition validateConnectForEncode :: "Connect \<Rightarrow> error + unit" where
  "validateConnectForEncode p =
     (if cn_WillQOS p > 2
      then Inl (malformed CONNECT ''connect flags'' ''will QoS must be 0, 1, or 2'')
      else if \<not> cn_WillFlag p \<and> cn_WillQOS p \<noteq> 0
      then Inl (malformed CONNECT ''connect flags''
                 ''will QoS must be zero when will flag is false'')
      else if \<not> cn_WillFlag p \<and> cn_WillRetain p
      then Inl (malformed CONNECT ''connect flags''
                 ''will retain must be false when will flag is false'')
      else if cn_PasswordFlag p \<and> \<not> cn_UsernameFlag p
      then Inl (malformed CONNECT ''connect flags'' ''password flag requires username flag'')
      else Inr ())"

definition encodeConnectWill :: "bytes \<Rightarrow> Connect \<Rightarrow> error + bytes" where
  "encodeConnectWill buf p =
     (if cn_WillFlag p then
        rbind (encodeProperties WILLPROPERTIES (map_option PublishProps (cn_WillProperties p)))
          (\<lambda>willProps.
        rbind (validateTopicName CONNECT ''will topic'' (cn_WillTopic p) False) (\<lambda>_.
        rbind (writeString (buf @ willProps) CONNECT ''will topic'' (cn_WillTopic p)) (\<lambda>buf.
          writeBinary buf CONNECT ''will message'' (cn_WillMessage p))))
      else Inr buf)"

definition encodeConnect :: "Connect \<Rightarrow> error + bytes" where
  "encodeConnect p =
     rbind (validateConnectForEncode p) (\<lambda>_.
       if cn_ProtocolName p \<noteq> ''MQTT''
       then Inl (malformed CONNECT ''protocol name'' ''protocol name must be MQTT'')
       else if cn_ProtocolVersion p \<noteq> 5 then Inl (unsupportedVersion (cn_ProtocolVersion p))
       else
         (let flags = PackFlags p in
          rbind (writeString [] CONNECT ''protocol name'' (cn_ProtocolName p)) (\<lambda>buf.
            (let buf = writeUint16 (buf @ [cn_ProtocolVersion p] @ [flags]) (cn_KeepAlive p) in
             rbind (encodeProperties CONNECT (map_option ConnectProps (cn_Properties p))) (\<lambda>props.
             rbind (writeString (buf @ props) CONNECT ''client id'' (cn_ClientID p)) (\<lambda>buf.
             rbind (encodeConnectWill buf p) (\<lambda>buf.
             rbind (if cn_UsernameFlag p
                    then writeString buf CONNECT ''username'' (cn_Username p)
                    else Inr buf) (\<lambda>buf.
               (if cn_PasswordFlag p
                then writeBinary buf CONNECT ''password'' (cn_Password p)
                else Inr buf)))))))))"

definition encodeConnack :: "ConnAck \<Rightarrow> error + bytes" where
  "encodeConnack p =
     rbind (validateReason CONNACK (ca_ReasonCode p)) (\<lambda>_.
       if ca_ReasonCode p \<noteq> ConnAckSuccess \<and> ca_SessionPresent p
       then Inl (malformed CONNACK ''session present''
                  ''session present must be false for unsuccessful CONNACK'')
       else
         (let buf = (if ca_SessionPresent p then [1] else [0]) @ [ca_ReasonCode p] in
          rbind (encodeProperties CONNACK (map_option ConnAckProps (ca_Properties p))) (\<lambda>props.
            Inr (buf @ props))))"

definition encodePublish :: "Publish \<Rightarrow> error + bytes" where
  "encodePublish p =
     (if pub_QoS p = 3 then Inl (malformed PUBLISH ''qos'' ''PUBLISH QoS 3 is reserved'')
      else if pub_QoS p = 0 \<and> pub_PacketID p \<noteq> 0
      then Inl (malformed PUBLISH ''packet identifier''
                 ''QoS 0 PUBLISH must not carry a packet identifier'')
      else if pub_QoS p > 0 \<and> pub_PacketID p = 0
      then Inl (malformed PUBLISH ''packet identifier'' ''packet identifier must be non-zero'')
      else
        rbind (if pub_Topic p = [] then
                 (if (case pub_Properties p of None \<Rightarrow> True | Some q \<Rightarrow> pp_TopicAlias q = None)
                  then Inl (malformed PUBLISH ''topic name''
                             ''topic name is required unless topic alias is present'')
                  else Inr ())
               else validateTopicName PUBLISH ''topic name'' (pub_Topic p) False) (\<lambda>_.
        rbind (writeString [] PUBLISH ''topic name'' (pub_Topic p)) (\<lambda>buf.
          (let buf = (if pub_QoS p > 0 then writeUint16 buf (pub_PacketID p) else buf) in
           rbind (encodeProperties PUBLISH (map_option PublishProps (pub_Properties p))) (\<lambda>props.
             Inr (buf @ props @ pub_Payload p))))))"

definition encodeAck :: "PacketType \<Rightarrow> u16 \<Rightarrow> byte \<Rightarrow> Properties option \<Rightarrow> error + bytes" where
  "encodeAck packetType packetID reason props =
     (if packetID = 0
      then Inl (malformed packetType ''packet identifier'' ''packet identifier must be non-zero'')
      else
        rbind (validateReason packetType reason) (\<lambda>_.
        rbind (encodeProperties packetType props) (\<lambda>propBytes.
          (let buf = writeUint16 [] packetID
           in if reason = 0 \<and> length propBytes = 1 then Inr buf
              else
                (let buf = buf @ [reason]
                 in Inr (if length propBytes > 1 then buf @ propBytes else buf))))))"

definition validateSubOptionsForEncode :: "SubOptions \<Rightarrow> error + unit" where
  "validateSubOptionsForEncode sub =
     (if so_QoS sub > 2
      then Inl (malformed SUBSCRIBE ''subscription options'' ''QoS must be between 0 and 2'')
      else if so_RetainHandling sub > 2
      then Inl (malformed SUBSCRIBE ''subscription options''
                 ''retain handling must be between 0 and 2'')
      else Inr ())"

fun encodeSubscribe_loop :: "bytes \<Rightarrow> SubOptions list \<Rightarrow> error + bytes" where
  "encodeSubscribe_loop buf [] = Inr buf"
| "encodeSubscribe_loop buf (sub # subs) =
     rbind (validateTopicFilter SUBSCRIBE ''topic filter'' (so_Topic sub)) (\<lambda>_.
     rbind (validateSubOptionsForEncode sub) (\<lambda>_.
     rbind (writeString buf SUBSCRIBE ''topic filter'' (so_Topic sub)) (\<lambda>buf.
       encodeSubscribe_loop (buf @ [Pack sub]) subs)))"

definition encodeSubscribe :: "Subscribe \<Rightarrow> error + bytes" where
  "encodeSubscribe p =
     (if sb_PacketID p = 0
      then Inl (malformed SUBSCRIBE ''packet identifier'' ''packet identifier must be non-zero'')
      else if sb_Subscriptions p = []
      then Inl (malformed SUBSCRIBE ''topic filters'' ''at least one topic filter is required'')
      else
        (let buf = writeUint16 [] (sb_PacketID p) in
         rbind (encodeProperties SUBSCRIBE (map_option SubscribeProps (sb_Properties p))) (\<lambda>props.
           encodeSubscribe_loop (buf @ props) (sb_Subscriptions p))))"

definition encodeCodeList ::
  "PacketType \<Rightarrow> u16 \<Rightarrow> Properties option \<Rightarrow> bytes \<Rightarrow> error + bytes" where
  "encodeCodeList packetType packetID props reasons =
     (if packetID = 0
      then Inl (malformed packetType ''packet identifier'' ''packet identifier must be non-zero'')
      else if reasons = []
      then Inl (malformed packetType ''reason codes'' ''at least one reason code is required'')
      else
        rbind (validateReasons packetType reasons) (\<lambda>_.
          (let buf = writeUint16 [] packetID in
           rbind (encodeProperties packetType props) (\<lambda>propBytes.
             Inr (buf @ propBytes @ reasons)))))"

fun encodeUnsubscribe_loop :: "bytes \<Rightarrow> string list \<Rightarrow> error + bytes" where
  "encodeUnsubscribe_loop buf [] = Inr buf"
| "encodeUnsubscribe_loop buf (topic # topics) =
     rbind (validateTopicFilter UNSUBSCRIBE ''topic filter'' topic) (\<lambda>_.
     rbind (writeString buf UNSUBSCRIBE ''topic filter'' topic) (\<lambda>buf.
       encodeUnsubscribe_loop buf topics))"

definition encodeUnsubscribe :: "Unsubscribe \<Rightarrow> error + bytes" where
  "encodeUnsubscribe p =
     (if us_PacketID p = 0
      then Inl (malformed UNSUBSCRIBE ''packet identifier'' ''packet identifier must be non-zero'')
      else if us_Topics p = []
      then Inl (malformed UNSUBSCRIBE ''topic filters'' ''at least one topic filter is required'')
      else
        (let buf = writeUint16 [] (us_PacketID p) in
         rbind (encodeProperties UNSUBSCRIBE (map_option UnsubscribeProps (us_Properties p))) (\<lambda>props.
           encodeUnsubscribe_loop (buf @ props) (us_Topics p))))"

definition encodeReasonPacket :: "PacketType \<Rightarrow> byte \<Rightarrow> Properties option \<Rightarrow> error + bytes" where
  "encodeReasonPacket packetType reason props =
     rbind (validateReason packetType reason) (\<lambda>_.
     rbind (encodeProperties packetType props) (\<lambda>propBytes.
       if reason = 0 \<and> length propBytes = 1 then Inr []
       else Inr (if length propBytes > 1 then [reason] @ propBytes else [reason])))"

definition encodePacket :: "Packet \<Rightarrow> error + bytes" where
  "encodePacket packet =
     (case packet of
        PConnect p \<Rightarrow> encodeConnect p
      | PConnAck p \<Rightarrow> encodeConnack p
      | PPublish p \<Rightarrow> encodePublish p
      | PPuback p \<Rightarrow>
          encodeAck PUBACK (pa_PacketID p) (pa_ReasonCode p) (map_option PubackProps (pa_Properties p))
      | PPubrec p \<Rightarrow>
          encodeAck PUBREC (pr_PacketID p) (pr_ReasonCode p) (map_option PubrecProps (pr_Properties p))
      | PPubrel p \<Rightarrow>
          encodeAck PUBREL (pl_PacketID p) (pl_ReasonCode p) (map_option PubrelProps (pl_Properties p))
      | PPubcomp p \<Rightarrow>
          encodeAck PUBCOMP (pc_PacketID p) (pc_ReasonCode p) (map_option PubcompProps (pc_Properties p))
      | PSubscribe p \<Rightarrow> encodeSubscribe p
      | PSuback p \<Rightarrow>
          encodeCodeList SUBACK (sa_PacketID p) (map_option SubackProps (sa_Properties p)) (sa_Reasons p)
      | PUnsubscribe p \<Rightarrow> encodeUnsubscribe p
      | PUnsuback p \<Rightarrow>
          encodeCodeList UNSUBACK (ua_PacketID p) (map_option UnsubackProps (ua_Properties p))
            (ua_Reasons p)
      | PPingreq \<Rightarrow> Inr []
      | PPingresp \<Rightarrow> Inr []
      | PDisconnect p \<Rightarrow>
          encodeReasonPacket DISCONNECT (ds_ReasonCode p) (map_option DisconnectProps (ds_Properties p))
      | PAuth p \<Rightarrow>
          encodeReasonPacket AUTH (au_ReasonCode p) (map_option AuthProps (au_Properties p)))"

section \<open>Control packets\<close>

record DecodeOptions =
  do_MaxPacketSize :: int

record EncodeOptions =
  eo_MaxPacketSize :: int

definition Decode :: "io_reader \<Rightarrow> DecodeOptions \<Rightarrow> error + ControlPacket \<times> io_reader" where
  "Decode r opts =
     rbind (ReadFull r 1) (\<lambda>(first, r).
       (let packetType = drop_bit 4 (first ! 0);
            flags = first ! 0 AND 0x0f
        in if packetType < CONNECT \<or> packetType > AUTH
           then Inl (malformed packetType ''packet type'' ''unknown packet type'')
           else
             rbind (validateFixedHeaderFlags packetType flags) (\<lambda>_.
               (case readRemainingLength r of
                  Inl err \<Rightarrow> Inl (classifyReadError packetType ''remaining length'' err)
                | Inr ((remainingLength, width), r) \<Rightarrow>
                    (let totalSize = 1 + int width + remainingLength
                     in if do_MaxPacketSize opts > 0 \<and> totalSize > do_MaxPacketSize opts
                        then Inl (tooLarge packetType totalSize (do_MaxPacketSize opts))
                        else
                          (case ReadFull r (nat remainingLength) of
                             Inl err \<Rightarrow> Inl (classifyReadError packetType ''body'' err)
                           | Inr (body, r) \<Rightarrow>
                               rbind (decodePacket packetType flags body) (\<lambda>content.
                                 Inr (\<lparr>cp_Content = Some content, cp_Packet = Some content,
                                       cp_FixedHeader = \<lparr>fh_Type = packetType, fh_Flags = flags,
                                         fh_RemainingLength = remainingLength\<rparr>\<rparr>, r))))))))"

definition Encode :: "ControlPacket option \<Rightarrow> EncodeOptions \<Rightarrow> error + bytes" where
  "Encode packet opts =
     (case packet of
        None \<Rightarrow> Inl (implementation 0 ''packet'' ''nil control packet'')
      | Some cp \<Rightarrow>
          (case CanonicalPacket packet of
             None \<Rightarrow> Inl (implementation (fh_Type (cp_FixedHeader cp)) ''content'' ''nil packet content'')
           | Some content \<Rightarrow>
               (let packetType = PacketType_of content
                in if fh_Type (cp_FixedHeader cp) \<noteq> 0 \<and> fh_Type (cp_FixedHeader cp) \<noteq> packetType
                   then Inl (implementation packetType ''type''
                              ''control packet type does not match content'')
                   else
                     rbind (fixedHeaderFlags content) (\<lambda>flags.
                     rbind (validateFixedHeaderFlags packetType flags) (\<lambda>_.
                     rbind (encodePacket content) (\<lambda>body.
                       (if int (length body) > maxRemainingLength
                        then Inl (malformed packetType ''remaining length''
                                   ''remaining length exceeds MQTT maximum'')
                        else
                          rbind (encodeRemainingLength (int (length body))) (\<lambda>remainingLength.
                            (let totalSize = 1 + int (length remainingLength) + int (length body)
                             in if eo_MaxPacketSize opts > 0 \<and> totalSize > eo_MaxPacketSize opts
                                then Inl (tooLarge packetType totalSize (eo_MaxPacketSize opts))
                                else Inr ([push_bit 4 packetType OR flags] @ remainingLength @
                                          body))))))))))"

section \<open>Packet size checks\<close>

text \<open>\<open>packetsize/packet_size.go\<close>; the wrapped error keeps only what was wrapped.\<close>

datatype size_error = CalcErr error | ErrPacketOversize int int

definition calculatePacketSize :: "ControlPacket option \<Rightarrow> error + int" where
  "calculatePacketSize packet =
     rbind (Encode packet \<lparr>eo_MaxPacketSize = 0\<rparr>) (\<lambda>encoded. Inr (int (length encoded)))"

definition CheckPacketSizeWithMax :: "ControlPacket option \<Rightarrow> int \<Rightarrow> size_error + unit" where
  "CheckPacketSizeWithMax packet maxSize =
     (case calculatePacketSize packet of
        Inl err \<Rightarrow> Inl (CalcErr err)
      | Inr packetSize \<Rightarrow>
          (if packetSize > maxSize then Inl (ErrPacketOversize packetSize maxSize) else Inr ()))"

definition checkPacketContentSizeWithMax ::
  "PacketType \<Rightarrow> Packet \<Rightarrow> int \<Rightarrow> size_error + unit" where
  "checkPacketContentSizeWithMax packetType content maxSize =
     CheckPacketSizeWithMax
       (map_option (\<lambda>cp. cp\<lparr>cp_Content := Some content\<rparr>) (NewControlPacket packetType)) maxSize"

definition CheckPublishPacketSizeWithMax :: "Publish \<Rightarrow> int \<Rightarrow> size_error + unit" where
  "CheckPublishPacketSizeWithMax publish maxSize =
     checkPacketContentSizeWithMax PUBLISH (PPublish publish) maxSize"

definition CheckConnectPacketSizeWithMax :: "Connect \<Rightarrow> int \<Rightarrow> size_error + unit" where
  "CheckConnectPacketSizeWithMax connect maxSize =
     checkPacketContentSizeWithMax CONNECT (PConnect connect) maxSize"

definition CheckSubscribePacketSizeWithMax :: "Subscribe \<Rightarrow> int \<Rightarrow> size_error + unit" where
  "CheckSubscribePacketSizeWithMax subscribe maxSize =
     checkPacketContentSizeWithMax SUBSCRIBE (PSubscribe subscribe) maxSize"
section \<open>Property structs\<close>

text \<open>
  What the packet codecs rely on for each of the thirteen property structs: encoding an optional
  struct and decoding into a zero struct are inverse to each other. \<open>canonOf\<close> is the struct the
  decoder builds for an optional struct that was encoded.
\<close>

definition canonOf :: "('p \<Rightarrow> Properties) \<Rightarrow> (Properties \<Rightarrow> 'p) \<Rightarrow> 'p \<Rightarrow> 'p option \<Rightarrow> 'p" where
  "canonOf ctor un zero v = (case v of None \<Rightarrow> zero | Some p \<Rightarrow> un (canonProps (ctor p)))"

definition opt_items :: "Properties option \<Rightarrow> item list" where
  "opt_items po = (case po of None \<Rightarrow> [] | Some p \<Rightarrow> items_of p)"

lemma encodeProperties_iff:
  assumes "\<And>p. po = Some p \<Longrightarrow> props_for packet p"
  shows "encodeProperties packet po = Inr b \<longleftrightarrow>
    section_ok packet (opt_items po) \<and> b = encSection (opt_items po)"
proof (cases po)
  case None
  then show ?thesis
    by (auto simp: opt_items_def encodeProperties_None section_ok_def)
next
  case (Some p)
  then show ?thesis
    using assms no_dup_items_of by (auto simp: opt_items_def encodeProperties_Some_iff section_ok_def)
qed

lemma length_encSection: "1 \<le> length (encSection items)"
  by (simp add: encSection_def encodeRemainingLength_loop.simps Let_def)

lemma length_encVBI_mono: "m \<le> n \<Longrightarrow> length (encodeRemainingLength_loop m) \<le> length (encodeRemainingLength_loop n)"
proof (induction n arbitrary: m rule: less_induct)
  case (less n)
  show ?case
  proof (cases "m < 128")
    case True
    then show ?thesis
      by (cases "n < 128") (simp_all add: encodeRemainingLength_loop_small encodeRemainingLength_loop_large)
  next
    case False
    then show ?thesis
      using less.IH [of "n div 128" "m div 128"] less.prems
      by (simp add: encodeRemainingLength_loop_large div_le_mono)
  qed
qed

lemma length_encSection_mono:
  "length (encItems xs) \<le> length (encItems ys) \<Longrightarrow> length (encSection xs) \<le> length (encSection ys)"
  using length_encVBI_mono [of "length (encItems xs)" "length (encItems ys)"]
  by (simp add: encSection_def)

locale property_struct =
  fixes ctor :: "'p \<Rightarrow> Properties" and un :: "Properties \<Rightarrow> 'p" and zero :: 'p
    and for_packet :: "PacketType \<Rightarrow> bool"
  assumes un_ctor: "un (ctor p) = p"
    and zero_ctor: "zero_of (ctor p) = ctor zero"
    and ctor_zero: "zero_of props = ctor zero \<Longrightarrow> \<exists>p. props = ctor p"
    and for_ctor: "props_for packet (ctor p) \<longleftrightarrow> for_packet packet"
begin

abbreviation canon :: "'p option \<Rightarrow> 'p" where
  "canon \<equiv> canonOf ctor un zero"

lemma zero_of_canonProps: "zero_of (canonProps props) = zero_of props"
  by (cases props) simp_all

lemma assigns_canon: "assigns (ctor zero) (opt_items (map_option ctor v)) = ctor (canon v)"
proof (cases v)
  case None
  then show ?thesis by (simp add: opt_items_def canonOf_def)
next
  case (Some p)
  obtain q where "canonProps (ctor p) = ctor q"
    using ctor_zero [of "canonProps (ctor p)"] zero_of_canonProps [of "ctor p"] zero_ctor by auto
  then show ?thesis
    using Some assigns_items_of [of "ctor p"] by (simp add: opt_items_def canonOf_def zero_ctor un_ctor)
qed

lemma decode_encoded:
  assumes "for_packet packet" and "encodeProperties packet (map_option ctor v) = Inr b"
  shows "decodeProperties (cur_at p pre (b @ rest)) packet (ctor zero) =
    Inr (ctor (canon v), cur_at p (pre @ b) rest)"
proof -
  have "section_ok packet (opt_items (map_option ctor v))" "b = encSection (opt_items (map_option ctor v))"
    using assms(2) encodeProperties_iff [of "map_option ctor v" packet b] for_ctor assms(1) by auto
  then show ?thesis
    using decodeProperties_enc [of packet "opt_items (map_option ctor v)" p pre rest "ctor zero"]
      assigns_canon [of v] by simp
qed

lemma decoded_reencode:
  assumes "for_packet packet" and "decodeProperties (cur_at p pre xs) packet (ctor zero) = Inr (props, c)"
  obtains b rest b' where "xs = b @ rest" "c = cur_at p (pre @ b) rest" "b \<noteq> []"
    "encodeProperties packet (Some (ctor (un props))) = Inr b'" "length b' \<le> length b"
    "props = ctor (un props)" "canon (Some (un props)) = un props"
proof -
  obtain items rest where sec: "section_ok packet items" "xs = encSection items @ rest"
      "props = assigns (ctor zero) items" "c = cur_at p (pre @ encSection items) rest"
    by (rule decodeProperties_sound [OF assms(2)])
  have z: "zero_of (ctor zero) = ctor zero" by (rule zero_ctor)
  obtain q where q: "props = ctor q"
    using ctor_zero [of props] sec(3) z by auto
  note ok = decoded_section_ok [OF sec(1) _ z]
  have u: "props = ctor (un props)" using q un_ctor by simp
  have enc: "encodeProperties packet (Some (ctor (un props))) = Inr (encSection (items_of props))"
    using encodeProperties_iff [of "Some props" packet] ok(1) assms(1) q for_ctor sec(3) u
    by (auto simp: opt_items_def)
  have len: "length (encSection (items_of props)) \<le> length (encSection items)"
    using ok(2) assms(1) for_ctor sec(3) by (intro length_encSection_mono) auto
  have "canonProps props = props"
    using canonProps_assigns [of "ctor zero" packet items] canonProps_zero [of "ctor zero"] z sec(1,3)
    by (simp add: section_ok_def)
  then have can: "canon (Some (un props)) = un props" using u by (simp add: canonOf_def)
  have ne: "encSection items \<noteq> []" using length_encSection [of items] by auto
  show thesis by (rule that [OF sec(2,4) ne enc len u can])
qed

lemma encode_length: "encodeProperties packet v = Inr b \<Longrightarrow> 1 \<le> length b"
  using length_encSection encodeProperties_None encodeProperties_Some_iff by (cases v) auto

end

interpretation publish_ps: property_struct PublishProps unPublishProps PublishProperties0
    "\<lambda>packet. packet = PUBLISH \<or> packet = WILLPROPERTIES"
  by unfold_locales (simp_all, erule zero_of.elims, auto)

interpretation connect_ps: property_struct ConnectProps unConnectProps ConnectProperties0
    "\<lambda>packet. packet = CONNECT"
  by unfold_locales (simp_all, erule zero_of.elims, auto)

interpretation connack_ps: property_struct ConnAckProps unConnAckProps ConnAckProperties0
    "\<lambda>packet. packet = CONNACK"
  by unfold_locales (simp_all, erule zero_of.elims, auto)

interpretation subscribe_ps: property_struct SubscribeProps unSubscribeProps SubscribeProperties0
    "\<lambda>packet. packet = SUBSCRIBE"
  by unfold_locales (simp_all, erule zero_of.elims, auto)

interpretation suback_ps: property_struct SubackProps unSubackProps SubackProperties0
    "\<lambda>packet. packet = SUBACK"
  by unfold_locales (simp_all, erule zero_of.elims, auto)

interpretation unsubscribe_ps: property_struct UnsubscribeProps unUnsubscribeProps UnsubscribeProperties0
    "\<lambda>packet. packet = UNSUBSCRIBE"
  by unfold_locales (simp_all, erule zero_of.elims, auto)

interpretation unsuback_ps: property_struct UnsubackProps unUnsubackProps UnsubackProperties0
    "\<lambda>packet. packet = UNSUBACK"
  by unfold_locales (simp_all, erule zero_of.elims, auto)

interpretation puback_ps: property_struct PubackProps unPubackProps PubackProperties0
    "\<lambda>packet. packet = PUBACK"
  by unfold_locales (simp_all, erule zero_of.elims, auto)

interpretation pubrec_ps: property_struct PubrecProps unPubrecProps PubrecProperties0
    "\<lambda>packet. packet = PUBREC"
  by unfold_locales (simp_all, erule zero_of.elims, auto)

interpretation pubrel_ps: property_struct PubrelProps unPubrelProps PubrelProperties0
    "\<lambda>packet. packet = PUBREL"
  by unfold_locales (simp_all, erule zero_of.elims, auto)

interpretation pubcomp_ps: property_struct PubcompProps unPubcompProps PubcompProperties0
    "\<lambda>packet. packet = PUBCOMP"
  by unfold_locales (simp_all, erule zero_of.elims, auto)

interpretation disconnect_ps: property_struct DisconnectProps unDisconnectProps DisconnectProperties0
    "\<lambda>packet. packet = DISCONNECT"
  by unfold_locales (simp_all, erule zero_of.elims, auto)

interpretation auth_ps: property_struct AuthProps unAuthProps AuthProperties0
    "\<lambda>packet. packet = AUTH"
  by unfold_locales (simp_all, erule zero_of.elims, auto)

section \<open>What the decoder builds for an encoded packet\<close>

definition canonConnect :: "Connect \<Rightarrow> Connect" where
  "canonConnect p =
     p\<lparr>cn_Properties := Some (connect_ps.canon (cn_Properties p)),
       cn_WillProperties := (if cn_WillFlag p then Some (publish_ps.canon (cn_WillProperties p)) else None),
       cn_WillTopic := (if cn_WillFlag p then cn_WillTopic p else []),
       cn_WillMessage := (if cn_WillFlag p then cn_WillMessage p else []),
       cn_Username := (if cn_UsernameFlag p then cn_Username p else []),
       cn_Password := (if cn_PasswordFlag p then cn_Password p else [])\<rparr>"

definition canonPacket :: "Packet \<Rightarrow> Packet" where
  "canonPacket packet =
     (case packet of
        PConnect p \<Rightarrow> PConnect (canonConnect p)
      | PConnAck p \<Rightarrow> PConnAck (p\<lparr>ca_Properties := Some (connack_ps.canon (ca_Properties p))\<rparr>)
      | PPublish p \<Rightarrow> PPublish (p\<lparr>pub_Properties := Some (publish_ps.canon (pub_Properties p))\<rparr>)
      | PPuback p \<Rightarrow> PPuback (p\<lparr>pa_Properties := Some (puback_ps.canon (pa_Properties p))\<rparr>)
      | PPubrec p \<Rightarrow> PPubrec (p\<lparr>pr_Properties := Some (pubrec_ps.canon (pr_Properties p))\<rparr>)
      | PPubrel p \<Rightarrow> PPubrel (p\<lparr>pl_Properties := Some (pubrel_ps.canon (pl_Properties p))\<rparr>)
      | PPubcomp p \<Rightarrow> PPubcomp (p\<lparr>pc_Properties := Some (pubcomp_ps.canon (pc_Properties p))\<rparr>)
      | PSubscribe p \<Rightarrow> PSubscribe (p\<lparr>sb_Properties := Some (subscribe_ps.canon (sb_Properties p))\<rparr>)
      | PSuback p \<Rightarrow> PSuback (p\<lparr>sa_Properties := Some (suback_ps.canon (sa_Properties p))\<rparr>)
      | PUnsubscribe p \<Rightarrow> PUnsubscribe (p\<lparr>us_Properties := Some (unsubscribe_ps.canon (us_Properties p))\<rparr>)
      | PUnsuback p \<Rightarrow> PUnsuback (p\<lparr>ua_Properties := Some (unsuback_ps.canon (ua_Properties p))\<rparr>)
      | PPingreq \<Rightarrow> PPingreq
      | PPingresp \<Rightarrow> PPingresp
      | PDisconnect p \<Rightarrow> PDisconnect (p\<lparr>ds_Properties := Some (disconnect_ps.canon (ds_Properties p))\<rparr>)
      | PAuth p \<Rightarrow> PAuth (p\<lparr>au_Properties := Some (auth_ps.canon (au_Properties p))\<rparr>))"

section \<open>Flag bytes\<close>

lemma byte_le_2: "(q :: byte) \<le> 2 \<longleftrightarrow> q = 0 \<or> q = 1 \<or> q = 2"
proof -
  have "n \<le> 2 \<longleftrightarrow> n = 0 \<or> n = 1 \<or> n = 2" for n :: nat by auto
  from this [of "unat q"] show ?thesis
    by (simp add: word_le_nat_alt word_unat_eq_iff)
qed

lemma byte_and_3: "(q :: byte) AND 3 \<noteq> 3 \<Longrightarrow> q AND 3 \<le> 2"
proof -
  assume "q AND 3 \<noteq> 3"
  moreover have "q AND 3 \<le> 3" by (rule word_and_le1)
  ultimately have "unat (q AND 3) \<noteq> 3" "unat (q AND 3) \<le> 3"
    by (simp_all add: word_le_nat_alt word_unat_eq_iff)
  then show ?thesis by (simp add: word_le_nat_alt)
qed

lemma unpackConnectFlags_PackFlags:
  assumes "validateConnectForEncode p = Inr ()"
  shows "unpackConnectFlags out (PackFlags p) =
    Inr (out\<lparr>cn_CleanStart := cn_CleanStart p, cn_WillFlag := cn_WillFlag p,
      cn_WillQOS := cn_WillQOS p, cn_WillRetain := cn_WillRetain p,
      cn_PasswordFlag := cn_PasswordFlag p, cn_UsernameFlag := cn_UsernameFlag p\<rparr>)"
proof -
  have "cn_WillQOS p \<le> 2"
    using assms by (simp add: validateConnectForEncode_def not_less split: if_splits)
  then have "cn_WillQOS p = 0 \<or> cn_WillQOS p = 1 \<or> cn_WillQOS p = 2"
    unfolding byte_le_2 .
  with assms show ?thesis
    by (elim disjE; cases "cn_WillFlag p"; cases "cn_WillRetain p"; cases "cn_PasswordFlag p";
        cases "cn_UsernameFlag p"; cases "cn_CleanStart p";
        simp add: validateConnectForEncode_def PackFlags_def unpackConnectFlags_def Let_def)
qed

lemma Pack_unpack:
  assumes "so_QoS sub \<le> 2" "so_RetainHandling sub \<le> 2"
  shows "Pack sub AND 3 = so_QoS sub" "drop_bit 4 (Pack sub) AND 3 = so_RetainHandling sub"
    "Pack sub AND 4 \<noteq> 0 \<longleftrightarrow> so_NoLocal sub" "Pack sub AND 8 \<noteq> 0 \<longleftrightarrow> so_RetainAsPublished sub"
    "Pack sub AND 0xc0 = 0"
  using assms unfolding byte_le_2
  by (elim disjE; cases "so_NoLocal sub"; cases "so_RetainAsPublished sub"; simp add: Pack_def Let_def)+

section \<open>Every encoded body is decoded to the canonical packet\<close>

lemmas dec_simps =
  string_field.dec_enc binary_field.dec_enc u16_field.dec_enc
  string_field.dec_enc [where rest = "[]", simplified]
  binary_field.dec_enc [where rest = "[]", simplified]
  u16_field.dec_enc [where rest = "[]", simplified]

lemma validateTopicName_iff [simp]:
  "validateTopicName packet field topic False = Inr () \<longleftrightarrow> topic \<noteq> [] \<and> \<not> contains_wildcard topic"
  by (simp add: validateTopicName_def)

lemma validateTopicName_ok [simp]:
  "topic \<noteq> [] \<Longrightarrow> \<not> contains_wildcard topic \<Longrightarrow> validateTopicName packet field topic False = Inr ()"
  by simp

definition encWill :: "bytes \<Rightarrow> Connect \<Rightarrow> bytes" where
  "encWill props p = (if cn_WillFlag p then props @ encString (cn_WillTopic p) @ encBinary (cn_WillMessage p)
     else [])"

lemma encodeConnectWill_Inr:
  assumes "encodeConnectWill buf p = Inr b"
  obtains props where "b = buf @ encWill props p"
    "cn_WillFlag p \<Longrightarrow> encodeProperties WILLPROPERTIES (map_option PublishProps (cn_WillProperties p)) = Inr props"
    "cn_WillFlag p \<Longrightarrow> cn_WillTopic p \<noteq> [] \<and> \<not> contains_wildcard (cn_WillTopic p) \<and>
       valid_string (cn_WillTopic p) \<and> valid_binary (cn_WillMessage p)"
  using assms
  by (auto simp: encodeConnectWill_def encWill_def rbind_eq_Inr rbind_unit_iff writeString_Inr_iff writeBinary_Inr_iff
      split: if_splits)

lemma decodeConnectWill_enc:
  assumes "cn_WillFlag p \<Longrightarrow> encodeProperties WILLPROPERTIES (map_option PublishProps (cn_WillProperties p)) = Inr props"
    "cn_WillFlag p \<Longrightarrow> cn_WillTopic p \<noteq> [] \<and> \<not> contains_wildcard (cn_WillTopic p) \<and>
       valid_string (cn_WillTopic p) \<and> valid_binary (cn_WillMessage p)"
    and "cn_WillFlag out = cn_WillFlag p"
  shows "decodeConnectWill out (cur_at t pre (encWill props p @ rest)) =
    Inr (if cn_WillFlag p
         then out\<lparr>cn_WillProperties := Some (publish_ps.canon (cn_WillProperties p)),
                  cn_WillTopic := cn_WillTopic p, cn_WillMessage := cn_WillMessage p\<rparr>
         else out, cur_at t (pre @ encWill props p) rest)"
proof (cases "cn_WillFlag p")
  case True
  then show ?thesis
    using assms(2,3) publish_ps.decode_encoded [OF _ assms(1)]
    by (simp add: decodeConnectWill_def encWill_def dec_simps)
qed (use assms(3) in \<open>simp add: decodeConnectWill_def encWill_def\<close>)

lemma encodeConnect_Inr:
  assumes "encodeConnect p = Inr b"
  obtains props wprops where "validateConnectForEncode p = Inr ()"
    "cn_ProtocolName p = ''MQTT''" "cn_ProtocolVersion p = 5"
    "b = encString ''MQTT'' @ 5 # PackFlags p # writeUint16 [] (cn_KeepAlive p) @ props @
       encString (cn_ClientID p) @ encWill wprops p @
       (if cn_UsernameFlag p then encString (cn_Username p) else []) @
       (if cn_PasswordFlag p then encBinary (cn_Password p) else [])"
    "encodeProperties CONNECT (map_option ConnectProps (cn_Properties p)) = Inr props"
    "valid_string (cn_ClientID p)"
    "cn_WillFlag p \<Longrightarrow> encodeProperties WILLPROPERTIES (map_option PublishProps (cn_WillProperties p)) = Inr wprops"
    "cn_WillFlag p \<Longrightarrow> cn_WillTopic p \<noteq> [] \<and> \<not> contains_wildcard (cn_WillTopic p) \<and>
       valid_string (cn_WillTopic p) \<and> valid_binary (cn_WillMessage p)"
    "cn_UsernameFlag p \<Longrightarrow> valid_string (cn_Username p)"
    "cn_PasswordFlag p \<Longrightarrow> valid_binary (cn_Password p)"
proof -
  have v: "validateConnectForEncode p = Inr ()" "cn_ProtocolName p = ''MQTT''" "cn_ProtocolVersion p = 5"
    using assms by (auto simp: encodeConnect_def rbind_unit_iff split: if_splits)
  obtain props b1 b2 where 1:
      "encodeProperties CONNECT (map_option ConnectProps (cn_Properties p)) = Inr props"
      "valid_string (cn_ClientID p)"
      "encodeConnectWill (writeUint16 (encString ''MQTT'' @ [5, PackFlags p]) (cn_KeepAlive p) @ props @
         encString (cn_ClientID p)) p = Inr b1"
      "(if cn_UsernameFlag p then writeString b1 CONNECT ''username'' (cn_Username p) else Inr b1) = Inr b2"
      "(if cn_PasswordFlag p then writeBinary b2 CONNECT ''password'' (cn_Password p) else Inr b2) = Inr b"
    using assms v
    by (auto simp: encodeConnect_def rbind_eq_Inr writeString_Inr_iff)
  obtain wprops where 2: "b1 = (writeUint16 (encString ''MQTT'' @ [5, PackFlags p]) (cn_KeepAlive p) @ props @
         encString (cn_ClientID p)) @ encWill wprops p"
      "cn_WillFlag p \<Longrightarrow> encodeProperties WILLPROPERTIES (map_option PublishProps (cn_WillProperties p)) = Inr wprops"
      "cn_WillFlag p \<Longrightarrow> cn_WillTopic p \<noteq> [] \<and> \<not> contains_wildcard (cn_WillTopic p) \<and>
         valid_string (cn_WillTopic p) \<and> valid_binary (cn_WillMessage p)"
    by (rule encodeConnectWill_Inr [OF 1(3)]) blast
  have "b = encString ''MQTT'' @ 5 # PackFlags p # writeUint16 [] (cn_KeepAlive p) @ props @
       encString (cn_ClientID p) @ encWill wprops p @
       (if cn_UsernameFlag p then encString (cn_Username p) else []) @
       (if cn_PasswordFlag p then encBinary (cn_Password p) else [])"
      "cn_UsernameFlag p \<Longrightarrow> valid_string (cn_Username p)"
      "cn_PasswordFlag p \<Longrightarrow> valid_binary (cn_Password p)"
    using 1(4,5) 2(1)
    by (auto simp: writeString_Inr_iff writeBinary_Inr_iff
        writeUint16_append [of "encString ''MQTT'' @ [5, PackFlags p]"] split: if_splits)
  with that v 1 2 show thesis by blast
qed

lemma decodeConnect_enc:
  assumes "encodeConnect p = Inr b"
  shows "decodeConnect (cur_at CONNECT [] b) = Inr (canonConnect p, cur_at CONNECT b [])"
proof -
  obtain props wprops where v: "validateConnectForEncode p = Inr ()"
      and n: "cn_ProtocolName p = ''MQTT''" "cn_ProtocolVersion p = 5"
      and b: "b = encString ''MQTT'' @ 5 # PackFlags p # writeUint16 [] (cn_KeepAlive p) @ props @
        encString (cn_ClientID p) @ encWill wprops p @
        (if cn_UsernameFlag p then encString (cn_Username p) else []) @
        (if cn_PasswordFlag p then encBinary (cn_Password p) else [])"
      and props: "encodeProperties CONNECT (map_option ConnectProps (cn_Properties p)) = Inr props"
      and cid: "valid_string (cn_ClientID p)"
      and will: "cn_WillFlag p \<Longrightarrow> encodeProperties WILLPROPERTIES (map_option PublishProps (cn_WillProperties p)) = Inr wprops"
        "cn_WillFlag p \<Longrightarrow> cn_WillTopic p \<noteq> [] \<and> \<not> contains_wildcard (cn_WillTopic p) \<and>
         valid_string (cn_WillTopic p) \<and> valid_binary (cn_WillMessage p)"
      and rest: "cn_UsernameFlag p \<Longrightarrow> valid_string (cn_Username p)"
        "cn_PasswordFlag p \<Longrightarrow> valid_binary (cn_Password p)"
    by (rule encodeConnect_Inr [OF assms]) blast
  have q: "valid_string ''MQTT''" by (simp add: valid_string_def bytes_of_string_def)
  show ?thesis
    unfolding decodeConnect_def b
    by (simp add: dec_simps q unpackConnectFlags_PackFlags [OF v] connect_ps.decode_encoded [OF _ props]
        cid decodeConnectWill_enc [OF will] decodeConnectUsername_def decodeConnectPassword_def rest
        canonConnect_def Connect0_def n)
qed

lemma decodeConnack_enc:
  assumes "encodeConnack p = Inr b"
  shows "decodeConnack (cur_at CONNACK [] b) =
    Inr (p\<lparr>ca_Properties := Some (connack_ps.canon (ca_Properties p))\<rparr>, cur_at CONNACK b [])"
proof -
  obtain props where 1: "validateReason CONNACK (ca_ReasonCode p) = Inr ()"
      "ca_ReasonCode p = ConnAckSuccess \<or> \<not> ca_SessionPresent p"
      "encodeProperties CONNACK (map_option ConnAckProps (ca_Properties p)) = Inr props"
      "b = (if ca_SessionPresent p then 1 else 0) # ca_ReasonCode p # props"
    using assms by (auto simp: encodeConnack_def rbind_unit_iff rbind_eq_Inr Let_def split: if_splits)
  have "(if ca_SessionPresent p then 1 else 0 :: byte) AND 0xfe = 0"
    "(if ca_SessionPresent p then 1 else 0 :: byte) AND 1 \<noteq> 0 \<longleftrightarrow> ca_SessionPresent p" by simp_all
  then show ?thesis
    using 1 connack_ps.decode_encoded [OF _ 1(3), where rest = "[]"]
    by (cases p) (simp add: decodeConnack_def Let_def)
qed

lemma encodePublish_Inr:
  assumes "encodePublish p = Inr b"
  obtains props where "pub_QoS p = 0 \<Longrightarrow> pub_PacketID p = 0" "pub_QoS p > 0 \<Longrightarrow> pub_PacketID p \<noteq> 0"
    "pub_Topic p = [] \<Longrightarrow> \<exists>q. pub_Properties p = Some q \<and> pp_TopicAlias q \<noteq> None"
    "\<not> contains_wildcard (pub_Topic p)" "valid_string (pub_Topic p)"
    "encodeProperties PUBLISH (map_option PublishProps (pub_Properties p)) = Inr props"
    "b = encString (pub_Topic p) @ (if pub_QoS p > 0 then writeUint16 [] (pub_PacketID p) else []) @
       props @ pub_Payload p"
proof -
  obtain props where "pub_QoS p = 0 \<Longrightarrow> pub_PacketID p = 0" "pub_QoS p > 0 \<Longrightarrow> pub_PacketID p \<noteq> 0"
    "pub_Topic p = [] \<Longrightarrow> \<exists>q. pub_Properties p = Some q \<and> pp_TopicAlias q \<noteq> None"
    "pub_Topic p \<noteq> [] \<Longrightarrow> \<not> contains_wildcard (pub_Topic p)" "valid_string (pub_Topic p)"
    "encodeProperties PUBLISH (map_option PublishProps (pub_Properties p)) = Inr props"
    "b = encString (pub_Topic p) @ (if pub_QoS p > 0 then writeUint16 [] (pub_PacketID p) else []) @
       props @ pub_Payload p"
    using assms writeUint16_append [of "encString (pub_Topic p)" "pub_PacketID p"]
    by (simp add: encodePublish_def rbind_unit_iff rbind_eq_Inr writeString_Inr_iff Let_def
        split: if_splits option.splits) blast+
  then show thesis
    using that by (cases "pub_Topic p = []") (auto simp: contains_wildcard_def)
qed

lemma TopicAlias_canon:
  "pp_TopicAlias (publish_ps.canon (Some q)) = pp_TopicAlias q"
  by (simp add: canonOf_def)

lemma decodePublish_enc:
  assumes "encodePublish p = Inr b" and "pub_QoS p \<le> 2"
    and "drop_bit 1 flags AND 3 = pub_QoS p" "flags AND 8 \<noteq> 0 \<longleftrightarrow> pub_Duplicate p"
      "flags AND 1 \<noteq> 0 \<longleftrightarrow> pub_Retain p"
  shows "decodePublish (cur_at PUBLISH [] b) flags =
    Inr (p\<lparr>pub_Properties := Some (publish_ps.canon (pub_Properties p))\<rparr>, cur_at PUBLISH b [])"
proof -
  obtain props where 1: "pub_QoS p = 0 \<Longrightarrow> pub_PacketID p = 0" "pub_QoS p > 0 \<Longrightarrow> pub_PacketID p \<noteq> 0"
    "pub_Topic p = [] \<Longrightarrow> \<exists>q. pub_Properties p = Some q \<and> pp_TopicAlias q \<noteq> None"
    "\<not> contains_wildcard (pub_Topic p)" "valid_string (pub_Topic p)"
    "encodeProperties PUBLISH (map_option PublishProps (pub_Properties p)) = Inr props"
    "b = encString (pub_Topic p) @ (if pub_QoS p > 0 then writeUint16 [] (pub_PacketID p) else []) @
       props @ pub_Payload p"
    by (rule encodePublish_Inr [OF assms(1)]) blast
  have q: "pub_QoS p \<noteq> 3" using assms(2) by auto
  have t: "pub_Topic p = [] \<Longrightarrow> pp_TopicAlias (publish_ps.canon (pub_Properties p)) \<noteq> None"
    using 1(3) TopicAlias_canon by auto
  let ?idb = "if pub_QoS p > 0 then writeUint16 [] (pub_PacketID p) else []"
  let ?pre = "encString (pub_Topic p) @ ?idb"
  have s1: "readString ''topic name'' (cur_at PUBLISH [] b) =
      Inr (pub_Topic p, cur_at PUBLISH (encString (pub_Topic p)) (?idb @ props @ pub_Payload p))"
    using 1(5) by (simp add: 1(7) dec_simps)
  have s2: "(if pub_QoS p > 0 then
        rbind (readUint16 ''packet identifier'' (cur_at PUBLISH (encString (pub_Topic p))
            (?idb @ props @ pub_Payload p))) (\<lambda>(pid, cur).
          if pid = 0 then Inl (malformed PUBLISH ''packet identifier'' ''packet identifier must be non-zero'')
          else Inr (pid, cur))
      else Inr (0, cur_at PUBLISH (encString (pub_Topic p)) (?idb @ props @ pub_Payload p))) =
    Inr (pub_PacketID p, cur_at PUBLISH ?pre (props @ pub_Payload p))"
    using 1(1,2) by (auto simp: dec_simps word_gt_0)
  have s3: "decodeProperties (cur_at PUBLISH ?pre (props @ pub_Payload p)) PUBLISH
      (PublishProps PublishProperties0) =
    Inr (PublishProps (publish_ps.canon (pub_Properties p)), cur_at PUBLISH (?pre @ props) (pub_Payload p))"
    by (rule publish_ps.decode_encoded [OF _ 1(6)]) simp
  have s4: "(if pub_Topic p = [] then
        (if pp_TopicAlias (publish_ps.canon (pub_Properties p)) = None
         then Inl (malformed PUBLISH ''topic name'' ''topic name is required unless topic alias is present'')
         else Inr ())
      else validateTopicName PUBLISH ''topic name'' (pub_Topic p) False) = Inr ()"
    using t 1(4) by simp
  have s5: "b = (?pre @ props) @ pub_Payload p" by (simp add: 1(7))
  show ?thesis
    unfolding decodePublish_def Let_def assms(3,4,5) if_not_P [OF q] s1 rbind_simps prod.case s2 s3
      unPublishProps.simps s4
    unfolding s5 by (cases p) (simp add: cur_at_def)
qed

lemma encSection_one: "encodeProperties packet v = Inr b \<Longrightarrow> length b = 1 \<Longrightarrow> b = encSection []"
proof -
  assume "encodeProperties packet v = Inr b" "length b = 1"
  then obtain items where b: "b = encSection items"
    using encodeProperties_None encodeProperties_Some_iff by (cases v) auto
  have "1 \<le> length (encVBI (int (length (encItems items))))"
    by (simp add: encodeRemainingLength_loop.simps Let_def)
  then have "length (encItems items) = 0"
    using \<open>length b = 1\<close> unfolding b encSection_def length_append by linarith
  then have e: "encItems items = []" unfolding length_0_conv .
  show ?thesis unfolding b encSection_def e by simp
qed

lemma encSection_Nil: "encSection [] = [0]"
  by (simp add: encSection_def encodeRemainingLength_loop_small)


text \<open>The part of an acknowledgement after the Packet Identifier, and DISCONNECT and AUTH.\<close>

definition encReasonTail :: "byte \<Rightarrow> bytes \<Rightarrow> bytes" where
  "encReasonTail reason props =
     (if reason = 0 \<and> length props = 1 then []
      else if length props > 1 then reason # props else [reason])"

lemma encReasonTail_cases:
  assumes "encodeProperties packet v = Inr props"
  obtains "encReasonTail reason props = []" "reason = 0" "props = encSection []"
  | "encReasonTail reason props = [reason]" "props = encSection []"
  | "encReasonTail reason props = reason # props" "props \<noteq> []"
proof (cases "length props = 1")
  case True
  have p: "props = encSection []" by (rule encSection_one [OF assms True])
  show thesis
  proof (cases "reason = 0")
    case r: True
    have "encReasonTail reason props = []" using True r by (simp add: encReasonTail_def)
    then show thesis using r p by (rule that(1))
  next
    case False
    then have "encReasonTail reason props = [reason]" using True by (simp add: encReasonTail_def)
    then show thesis using p by (rule that(2))
  qed
next
  case False
  then have "1 < length props" using connect_ps.encode_length [OF assms] by simp
  then have "encReasonTail reason props = reason # props" "props \<noteq> []" by (auto simp: encReasonTail_def)
  then show thesis by (rule that(3))
qed

lemma encodeAck_Inr_iff:
  "encodeAck t pid reason v = Inr b \<longleftrightarrow>
     pid \<noteq> 0 \<and> validateReason t reason = Inr () \<and>
     (\<exists>props. encodeProperties t v = Inr props \<and> b = writeUint16 [] pid @ encReasonTail reason props)"
  by (auto simp: encodeAck_def rbind_unit_iff rbind_eq_Inr Let_def encReasonTail_def)

lemma encodeReasonPacket_Inr_iff:
  "encodeReasonPacket t reason v = Inr b \<longleftrightarrow>
     validateReason t reason = Inr () \<and>
     (\<exists>props. encodeProperties t v = Inr props \<and> b = encReasonTail reason props)"
  by (auto simp: encodeReasonPacket_def rbind_unit_iff rbind_eq_Inr Let_def encReasonTail_def)

text \<open>
  Reading such a tail: a reason code and a property section, each only when bytes are left. Both
  \<open>decodeAck\<close> and the decoders of DISCONNECT and AUTH read one.
\<close>

definition tailDec :: "PacketType \<Rightarrow> ('p \<Rightarrow> Properties) \<Rightarrow> (Properties \<Rightarrow> 'p) \<Rightarrow> 'p \<Rightarrow> cursor \<Rightarrow>
    error + (byte \<times> 'p) \<times> cursor" where
  "tailDec t ctor un zero cur =
     (if remaining cur > 0 then
        rbind (readByte ''reason code'' cur) (\<lambda>(reason, cur).
        rbind (validateReason t reason) (\<lambda>_.
          (if remaining cur > 0 then
             rbind (decodeProperties cur t (ctor zero)) (\<lambda>(props, cur). Inr ((reason, un props), cur))
           else Inr ((reason, zero), cur))))
      else Inr ((0, zero), cur))"

locale reason_struct = property_struct ctor un zero for_packet
  for ctor :: "'p \<Rightarrow> Properties" and un :: "Properties \<Rightarrow> 'p" and zero :: 'p
    and for_packet :: "PacketType \<Rightarrow> bool" +
  fixes t :: PacketType
  assumes for_t: "for_packet t" and reason0: "validateReason t 0 = Inr ()"
begin

lemma zero_section:
  "encodeProperties t (Some (ctor zero)) = Inr (encSection [])" "canon (Some zero) = zero"
  using zero_ctor [of zero] items_of_zero [of "ctor zero"] canonProps_zero [of "ctor zero"]
  by (simp_all add: encodeProperties_Some_iff canonOf_def un_ctor)

lemma canon_Nil:
  assumes "encodeProperties t (map_option ctor v) = Inr (encSection [])"
  shows "canon v = zero"
proof -
  have "decodeProperties (cur_at 0 [] (encSection [] @ [])) t (ctor zero) =
      Inr (assigns (ctor zero) [], cur_at 0 ([] @ encSection []) [])"
    by (rule decodeProperties_enc) (simp add: section_ok_def)
  with decode_encoded [OF for_t assms, of 0 "[]" "[]"] have "ctor zero = ctor (canon v)" by simp
  then show ?thesis using un_ctor by metis
qed

lemma tail_enc:
  assumes "encodeProperties t (map_option ctor v) = Inr props" and "validateReason t reason = Inr ()"
  shows "tailDec t ctor un zero (cur_at p pre (encReasonTail reason props)) =
    Inr ((reason, canon v), cur_at p (pre @ encReasonTail reason props) [])"
proof (rule encReasonTail_cases [OF assms(1), of reason])
  assume "encReasonTail reason props = reason # props" "props \<noteq> []"
  then show ?thesis
    using decode_encoded [OF for_t assms(1), where rest = "[]"] assms(2)
    by (simp add: tailDec_def un_ctor)
qed (use assms(2) canon_Nil assms(1) in \<open>simp_all add: tailDec_def\<close>)

lemma tail_sound:
  assumes "tailDec t ctor un zero (cur_at p pre xs) = Inr ((reason, q), c)" and "remaining c = 0"
  obtains props where "encodeProperties t (Some (ctor q)) = Inr props" "canon (Some q) = q"
    "validateReason t reason = Inr ()" "length (encReasonTail reason props) \<le> length xs"
proof (cases xs)
  case Nil
  then show thesis
    using assms(1) that [of "encSection []"] zero_section reason0
    by (auto simp: tailDec_def encReasonTail_def encSection_Nil)
next
  case (Cons r ys)
  have r: "r = reason" "validateReason t reason = Inr ()"
    using assms(1) Cons by (auto simp: tailDec_def rbind_eq_Inr split: if_splits)
  show thesis
  proof (cases "ys = []")
    case True
    then show thesis
      using assms(1) Cons r zero_section that [of "encSection []"]
      by (auto simp: tailDec_def encReasonTail_def encSection_Nil)
  next
    case False
    then obtain props where d: "decodeProperties (cur_at p (pre @ [r]) ys) t (ctor zero) = Inr (props, c)"
        "q = un props"
      using assms(1) Cons r by (auto simp: tailDec_def rbind_eq_Inr)
    obtain b rest b' where b: "ys = b @ rest" "b \<noteq> []"
        "encodeProperties t (Some (ctor (un props))) = Inr b'" "length b' \<le> length b"
        "canon (Some (un props)) = un props"
      by (rule decoded_reencode [OF for_t d(1)])
    then show thesis
      using that [of b'] d(2) r Cons by (auto simp: encReasonTail_def)
  qed
qed

end

text \<open>The four acknowledgements share one layout.\<close>

locale ack_packet = reason_struct ctor un zero for_packet t
  for ctor :: "'p \<Rightarrow> Properties" and un :: "Properties \<Rightarrow> 'p" and zero :: 'p
    and for_packet :: "PacketType \<Rightarrow> bool" and t :: PacketType +
  fixes mk :: "'p \<Rightarrow> u16 \<Rightarrow> byte \<Rightarrow> Packet"
  assumes ack_props: "decodeAckProperties cur t (mk zero 0 0) =
      rbind (decodeProperties cur t (ctor zero)) (\<lambda>(props, cur). Inr (mk (un props) 0 0, cur))"
    and ack_set: "setAck (mk p i r) i' r' = mk p i' r'"
begin

lemma tail_step:
  "rbind (if remaining c > 0 then
            rbind (readByte ''reason code'' c) (\<lambda>(reason, cur).
            rbind (validateReason t reason) (\<lambda>_. Inr (reason, cur)))
          else Inr (0, c)) (\<lambda>(reason, cur).
   rbind (if remaining cur > 0 then decodeAckProperties cur t (mk zero 0 0)
          else Inr (mk zero 0 0, cur)) (\<lambda>(out, cur).
     Inr (setAck out i reason, cur))) =
   rbind (tailDec t ctor un zero c) (\<lambda>((reason, p), cur). Inr (mk p i reason, cur))"
proof (cases "remaining c > 0")
  case True
  show ?thesis
  proof (cases "readByte ''reason code'' c")
    case (Inr rc)
    obtain r c' where rc: "rc = (r, c')" by (cases rc)
    show ?thesis
      by (cases "validateReason t r"; cases "decodeProperties c' t (ctor zero)"; cases "remaining c' > 0")
        (simp_all add: True Inr rc tailDec_def ack_props ack_set split: prod.splits)
  qed (simp add: True tailDec_def)
qed (simp add: tailDec_def ack_set)

lemma decodeAck_tail:
  "decodeAck cur t (mk zero 0 0) =
     rbind (readUint16 ''packet identifier'' cur) (\<lambda>(packetID, cur).
       if packetID = 0
       then Inl (malformed t ''packet identifier'' ''packet identifier must be non-zero'')
       else rbind (tailDec t ctor un zero cur) (\<lambda>((reason, p), cur). Inr (mk p packetID reason, cur)))"
  unfolding decodeAck_def tail_step ..

lemma ack_enc:
  assumes "encodeAck t pid reason (map_option ctor v) = Inr b"
  shows "decodeAck (cur_at t [] b) t (mk zero 0 0) = Inr (mk (canon v) pid reason, cur_at t b [])"
proof -
  obtain props where 1: "pid \<noteq> 0" "validateReason t reason = Inr ()"
      "encodeProperties t (map_option ctor v) = Inr props"
      "b = writeUint16 [] pid @ encReasonTail reason props"
    using assms by (auto simp: encodeAck_Inr_iff)
  show ?thesis
    using 1(1) by (simp add: decodeAck_tail 1(4) dec_simps tail_enc [OF 1(3,2)])
qed

lemma ack_sound:
  assumes "decodeAck (cur_at t [] b) t (mk zero 0 0) = Inr (out, c)" and "remaining c = 0"
  obtains p pid reason b' where "out = mk p pid reason" "canon (Some p) = p"
    "encodeAck t pid reason (Some (ctor p)) = Inr b'" "length b' \<le> length b"
proof -
  obtain pid c1 reason p where 1: "readUint16 ''packet identifier'' (cur_at t [] b) = Inr (pid, c1)"
      "pid \<noteq> 0" "tailDec t ctor un zero c1 = Inr ((reason, p), c)" "out = mk p pid reason"
    using assms(1) by (auto simp: decodeAck_tail rbind_eq_Inr split: if_splits)
  obtain r1 where r1: "b = writeUint16 [] pid @ r1" "c1 = cur_at t ([] @ writeUint16 [] pid) r1"
    by (rule u16_field.dec_at_obtain [OF 1(1)])
  obtain props where "encodeProperties t (Some (ctor p)) = Inr props" "canon (Some p) = p"
      "validateReason t reason = Inr ()" "length (encReasonTail reason props) \<le> length r1"
    by (rule tail_sound [OF 1(3) [unfolded r1(2)] assms(2)])
  then show thesis
    using that [OF 1(4)] 1(2) r1(1) by (auto simp: encodeAck_Inr_iff)
qed

end

interpretation puback_pkt: ack_packet PubackProps unPubackProps PubackProperties0
    "\<lambda>packet. packet = PUBACK" PUBACK
    "\<lambda>p i r. PPuback \<lparr>pa_Properties = Some p, pa_PacketID = i, pa_ReasonCode = r\<rparr>"
  by unfold_locales (simp_all add: validateReason_def validReasonCodes_def decodeAckProperties_def setAck_def)

interpretation pubrec_pkt: ack_packet PubrecProps unPubrecProps PubrecProperties0
    "\<lambda>packet. packet = PUBREC" PUBREC
    "\<lambda>p i r. PPubrec \<lparr>pr_Properties = Some p, pr_PacketID = i, pr_ReasonCode = r\<rparr>"
  by unfold_locales (simp_all add: validateReason_def validReasonCodes_def decodeAckProperties_def setAck_def)

interpretation pubrel_pkt: ack_packet PubrelProps unPubrelProps PubrelProperties0
    "\<lambda>packet. packet = PUBREL" PUBREL
    "\<lambda>p i r. PPubrel \<lparr>pl_Properties = Some p, pl_PacketID = i, pl_ReasonCode = r\<rparr>"
  by unfold_locales (simp_all add: validateReason_def validReasonCodes_def decodeAckProperties_def setAck_def)

interpretation pubcomp_pkt: ack_packet PubcompProps unPubcompProps PubcompProperties0
    "\<lambda>packet. packet = PUBCOMP" PUBCOMP
    "\<lambda>p i r. PPubcomp \<lparr>pc_Properties = Some p, pc_PacketID = i, pc_ReasonCode = r\<rparr>"
  by unfold_locales (simp_all add: validateReason_def validReasonCodes_def decodeAckProperties_def setAck_def)

interpretation disconnect_pkt: reason_struct DisconnectProps unDisconnectProps DisconnectProperties0
    "\<lambda>packet. packet = DISCONNECT" DISCONNECT
  by unfold_locales (simp_all add: validateReason_def validReasonCodes_def)

interpretation auth_pkt: reason_struct AuthProps unAuthProps AuthProperties0
    "\<lambda>packet. packet = AUTH" AUTH
  by unfold_locales (simp_all add: validateReason_def validReasonCodes_def)

lemma rbind_prod_Inr:
  "rbind m (\<lambda>x. rbind (case x of (a, b) \<Rightarrow> Inr (f a b)) g) = rbind m (\<lambda>(a, b). g (f a b))"
  by (cases m) auto

lemma decodeDisconnect_tail:
  "decodeDisconnect (cur_at t pre xs) =
     rbind (tailDec DISCONNECT DisconnectProps unDisconnectProps DisconnectProperties0 (cur_at t pre xs))
       (\<lambda>((reason, p), cur). Inr (\<lparr>ds_Properties = Some p, ds_ReasonCode = reason\<rparr>, cur))"
  by (cases xs) (simp_all add: decodeDisconnect_def tailDec_def rbind_assoc rbind_prod_Inr)

lemma decodeAuth_tail:
  "decodeAuth (cur_at t pre xs) =
     rbind (tailDec AUTH AuthProps unAuthProps AuthProperties0 (cur_at t pre xs))
       (\<lambda>((reason, p), cur). Inr (\<lparr>au_Properties = Some p, au_ReasonCode = reason\<rparr>, cur))"
  by (cases xs) (simp_all add: decodeAuth_def tailDec_def rbind_assoc rbind_prod_Inr)

lemma decodeDisconnect_enc:
  assumes "encodeReasonPacket DISCONNECT (ds_ReasonCode p) (map_option DisconnectProps (ds_Properties p)) = Inr b"
  shows "decodeDisconnect (cur_at DISCONNECT [] b) =
    Inr (p\<lparr>ds_Properties := Some (disconnect_ps.canon (ds_Properties p))\<rparr>, cur_at DISCONNECT b [])"
  using assms by (cases p) (auto simp: encodeReasonPacket_Inr_iff decodeDisconnect_tail disconnect_pkt.tail_enc)

lemma decodeAuth_enc:
  assumes "encodeReasonPacket AUTH (au_ReasonCode p) (map_option AuthProps (au_Properties p)) = Inr b"
  shows "decodeAuth (cur_at AUTH [] b) =
    Inr (p\<lparr>au_Properties := Some (auth_ps.canon (au_Properties p))\<rparr>, cur_at AUTH b [])"
  using assms by (cases p) (auto simp: encodeReasonPacket_Inr_iff decodeAuth_tail auth_pkt.tail_enc)

text \<open>Reason code lists.\<close>

lemma readPacketID_enc:
  "pid \<noteq> 0 \<Longrightarrow> readPacketID t (cur_at p pre (writeUint16 [] pid @ rest)) =
     Inr (pid, cur_at p (pre @ writeUint16 [] pid) rest)"
  by (simp add: readPacketID_def dec_simps)

lemma readReasons_at:
  "readReasons t (cur_at p pre xs) =
     (if xs = [] then Inl (malformed t ''reason codes'' ''at least one reason code is required'')
      else rbind (validateReasons t xs) (\<lambda>_. Inr (xs, cur_at p (pre @ xs) [])))"
  by (simp add: readReasons_def cur_at_def)

lemma encodeCodeList_Inr_iff:
  "encodeCodeList t pid v reasons = Inr b \<longleftrightarrow>
     pid \<noteq> 0 \<and> reasons \<noteq> [] \<and> validateReasons t reasons = Inr () \<and>
     (\<exists>props. encodeProperties t v = Inr props \<and> b = writeUint16 [] pid @ props @ reasons)"
  by (auto simp: encodeCodeList_def rbind_unit_iff rbind_eq_Inr Let_def)

lemma decodeSuback_enc:
  assumes "encodeCodeList SUBACK (sa_PacketID p) (map_option SubackProps (sa_Properties p)) (sa_Reasons p) = Inr b"
  shows "decodeSuback (cur_at SUBACK [] b) =
    Inr (p\<lparr>sa_Properties := Some (suback_ps.canon (sa_Properties p))\<rparr>, cur_at SUBACK b [])"
  using assms
  by (cases p) (auto simp: encodeCodeList_Inr_iff decodeSuback_def readPacketID_enc readReasons_at
      suback_ps.decode_encoded)

lemma decodeUnsuback_enc:
  assumes "encodeCodeList UNSUBACK (ua_PacketID p) (map_option UnsubackProps (ua_Properties p)) (ua_Reasons p) = Inr b"
  shows "decodeUnsuback (cur_at UNSUBACK [] b) =
    Inr (p\<lparr>ua_Properties := Some (unsuback_ps.canon (ua_Properties p))\<rparr>, cur_at UNSUBACK b [])"
  using assms
  by (cases p) (auto simp: encodeCodeList_Inr_iff decodeUnsuback_def readPacketID_enc readReasons_at
      unsuback_ps.decode_encoded)

text \<open>Topic filter lists.\<close>

definition sub_ok :: "SubOptions \<Rightarrow> bool" where
  "sub_ok sub \<longleftrightarrow> validateTopicFilter SUBSCRIBE ''topic filter'' (so_Topic sub) = Inr () \<and>
     so_QoS sub \<le> 2 \<and> so_RetainHandling sub \<le> 2 \<and> valid_string (so_Topic sub)"

definition encSub :: "SubOptions \<Rightarrow> bytes" where
  "encSub sub = encString (so_Topic sub) @ [Pack sub]"

lemma validateSubOptions_iff:
  "validateSubOptionsForEncode sub = Inr () \<longleftrightarrow> so_QoS sub \<le> 2 \<and> so_RetainHandling sub \<le> 2"
  by (auto simp: validateSubOptionsForEncode_def not_less)

lemma encodeSubscribe_loop_iff:
  "encodeSubscribe_loop buf subs = Inr b \<longleftrightarrow>
     list_all sub_ok subs \<and> b = buf @ concat (map encSub subs)"
  by (induction subs arbitrary: buf)
    (auto simp: rbind_unit_iff rbind_eq_Inr writeString_Inr_iff validateSubOptions_iff sub_ok_def encSub_def)

lemma SubOptions_eta:
  "\<lparr>so_Topic = so_Topic s, so_QoS = so_QoS s, so_RetainHandling = so_RetainHandling s,
     so_NoLocal = so_NoLocal s, so_RetainAsPublished = so_RetainAsPublished s\<rparr> = s"
  by simp

lemma decodeSubscribe_loop_enc:
  "list_all sub_ok subs \<Longrightarrow>
     decodeSubscribe_loop acc (cur_at p pre (concat (map encSub subs))) =
     Inr (acc @ subs, cur_at p (pre @ concat (map encSub subs)) [])"
proof (induction subs arbitrary: acc pre)
  case Nil
  then show ?case by (subst decodeSubscribe_loop.simps) simp
next
  case (Cons s subs)
  then have ok: "sub_ok s" and q: "so_QoS s \<le> 2" "so_RetainHandling s \<le> 2"
    by (auto simp: sub_ok_def)
  have n: "so_QoS s \<noteq> 3" "so_RetainHandling s \<noteq> 3" using q by auto
  have "0 < remaining (cur_at p pre (concat (map encSub (s # subs))))" by (simp add: encSub_def)
  then show ?case
    using Cons ok n
    by (subst decodeSubscribe_loop.simps)
      (simp add: encSub_def [of s] dec_simps sub_ok_def [of s] Pack_unpack [OF q] SubOptions_eta)
qed

lemma encodeSubscribe_Inr_iff:
  "encodeSubscribe p = Inr b \<longleftrightarrow>
     sb_PacketID p \<noteq> 0 \<and> sb_Subscriptions p \<noteq> [] \<and> list_all sub_ok (sb_Subscriptions p) \<and>
     (\<exists>props. encodeProperties SUBSCRIBE (map_option SubscribeProps (sb_Properties p)) = Inr props \<and>
        b = writeUint16 [] (sb_PacketID p) @ props @ concat (map encSub (sb_Subscriptions p)))"
  by (auto simp: encodeSubscribe_def rbind_eq_Inr Let_def encodeSubscribe_loop_iff)

lemma decodeSubscribe_enc:
  assumes "encodeSubscribe p = Inr b"
  shows "decodeSubscribe (cur_at SUBSCRIBE [] b) =
    Inr (p\<lparr>sb_Properties := Some (subscribe_ps.canon (sb_Properties p))\<rparr>, cur_at SUBSCRIBE b [])"
  using assms
  by (cases p) (auto simp: encodeSubscribe_Inr_iff decodeSubscribe_def readPacketID_enc
      subscribe_ps.decode_encoded decodeSubscribe_loop_enc)

definition topic_ok :: "string \<Rightarrow> bool" where
  "topic_ok topic \<longleftrightarrow> validateTopicFilter UNSUBSCRIBE ''topic filter'' topic = Inr () \<and> valid_string topic"

lemma encodeUnsubscribe_loop_iff:
  "encodeUnsubscribe_loop buf topics = Inr b \<longleftrightarrow>
     list_all topic_ok topics \<and> b = buf @ concat (map encString topics)"
  by (induction topics arbitrary: buf)
    (auto simp: rbind_unit_iff rbind_eq_Inr writeString_Inr_iff topic_ok_def)

lemma encString_ne: "encString s \<noteq> []"
  by (simp add: encString_def encBinary_def writeUint16_def)

lemma decodeUnsubscribe_loop_enc:
  "list_all topic_ok topics \<Longrightarrow>
     decodeUnsubscribe_loop acc (cur_at p pre (concat (map encString topics))) =
     Inr (acc @ topics, cur_at p (pre @ concat (map encString topics)) [])"
proof (induction topics arbitrary: acc pre)
  case Nil
  then show ?case by (subst decodeUnsubscribe_loop.simps) simp
next
  case (Cons s topics)
  have "0 < remaining (cur_at p pre (concat (map encString (s # topics))))"
    using encString_ne [of s] by (cases "encString s") simp_all
  then show ?case
    using Cons by (subst decodeUnsubscribe_loop.simps) (simp add: dec_simps topic_ok_def)
qed

lemma encodeUnsubscribe_Inr_iff:
  "encodeUnsubscribe p = Inr b \<longleftrightarrow>
     us_PacketID p \<noteq> 0 \<and> us_Topics p \<noteq> [] \<and> list_all topic_ok (us_Topics p) \<and>
     (\<exists>props. encodeProperties UNSUBSCRIBE (map_option UnsubscribeProps (us_Properties p)) = Inr props \<and>
        b = writeUint16 [] (us_PacketID p) @ props @ concat (map encString (us_Topics p)))"
  by (auto simp: encodeUnsubscribe_def rbind_eq_Inr Let_def encodeUnsubscribe_loop_iff)

lemma decodeUnsubscribe_enc:
  assumes "encodeUnsubscribe p = Inr b"
  shows "decodeUnsubscribe (cur_at UNSUBSCRIBE [] b) =
    Inr (p\<lparr>us_Properties := Some (unsubscribe_ps.canon (us_Properties p))\<rparr>, cur_at UNSUBSCRIBE b [])"
  using assms
  by (cases p) (auto simp: encodeUnsubscribe_Inr_iff decodeUnsubscribe_def readPacketID_enc
      unsubscribe_ps.decode_encoded decodeUnsubscribe_loop_enc)

text \<open>The QoS of a PUBLISH that is encoded must be a QoS; no other packet has a condition.\<close>

definition qos_ok :: "Packet \<Rightarrow> bool" where
  "qos_ok packet = (case packet of PPublish p \<Rightarrow> pub_QoS p \<le> 2 | _ \<Rightarrow> True)"

lemma fixedHeaderFlags_publish:
  assumes "fixedHeaderFlags (PPublish p) = Inr flags" and "pub_QoS p \<le> 2"
  shows "drop_bit 1 flags AND 3 = pub_QoS p" "flags AND 8 \<noteq> 0 \<longleftrightarrow> pub_Duplicate p"
    "flags AND 1 \<noteq> 0 \<longleftrightarrow> pub_Retain p"
    "drop_bit 4 (push_bit 4 PUBLISH OR flags) = PUBLISH" "(push_bit 4 PUBLISH OR flags) AND 0x0f = flags"
  using assms unfolding byte_le_2
  by (elim disjE; cases "pub_Duplicate p"; cases "pub_Retain p"; auto simp: fixedHeaderFlags_def Let_def)+

lemma header_byte:
  assumes "fixedHeaderFlags packet = Inr flags" and "qos_ok packet"
  shows "drop_bit 4 (push_bit 4 (PacketType_of packet) OR flags) = PacketType_of packet"
    "(push_bit 4 (PacketType_of packet) OR flags) AND 0x0f = flags"
  using assms fixedHeaderFlags_publish(4,5)
  by (cases packet; auto simp: fixedHeaderFlags_def qos_ok_def)+

lemma decodeBody_enc:
  assumes "encodePacket packet = Inr b" and "qos_ok packet" and "fixedHeaderFlags packet = Inr flags"
  shows "decodeBody (PacketType_of packet) flags (cur_at (PacketType_of packet) [] b) =
    Inr (canonPacket packet, cur_at (PacketType_of packet) b [])"
proof (cases packet)
  case (PPublish p)
  then show ?thesis
    using assms decodePublish_enc [of p b flags] fixedHeaderFlags_publish [of p flags]
    by (simp add: decodeBody_def encodePacket_def canonPacket_def qos_ok_def)
next
  case (PPuback p)
  then show ?thesis
    using assms(1) puback_pkt.ack_enc [of "pa_PacketID p" "pa_ReasonCode p" "pa_Properties p" b]
    by (cases p) (simp add: decodeBody_def encodePacket_def canonPacket_def)
next
  case (PPubrec p)
  then show ?thesis
    using assms(1) pubrec_pkt.ack_enc [of "pr_PacketID p" "pr_ReasonCode p" "pr_Properties p" b]
    by (cases p) (simp add: decodeBody_def encodePacket_def canonPacket_def)
next
  case (PPubrel p)
  then show ?thesis
    using assms(1) pubrel_pkt.ack_enc [of "pl_PacketID p" "pl_ReasonCode p" "pl_Properties p" b]
    by (cases p) (simp add: decodeBody_def encodePacket_def canonPacket_def)
next
  case (PPubcomp p)
  then show ?thesis
    using assms(1) pubcomp_pkt.ack_enc [of "pc_PacketID p" "pc_ReasonCode p" "pc_Properties p" b]
    by (cases p) (simp add: decodeBody_def encodePacket_def canonPacket_def)
qed (use assms(1) in \<open>simp_all add: decodeBody_def encodePacket_def canonPacket_def decodeEmpty_def
    decodeConnect_enc decodeConnack_enc decodeSubscribe_enc decodeSuback_enc decodeUnsubscribe_enc
    decodeUnsuback_enc decodeDisconnect_enc decodeAuth_enc\<close>)

lemma decodePacket_enc:
  assumes "encodePacket packet = Inr b" and "qos_ok packet" and "fixedHeaderFlags packet = Inr flags"
  shows "decodePacket (PacketType_of packet) flags b = Inr (canonPacket packet)"
  by (simp add: decodePacket_def newCursor_at decodeBody_enc [OF assms])

section \<open>Control packets\<close>

lemma Encode_Inr:
  assumes "Encode (Some cp) opts = Inr bs"
  obtains content flags body where "CanonicalPacket (Some cp) = Some content"
    "fh_Type (cp_FixedHeader cp) = 0 \<or> fh_Type (cp_FixedHeader cp) = PacketType_of content"
    "fixedHeaderFlags content = Inr flags" "validateFixedHeaderFlags (PacketType_of content) flags = Inr ()"
    "encodePacket content = Inr body" "int (length body) \<le> maxRemainingLength"
    "bs = (push_bit 4 (PacketType_of content) OR flags) # encVBI (int (length body)) @ body"
    "eo_MaxPacketSize opts > 0 \<Longrightarrow> int (length bs) \<le> eo_MaxPacketSize opts"
  using assms
  by (auto simp: Encode_def Let_def rbind_unit_iff rbind_eq_Inr encodeRemainingLength_def
      split: option.splits if_splits)

lemma length_encVBI_step:
  "length (encodeRemainingLength_loop n) =
     (if n < 128 then 1 else Suc (length (encodeRemainingLength_loop (n div 128))))"
  by (simp add: encodeRemainingLength_loop_small encodeRemainingLength_loop_large)

lemma encVBI_width: "valid_vbi n \<Longrightarrow> length (encVBI n) = minimalVBIBytes n"
  unfolding length_encVBI_step [of "nat n"] length_encVBI_step [of "nat n div 128"]
    length_encVBI_step [of "nat n div 128 div 128"] length_encVBI_step [of "nat n div 128 div 128 div 128"]
  by (simp add: div_less_iff_less_mult minimalVBIBytes_def nat_less_iff)

section \<open>Every decoded body can be encoded again\<close>

lemma disconnect_sound:
  assumes "decodeDisconnect (cur_at DISCONNECT [] b) = Inr (p, c)" and "remaining c = 0"
  shows "p\<lparr>ds_Properties := Some (disconnect_ps.canon (ds_Properties p))\<rparr> = p \<and>
    (\<exists>b'. encodePacket (PDisconnect p) = Inr b' \<and> length b' \<le> length b)"
proof -
  obtain reason q where q: "tailDec DISCONNECT DisconnectProps unDisconnectProps DisconnectProperties0
        (cur_at DISCONNECT [] b) = Inr ((reason, q), c)"
      and p: "p = \<lparr>ds_Properties = Some q, ds_ReasonCode = reason\<rparr>"
    using assms(1) by (auto simp: decodeDisconnect_tail rbind_eq_Inr)
  show ?thesis
    by (rule disconnect_pkt.tail_sound [OF q assms(2)])
      (auto simp: p encodePacket_def encodeReasonPacket_Inr_iff)
qed

lemma auth_sound:
  assumes "decodeAuth (cur_at AUTH [] b) = Inr (p, c)" and "remaining c = 0"
  shows "p\<lparr>au_Properties := Some (auth_ps.canon (au_Properties p))\<rparr> = p \<and>
    (\<exists>b'. encodePacket (PAuth p) = Inr b' \<and> length b' \<le> length b)"
proof -
  obtain reason q where q: "tailDec AUTH AuthProps unAuthProps AuthProperties0
        (cur_at AUTH [] b) = Inr ((reason, q), c)"
      and p: "p = \<lparr>au_Properties = Some q, au_ReasonCode = reason\<rparr>"
    using assms(1) by (auto simp: decodeAuth_tail rbind_eq_Inr)
  show ?thesis
    by (rule auth_pkt.tail_sound [OF q assms(2)])
      (auto simp: p encodePacket_def encodeReasonPacket_Inr_iff)
qed

lemma connack_sound:
  assumes "decodeConnack (cur_at CONNACK [] b) = Inr (p, c)"
  shows "p\<lparr>ca_Properties := Some (connack_ps.canon (ca_Properties p))\<rparr> = p \<and>
    (\<exists>b'. encodePacket (PConnAck p) = Inr b' \<and> length b' \<le> length b)"
proof -
  obtain flags b1 where b1: "b = flags # b1" using assms by (cases b) (auto simp: decodeConnack_def)
  obtain reason b2 where b2: "b1 = reason # b2"
    using assms b1 by (cases b1) (auto simp: decodeConnack_def Let_def split: if_splits)
  obtain props where d: "decodeProperties (cur_at CONNACK [flags, reason] b2) CONNACK
        (ConnAckProps ConnAckProperties0) = Inr (props, c)"
      and v: "validateReason CONNACK reason = Inr ()" "reason = ConnAckSuccess \<or> flags AND 1 = 0"
      and p: "p = \<lparr>ca_Properties = Some (unConnAckProps props), ca_ReasonCode = reason,
        ca_SessionPresent = (flags AND 1 \<noteq> 0)\<rparr>"
    using assms b1 b2
    by (auto simp: decodeConnack_def Let_def rbind_unit_iff rbind_eq_Inr split: if_splits)
  show ?thesis
    by (rule connack_ps.decoded_reencode [OF refl d])
      (use v in \<open>auto simp: p b1 b2 encodePacket_def encodeConnack_def\<close>)
qed

lemma readPacketID_sound:
  assumes "readPacketID t (cur_at t [] b) = Inr (pid, c1)"
  obtains b1 where "b = writeUint16 [] pid @ b1" "c1 = cur_at t (writeUint16 [] pid) b1" "pid \<noteq> 0"
proof -
  have r: "readUint16 ''packet identifier'' (cur_at t [] b) = Inr (pid, c1)" and "pid \<noteq> 0"
    using assms by (auto simp: readPacketID_def rbind_eq_Inr split: if_splits)
  show thesis
    by (rule u16_field.dec_at_obtain [OF r]) (use that \<open>pid \<noteq> 0\<close> in auto)
qed

lemma suback_sound:
  assumes "decodeSuback (cur_at SUBACK [] b) = Inr (p, c)"
  shows "p\<lparr>sa_Properties := Some (suback_ps.canon (sa_Properties p))\<rparr> = p \<and>
    (\<exists>b'. encodePacket (PSuback p) = Inr b' \<and> length b' \<le> length b)"
proof -
  obtain pid c1 props c2 reasons where 1: "readPacketID SUBACK (cur_at SUBACK [] b) = Inr (pid, c1)"
      and 2: "decodeProperties c1 SUBACK (SubackProps SubackProperties0) = Inr (props, c2)"
      and 3: "readReasons SUBACK c2 = Inr (reasons, c)"
      and p: "p = \<lparr>sa_Properties = Some (unSubackProps props), sa_Reasons = reasons, sa_PacketID = pid\<rparr>"
    using assms by (auto simp: decodeSuback_def rbind_eq_Inr)
  obtain b1 where b1: "b = writeUint16 [] pid @ b1" "c1 = cur_at SUBACK (writeUint16 [] pid) b1" "pid \<noteq> 0"
    by (rule readPacketID_sound [OF 1])
  show ?thesis
    by (rule suback_ps.decoded_reencode [OF refl 2 [unfolded b1(2)]])
      (use 3 b1 in \<open>auto simp: p encodePacket_def encodeCodeList_Inr_iff readReasons_at rbind_unit_iff
        split: if_splits\<close>)
qed

lemma unsuback_sound:
  assumes "decodeUnsuback (cur_at UNSUBACK [] b) = Inr (p, c)"
  shows "p\<lparr>ua_Properties := Some (unsuback_ps.canon (ua_Properties p))\<rparr> = p \<and>
    (\<exists>b'. encodePacket (PUnsuback p) = Inr b' \<and> length b' \<le> length b)"
proof -
  obtain pid c1 props c2 reasons where 1: "readPacketID UNSUBACK (cur_at UNSUBACK [] b) = Inr (pid, c1)"
      and 2: "decodeProperties c1 UNSUBACK (UnsubackProps UnsubackProperties0) = Inr (props, c2)"
      and 3: "readReasons UNSUBACK c2 = Inr (reasons, c)"
      and p: "p = \<lparr>ua_Reasons = reasons, ua_Properties = Some (unUnsubackProps props), ua_PacketID = pid\<rparr>"
    using assms by (auto simp: decodeUnsuback_def rbind_eq_Inr)
  obtain b1 where b1: "b = writeUint16 [] pid @ b1" "c1 = cur_at UNSUBACK (writeUint16 [] pid) b1" "pid \<noteq> 0"
    by (rule readPacketID_sound [OF 1])
  show ?thesis
    by (rule unsuback_ps.decoded_reencode [OF refl 2 [unfolded b1(2)]])
      (use 3 b1 in \<open>auto simp: p encodePacket_def encodeCodeList_Inr_iff readReasons_at rbind_unit_iff
        split: if_splits\<close>)
qed

lemma length_encSub: "length (encSub sub) = length (encString (so_Topic sub)) + 1"
  by (simp add: encSub_def)

lemma decodeSubscribe_loop_sound:
  "decodeSubscribe_loop acc (cur_at p pre xs) = Inr (subs, c) \<Longrightarrow>
     \<exists>new. subs = acc @ new \<and> list_all sub_ok new \<and> length (concat (map encSub new)) = length xs"
proof (induction "length xs" arbitrary: acc pre xs rule: less_induct)
  case less
  show ?case
  proof (cases "xs = []")
    case True
    then show ?thesis using less.prems by (subst (asm) decodeSubscribe_loop.simps) auto
  next
    case False
    then obtain topic c1 opts c2 where
        1: "readString ''topic filter'' (cur_at p pre xs) = Inr (topic, c1)"
        and 2: "readByte ''subscription options'' c1 = Inr (opts, c2)"
        and q: "opts AND 3 \<noteq> 3" "drop_bit 4 opts AND 3 \<noteq> 3"
        and v: "validateTopicFilter SUBSCRIBE ''topic filter'' topic = Inr ()"
        and rec: "decodeSubscribe_loop (acc @ [\<lparr>so_Topic = topic, so_QoS = opts AND 3,
          so_RetainHandling = drop_bit 4 opts AND 3, so_NoLocal = (opts AND 4 \<noteq> 0),
          so_RetainAsPublished = (opts AND 8 \<noteq> 0)\<rparr>]) c2 = Inr (subs, c)"
      using less.prems
      by (subst (asm) decodeSubscribe_loop.simps)
        (auto simp: rbind_eq_Inr rbind_unit_iff Let_def split: if_splits)
    obtain r1 where r1: "valid_string topic" "xs = encString topic @ r1"
        "c1 = cur_at p (pre @ encString topic) r1"
      by (rule string_field.dec_at_obtain [OF 1])
    obtain r2 where r2: "r1 = opts # r2" "c2 = cur_at p ((pre @ encString topic) @ [opts]) r2"
      using 2 by (cases r1) (auto simp: r1(3))
    have "length r2 < length xs" by (simp add: r1(2) r2(1))
    from less.hyps [OF this rec [unfolded r2(2)]] show ?thesis
      using q v r1(1,2) r2(1) byte_and_3 by (force simp: sub_ok_def length_encSub)
  qed
qed

lemma subscribe_sound:
  assumes "decodeSubscribe (cur_at SUBSCRIBE [] b) = Inr (p, c)"
  shows "p\<lparr>sb_Properties := Some (subscribe_ps.canon (sb_Properties p))\<rparr> = p \<and>
    (\<exists>b'. encodePacket (PSubscribe p) = Inr b' \<and> length b' \<le> length b)"
proof -
  obtain pid c1 props c2 subs where 1: "readPacketID SUBSCRIBE (cur_at SUBSCRIBE [] b) = Inr (pid, c1)"
      and 2: "decodeProperties c1 SUBSCRIBE (SubscribeProps SubscribeProperties0) = Inr (props, c2)"
      and 3: "decodeSubscribe_loop [] c2 = Inr (subs, c)" "subs \<noteq> []"
      and p: "p = \<lparr>sb_Properties = Some (unSubscribeProps props), sb_Subscriptions = subs, sb_PacketID = pid\<rparr>"
    using assms by (auto simp: decodeSubscribe_def rbind_eq_Inr split: if_splits)
  obtain b1 where b1: "b = writeUint16 [] pid @ b1" "c1 = cur_at SUBSCRIBE (writeUint16 [] pid) b1" "pid \<noteq> 0"
    by (rule readPacketID_sound [OF 1])
  obtain x rest x' where x: "b1 = x @ rest" "c2 = cur_at SUBSCRIBE (writeUint16 [] pid @ x) rest"
      "encodeProperties SUBSCRIBE (Some (SubscribeProps (unSubscribeProps props))) = Inr x'"
      "length x' \<le> length x" "subscribe_ps.canon (Some (unSubscribeProps props)) = unSubscribeProps props"
    by (rule subscribe_ps.decoded_reencode [OF refl 2 [unfolded b1(2)]])
  have "list_all sub_ok subs" "length (concat (map encSub subs)) = length rest"
    using decodeSubscribe_loop_sound [OF 3(1) [unfolded x(2)]] by auto
  then show ?thesis
    using x 3(2) b1 by (simp add: p encodePacket_def encodeSubscribe_Inr_iff)
qed

lemma decodeUnsubscribe_loop_sound:
  "decodeUnsubscribe_loop acc (cur_at p pre xs) = Inr (topics, c) \<Longrightarrow>
     \<exists>new. topics = acc @ new \<and> list_all topic_ok new \<and> length (concat (map encString new)) = length xs"
proof (induction "length xs" arbitrary: acc pre xs rule: less_induct)
  case less
  show ?case
  proof (cases "xs = []")
    case True
    then show ?thesis using less.prems by (subst (asm) decodeUnsubscribe_loop.simps) auto
  next
    case False
    then obtain topic c1 where
        1: "readString ''topic filter'' (cur_at p pre xs) = Inr (topic, c1)"
        and v: "validateTopicFilter UNSUBSCRIBE ''topic filter'' topic = Inr ()"
        and rec: "decodeUnsubscribe_loop (acc @ [topic]) c1 = Inr (topics, c)"
      using less.prems
      by (subst (asm) decodeUnsubscribe_loop.simps)
        (auto simp: rbind_eq_Inr rbind_unit_iff split: if_splits)
    obtain r1 where r1: "valid_string topic" "xs = encString topic @ r1"
        "c1 = cur_at p (pre @ encString topic) r1"
      by (rule string_field.dec_at_obtain [OF 1])
    have "length r1 < length xs" using encString_ne [of topic] by (simp add: r1(2))
    from less.hyps [OF this rec [unfolded r1(3)]] show ?thesis
      using v r1(1,2) by (force simp: topic_ok_def)
  qed
qed

lemma unsubscribe_sound:
  assumes "decodeUnsubscribe (cur_at UNSUBSCRIBE [] b) = Inr (p, c)"
  shows "p\<lparr>us_Properties := Some (unsubscribe_ps.canon (us_Properties p))\<rparr> = p \<and>
    (\<exists>b'. encodePacket (PUnsubscribe p) = Inr b' \<and> length b' \<le> length b)"
proof -
  obtain pid c1 props c2 topics where 1: "readPacketID UNSUBSCRIBE (cur_at UNSUBSCRIBE [] b) = Inr (pid, c1)"
      and 2: "decodeProperties c1 UNSUBSCRIBE (UnsubscribeProps UnsubscribeProperties0) = Inr (props, c2)"
      and 3: "decodeUnsubscribe_loop [] c2 = Inr (topics, c)" "topics \<noteq> []"
      and p: "p = \<lparr>us_Topics = topics, us_Properties = Some (unUnsubscribeProps props), us_PacketID = pid\<rparr>"
    using assms by (auto simp: decodeUnsubscribe_def rbind_eq_Inr split: if_splits)
  obtain b1 where b1: "b = writeUint16 [] pid @ b1" "c1 = cur_at UNSUBSCRIBE (writeUint16 [] pid) b1" "pid \<noteq> 0"
    by (rule readPacketID_sound [OF 1])
  obtain x rest x' where x: "b1 = x @ rest" "c2 = cur_at UNSUBSCRIBE (writeUint16 [] pid @ x) rest"
      "encodeProperties UNSUBSCRIBE (Some (UnsubscribeProps (unUnsubscribeProps props))) = Inr x'"
      "length x' \<le> length x" "unsubscribe_ps.canon (Some (unUnsubscribeProps props)) = unUnsubscribeProps props"
    by (rule unsubscribe_ps.decoded_reencode [OF refl 2 [unfolded b1(2)]])
  have "list_all topic_ok topics" "length (concat (map encString topics)) = length rest"
    using decodeUnsubscribe_loop_sound [OF 3(1) [unfolded x(2)]] by auto
  then show ?thesis
    using x 3(2) b1 by (simp add: p encodePacket_def encodeUnsubscribe_Inr_iff)
qed

lemma publish_sound:
  assumes "decodePublish (cur_at PUBLISH [] b) flags = Inr (p, c)"
  shows "p\<lparr>pub_Properties := Some (publish_ps.canon (pub_Properties p))\<rparr> = p \<and>
    (\<exists>b'. encodePacket (PPublish p) = Inr b' \<and> length b' \<le> length b) \<and>
    pub_QoS p = drop_bit 1 flags AND 3 \<and> pub_QoS p \<le> 2 \<and> (pub_Duplicate p \<longleftrightarrow> flags AND 8 \<noteq> 0)"
proof -
  let ?qos = "drop_bit 1 flags AND 3"
  obtain topic c1 pid c2 props c3 where q: "?qos \<noteq> 3"
      and 1: "readString ''topic name'' (cur_at PUBLISH [] b) = Inr (topic, c1)"
      and 2: "(if ?qos > 0 then
          rbind (readUint16 ''packet identifier'' c1) (\<lambda>(pid, cur).
            if pid = 0 then Inl (malformed PUBLISH ''packet identifier'' ''packet identifier must be non-zero'')
            else Inr (pid, cur))
        else Inr (0, c1)) = Inr (pid, c2)"
      and 3: "decodeProperties c2 PUBLISH (PublishProps PublishProperties0) = Inr (props, c3)"
      and 4: "topic = [] \<Longrightarrow> pp_TopicAlias (unPublishProps props) \<noteq> None"
        "topic \<noteq> [] \<Longrightarrow> \<not> contains_wildcard topic"
      and p: "p = \<lparr>pub_Payload = drop (cur_pos c3) (cur_data c3), pub_Topic = topic,
          pub_Properties = Some (unPublishProps props), pub_PacketID = pid, pub_QoS = ?qos,
          pub_Duplicate = (flags AND 8 \<noteq> 0), pub_Retain = (flags AND 1 \<noteq> 0)\<rparr>"
    using assms
    by (simp only: decodePublish_def Let_def)
      (auto simp: rbind_eq_Inr rbind_unit_iff simp del: validateTopicName_ok split: if_splits)
  obtain r1 where r1: "valid_string topic" "b = encString topic @ r1" "c1 = cur_at PUBLISH ([] @ encString topic) r1"
    by (rule string_field.dec_at_obtain [OF 1])
  let ?idb = "if ?qos > 0 then writeUint16 [] pid else []"
  obtain r2 where r2: "r1 = ?idb @ r2" "c2 = cur_at PUBLISH (encString topic @ ?idb) r2"
      "?qos > 0 \<Longrightarrow> pid \<noteq> 0" "\<not> ?qos > 0 \<Longrightarrow> pid = 0"
    using 2 unfolding r1(3)
    by (auto simp: rbind_eq_Inr split: if_splits elim!: u16_field.dec_at_obtain)
  obtain x rest x' where x: "r2 = x @ rest" "c3 = cur_at PUBLISH ((encString topic @ ?idb) @ x) rest"
      "encodeProperties PUBLISH (Some (PublishProps (unPublishProps props))) = Inr x'"
      "length x' \<le> length x" "publish_ps.canon (Some (unPublishProps props)) = unPublishProps props"
    by (rule publish_ps.decoded_reencode [OF disjI1 [OF refl] 3 [unfolded r2(2)]])
  have pay: "pub_Payload p = rest" by (simp add: p x(2) cur_at_def)
  have qle: "?qos \<le> 2" using byte_and_3 [OF q] .
  have "encodePublish p = Inr (encString topic @ ?idb @ x' @ rest)"
    using r2(3,4) 4 r1(1) q x(3) writeUint16_append [of "encString topic" pid] pay
    by (auto simp: p encodePublish_def Let_def writeString_Inr_iff rbind_eq_Inr word_gt_0)
  moreover have "length (encString topic @ ?idb @ x' @ rest) \<le> length b"
    using x r1(2) r2(1) by simp
  ultimately show ?thesis
    using x(5) qle by (simp add: p encodePacket_def)
qed

lemma unpackConnectFlags_sound:
  assumes "unpackConnectFlags out flags = Inr out'"
  shows "validateConnectForEncode out' = Inr () \<and>
    (\<exists>cs wf wq wr pf uf. out' = out\<lparr>cn_CleanStart := cs, cn_WillFlag := wf, cn_WillQOS := wq,
       cn_WillRetain := wr, cn_PasswordFlag := pf, cn_UsernameFlag := uf\<rparr>)"
proof -
  have v: "drop_bit 3 flags AND 3 \<noteq> 3" "\<not> flags AND 4 \<noteq> 0 \<Longrightarrow> drop_bit 3 flags AND 3 = 0 \<and> flags AND 32 = 0"
      "flags AND 64 \<noteq> 0 \<Longrightarrow> flags AND 128 \<noteq> 0"
    and out': "out' = out\<lparr>cn_CleanStart := (flags AND 2 \<noteq> 0), cn_WillFlag := (flags AND 4 \<noteq> 0),
       cn_WillQOS := drop_bit 3 flags AND 3, cn_WillRetain := (flags AND 32 \<noteq> 0),
       cn_PasswordFlag := (flags AND 64 \<noteq> 0), cn_UsernameFlag := (flags AND 128 \<noteq> 0)\<rparr>"
    using assms by (auto simp: unpackConnectFlags_def Let_def split: if_splits)
  have "validateConnectForEncode out' = Inr ()"
    unfolding validateConnectForEncode_def out'
    using v byte_and_3 [OF v(1)] by (auto simp: not_less [symmetric])
  with out' show ?thesis by blast
qed

lemma connectWill_sound:
  assumes "decodeConnectWill out (cur_at t pre xs) = Inr (out', c)"
  obtains w rest where "xs = w @ rest" "c = cur_at t (pre @ w) rest"
    "\<not> cn_WillFlag out \<Longrightarrow> out' = out"
    "cn_WillFlag out \<Longrightarrow> \<exists>q topic msg. out' = out\<lparr>cn_WillProperties := Some q, cn_WillTopic := topic,
       cn_WillMessage := msg\<rparr> \<and> publish_ps.canon (Some q) = q"
    "cn_WillFlag out' = cn_WillFlag out"
    "\<exists>w'. (\<forall>buf. encodeConnectWill buf out' = Inr (buf @ w')) \<and> length w' \<le> length w"
proof (cases "cn_WillFlag out")
  case False
  then have o: "out' = out" "c = cur_at t pre xs"
    using assms by (simp_all add: decodeConnectWill_def)
  show thesis
    by (rule that [of "[]" xs]) (simp_all add: o False encodeConnectWill_def)
next
  case True
  obtain props c1 topic c2 msg where
      1: "decodeProperties (cur_at t pre xs) WILLPROPERTIES (PublishProps PublishProperties0) = Inr (props, c1)"
      and 2: "readString ''will topic'' c1 = Inr (topic, c2)" "topic \<noteq> []" "\<not> contains_wildcard topic"
      and 3: "readBinary ''will message'' c2 = Inr (msg, c)"
      and o: "out' = out\<lparr>cn_WillProperties := Some (unPublishProps props), cn_WillTopic := topic,
        cn_WillMessage := msg\<rparr>"
    using assms True by (auto simp: decodeConnectWill_def rbind_eq_Inr rbind_unit_iff)
  obtain x r1 x' where x: "xs = x @ r1" "c1 = cur_at t (pre @ x) r1"
      "encodeProperties WILLPROPERTIES (Some (PublishProps (unPublishProps props))) = Inr x'"
      "length x' \<le> length x" "publish_ps.canon (Some (unPublishProps props)) = unPublishProps props"
    by (rule publish_ps.decoded_reencode [OF disjI2 [OF refl] 1])
  obtain r2 where r2: "valid_string topic" "r1 = encString topic @ r2" "c2 = cur_at t ((pre @ x) @ encString topic) r2"
    by (rule string_field.dec_at_obtain [OF 2(1) [unfolded x(2)]])
  obtain r3 where r3: "valid_binary msg" "r2 = encBinary msg @ r3"
      "c = cur_at t (((pre @ x) @ encString topic) @ encBinary msg) r3"
    by (rule binary_field.dec_at_obtain [OF 3 [unfolded r2(3)]])
  have "encodeConnectWill buf out' = Inr (buf @ x' @ encString topic @ encBinary msg)" for buf
    using True x(3) 2(2,3) r2(1) r3(1)
    by (auto simp: encodeConnectWill_def o rbind_eq_Inr rbind_unit_iff writeString_Inr_iff writeBinary_Inr_iff)
  then have "\<exists>w'. (\<forall>buf. encodeConnectWill buf out' = Inr (buf @ w')) \<and>
      length w' \<le> length (x @ encString topic @ encBinary msg)"
    using x(4) by (intro exI [of _ "x' @ encString topic @ encBinary msg"]) auto
  then show thesis
    by (rule that [rotated 5])
      (use True x(5) in \<open>auto simp: o x(1,2) r2 r3 intro!: exI [of _ "unPublishProps props"]\<close>)
qed

lemma connectUsername_sound:
  assumes "decodeConnectUsername out (cur_at t pre xs) = Inr (out', c)"
  obtains u rest n where "xs = u @ rest" "c = cur_at t (pre @ u) rest" "out' = out\<lparr>cn_Username := n\<rparr>"
    "\<not> cn_UsernameFlag out \<Longrightarrow> n = cn_Username out"
    "\<And>buf. (if cn_UsernameFlag out then writeString buf CONNECT ''username'' n else Inr buf) = Inr (buf @ u)"
proof (cases "cn_UsernameFlag out")
  case True
  then obtain n where n: "readString ''username'' (cur_at t pre xs) = Inr (n, c)" "out' = out\<lparr>cn_Username := n\<rparr>"
    using assms by (auto simp: decodeConnectUsername_def rbind_eq_Inr)
  show thesis
    by (rule string_field.dec_at_obtain [OF n(1)], rule that [OF _ _ n(2)])
      (simp_all add: True writeString_Inr_iff)
next
  case False
  then have "out' = out" "c = cur_at t pre xs" using assms by (simp_all add: decodeConnectUsername_def)
  then show thesis by (intro that [of "[]" xs "cn_Username out"]) (simp_all add: False)
qed

lemma connectPassword_sound:
  assumes "decodeConnectPassword out (cur_at t pre xs) = Inr (out', c)"
  obtains u rest n where "xs = u @ rest" "out' = out\<lparr>cn_Password := n\<rparr>"
    "\<not> cn_PasswordFlag out \<Longrightarrow> n = cn_Password out"
    "\<And>buf. (if cn_PasswordFlag out then writeBinary buf CONNECT ''password'' n else Inr buf) = Inr (buf @ u)"
proof (cases "cn_PasswordFlag out")
  case True
  then obtain n where n: "readBinary ''password'' (cur_at t pre xs) = Inr (n, c)" "out' = out\<lparr>cn_Password := n\<rparr>"
    using assms by (auto simp: decodeConnectPassword_def rbind_eq_Inr)
  show thesis
    by (rule binary_field.dec_at_obtain [OF n(1)], rule that [OF _ n(2)])
      (simp_all add: True writeBinary_Inr_iff)
next
  case False
  then have "out' = out" using assms by (simp add: decodeConnectPassword_def)
  then show thesis by (intro that [of "[]" xs "cn_Password out"]) (simp_all add: False)
qed

text \<open>The CONNECT payload after the client identifier, on both sides.\<close>

definition encodeConnectTail :: "bytes \<Rightarrow> Connect \<Rightarrow> error + bytes" where
  "encodeConnectTail buf p =
     rbind (encodeConnectWill buf p) (\<lambda>buf.
     rbind (if cn_UsernameFlag p then writeString buf CONNECT ''username'' (cn_Username p) else Inr buf) (\<lambda>buf.
       (if cn_PasswordFlag p then writeBinary buf CONNECT ''password'' (cn_Password p) else Inr buf)))"

definition decodeConnectTail :: "Connect \<Rightarrow> cursor \<Rightarrow> error + Connect \<times> cursor" where
  "decodeConnectTail out cur =
     rbind (decodeConnectWill out cur) (\<lambda>(out, cur).
     rbind (decodeConnectUsername out cur) (\<lambda>(out, cur).
       decodeConnectPassword out cur))"

lemma encodeConnectWill_cong:
  "encodeConnectWill buf (p\<lparr>cn_Username := n\<rparr>) = encodeConnectWill buf p"
  "encodeConnectWill buf (p\<lparr>cn_Password := m\<rparr>) = encodeConnectWill buf p"
  by (simp_all add: encodeConnectWill_def)

lemma connectTail_sound:
  assumes "decodeConnectTail out (cur_at t pre xs) = Inr (p, c)"
    and "cn_WillProperties out = None" "cn_WillTopic out = []" "cn_WillMessage out = []"
      "cn_Username out = []" "cn_Password out = []"
  obtains q topic msg n m tl where "p = out\<lparr>cn_WillProperties := q, cn_WillTopic := topic,
      cn_WillMessage := msg, cn_Username := n, cn_Password := m\<rparr>"
    "canonConnect p = p\<lparr>cn_Properties := Some (connect_ps.canon (cn_Properties p))\<rparr>"
    "\<And>buf. encodeConnectTail buf p = Inr (buf @ tl)" "length tl \<le> length xs"
proof -
  obtain o2 c2 o3 c3 where d: "decodeConnectWill out (cur_at t pre xs) = Inr (o2, c2)"
      "decodeConnectUsername o2 c2 = Inr (o3, c3)" "decodeConnectPassword o3 c3 = Inr (p, c)"
    using assms(1) by (auto simp: decodeConnectTail_def rbind_eq_Inr)
  obtain w r1 w' where w: "xs = w @ r1" "c2 = cur_at t (pre @ w) r1"
      "\<not> cn_WillFlag out \<Longrightarrow> o2 = out"
      "cn_WillFlag out \<Longrightarrow> \<exists>q topic msg. o2 = out\<lparr>cn_WillProperties := Some q, cn_WillTopic := topic,
         cn_WillMessage := msg\<rparr> \<and> publish_ps.canon (Some q) = q"
      "\<And>buf. encodeConnectWill buf o2 = Inr (buf @ w')" "length w' \<le> length w"
    by (rule connectWill_sound [OF d(1)]) blast
  obtain u r2 n where u: "r1 = u @ r2" "c3 = cur_at t ((pre @ w) @ u) r2" "o3 = o2\<lparr>cn_Username := n\<rparr>"
      "\<not> cn_UsernameFlag o2 \<Longrightarrow> n = cn_Username o2"
      "\<And>buf. (if cn_UsernameFlag o2 then writeString buf CONNECT ''username'' n else Inr buf) = Inr (buf @ u)"
    by (rule connectUsername_sound [OF d(2) [unfolded w(2)]]) blast
  obtain v r3 m where v: "r2 = v @ r3" "p = o3\<lparr>cn_Password := m\<rparr>"
      "\<not> cn_PasswordFlag o3 \<Longrightarrow> m = cn_Password o3"
      "\<And>buf. (if cn_PasswordFlag o3 then writeBinary buf CONNECT ''password'' m else Inr buf) = Inr (buf @ v)"
    by (rule connectPassword_sound [OF d(3) [unfolded u(2)]]) blast
  obtain q topic msg where o2: "o2 = out\<lparr>cn_WillProperties := q, cn_WillTopic := topic, cn_WillMessage := msg\<rparr>"
      "\<not> cn_WillFlag out \<Longrightarrow> q = None \<and> topic = [] \<and> msg = []"
      "cn_WillFlag out \<Longrightarrow> Some (publish_ps.canon q) = q"
    using w(3,4) assms(2-4) by (cases "cn_WillFlag out") (force, cases out, simp)
  show thesis
  proof (rule that [where q = q and topic = topic and msg = msg and n = n and m = m
      and tl = "w' @ u @ v"])
    show "p = out\<lparr>cn_WillProperties := q, cn_WillTopic := topic, cn_WillMessage := msg,
        cn_Username := n, cn_Password := m\<rparr>"
      by (simp add: v(2) u(3) o2(1))
    show "canonConnect p = p\<lparr>cn_Properties := Some (connect_ps.canon (cn_Properties p))\<rparr>"
      using o2(2,3) u(4) v(3) assms(5,6)
      by (cases out) (auto simp: canonConnect_def v(2) u(3) o2(1))
    show "encodeConnectTail buf p = Inr (buf @ w' @ u @ v)" for buf
      using w(5) u(5) v(4)
      by (cases "cn_UsernameFlag o2"; cases "cn_PasswordFlag o2")
        (simp_all add: encodeConnectTail_def v(2) u(3) encodeConnectWill_cong)
    show "length (w' @ u @ v) \<le> length xs" using w(1,6) u(1) v(1) by simp
  qed
qed

lemma connect_sound:
  assumes "decodeConnect (cur_at CONNECT [] b) = Inr (p, c)"
  shows "canonConnect p = p \<and> (\<exists>b'. encodePacket (PConnect p) = Inr b' \<and> length b' \<le> length b)"
proof -
  let ?o0 = "Connect0\<lparr>cn_Properties := Some ConnectProperties0, cn_ProtocolName := ''MQTT'', cn_ProtocolVersion := 5\<rparr>"
  obtain c1 c2 flags c3 o1 ka c4 props c5 cid c6 where
      1: "readString ''protocol name'' (cur_at CONNECT [] b) = Inr (''MQTT'', c1)"
      and 2: "readByte ''protocol version'' c1 = Inr (5, c2)" "readByte ''connect flags'' c2 = Inr (flags, c3)"
      and 4: "unpackConnectFlags ?o0 flags = Inr o1"
      and 5: "readUint16 ''keep alive'' c3 = Inr (ka, c4)"
      and 6: "decodeProperties c4 CONNECT (ConnectProps ConnectProperties0) = Inr (props, c5)"
      and 7: "readString ''client id'' c5 = Inr (cid, c6)"
      and 8: "decodeConnectTail (o1\<lparr>cn_KeepAlive := ka, cn_Properties := Some (unConnectProps props),
        cn_ClientID := cid\<rparr>) c6 = Inr (p, c)"
    using assms by (auto simp: decodeConnect_def decodeConnectTail_def Let_def rbind_eq_Inr split: if_splits)
  obtain r1 where r1: "b = encString ''MQTT'' @ r1" "c1 = cur_at CONNECT ([] @ encString ''MQTT'') r1" "valid_string ''MQTT''"
    by (rule string_field.dec_at_obtain [OF 1])
  obtain r3 pre3 where r3: "r1 = 5 # flags # r3" "c3 = cur_at CONNECT pre3 r3"
    using 2 r1(2) by (auto split: list.splits)
  obtain r4 where r4: "r3 = writeUint16 [] ka @ r4" "c4 = cur_at CONNECT (pre3 @ writeUint16 [] ka) r4"
    by (rule u16_field.dec_at_obtain [OF 5 [unfolded r3(2)]])
  obtain x r5 x' where x: "r4 = x @ r5" "c5 = cur_at CONNECT ((pre3 @ writeUint16 [] ka) @ x) r5"
      "encodeProperties CONNECT (Some (ConnectProps (unConnectProps props))) = Inr x'"
      "length x' \<le> length x" "connect_ps.canon (Some (unConnectProps props)) = unConnectProps props"
    by (rule connect_ps.decoded_reencode [OF refl 6 [unfolded r4(2)]])
  obtain r6 pre6 where r6: "valid_string cid" "r5 = encString cid @ r6" "c6 = cur_at CONNECT pre6 r6"
    using string_field.dec_sound [OF 7 [unfolded x(2)]] by blast
  obtain cs wf wq wr pf uf where o1: "validateConnectForEncode o1 = Inr ()"
      "o1 = ?o0\<lparr>cn_CleanStart := cs, cn_WillFlag := wf, cn_WillQOS := wq, cn_WillRetain := wr,
        cn_PasswordFlag := pf, cn_UsernameFlag := uf\<rparr>"
    using unpackConnectFlags_sound [OF 4] by blast
  have z: "cn_WillProperties o1 = None" "cn_WillTopic o1 = []" "cn_WillMessage o1 = []"
      "cn_Username o1 = []" "cn_Password o1 = []" "cn_ProtocolName o1 = ''MQTT''" "cn_ProtocolVersion o1 = 5"
    by (simp_all add: o1(2) Connect0_def)
  obtain q topic msg n m tl where t: "p = o1\<lparr>cn_KeepAlive := ka, cn_Properties := Some (unConnectProps props),
        cn_ClientID := cid, cn_WillProperties := q, cn_WillTopic := topic,
        cn_WillMessage := msg, cn_Username := n, cn_Password := m\<rparr>"
      "canonConnect p = p\<lparr>cn_Properties := Some (connect_ps.canon (cn_Properties p))\<rparr>"
      "\<And>buf. encodeConnectTail buf p = Inr (buf @ tl)" "length tl \<le> length r6"
    by (rule connectTail_sound [OF 8 [unfolded r6(3)]]) (simp_all add: z)
  have v: "validateConnectForEncode p = Inr ()" using o1(1) by (simp add: t(1) validateConnectForEncode_def)
  have "encodeConnect p = Inr (encString ''MQTT'' @ 5 # PackFlags p # writeUint16 [] ka @ x' @ encString cid @ tl)"
    using t(3) v x(3) r6(1) r1(3) writeUint16_append [of "encString ''MQTT'' @ [5, PackFlags p]" ka]
    unfolding encodeConnect_def encodeConnectTail_def [symmetric]
    by (auto simp: Let_def rbind_eq_Inr writeString_Inr_iff t(1) z)
  then show ?thesis
    using x t(2,4) by (simp add: encodePacket_def t(1) r1(1) r3(1) r4(1) r6(2))
qed

section \<open>Control packets, decoded and encoded\<close>

lemma ack_packets_sound:
  assumes "decodeBody t flags (cur_at t [] b) = Inr (p, c)" and "remaining c = 0"
    and "t = PUBACK \<or> t = PUBREC \<or> t = PUBREL \<or> t = PUBCOMP"
  shows "PacketType_of p = t \<and> canonPacket p = p \<and> (\<exists>b'. encodePacket p = Inr b' \<and> length b' \<le> length b)"
proof -
  consider "t = PUBACK" | "t = PUBREC" | "t = PUBREL" | "t = PUBCOMP" using assms(3) by blast
  then show ?thesis
  proof cases
    case 1
    then have d: "decodeAck (cur_at PUBACK [] b) PUBACK (PPuback \<lparr>pa_Properties = Some PubackProperties0,
        pa_PacketID = 0, pa_ReasonCode = 0\<rparr>) = Inr (p, c)"
      using assms(1) by (simp add: decodeBody_def)
    show ?thesis
      by (rule puback_pkt.ack_sound [OF d assms(2)]) (simp add: 1 canonPacket_def encodePacket_def)
  next
    case 2
    then have d: "decodeAck (cur_at PUBREC [] b) PUBREC (PPubrec \<lparr>pr_Properties = Some PubrecProperties0,
        pr_PacketID = 0, pr_ReasonCode = 0\<rparr>) = Inr (p, c)"
      using assms(1) by (simp add: decodeBody_def)
    show ?thesis
      by (rule pubrec_pkt.ack_sound [OF d assms(2)]) (simp add: 2 canonPacket_def encodePacket_def)
  next
    case 3
    then have d: "decodeAck (cur_at PUBREL [] b) PUBREL (PPubrel \<lparr>pl_Properties = Some PubrelProperties0,
        pl_PacketID = 0, pl_ReasonCode = 0\<rparr>) = Inr (p, c)"
      using assms(1) by (simp add: decodeBody_def)
    show ?thesis
      by (rule pubrel_pkt.ack_sound [OF d assms(2)]) (simp add: 3 canonPacket_def encodePacket_def)
  next
    case 4
    then have d: "decodeAck (cur_at PUBCOMP [] b) PUBCOMP (PPubcomp \<lparr>pc_Properties = Some PubcompProperties0,
        pc_PacketID = 0, pc_ReasonCode = 0\<rparr>) = Inr (p, c)"
      using assms(1) by (simp add: decodeBody_def)
    show ?thesis
      by (rule pubcomp_pkt.ack_sound [OF d assms(2)]) (simp add: 4 canonPacket_def encodePacket_def)
  qed
qed

text \<open>
  What a decoded body is: a packet of the type in the header, in canonical form, that encodes again
  in at most as many bytes; for PUBLISH the QoS and DUP fields are those of the flags.
\<close>

lemma decodeBody_sound:
  assumes "decodeBody t flags (cur_at t [] b) = Inr (p, c)" and "remaining c = 0"
  shows "PacketType_of p = t \<and> canonPacket p = p \<and> (\<exists>b'. encodePacket p = Inr b' \<and> length b' \<le> length b) \<and>
    (\<forall>q. p = PPublish q \<longrightarrow> pub_QoS q = drop_bit 1 flags AND 3 \<and> pub_QoS q \<le> 2 \<and>
       (pub_Duplicate q \<longleftrightarrow> flags AND 8 \<noteq> 0))"
proof (cases "t = PUBACK \<or> t = PUBREC \<or> t = PUBREL \<or> t = PUBCOMP")
  case True
  then show ?thesis
    using ack_packets_sound [OF assms True] by auto
next
  case False
  then show ?thesis
    using assms
    by (auto simp: decodeBody_def rbind_eq_Inr canonPacket_def decodeEmpty_def encodePacket_def [of PPingreq]
        encodePacket_def [of PPingresp] split: if_splits
        dest!: connect_sound connack_sound publish_sound subscribe_sound suback_sound unsubscribe_sound
          unsuback_sound disconnect_sound auth_sound)
qed

lemma Decode_at:
  "Decode (reader_at e (h # xs)) opts =
     (if drop_bit 4 h < CONNECT \<or> drop_bit 4 h > AUTH
      then Inl (malformed (drop_bit 4 h) ''packet type'' ''unknown packet type'')
      else
        rbind (validateFixedHeaderFlags (drop_bit 4 h) (h AND 0x0f)) (\<lambda>_.
          (case readRemainingLength (reader_at e xs) of
             Inl err \<Rightarrow> Inl (classifyReadError (drop_bit 4 h) ''remaining length'' err)
           | Inr ((n, width), r) \<Rightarrow>
               (if do_MaxPacketSize opts > 0 \<and> 1 + int width + n > do_MaxPacketSize opts
                then Inl (tooLarge (drop_bit 4 h) (1 + int width + n) (do_MaxPacketSize opts))
                else
                  (case ReadFull r (nat n) of
                     Inl err \<Rightarrow> Inl (classifyReadError (drop_bit 4 h) ''body'' err)
                   | Inr (body, r) \<Rightarrow>
                       rbind (decodePacket (drop_bit 4 h) (h AND 0x0f) body) (\<lambda>content.
                         Inr (\<lparr>cp_Content = Some content, cp_Packet = Some content,
                               cp_FixedHeader = \<lparr>fh_Type = drop_bit 4 h, fh_Flags = h AND 0x0f,
                                 fh_RemainingLength = n\<rparr>\<rparr>, r)))))))"
proof -
  have rf: "ReadFull (reader_at e (h # xs)) 1 = Inr ([h], reader_at e xs)" by (simp add: ReadFull_def)
  show ?thesis unfolding Decode_def rf rbind_simps prod.case Let_def nth_Cons_0 ..
qed

lemma ReadFull_append [simp]: "ReadFull (reader_at e (xs @ ys)) (length xs) = Inr (xs, reader_at e ys)"
  by (simp add: ReadFull_def)

lemma Decode_Inr:
  assumes "Decode (reader_at e xs) opts = Inr (cp, r)"
  obtains h body rest content where "xs = h # encVBI (int (length body)) @ body @ rest" "r = reader_at e rest"
    "validateFixedHeaderFlags (drop_bit 4 h) (h AND 0x0f) = Inr ()"
    "int (length body) \<le> maxRemainingLength"
    "do_MaxPacketSize opts > 0 \<Longrightarrow>
       int (length (h # encVBI (int (length body)) @ body)) \<le> do_MaxPacketSize opts"
    "decodePacket (drop_bit 4 h) (h AND 0x0f) body = Inr content"
    "cp = \<lparr>cp_Content = Some content, cp_Packet = Some content,
       cp_FixedHeader = \<lparr>fh_Type = drop_bit 4 h, fh_Flags = h AND 0x0f,
         fh_RemainingLength = int (length body)\<rparr>\<rparr>"
proof (cases xs)
  case Nil
  then show thesis using assms by (simp add: Decode_def ReadFull_def)
next
  case (Cons h ys)
  obtain n w r1 body content where v: "validateFixedHeaderFlags (drop_bit 4 h) (h AND 0x0f) = Inr ()"
      and n: "readRemainingLength (reader_at e ys) = Inr ((n, w), r1)"
      and m: "\<not> (do_MaxPacketSize opts > 0 \<and> 1 + int w + n > do_MaxPacketSize opts)"
      and b: "ReadFull r1 (nat n) = Inr (body, r)"
      and c: "decodePacket (drop_bit 4 h) (h AND 0x0f) body = Inr content"
      and cp: "cp = \<lparr>cp_Content = Some content, cp_Packet = Some content,
        cp_FixedHeader = \<lparr>fh_Type = drop_bit 4 h, fh_Flags = h AND 0x0f, fh_RemainingLength = n\<rparr>\<rparr>"
    using assms unfolding Cons Decode_at
    by (auto simp: rbind_eq_Inr rbind_unit_iff split: if_splits sum.splits)
  obtain r2 where r2: "valid_vbi n" "ys = encVBI n @ r2" "w = minimalVBIBytes n" "r1 = reader_at e r2"
    by (rule readRemainingLength_sound [OF n])
  have body: "r2 = body @ drop (nat n) r2" "int (length body) = n" "r = reader_at e (drop (nat n) r2)"
    using b r2(1) by (auto simp: r2(4) ReadFull_def split: if_splits)
  show thesis
    by (rule that [of h body "drop (nat n) r2" content])
      (use v m c cp r2 body encVBI_width [OF r2(1)] in \<open>auto simp: Cons\<close>)
qed

lemma header_flags_ok:
  assumes "\<And>q. content = PPublish q \<Longrightarrow> pub_QoS q \<le> 2 \<and> \<not> (pub_QoS q = 0 \<and> pub_Duplicate q)"
  shows "\<exists>flags. fixedHeaderFlags content = Inr flags \<and>
    validateFixedHeaderFlags (PacketType_of content) flags = Inr ()"
proof (cases content)
  case (PPublish q)
  then have q: "pub_QoS q \<le> 2" "\<not> (pub_QoS q = 0 \<and> pub_Duplicate q)" using assms by auto
  then have "pub_QoS q \<noteq> 3" by auto
  then obtain flags where f: "fixedHeaderFlags (PPublish q) = Inr flags"
    using q(2) by (auto simp: fixedHeaderFlags_def Let_def)
  then show ?thesis
    using fixedHeaderFlags_publish [OF f q(1)] q(2) \<open>pub_QoS q \<noteq> 3\<close> PPublish
    by (auto simp: validateFixedHeaderFlags_def Let_def)
qed (simp_all add: fixedHeaderFlags_def validateFixedHeaderFlags_def)

section \<open>Properties of the codec\<close>

lemma Decode_Encode:
  assumes enc: "Encode (Some cp) opts = Inr bs" and content: "CanonicalPacket (Some cp) = Some content"
    and qos: "qos_ok content"
    and limit: "do_MaxPacketSize dopts \<le> 0 \<or> int (length bs) \<le> do_MaxPacketSize dopts"
  shows "\<exists>flags n. fixedHeaderFlags content = Inr flags \<and> n \<le> int (length bs) \<and>
    Decode (reader_at e (bs @ rest)) dopts =
      Inr (\<lparr>cp_Content = Some (canonPacket content), cp_Packet = Some (canonPacket content),
            cp_FixedHeader = \<lparr>fh_Type = PacketType_of content, fh_Flags = flags, fh_RemainingLength = n\<rparr>\<rparr>,
           reader_at e rest)"
proof -
  obtain flags body where 1: "fixedHeaderFlags content = Inr flags"
      "validateFixedHeaderFlags (PacketType_of content) flags = Inr ()" "encodePacket content = Inr body"
      "int (length body) \<le> maxRemainingLength"
      "bs = (push_bit 4 (PacketType_of content) OR flags) # encVBI (int (length body)) @ body"
    by (rule Encode_Inr [OF enc]) (use content in auto)
  have "readRemainingLength (reader_at e (encVBI (int (length body)) @ body @ rest)) =
      Inr ((int (length body), minimalVBIBytes (int (length body))), reader_at e (body @ rest))"
    using 1(4) by (intro readRemainingLength_enc) simp
  moreover have "int (length (encVBI (int (length body)))) = int (minimalVBIBytes (int (length body)))"
    using 1(4) encVBI_width [of "int (length body)"] by simp
  ultimately show ?thesis
    using limit 1 PacketType_of_bounds [of content] header_byte [OF 1(1) qos]
      decodePacket_enc [OF 1(3) qos 1(1)]
    by (auto simp: Decode_at not_less)
qed

text \<open>C1: what \<open>Encode\<close> writes for a control packet, followed by anything, \<open>Decode\<close> reads back: the packet in
  canonical form (nil property structs are empty structs, fields guarded by a cleared CONNECT flag are
  dropped, a present but empty binary property is absent), a header that agrees with it, and the reader left
  at the byte after the packet. The decoder's size limit must allow the packet, and the QoS of a PUBLISH must be
  0, 1 or 2.\<close>

theorem decode_encode:
  assumes enc: "Encode (Some cp) opts = Inr bs" and content: "CanonicalPacket (Some cp) = Some content"
    and qos: "qos_ok content"
    and limit: "do_MaxPacketSize dopts \<le> 0 \<or> int (length bs) \<le> do_MaxPacketSize dopts"
  shows "\<exists>flags n. fixedHeaderFlags content = Inr flags \<and> n \<le> int (length bs) \<and>
    Decode (reader_at e (bs @ rest)) dopts =
      Inr (\<lparr>cp_Content = Some (canonPacket content), cp_Packet = Some (canonPacket content),
            cp_FixedHeader = \<lparr>fh_Type = PacketType_of content, fh_Flags = flags, fh_RemainingLength = n\<rparr>\<rparr>,
           reader_at e rest)"
  by (rule Decode_Encode [OF assms])

text \<open>C2: what \<open>Decode\<close> accepts can be forwarded: the packet is in canonical form and belongs to the type in the
  header, \<open>Encode\<close> accepts it again, and its encoding is no longer than the bytes that were consumed.\<close>

theorem encode_decode:
  assumes "Decode (reader_at e xs) dopts = Inr (cp, r)"
  shows "\<exists>content used rest bs. cp_Content cp = Some content \<and> canonPacket content = content \<and>
    fh_Type (cp_FixedHeader cp) = PacketType_of content \<and> qos_ok content \<and>
    xs = used @ rest \<and> r = reader_at e rest \<and>
    Encode (Some cp) \<lparr>eo_MaxPacketSize = 0\<rparr> = Inr bs \<and> length bs \<le> length used"
proof -
  obtain h body rest content where 1: "xs = h # encVBI (int (length body)) @ body @ rest" "r = reader_at e rest"
      "validateFixedHeaderFlags (drop_bit 4 h) (h AND 0x0f) = Inr ()"
      "int (length body) \<le> maxRemainingLength" "decodePacket (drop_bit 4 h) (h AND 0x0f) body = Inr content"
      "cp = \<lparr>cp_Content = Some content, cp_Packet = Some content,
         cp_FixedHeader = \<lparr>fh_Type = drop_bit 4 h, fh_Flags = h AND 0x0f,
           fh_RemainingLength = int (length body)\<rparr>\<rparr>"
    by (rule Decode_Inr [OF assms]) blast
  obtain c where c: "decodeBody (drop_bit 4 h) (h AND 0x0f) (cur_at (drop_bit 4 h) [] body) = Inr (content, c)"
      "remaining c = 0"
    using 1(5) by (auto simp: decodePacket_def newCursor_at rbind_eq_Inr split: if_splits)
  note d = decodeBody_sound [OF c]
  obtain b' where b': "encodePacket content = Inr b'" "length b' \<le> length body" using d by blast
  obtain flags where flags: "fixedHeaderFlags content = Inr flags"
      "validateFixedHeaderFlags (PacketType_of content) flags = Inr ()"
    using header_flags_ok [of content] d 1(3) by (fastforce simp: validateFixedHeaderFlags_def split: if_splits)
  have "Encode (Some cp) \<lparr>eo_MaxPacketSize = 0\<rparr> =
      Inr ((push_bit 4 (PacketType_of content) OR flags) # encVBI (int (length b')) @ b')"
    using 1(4,6) b' flags d
    by (simp add: Encode_def CanonicalPacket_def encodeRemainingLength_def Let_def)
  moreover have "length ((push_bit 4 (PacketType_of content) OR flags) # encVBI (int (length b')) @ b') \<le>
      length (h # encVBI (int (length body)) @ body)"
    using b'(2) length_encVBI_mono [OF b'(2)] by simp
  moreover have "qos_ok content" using d by (cases content) (auto simp: qos_ok_def)
  ultimately show ?thesis
    using 1(1,2,6) d
    by - (rule exI [of _ content], rule exI [of _ "h # encVBI (int (length body)) @ body"],
        rule exI [of _ rest],
        rule exI [of _ "(push_bit 4 (PacketType_of content) OR flags) # encVBI (int (length b')) @ b'"], simp)
qed

text \<open>C3: the size limits bound the whole control packet, header included: \<open>Encode\<close> returns at most
  \<open>MaxPacketSize\<close> bytes when a limit is set, \<open>Decode\<close> consumes at most \<open>MaxPacketSize\<close> bytes, and no packet of
  either direction has more than 268435455 bytes after the remaining length.\<close>

theorem size_limits:
  "(Encode (Some cp) opts = Inr bs \<longrightarrow>
      length bs \<le> 268435460 \<and> (eo_MaxPacketSize opts > 0 \<longrightarrow> int (length bs) \<le> eo_MaxPacketSize opts)) \<and>
   (Decode (reader_at e xs) dopts = Inr (cp', reader_at e' rest) \<longrightarrow>
      (\<exists>used. xs = used @ rest \<and> e' = e \<and> length used \<le> 268435460 \<and>
        fh_RemainingLength (cp_FixedHeader cp') \<le> maxRemainingLength \<and>
        (do_MaxPacketSize dopts > 0 \<longrightarrow> int (length used) \<le> do_MaxPacketSize dopts)))"
proof (intro conjI impI)
  have w: "length (encVBI n) \<le> 4" if "valid_vbi n" for n
    using encVBI_width [OF that] by (simp add: minimalVBIBytes_def)
  {
    assume "Encode (Some cp) opts = Inr bs"
    then obtain h body where "int (length body) \<le> maxRemainingLength"
        "bs = h # encVBI (int (length body)) @ body"
      by (rule Encode_Inr)
    then show "length bs \<le> 268435460" using w [of "int (length body)"] by simp
  }
  show "eo_MaxPacketSize opts > 0 \<Longrightarrow> Encode (Some cp) opts = Inr bs \<Longrightarrow> int (length bs) \<le> eo_MaxPacketSize opts"
    by (erule Encode_Inr) simp
  assume "Decode (reader_at e xs) dopts = Inr (cp', reader_at e' rest)"
  then show "\<exists>used. xs = used @ rest \<and> e' = e \<and> length used \<le> 268435460 \<and>
      fh_RemainingLength (cp_FixedHeader cp') \<le> maxRemainingLength \<and>
      (do_MaxPacketSize dopts > 0 \<longrightarrow> int (length used) \<le> do_MaxPacketSize dopts)"
  proof (rule Decode_Inr)
    fix h body rest' content
    assume "xs = h # encVBI (int (length body)) @ body @ rest'" "reader_at e' rest = reader_at e rest'"
      "int (length body) \<le> maxRemainingLength"
      "do_MaxPacketSize dopts > 0 \<Longrightarrow>
        int (length (h # encVBI (int (length body)) @ body)) \<le> do_MaxPacketSize dopts"
      "cp' = \<lparr>cp_Content = Some content, cp_Packet = Some content,
         cp_FixedHeader = \<lparr>fh_Type = drop_bit 4 h, fh_Flags = h AND 0x0f,
           fh_RemainingLength = int (length body)\<rparr>\<rparr>"
    then show ?thesis
      using w [of "int (length body)"]
      by (intro exI [of _ "h # encVBI (int (length body)) @ body"]) auto
  qed
qed

text \<open>C4: every PUBLISH that \<open>Decode\<close> accepts is well-formed: QoS 0, 1 or 2; a Packet Identifier exactly when the
  QoS is above 0; a topic name without wildcards; an empty topic name only together with a topic alias; DUP only
  with a QoS above 0.\<close>

theorem decoded_publish_wellformed:
  assumes "Decode (reader_at e xs) dopts = Inr (cp, r)" and "cp_Content cp = Some (PPublish p)"
  shows "pub_QoS p \<le> 2 \<and> (pub_PacketID p = 0 \<longleftrightarrow> pub_QoS p = 0) \<and> \<not> contains_wildcard (pub_Topic p) \<and>
    (pub_Topic p = [] \<longrightarrow> (\<exists>q. pub_Properties p = Some q \<and> pp_TopicAlias q \<noteq> None)) \<and>
    (pub_Duplicate p \<longrightarrow> pub_QoS p \<noteq> 0)"
proof -
  obtain h body where 1: "validateFixedHeaderFlags (drop_bit 4 h) (h AND 0x0f) = Inr ()"
      "decodePacket (drop_bit 4 h) (h AND 0x0f) body = Inr (PPublish p)"
    by (rule Decode_Inr [OF assms(1)]) (use assms(2) in auto)
  then obtain c where c: "decodeBody (drop_bit 4 h) (h AND 0x0f) (cur_at (drop_bit 4 h) [] body) = Inr (PPublish p, c)"
      "remaining c = 0"
    by (auto simp: decodePacket_def newCursor_at rbind_eq_Inr split: if_splits)
  note d = decodeBody_sound [OF c]
  obtain b' where b': "encodePublish p = Inr b'" using d by (auto simp: encodePacket_def)
  have f: "pub_QoS p = drop_bit 1 (h AND 0x0f) AND 3" "pub_QoS p \<le> 2"
      "pub_Duplicate p \<longleftrightarrow> (h AND 0x0f) AND 8 \<noteq> 0" "drop_bit 4 h = PUBLISH"
    using d by auto
  have dup: "pub_Duplicate p \<longrightarrow> pub_QoS p \<noteq> 0"
    using 1(1) unfolding f(1,3) f(4) validateFixedHeaderFlags_def Let_def by (auto split: if_splits)
  show ?thesis
    by (rule encodePublish_Inr [OF b']) (use f(2) dup word_gt_0 [of "pub_QoS p"] in auto)
qed

definition bad_qos_publish :: Publish where
  "bad_qos_publish = \<lparr>pub_Payload = [], pub_Topic = ''a'', pub_Properties = None, pub_PacketID = 7,
     pub_QoS = 32, pub_Duplicate = False, pub_Retain = False\<rparr>"


section \<open>Concrete packets\<close>

definition wit_publish :: Publish where
  "wit_publish = \<lparr>pub_Payload = [1, 2], pub_Topic = ''a/b'', pub_Properties = None, pub_PacketID = 7,
     pub_QoS = 1, pub_Duplicate = False, pub_Retain = True\<rparr>"

definition wit_bytes :: bytes where
  "wit_bytes = [0x33, 10, 0, 3, 97, 47, 98, 0, 7, 0, 1, 2]"

lemma wit_encodePacket: "encodePacket (PPublish wit_publish) = Inr [0, 3, 97, 47, 98, 0, 7, 0, 1, 2]"
proof -
  have "utf8_valid (bytes_of_string ''a/b'')" "0 \<notin> set (bytes_of_string ''a/b'')"
    by (simp_all add: bytes_of_string_def)
  then show ?thesis
    by (simp add: wit_publish_def encodePacket_def encodePublish_def writeString_def Let_def
        contains_wildcard_def encodeProperties_None encSection_Nil writeUint16_def bytes_of_string_def)
qed

lemma wit_Encode:
  "Encode (Some (Publish_ToControlPacket wit_publish)) \<lparr>eo_MaxPacketSize = 16\<rparr> = Inr wit_bytes"
proof -
  have "CanonicalPacket (Some (Publish_ToControlPacket wit_publish)) = Some (PPublish wit_publish)"
      "fh_Type (cp_FixedHeader (Publish_ToControlPacket wit_publish)) = PUBLISH"
      "fixedHeaderFlags (PPublish wit_publish) = Inr 3" "validateFixedHeaderFlags PUBLISH 3 = Inr ()"
    by (simp_all add: Publish_ToControlPacket_def CanonicalPacket_def setPacket_def Let_def
        fixedHeaderFlags_def validateFixedHeaderFlags_def wit_publish_def)
  then show ?thesis
    by (simp add: Encode_def Let_def wit_encodePacket encodeRemainingLength_def
        encodeRemainingLength_loop_small wit_bytes_def)
qed

definition wit_decoded :: ControlPacket where
  "wit_decoded =
     (let p = wit_publish\<lparr>pub_Properties := Some PublishProperties0\<rparr>
      in \<lparr>cp_Content = Some (PPublish p), cp_Packet = Some (PPublish p),
          cp_FixedHeader = \<lparr>fh_Type = PUBLISH, fh_Flags = 3, fh_RemainingLength = 10\<rparr>\<rparr>)"

lemma wit_Decode:
  "Decode (reader_at EOF (wit_bytes @ [0xc0, 0])) \<lparr>do_MaxPacketSize = 16\<rparr> =
     Inr (wit_decoded, reader_at EOF [0xc0, 0])"
proof -
  have r: "readRemainingLength (reader_at EOF (10 # rest)) = Inr ((10, 1), reader_at EOF rest)" for rest
    using readRemainingLength_enc [where n = 10 and e = EOF and rest = rest]
    by (simp add: encodeRemainingLength_loop_small minimalVBIBytes_def)
  have "decodePacket PUBLISH 3 [0, 3, 97, 47, 98, 0, 7, 0, 1, 2] = Inr (canonPacket (PPublish wit_publish))"
    using decodePacket_enc [OF wit_encodePacket, of 3]
    by (simp add: qos_ok_def fixedHeaderFlags_def wit_publish_def)
  then show ?thesis
    by (simp add: wit_bytes_def Decode_at r ReadFull_def validateFixedHeaderFlags_def wit_decoded_def
        canonPacket_def canonOf_def wit_publish_def Let_def)
qed

theorem decode_encode_witness:
  "\<exists>flags n. Decode (reader_at EOF (wit_bytes @ [0xc0, 0])) \<lparr>do_MaxPacketSize = 16\<rparr> =
     Inr (\<lparr>cp_Content = Some (canonPacket (PPublish wit_publish)),
           cp_Packet = Some (canonPacket (PPublish wit_publish)),
           cp_FixedHeader = \<lparr>fh_Type = PUBLISH, fh_Flags = flags, fh_RemainingLength = n\<rparr>\<rparr>,
          reader_at EOF [0xc0, 0])"
  using decode_encode [OF wit_Encode, where content = "PPublish wit_publish" and
      dopts = "\<lparr>do_MaxPacketSize = 16\<rparr>" and e = EOF and rest = "[0xc0, 0]"]
  by (auto simp: Publish_ToControlPacket_def CanonicalPacket_def setPacket_def Let_def qos_ok_def
      wit_publish_def wit_bytes_def)

theorem encode_decode_witness:
  "\<exists>bs. Encode (Some wit_decoded) \<lparr>eo_MaxPacketSize = 0\<rparr> = Inr bs \<and> length bs \<le> 14"
  using encode_decode [OF wit_Decode] by (auto simp: wit_bytes_def Cons_eq_append_conv)

theorem size_limits_witness:
  "int (length wit_bytes) \<le> 16 \<and> fh_RemainingLength (cp_FixedHeader wit_decoded) \<le> maxRemainingLength"
  using size_limits [where cp = "Publish_ToControlPacket wit_publish" and opts = "\<lparr>eo_MaxPacketSize = 16\<rparr>"
      and bs = wit_bytes and e = EOF and xs = "wit_bytes @ [0xc0, 0]" and dopts = "\<lparr>do_MaxPacketSize = 16\<rparr>"
      and cp' = wit_decoded and e' = EOF and rest = "[0xc0, 0]"]
    wit_Encode wit_Decode by simp

theorem decoded_publish_wellformed_witness:
  "pub_QoS wit_publish \<le> 2 \<and> \<not> contains_wildcard (pub_Topic wit_publish)"
  using decoded_publish_wellformed [OF wit_Decode, of "wit_publish\<lparr>pub_Properties := Some PublishProperties0\<rparr>"]
  by (simp add: wit_decoded_def Let_def)

end
