(* ===== verification/Sub_Trie.thy ===== *)
theory Sub_Trie
  imports Prelude Topic_Filter
begin

text \<open>
  The subscription trie of one shard (\<open>internal/broker/subcenter/memory/sub_core.go\<close>) with the messages of
  \<open>proto/proto_topic/topic.proto\<close> it stores. A Go map that is ranged over is an association list; a nil map
  reads like an empty one, so both are the empty list, except for \<open>ChildNode\<close>. A stored \<open>SubOption\<close> is never
  nil, since \<open>createSub\<close> rejects nil with its empty topic. The walks along the child pointers are recursions on
  the remaining levels: \<open>insertPath\<close> creates missing nodes, \<open>modifyPath\<close> and \<open>lookupPath\<close> stop at them. The
  callback of \<open>walkMatchingTopicNodes\<close> is replaced by the list of the visited nodes in order.

  Lemmas: the visited nodes are exactly those whose path matches the published topic, every operation keeps
  trie and client index in step, and the result of a match is the set of matching subscriptions.
\<close>

section \<open>Messages\<close>

record SubOption =
  opt_QoS :: int
  opt_RetainAsPublished :: bool
  opt_Topic :: string
  opt_NoLocal :: bool
  opt_RetainHandling :: int
  opt_SubscriptionIdentifier :: int

record MatchedSubscription =
  ms_TopicFilter :: string
  ms_QoS :: int
  ms_RetainAsPublished :: bool
  ms_NoLocal :: bool
  ms_RetainHandling :: int
  ms_SubscriptionIdentifier :: int

datatype TreeNode = TreeNode
  (tn_TopicSection: string)
  (tn_Topic: string)
  (tn_Client: "(string \<times> SubOption) list")
  (tn_ChildMap: "(string \<times> TreeNode) list option")
  (tn_ClusterSub: "(string \<times> int) list")

text \<open>The field \<open>ChildNode\<close> may be a nil map, which the code tells apart in one place; reading it gives no child.\<close>

definition tn_ChildNode :: "TreeNode \<Rightarrow> (string \<times> TreeNode) list" where
  "tn_ChildNode n = (case tn_ChildMap n of None \<Rightarrow> [] | Some m \<Rightarrow> m)"

type_synonym ClientSubTopic = "(string \<times> SubOption) list"

record SubCore =
  sc_root :: TreeNode
  sc_clients :: "(string \<times> ClientSubTopic) list"

definition setTopic :: "string \<Rightarrow> TreeNode \<Rightarrow> TreeNode" where
  "setTopic t n = TreeNode (tn_TopicSection n) t (tn_Client n) (tn_ChildMap n) (tn_ClusterSub n)"

definition setClient :: "(string \<times> SubOption) list \<Rightarrow> TreeNode \<Rightarrow> TreeNode" where
  "setClient cs n = TreeNode (tn_TopicSection n) (tn_Topic n) cs (tn_ChildMap n) (tn_ClusterSub n)"

definition setChildNode :: "(string \<times> TreeNode) list \<Rightarrow> TreeNode \<Rightarrow> TreeNode" where
  "setChildNode ch n = TreeNode (tn_TopicSection n) (tn_Topic n) (tn_Client n) (Some ch) (tn_ClusterSub n)"

definition NewSubCore :: SubCore where
  "NewSubCore = \<lparr>sc_root = TreeNode ''/'' ''/'' [] (Some []) [], sc_clients = []\<rparr>"

text \<open>\<open>NewSubCoreFromProto\<close>: the parts that a snapshot may lack are nil.\<close>

record SubCoreProto =
  scp_Root :: "TreeNode option option"
  scp_Clients :: "(string \<times> ClientSubTopic) list option"

definition NewSubCoreFromProto :: "SubCoreProto option \<Rightarrow> SubCore" where
  "NewSubCoreFromProto core =
     (case core of
        None \<Rightarrow> NewSubCore
      | Some core \<Rightarrow>
          (let root = (case scp_Root core of None \<Rightarrow> None | Some treeRoot \<Rightarrow> treeRoot);
               root = (case root of None \<Rightarrow> TreeNode ''/'' ''/'' [] (Some []) [] | Some n \<Rightarrow> n);
               clients = (case scp_Clients core of None \<Rightarrow> [] | Some cs \<Rightarrow> cs)
           in \<lparr>sc_root = root, sc_clients = clients\<rparr>))"

section \<open>Validation\<close>

datatype subError =
    filterEmpty
  | hashNotLast
  | hashNotEntireLevel
  | plusNotEntireLevel
  | publishEmpty
  | publishWildcard

fun validateTopicFilter_loop :: "string list \<Rightarrow> subError + unit" where
  "validateTopicFilter_loop [] = Inr ()"
| "validateTopicFilter_loop (lv # levels) =
     (if lv = ''#'' then
        (if levels \<noteq> [] then Inl hashNotLast else validateTopicFilter_loop levels)
      else if CHR ''#'' \<in> set lv then Inl hashNotEntireLevel
      else if lv \<noteq> ''+'' \<and> CHR ''+'' \<in> set lv then Inl plusNotEntireLevel
      else validateTopicFilter_loop levels)"

definition validateTopicFilter_sub :: "string \<Rightarrow> subError + unit" where
  "validateTopicFilter_sub filt =
     (if filt = [] then Inl filterEmpty else validateTopicFilter_loop (SplitTopicLevels filt))"

definition validatePublishTopic :: "string \<Rightarrow> subError + unit" where
  "validatePublishTopic topic =
     (if topic = [] then Inl publishEmpty
      else if list_ex (\<lambda>lv. lv = ''+'' \<or> lv = ''#'' \<or> CHR ''+'' \<in> set lv \<or> CHR ''#'' \<in> set lv)
             (SplitTopicLevels topic)
      then Inl publishWildcard
      else Inr ())"

definition isWildcardLevel :: "string \<Rightarrow> bool" where
  "isWildcardLevel lv = (lv = ''+'' \<or> lv = ''#'')"

definition isMoreSpecificFilter :: "string \<Rightarrow> string \<Rightarrow> bool" where
  "isMoreSpecificFilter a b =
     (let al = SplitTopicLevels a;
          bl = SplitTopicLevels b;
          aw = length (filter isWildcardLevel al);
          bw = length (filter isWildcardLevel bl)
      in if aw \<noteq> bw then aw < bw
         else if length al \<noteq> length bl then length al > length bl
         else a < b)"

definition allowRootWildcardsForPublish :: "string list \<Rightarrow> bool" where
  "allowRootWildcardsForPublish topicLevels =
     (if topicLevels = [] then True else \<not> has_prefix ''$'' (hd topicLevels))"

section \<open>Walking the trie\<close>

fun lookupPath :: "TreeNode \<Rightarrow> string list \<Rightarrow> TreeNode option" where
  "lookupPath node [] = Some node"
| "lookupPath node (level # levels) =
     (case alist_get (tn_ChildNode node) level of
        None \<Rightarrow> None
      | Some child \<Rightarrow> lookupPath child levels)"

fun insertPath :: "(TreeNode \<Rightarrow> TreeNode) \<Rightarrow> TreeNode \<Rightarrow> string list \<Rightarrow> TreeNode" where
  "insertPath f node [] = f node"
| "insertPath f node (level # levels) =
     (let child = (case alist_get (tn_ChildNode node) level of
                     None \<Rightarrow> TreeNode level [] [] (Some []) []
                   | Some child \<Rightarrow> child)
      in setChildNode (alist_set level (insertPath f child levels) (tn_ChildNode node)) node)"

fun modifyPath :: "(TreeNode \<Rightarrow> TreeNode) \<Rightarrow> TreeNode \<Rightarrow> string list \<Rightarrow> TreeNode" where
  "modifyPath f node [] = f node"
| "modifyPath f node (level # levels) =
     (case alist_get (tn_ChildNode node) level of
        None \<Rightarrow> node
      | Some child \<Rightarrow>
          setChildNode (alist_set level (modifyPath f child levels) (tn_ChildNode node)) node)"

section \<open>Subscribing and unsubscribing\<close>

text \<open>The two assignments of \<open>createSub\<close> on the node the walk ends at.\<close>

definition putClient :: "string \<Rightarrow> SubOption \<Rightarrow> TreeNode \<Rightarrow> TreeNode" where
  "putClient clientID subOption node =
     (let node = setTopic (opt_Topic subOption) node
      in setClient (alist_set clientID subOption (tn_Client node)) node)"

definition topicsOf :: "SubCore \<Rightarrow> string \<Rightarrow> ClientSubTopic" where
  "topicsOf t clientID = (case alist_get (sc_clients t) clientID of None \<Rightarrow> [] | Some ts \<Rightarrow> ts)"

definition createSub :: "string \<Rightarrow> SubOption \<Rightarrow> SubCore \<Rightarrow> subError + SubCore" where
  "createSub clientID subOption t =
     rbind (validateTopicFilter_sub (opt_Topic subOption)) (\<lambda>_.
       (let topicLevels = SplitTopicLevels (opt_Topic subOption)
        in if topicLevels = [] then Inl filterEmpty
           else
             (let root = insertPath (putClient clientID subOption) (sc_root t) topicLevels;
                  subTopics = topicsOf t clientID;
                  subTopics = alist_set (opt_Topic subOption) subOption subTopics
              in Inr \<lparr>sc_root = root, sc_clients = alist_set clientID subTopics (sc_clients t)\<rparr>)))"

text \<open>
  Removing one topic from the index of a client, which goes away with its last topic; this tail is shared by
  \<open>deleteSub\<close> and \<open>deleteTopic\<close>.
\<close>

definition dropIndex :: "string \<Rightarrow> string \<Rightarrow> (string \<times> ClientSubTopic) list \<Rightarrow> (string \<times> ClientSubTopic) list" where
  "dropIndex clientID topic clients =
     (case alist_get clients clientID of
        None \<Rightarrow> clients
      | Some subTopics \<Rightarrow>
          (let subTopics = alist_del topic subTopics
           in if subTopics = [] then alist_del clientID clients
              else alist_set clientID subTopics clients))"

definition deleteSub :: "SubOption \<Rightarrow> string \<Rightarrow> SubCore \<Rightarrow> SubCore" where
  "deleteSub subOption clientID t =
     (let topicLevels = SplitTopicLevels (opt_Topic subOption)
      in case lookupPath (sc_root t) topicLevels of
           None \<Rightarrow> t
         | Some _ \<Rightarrow>
             \<lparr>sc_root = modifyPath (\<lambda>n. setClient (alist_del clientID (tn_Client n)) n) (sc_root t) topicLevels,
              sc_clients = dropIndex clientID (opt_Topic subOption) (sc_clients t)\<rparr>)"

definition deleteTopic :: "string \<Rightarrow> SubCore \<Rightarrow> string list \<times> SubCore" where
  "deleteTopic topic t =
     (let topicLevels = SplitTopicLevels topic
      in case lookupPath (sc_root t) topicLevels of
           None \<Rightarrow> ([], t)
         | Some node \<Rightarrow>
             (let removed = alist_keys (tn_Client node)
              in (removed,
                  \<lparr>sc_root = modifyPath (setClient []) (sc_root t) topicLevels,
                   sc_clients = foldl (\<lambda>cs c. dropIndex c topic cs) (sc_clients t) removed\<rparr>)))"

text \<open>
  \<open>deleteClient\<close> deletes from the map it ranges over; each iteration removes the entry it is at, so the range is
  over the entries at its start.
\<close>

definition SubCore_deleteClient :: "string \<Rightarrow> SubCore \<Rightarrow> SubCore" where
  "SubCore_deleteClient clientID t =
     (case alist_get (sc_clients t) clientID of
        None \<Rightarrow> t
      | Some subTopics \<Rightarrow>
          foldl (\<lambda>t subOption. deleteSub subOption clientID t) t (map snd subTopics))"

section \<open>Matching\<close>

definition matchingHashChild :: "TreeNode \<Rightarrow> nat \<Rightarrow> bool \<Rightarrow> TreeNode option" where
  "matchingHashChild node depth rootWildcardsAllowed =
     (if depth = 0 \<and> \<not> rootWildcardsAllowed then None
      else alist_get (tn_ChildNode node) ''#'')"

text \<open>
  The closure \<open>match\<close> of \<open>walkMatchingTopicNodes\<close> below the root: \<open>levels\<close> are the topic levels from \<open>depth\<close>
  on.
\<close>

fun matchNodes :: "bool \<Rightarrow> TreeNode \<Rightarrow> nat \<Rightarrow> string list \<Rightarrow> TreeNode list" where
  "matchNodes rootWildcardsAllowed node depth [] =
     (case matchingHashChild node depth rootWildcardsAllowed of None \<Rightarrow> [] | Some n \<Rightarrow> [n]) @ [node]"
| "matchNodes rootWildcardsAllowed node depth (level # levels) =
     (case matchingHashChild node depth rootWildcardsAllowed of None \<Rightarrow> [] | Some n \<Rightarrow> [n]) @
     (case alist_get (tn_ChildNode node) level of
        None \<Rightarrow> []
      | Some child \<Rightarrow> matchNodes rootWildcardsAllowed child (depth + 1) levels) @
     (if depth \<noteq> 0 \<or> rootWildcardsAllowed then
        (case alist_get (tn_ChildNode node) ''+'' of
           None \<Rightarrow> []
         | Some plusChild \<Rightarrow> matchNodes rootWildcardsAllowed plusChild (depth + 1) levels)
      else [])"

text \<open>\<open>walkSharedSubscriptionRoots\<close>: the group nodes below \<open>$share\<close>, each walked as a root of its own.\<close>

definition sharedRoots :: "TreeNode \<Rightarrow> TreeNode list" where
  "sharedRoots root =
     (case alist_get (tn_ChildNode root) ''$share'' of
        None \<Rightarrow> []
      | Some shareRoot \<Rightarrow> map snd (tn_ChildNode shareRoot))"

definition walkMatchingTopicNodes :: "SubCore \<Rightarrow> string \<Rightarrow> TreeNode list" where
  "walkMatchingTopicNodes t topic =
     (let topicLevels = SplitTopicLevels topic
      in if validatePublishTopic topic \<noteq> Inr () \<or> topicLevels = [] then []
         else
           (let allowed = allowRootWildcardsForPublish topicLevels
            in concat (map (\<lambda>groupNode. matchNodes allowed groupNode 0 topicLevels)
                        (sharedRoots (sc_root t))) @
               matchNodes allowed (sc_root t) 0 topicLevels))"

definition nodeMaxQoS :: "TreeNode \<Rightarrow> int" where
  "nodeMaxQoS node = foldl (\<lambda>m (_, c). if opt_QoS c > m then opt_QoS c else m) 0 (tn_Client node)"

text \<open>\<open>result[node.Topic]\<close> of an absent key is 0.\<close>

definition matchTopic :: "SubCore \<Rightarrow> string \<Rightarrow> (string \<times> int) list" where
  "matchTopic t topic =
     foldl (\<lambda>result node.
       if tn_Topic node = [] then result
       else
         (let qos = nodeMaxQoS node;
              old = (case alist_get result (tn_Topic node) of None \<Rightarrow> 0 | Some q \<Rightarrow> q)
          in if qos > old then alist_set (tn_Topic node) qos result else result))
       [] (walkMatchingTopicNodes t topic)"

definition mergeClient ::
  "(string \<times> SubOption) list \<Rightarrow> string \<times> SubOption \<Rightarrow> (string \<times> SubOption) list" where
  "mergeClient result ci =
     (let clientID = fst ci;
          incoming = snd ci
      in case alist_get result clientID of
           None \<Rightarrow> alist_set clientID incoming result
         | Some existing \<Rightarrow>
             (if opt_QoS incoming > opt_QoS existing then alist_set clientID incoming result
              else if opt_QoS incoming = opt_QoS existing \<and>
                      isMoreSpecificFilter (opt_Topic incoming) (opt_Topic existing)
              then alist_set clientID incoming result
              else result))"

definition mergeMatchedNodeClients ::
  "(string \<times> SubOption) list \<Rightarrow> TreeNode \<Rightarrow> (string \<times> SubOption) list" where
  "mergeMatchedNodeClients result node = foldl mergeClient result (tn_Client node)"

definition matchTopicClient :: "SubCore \<Rightarrow> string \<Rightarrow> (string \<times> SubOption) list" where
  "matchTopicClient t topic = foldl mergeMatchedNodeClients [] (walkMatchingTopicNodes t topic)"

definition matchedSubscriptionFromOption :: "SubOption \<Rightarrow> MatchedSubscription" where
  "matchedSubscriptionFromOption opt =
     \<lparr>ms_TopicFilter = opt_Topic opt, ms_QoS = opt_QoS opt,
      ms_RetainAsPublished = opt_RetainAsPublished opt, ms_NoLocal = opt_NoLocal opt,
      ms_RetainHandling = opt_RetainHandling opt,
      ms_SubscriptionIdentifier = opt_SubscriptionIdentifier opt\<rparr>"

definition appendMatched ::
  "(string \<times> MatchedSubscription list) list \<Rightarrow> string \<times> SubOption \<Rightarrow>
   (string \<times> MatchedSubscription list) list" where
  "appendMatched result ci =
     (let old = (case alist_get result (fst ci) of None \<Rightarrow> [] | Some l \<Rightarrow> l)
      in alist_set (fst ci) (old @ [matchedSubscriptionFromOption (snd ci)]) result)"

definition appendMatchedNodeClients ::
  "(string \<times> MatchedSubscription list) list \<Rightarrow> TreeNode \<Rightarrow> (string \<times> MatchedSubscription list) list" where
  "appendMatchedNodeClients result node = foldl appendMatched result (tn_Client node)"

definition matchTopicClientV2 :: "SubCore \<Rightarrow> string \<Rightarrow> (string \<times> MatchedSubscription list) list" where
  "matchTopicClientV2 t topic = foldl appendMatchedNodeClients [] (walkMatchingTopicNodes t topic)"

fun collectAllTopics :: "TreeNode \<Rightarrow> string list" where
  "collectAllTopics (TreeNode section topic clients children clusterSub) =
     (if topic \<noteq> [] \<and> section \<noteq> ''#'' \<and> section \<noteq> ''+'' then [topic] else []) @
     (case children of
        None \<Rightarrow> []
      | Some m \<Rightarrow> concat (map (\<lambda>(k, child). collectAllTopics child) m))"

fun matchWildcardNodes :: "TreeNode \<Rightarrow> string list \<Rightarrow> string list" where
  "matchWildcardNodes node [] = (if tn_Topic node \<noteq> [] then [tn_Topic node] else [])"
| "matchWildcardNodes node (level # levels) =
     (if tn_ChildMap node = None then []
      else if level = ''+'' then
        concat (map (\<lambda>(k, child).
            if k \<noteq> ''#'' \<and> k \<noteq> ''+'' then matchWildcardNodes child levels else [])
          (tn_ChildNode node))
      else if level = ''#'' then collectAllTopics node
      else
        (case alist_get (tn_ChildNode node) level of
           None \<Rightarrow> []
         | Some child \<Rightarrow> matchWildcardNodes child levels))"

definition matchTopicForWildcard :: "SubCore \<Rightarrow> string \<Rightarrow> string list" where
  "matchTopicForWildcard t wildcardTopic =
     matchWildcardNodes (sc_root t) (SplitTopicLevels wildcardTopic)"

definition getClientSubscriptions :: "SubCore \<Rightarrow> string \<Rightarrow> (string \<times> SubOption) list" where
  "getClientSubscriptions t clientID = topicsOf t clientID"

section \<open>Lookups after updates\<close>

definition node_clients :: "TreeNode \<Rightarrow> string list \<Rightarrow> (string \<times> SubOption) list" where
  "node_clients root p = (case lookupPath root p of None \<Rightarrow> [] | Some n \<Rightarrow> tn_Client n)"

definition node_topic :: "TreeNode \<Rightarrow> string list \<Rightarrow> string" where
  "node_topic root p = (case lookupPath root p of None \<Rightarrow> [] | Some n \<Rightarrow> tn_Topic n)"

text \<open>No key twice among the children and the clients of any node.\<close>

definition tree_wf :: "TreeNode \<Rightarrow> bool" where
  "tree_wf root \<longleftrightarrow>
     (\<forall>p n. lookupPath root p = Some n \<longrightarrow>
        distinct (alist_keys (tn_ChildNode n)) \<and> distinct (alist_keys (tn_Client n)))"

lemma node_sel_simps [simp]:
  "tn_Client (setClient cs n) = cs"
  "tn_Topic (setClient cs n) = tn_Topic n"
  "tn_ChildNode (setClient cs n) = tn_ChildNode n"
  "tn_Client (setTopic t n) = tn_Client n"
  "tn_Topic (setTopic t n) = t"
  "tn_ChildNode (setTopic t n) = tn_ChildNode n"
  "tn_Client (setChildNode ch n) = tn_Client n"
  "tn_Topic (setChildNode ch n) = tn_Topic n"
  "tn_ChildNode (setChildNode ch n) = ch"
  "tn_ChildNode (TreeNode se to cl (Some ch) cu) = ch"
  by (simp_all add: setClient_def setTopic_def setChildNode_def tn_ChildNode_def)

lemma putClient_simps [simp]:
  "tn_Client (putClient c opt n) = alist_set c opt (tn_Client n)"
  "tn_Topic (putClient c opt n) = opt_Topic opt"
  "tn_ChildNode (putClient c opt n) = tn_ChildNode n"
  by (simp_all add: putClient_def)

lemma node_clients_simps [simp]:
  "node_clients n [] = tn_Client n"
  "node_clients n (l # p) =
     (case alist_get (tn_ChildNode n) l of None \<Rightarrow> [] | Some m \<Rightarrow> node_clients m p)"
  by (auto simp: node_clients_def split: option.splits)

lemma node_topic_simps [simp]:
  "node_topic n [] = tn_Topic n"
  "node_topic n (l # p) =
     (case alist_get (tn_ChildNode n) l of None \<Rightarrow> [] | Some m \<Rightarrow> node_topic m p)"
  by (auto simp: node_topic_def split: option.splits)

lemma lookupPath_fresh:
  "lookupPath (TreeNode l t cl (Some []) cu) p = Some n \<longleftrightarrow> p = [] \<and> n = TreeNode l t cl (Some []) cu"
  by (cases p) auto

lemma node_fresh [simp]:
  "node_clients (TreeNode l [] [] (Some []) cu) p = []"
  "node_topic (TreeNode l [] [] (Some []) cu) p = []"
  by (cases p; simp)+

lemma lookupPath_append:
  "lookupPath n (p @ q) = (case lookupPath n p of None \<Rightarrow> None | Some m \<Rightarrow> lookupPath m q)"
  by (induction n p rule: lookupPath.induct) (auto split: option.splits)

lemma lookupPath_cong_children:
  "tn_ChildNode n = tn_ChildNode m \<Longrightarrow> p \<noteq> [] \<Longrightarrow> lookupPath n p = lookupPath m p"
  by (cases p) auto

lemma node_children_cong:
  assumes "tn_ChildNode (f n) = tn_ChildNode n" "p \<noteq> []"
  shows "node_clients (f n) p = node_clients n p" "node_topic (f n) p = node_topic n p"
  using lookupPath_cong_children [OF assms] by (simp_all add: node_clients_def node_topic_def)

lemma node_insertPath [trie_simps]:
  assumes "\<And>n. tn_ChildNode (f n) = tn_ChildNode n"
  shows "p \<noteq> ls \<Longrightarrow> node_clients (insertPath f n ls) p = node_clients n p"
    and "p \<noteq> ls \<Longrightarrow> node_topic (insertPath f n ls) p = node_topic n p"
proof (induction ls arbitrary: n p)
  case (Cons l ls)
  {
    case 1
    then show ?case
      using Cons(1) by (cases p) (auto simp: Let_def split: option.splits)
  next
    case 2
    then show ?case
      using Cons(2) by (cases p) (auto simp: Let_def split: option.splits)
  }
qed (simp_all add: node_children_cong [of f, OF assms])

lemma node_insertPath_put [trie_simps]:
  shows "node_clients (insertPath (putClient c opt) n ls) ls = alist_set c opt (node_clients n ls)"
    and "node_topic (insertPath (putClient c opt) n ls) ls = opt_Topic opt"
  by (induction ls arbitrary: n) (auto simp: Let_def split: option.splits)

lemma node_modifyPath [trie_simps]:
  assumes "\<And>n. tn_ChildNode (f n) = tn_ChildNode n"
  shows "p \<noteq> ls \<Longrightarrow> node_clients (modifyPath f n ls) p = node_clients n p"
proof (induction ls arbitrary: n p)
  case (Cons l ls)
  then show ?case by (cases p) (auto split: option.splits)
qed (simp add: node_children_cong [of f, OF assms])

lemma node_modifyPath_same:
  "lookupPath n ls = Some m \<Longrightarrow> node_clients (modifyPath f n ls) ls = tn_Client (f m)"
  by (induction ls arbitrary: n) (auto split: option.splits)

lemma node_topic_modifyPath [trie_simps]:
  assumes "\<And>n. tn_ChildNode (f n) = tn_ChildNode n" "\<And>n. tn_Topic (f n) = tn_Topic n"
  shows "node_topic (modifyPath f n ls) p = node_topic n p"
proof (induction ls arbitrary: n p)
  case Nil
  show ?case
    using node_children_cong(2) [of f, OF assms(1)] by (cases "p = []") (simp_all add: assms)
next
  case (Cons l ls)
  then show ?case by (cases p) (auto split: option.splits)
qed

lemma tree_wf_lookup:
  "tree_wf n \<Longrightarrow> lookupPath n p = Some m \<Longrightarrow>
     distinct (alist_keys (tn_ChildNode m)) \<and> distinct (alist_keys (tn_Client m))"
  unfolding tree_wf_def by blast

lemma tree_wf_keys:
  assumes "tree_wf n"
  shows "distinct (alist_keys (tn_ChildNode n))" "distinct (alist_keys (tn_Client n))"
  using tree_wf_lookup [OF assms lookupPath.simps(1)] by blast+

lemma tree_wf_child:
  assumes "tree_wf n" "alist_get (tn_ChildNode n) l = Some m"
  shows "tree_wf m"
  unfolding tree_wf_def
proof (intro allI impI)
  fix p k
  assume "lookupPath m p = Some k"
  then have "lookupPath n (l # p) = Some k" using assms(2) by simp
  with assms(1) show "distinct (alist_keys (tn_ChildNode k)) \<and> distinct (alist_keys (tn_Client k))"
    by (rule tree_wf_lookup)
qed

lemma tree_wf_intro:
  assumes "distinct (alist_keys (tn_ChildNode n))" "distinct (alist_keys (tn_Client n))"
    "\<And>l m. alist_get (tn_ChildNode n) l = Some m \<Longrightarrow> tree_wf m"
  shows "tree_wf n"
  unfolding tree_wf_def
proof (intro allI impI)
  fix p k
  assume k: "lookupPath n p = Some k"
  show "distinct (alist_keys (tn_ChildNode k)) \<and> distinct (alist_keys (tn_Client k))"
  proof (cases p)
    case Nil
    then show ?thesis using k assms(1,2) by simp
  next
    case (Cons l q)
    then obtain m where m: "alist_get (tn_ChildNode n) l = Some m" "lookupPath m q = Some k"
      using k by (auto split: option.splits)
    from tree_wf_lookup [OF assms(3) [OF m(1)] m(2)] show ?thesis .
  qed
qed

lemma tree_wf_fresh [simp]: "tree_wf (TreeNode l t [] (Some []) cu)"
  by (rule tree_wf_intro) simp_all

lemma tree_wf_update:
  assumes "tn_ChildNode (f n) = tn_ChildNode n"
    "distinct (alist_keys (tn_Client n)) \<Longrightarrow> distinct (alist_keys (tn_Client (f n)))" "tree_wf n"
  shows "tree_wf (f n)"
proof (rule tree_wf_intro)
  show "tree_wf m" if "alist_get (tn_ChildNode (f n)) l = Some m" for l m
    by (rule tree_wf_child [OF assms(3)]) (use that assms(1) in simp)
qed (use assms tree_wf_keys [OF assms(3)] in simp_all)

lemma tree_wf_setChild:
  assumes "tree_wf n" "tree_wf m"
  shows "tree_wf (setChildNode (alist_set l m (tn_ChildNode n)) n)"
proof (rule tree_wf_intro)
  show "tree_wf k" if "alist_get (tn_ChildNode (setChildNode (alist_set l m (tn_ChildNode n)) n)) l' = Some k"
    for l' k
    using that assms(2) tree_wf_child [OF assms(1), of l' k] by (auto split: if_splits)
qed (use tree_wf_keys [OF assms(1)] in simp_all)

lemma tree_wf_insertPath:
  assumes "\<And>n. tree_wf n \<Longrightarrow> tree_wf (f n)"
  shows "tree_wf n \<Longrightarrow> tree_wf (insertPath f n ls)"
proof (induction ls arbitrary: n)
  case (Cons l ls)
  define m where "m = (case alist_get (tn_ChildNode n) l of None \<Rightarrow> TreeNode l [] [] (Some []) [] | Some c \<Rightarrow> c)"
  have "tree_wf m"
    using tree_wf_child [OF Cons.prems, of l] by (auto simp: m_def split: option.splits)
  from tree_wf_setChild [OF Cons.prems Cons.IH [OF this]] show ?case
    by (simp add: Let_def m_def)
qed (simp add: assms)

lemma tree_wf_modifyPath:
  assumes "\<And>n. tree_wf n \<Longrightarrow> tree_wf (f n)"
  shows "tree_wf n \<Longrightarrow> tree_wf (modifyPath f n ls)"
proof (induction ls arbitrary: n)
  case (Cons l ls)
  show ?case
  proof (cases "alist_get (tn_ChildNode n) l")
    case (Some m)
    from tree_wf_setChild [OF Cons.prems Cons.IH [OF tree_wf_child [OF Cons.prems Some]]] Some
    show ?thesis by simp
  qed (use Cons.prems in simp)
qed (simp add: assms)

section \<open>What a match visits\<close>

text \<open>The visited nodes by their paths; the nodes are found again by \<open>lookupPath\<close>.\<close>

definition via :: "TreeNode option \<Rightarrow> (TreeNode \<Rightarrow> 'a list) \<Rightarrow> 'a list" where
  "via child f = (case child of None \<Rightarrow> [] | Some n \<Rightarrow> f n)"

lemma via_simps [simp]: "via None f = []" "via (Some n) f = f n"
  by (simp_all add: via_def)

fun matchPaths :: "bool \<Rightarrow> TreeNode \<Rightarrow> nat \<Rightarrow> string list \<Rightarrow> string list list" where
  "matchPaths allowed node depth [] =
     via (matchingHashChild node depth allowed) (\<lambda>_. [[''#'']]) @ [[]]"
| "matchPaths allowed node depth (level # levels) =
     via (matchingHashChild node depth allowed) (\<lambda>_. [[''#'']]) @
     via (alist_get (tn_ChildNode node) level) (\<lambda>child.
       map ((#) level) (matchPaths allowed child (depth + 1) levels)) @
     via (if depth \<noteq> 0 \<or> allowed then alist_get (tn_ChildNode node) ''+'' else None) (\<lambda>plusChild.
       map ((#) ''+'') (matchPaths allowed plusChild (depth + 1) levels))"

definition node_at :: "TreeNode \<Rightarrow> string list \<Rightarrow> TreeNode" where
  "node_at root p = the (lookupPath root p)"

lemma node_at_simps:
  "node_at n [] = n"
  "alist_get (tn_ChildNode n) l = Some m \<Longrightarrow> node_at n (l # p) = node_at m p"
  by (simp_all add: node_at_def)

lemma matchNodes_paths: "matchNodes a n d ts = map (node_at n) (matchPaths a n d ts)"
  by (induction ts arbitrary: n d)
    (auto simp: matchingHashChild_def node_at_simps split: option.splits if_splits)

text \<open>Topic levels of a publish carry no wildcard.\<close>

definition plain_levels :: "string list \<Rightarrow> bool" where
  "plain_levels ts \<longleftrightarrow> (\<forall>l \<in> set ts. CHR ''+'' \<notin> set l \<and> CHR ''#'' \<notin> set l)"

lemma plain_levels_Cons [simp]:
  "plain_levels (l # ts) \<longleftrightarrow> (CHR ''+'' \<notin> set l \<and> CHR ''#'' \<notin> set l) \<and> plain_levels ts"
  "plain_levels []"
  by (auto simp: plain_levels_def)

lemma in_via_iff: "x \<in> set (via child f) \<longleftrightarrow> (\<exists>n. child = Some n \<and> x \<in> set (f n))"
  by (cases child) auto

lemma in_matchPaths_Cons:
  "[] \<notin> set (matchPaths a n d (t # ts))"
  "l # q \<in> set (matchPaths a n d (t # ts)) \<longleftrightarrow>
     l = ''#'' \<and> q = [] \<and> alist_get (tn_ChildNode n) ''#'' \<noteq> None \<and> (d = 0 \<longrightarrow> a) \<or>
     l = t \<and> (\<exists>m. alist_get (tn_ChildNode n) t = Some m \<and> q \<in> set (matchPaths a m (d + 1) ts)) \<or>
     l = ''+'' \<and> (d = 0 \<longrightarrow> a) \<and>
       (\<exists>m. alist_get (tn_ChildNode n) ''+'' = Some m \<and> q \<in> set (matchPaths a m (d + 1) ts))"
  by (auto simp: in_via_iff matchingHashChild_def)

lemma in_matchPaths_iff:
  "plain_levels ts \<Longrightarrow> p \<in> set (matchPaths a n d ts) \<longleftrightarrow>
     lookupPath n p \<noteq> None \<and> filter_matches p ts \<and>
     (d = 0 \<and> \<not> a \<longrightarrow> p = [] \<or> \<not> isWildcardLevel (hd p))"
proof (induction ts arbitrary: n d p)
  case Nil
  show ?case
    by (cases p) (auto simp: in_via_iff matchingHashChild_def filter_matches_Cons isWildcardLevel_def
        split: option.splits)
next
  case (Cons t ts)
  then have t: "t \<noteq> ''+''" "t \<noteq> ''#''" and ts: "plain_levels ts" by auto
  note IH = Cons.IH [OF ts]
  show ?case
  proof (cases p)
    case Nil
    then show ?thesis by (simp only: in_matchPaths_Cons filter_matches_Nil) simp
  next
    case (Cons l q)
    show ?thesis
      unfolding Cons in_matchPaths_Cons IH using t
      by (auto simp: filter_matches_Cons isWildcardLevel_def split: option.splits)
  qed
qed

lemma distinct_matchPaths: "plain_levels ts \<Longrightarrow> distinct (matchPaths a n d ts)"
proof (induction ts arbitrary: n d)
  case Nil
  show ?case by (cases "matchingHashChild n d a") auto
next
  case (Cons t ts)
  then have t: "t \<noteq> ''+''" "t \<noteq> ''#''" and ts: "plain_levels ts" by auto
  have "distinct (via c (\<lambda>m. map ((#) l) (matchPaths a m (d + 1) ts)))" for c l
    using Cons.IH [OF ts] by (cases c) (auto simp: distinct_map)
  moreover have "distinct (via c (\<lambda>_. [[''#'']]))" for c
    by (cases c) auto
  ultimately show ?case
    using t by (auto simp: in_via_iff)
qed

text \<open>
  The reference: a stored filter is hit by a published topic when the matcher of the topic package says so,
  for a shared filter also when it says so for the part after the group.
\<close>

definition sub_covers :: "string \<Rightarrow> string \<Rightarrow> bool" where
  "sub_covers filt topic \<longleftrightarrow>
     MatchTopicFilter filt topic \<or>
     (case SplitTopicLevels filt of
        s # g # rest \<Rightarrow> s = ''$share'' \<and> MatchTopicFilter (join_on CHR ''/'' rest) topic
      | _ \<Rightarrow> False)"

definition covers_levels :: "string list \<Rightarrow> string list \<Rightarrow> bool" where
  "covers_levels p ts \<longleftrightarrow>
     filter_matches p ts \<and> \<not> dollar_hidden p ts \<or>
     (\<exists>g q. p = ''$share'' # g # q \<and> filter_matches q ts \<and> \<not> dollar_hidden q ts)"

lemma validatePublishTopic_iff:
  "validatePublishTopic topic = Inr () \<longleftrightarrow> topic \<noteq> [] \<and> plain_levels (SplitTopicLevels topic)"
  by (auto simp: validatePublishTopic_def plain_levels_def list_ex_iff)

lemma MatchTopicFilter_iff:
  "topic \<noteq> [] \<Longrightarrow> MatchTopicFilter f topic \<longleftrightarrow>
     f \<noteq> [] \<and> filter_matches (SplitTopicLevels f) (SplitTopicLevels topic) \<and>
     \<not> dollar_hidden (SplitTopicLevels f) (SplitTopicLevels topic)"
  by (auto simp: MatchTopicFilter_def Let_def dollar_hidden_def filter_matches_iff_matchFilterLevels)

text \<open>Blocking wildcards at the root for a topic that starts with a dollar sign is the rule on hidden topics.\<close>

lemma root_wildcards_iff:
  assumes "filter_matches p ts" "ts \<noteq> []"
  shows "(\<not> allowRootWildcardsForPublish ts \<longrightarrow> p = [] \<or> \<not> isWildcardLevel (hd p)) \<longleftrightarrow> \<not> dollar_hidden p ts"
  using assms
  by (cases rule: filter_matches.cases)
    (auto simp: allowRootWildcardsForPublish_def dollar_hidden_def isWildcardLevel_def has_prefix_def)

lemma filter_matches_empty_level: "filter_matches [[]] ts \<longleftrightarrow> ts = [[]]"
  by (auto simp: filter_matches_Cons)

lemma SplitTopicLevels_neq_empty_level: "SplitTopicLevels t \<noteq> [[]]"
  using join_SplitTopicLevels [of t] by (auto simp: SplitTopicLevels_def)

lemma SplitTopicLevels_join:
  assumes "ls \<noteq> []" "ls \<noteq> [[]]" "\<And>l. l \<in> set ls \<Longrightarrow> CHR ''/'' \<notin> set l"
  shows "SplitTopicLevels (join_on CHR ''/'' ls) = ls"
proof -
  have "join_on CHR ''/'' ls \<noteq> []"
    using assms(1,2) by (cases ls; cases "tl ls") auto
  then show ?thesis
    by (simp add: SplitTopicLevels_def split_join_on assms)
qed

lemma sub_covers_iff:
  assumes topic: "topic \<noteq> []" and f: "f \<noteq> []"
  shows "sub_covers f topic \<longleftrightarrow> covers_levels (SplitTopicLevels f) (SplitTopicLevels topic)"
proof -
  have "MatchTopicFilter (join_on CHR ''/'' q) topic \<longleftrightarrow>
      filter_matches q (SplitTopicLevels topic) \<and> \<not> dollar_hidden q (SplitTopicLevels topic)"
    if "SplitTopicLevels f = s # g # q" for s g q
  proof (cases "q = [] \<or> q = [[]]")
    case True
    then show ?thesis
      using topic SplitTopicLevels_neq_empty_level [of topic]
      by (auto simp: MatchTopicFilter_iff filter_matches_empty_level)
  next
    case False
    then have "SplitTopicLevels (join_on CHR ''/'' q) = q"
      using level_no_slash [of _ f] that by (intro SplitTopicLevels_join) auto
    moreover from this False have "join_on CHR ''/'' q \<noteq> []" by auto
    ultimately show ?thesis using topic by (simp add: MatchTopicFilter_iff)
  qed
  then show ?thesis
    using f topic by (auto simp: sub_covers_def covers_levels_def MatchTopicFilter_iff split: list.splits)
qed

definition shareGroups :: "TreeNode \<Rightarrow> (string \<times> TreeNode) list" where
  "shareGroups root = via (alist_get (tn_ChildNode root) ''$share'') tn_ChildNode"

definition walkPaths :: "TreeNode \<Rightarrow> string \<Rightarrow> string list list" where
  "walkPaths root topic =
     (let ts = SplitTopicLevels topic;
          a = allowRootWildcardsForPublish ts
      in if validatePublishTopic topic \<noteq> Inr () then []
         else
           concat (map (\<lambda>gn. map (\<lambda>p. ''$share'' # fst gn # p) (matchPaths a (snd gn) 0 ts)) (shareGroups root)) @
           matchPaths a root 0 ts)"

lemma shareGroups_iff:
  assumes "tree_wf root"
  shows "(g, m) \<in> set (shareGroups root) \<longleftrightarrow> lookupPath root [''$share'', g] = Some m"
proof (cases "alist_get (tn_ChildNode root) ''$share''")
  case (Some s)
  then show ?thesis
    using alist_get_eq_Some_iff [OF tree_wf_keys(1) [OF tree_wf_child [OF assms Some]], of g m]
    by (cases "alist_get (tn_ChildNode s) g") (auto simp: shareGroups_def)
qed (simp add: shareGroups_def)

lemma distinct_shareGroups: "tree_wf root \<Longrightarrow> distinct (alist_keys (shareGroups root))"
  by (cases "alist_get (tn_ChildNode root) ''$share''") (auto simp: shareGroups_def intro: tree_wf_keys tree_wf_child)

lemma walkMatchingTopicNodes_paths:
  assumes "tree_wf (sc_root t)"
  shows "walkMatchingTopicNodes t topic = map (node_at (sc_root t)) (walkPaths (sc_root t) topic)"
proof (cases "validatePublishTopic topic = Inr ()")
  case True
  have "sharedRoots (sc_root t) = map snd (shareGroups (sc_root t))"
    by (simp add: sharedRoots_def shareGroups_def via_def split: option.splits)
  moreover have "matchNodes a (snd gn) 0 ts =
      map (node_at (sc_root t)) (map (\<lambda>p. ''$share'' # fst gn # p) (matchPaths a (snd gn) 0 ts))"
    if "gn \<in> set (shareGroups (sc_root t))" for gn a ts
  proof -
    have "lookupPath (sc_root t) [''$share'', fst gn] = Some (snd gn)"
      using that shareGroups_iff [OF assms, of "fst gn" "snd gn"] by simp
    then have "node_at (sc_root t) (''$share'' # fst gn # p) = node_at (snd gn) p" for p
      by (auto simp: node_at_def split: option.splits)
    then show ?thesis by (simp add: matchNodes_paths)
  qed
  ultimately show ?thesis
    using True unfolding walkMatchingTopicNodes_def walkPaths_def Let_def
    by (auto simp: validatePublishTopic_iff matchNodes_paths map_concat intro!: arg_cong [of _ _ concat])
qed (simp add: walkMatchingTopicNodes_def walkPaths_def)

lemma in_walkPaths_iff:
  assumes wf: "tree_wf root" and topic: "validatePublishTopic topic = Inr ()"
  shows "p \<in> set (walkPaths root topic) \<longleftrightarrow>
    lookupPath root p \<noteq> None \<and> covers_levels p (SplitTopicLevels topic)"
proof -
  let ?ts = "SplitTopicLevels topic"
  have ts: "plain_levels ?ts" "?ts \<noteq> []" using topic by (simp_all add: validatePublishTopic_iff)
  have m: "q \<in> set (matchPaths (allowRootWildcardsForPublish ?ts) n 0 ?ts) \<longleftrightarrow>
      lookupPath n q \<noteq> None \<and> filter_matches q ?ts \<and> \<not> dollar_hidden q ?ts" for q n
    unfolding in_matchPaths_iff [OF ts(1)] using root_wildcards_iff [OF _ ts(2), of q] by auto
  have "p \<in> set (walkPaths root topic) \<longleftrightarrow>
      (\<exists>g q n. p = ''$share'' # g # q \<and> lookupPath root [''$share'', g] = Some n \<and> lookupPath n q \<noteq> None \<and>
        filter_matches q ?ts \<and> \<not> dollar_hidden q ?ts) \<or>
      lookupPath root p \<noteq> None \<and> filter_matches p ?ts \<and> \<not> dollar_hidden p ?ts"
  proof -
    have "p \<in> set (walkPaths root topic) \<longleftrightarrow>
        (\<exists>g n q. (g, n) \<in> set (shareGroups root) \<and> p = ''$share'' # g # q \<and>
          q \<in> set (matchPaths (allowRootWildcardsForPublish ?ts) n 0 ?ts)) \<or>
        p \<in> set (matchPaths (allowRootWildcardsForPublish ?ts) root 0 ?ts)"
      using topic by (force simp: walkPaths_def Let_def)
    then show ?thesis unfolding m shareGroups_iff [OF wf] by blast
  qed
  also have "\<dots> \<longleftrightarrow> lookupPath root p \<noteq> None \<and> covers_levels p ?ts"
  proof -
    have "(\<exists>n. lookupPath root [''$share'', g] = Some n \<and> lookupPath n q \<noteq> None) \<longleftrightarrow>
        lookupPath root (''$share'' # g # q) \<noteq> None" for g q
      using lookupPath_append [of root "[''$share'', g]" q]
      by (cases "lookupPath root [''$share'', g]") simp_all
    then show ?thesis unfolding covers_levels_def by blast
  qed
  finally show ?thesis .
qed

lemma distinct_walkPaths:
  assumes wf: "tree_wf root" and share: "hd (SplitTopicLevels topic) \<noteq> ''$share''"
  shows "distinct (walkPaths root topic)"
proof (cases "validatePublishTopic topic = Inr ()")
  case True
  let ?ts = "SplitTopicLevels topic"
  have ts: "plain_levels ?ts" "?ts \<noteq> []" using True by (simp_all add: validatePublishTopic_iff)
  let ?f = "\<lambda>gn. map (\<lambda>p. ''$share'' # fst gn # p) (matchPaths (allowRootWildcardsForPublish ?ts) (snd gn) 0 ?ts)"
  have "distinct (concat (map ?f gs))" if "distinct (alist_keys gs)" for gs
    using that
  proof (induction gs)
    case (Cons gn gs)
    have "distinct (?f gn)" using distinct_matchPaths [OF ts(1)] by (auto simp: distinct_map inj_on_def)
    moreover have "set (?f gn) \<inter> set (concat (map ?f gs)) = {}" using Cons.prems by (auto simp: image_iff)
    ultimately show ?case using Cons by simp
  qed simp
  moreover have "\<not> filter_matches (''$share'' # q) ?ts" for q
    using share ts(2) by (auto simp: filter_matches_Cons)
  ultimately show ?thesis
    using True distinct_shareGroups [OF wf] distinct_matchPaths [OF ts(1)] in_matchPaths_iff [OF ts(1)]
    by (auto simp: walkPaths_def Let_def)
qed (simp add: walkPaths_def)

section \<open>Trie and client index in step\<close>

text \<open>The abstract state of a shard: the options stored for a client and a topic filter.\<close>

definition subs :: "SubCore \<Rightarrow> string \<Rightarrow> string \<Rightarrow> SubOption option" where
  "subs t clientID filt = alist_get (topicsOf t clientID) filt"

definition valid_filter :: "string \<Rightarrow> bool" where
  "valid_filter filt \<longleftrightarrow> validateTopicFilter_sub filt = Inr ()"

definition index_wf :: "(string \<times> ClientSubTopic) list \<Rightarrow> bool" where
  "index_wf clients \<longleftrightarrow>
     distinct (alist_keys clients) \<and>
     (\<forall>c ts. alist_get clients c = Some ts \<longrightarrow> ts \<noteq> [] \<and> distinct (alist_keys ts))"

definition topics_wf :: "TreeNode \<Rightarrow> bool" where
  "topics_wf root \<longleftrightarrow>
     (\<forall>p. p \<noteq> [] \<longrightarrow> node_topic root p = [] \<or> node_topic root p = join_on CHR ''/'' p) \<and>
     (\<forall>p. node_clients root p \<noteq> [] \<longrightarrow> p \<noteq> [] \<and> p = SplitTopicLevels (node_topic root p))"

definition sub_inv :: "SubCore \<Rightarrow> bool" where
  "sub_inv t \<longleftrightarrow>
     tree_wf (sc_root t) \<and> index_wf (sc_clients t) \<and> topics_wf (sc_root t) \<and>
     (\<forall>c f. alist_get (node_clients (sc_root t) (SplitTopicLevels f)) c = subs t c f) \<and>
     (\<forall>c f opt. subs t c f = Some opt \<longrightarrow> opt_Topic opt = f \<and> valid_filter f)"

lemma valid_filter_iff: "valid_filter f \<longleftrightarrow> f \<noteq> [] \<and> levels_ok (SplitTopicLevels f)"
proof -
  have "validateTopicFilter_loop ls = Inr () \<longleftrightarrow> levels_ok ls" for ls
    by (induction ls) auto
  then show ?thesis by (simp add: valid_filter_def validateTopicFilter_sub_def)
qed

lemma sub_inv_NewSubCore: "sub_inv NewSubCore"
proof -
  have "node_clients (sc_root NewSubCore) p = []" "p \<noteq> [] \<Longrightarrow> node_topic (sc_root NewSubCore) p = []" for p
    by (cases p; simp add: NewSubCore_def)+
  then show ?thesis
    by (simp add: sub_inv_def index_wf_def topics_wf_def subs_def topicsOf_def) (simp add: NewSubCore_def)
qed

lemma subs_NewSubCore [simp]: "subs NewSubCore c f = None"
  by (simp add: subs_def topicsOf_def NewSubCore_def)

lemma alist_set_neq_Nil [simp]: "alist_set k v m \<noteq> []"
  by (induction k v m rule: alist_set.induct) auto

lemma alist_del_Nil [simp]: "alist_del k [] = []"
  by (simp add: alist_del_def)

lemma topicsOf_set [simp]:
  "topicsOf \<lparr>sc_root = r, sc_clients = alist_set c ts cs\<rparr> c' =
     (if c' = c then ts else topicsOf \<lparr>sc_root = r, sc_clients = cs\<rparr> c')"
  by (simp add: topicsOf_def)

lemma topicsOf_root: "topicsOf \<lparr>sc_root = r, sc_clients = sc_clients t\<rparr> c = topicsOf t c"
  by (simp add: topicsOf_def)

lemma topicsOf_dropIndex:
  "topicsOf \<lparr>sc_root = r, sc_clients = dropIndex c f cs\<rparr> c' =
     (if c' = c then alist_del f (topicsOf \<lparr>sc_root = r', sc_clients = cs\<rparr> c)
      else topicsOf \<lparr>sc_root = r', sc_clients = cs\<rparr> c')"
  by (auto simp: topicsOf_def dropIndex_def Let_def split: option.splits)

lemma index_wf_set:
  "index_wf cs \<Longrightarrow> ts \<noteq> [] \<Longrightarrow> distinct (alist_keys ts) \<Longrightarrow> index_wf (alist_set c ts cs)"
  by (simp add: index_wf_def)

lemma index_wf_dropIndex: "index_wf cs \<Longrightarrow> index_wf (dropIndex c f cs)"
  by (auto simp: index_wf_def dropIndex_def Let_def split: option.splits if_splits)

lemma distinct_topicsOf: "index_wf (sc_clients t) \<Longrightarrow> distinct (alist_keys (topicsOf t c))"
  by (simp add: index_wf_def topicsOf_def split: option.splits)

lemma createSub_Inr:
  assumes "createSub c opt t = Inr t'"
  shows "valid_filter (opt_Topic opt)"
    "t' = \<lparr>sc_root = insertPath (putClient c opt) (sc_root t) (SplitTopicLevels (opt_Topic opt)),
           sc_clients = alist_set c (alist_set (opt_Topic opt) opt (topicsOf t c)) (sc_clients t)\<rparr>"
  using assms by (auto simp: createSub_def Let_def rbind_eq_Inr valid_filter_def)

lemma createSub_valid: "valid_filter (opt_Topic opt) \<Longrightarrow> \<exists>t'. createSub c opt t = Inr t'"
  by (auto simp: createSub_def Let_def valid_filter_def validateTopicFilter_sub_def split: if_splits)

lemma createSub_invalid: "\<not> valid_filter (opt_Topic opt) \<Longrightarrow> \<exists>e. createSub c opt t = Inl e"
  by (cases "validateTopicFilter_sub (opt_Topic opt)") (auto simp: createSub_def valid_filter_def)

lemma createSub_subs:
  assumes "createSub c opt t = Inr t'"
  shows "subs t' c' f = (if c' = c \<and> f = opt_Topic opt then Some opt else subs t c' f)"
  unfolding createSub_Inr(2) [OF assms] by (auto simp: subs_def topicsOf_root)

lemma topics_wf_insert:
  assumes "topics_wf root" "f \<noteq> []" "opt_Topic opt = f"
  shows "topics_wf (insertPath (putClient c opt) root (SplitTopicLevels f))"
  unfolding topics_wf_def
proof (intro conjI allI impI)
  fix p
  let ?r = "insertPath (putClient c opt) root (SplitTopicLevels f)"
  have same: "node_topic ?r p = f" "p \<noteq> []" if "p = SplitTopicLevels f"
    using that assms(2,3) by (simp_all add: trie_simps)
  have other: "node_topic ?r p = node_topic root p" "node_clients ?r p = node_clients root p"
    if "p \<noteq> SplitTopicLevels f"
    using that by (simp_all add: trie_simps)
  show "p \<noteq> [] \<Longrightarrow> node_topic ?r p = [] \<or> node_topic ?r p = join_on CHR ''/'' p"
    using same other assms(1) unfolding topics_wf_def by (cases "p = SplitTopicLevels f") simp_all
  assume "node_clients ?r p \<noteq> []"
  then show "p \<noteq> []" "p = SplitTopicLevels (node_topic ?r p)"
    using same other assms(1) unfolding topics_wf_def by (cases "p = SplitTopicLevels f"; simp)+
qed

lemma createSub_inv:
  assumes inv: "sub_inv t" and ok: "createSub c opt t = Inr t'"
  shows "sub_inv t'"
proof -
  let ?f = "opt_Topic opt"
  note t' = createSub_Inr [OF ok]
  have f: "?f \<noteq> []" using t'(1) by (simp add: valid_filter_iff)
  have "tree_wf (sc_root t')"
    unfolding t'(2) using inv
    by (auto simp: sub_inv_def intro!: tree_wf_insertPath tree_wf_update [of "putClient c opt"])
  moreover have "index_wf (sc_clients t')"
    unfolding t'(2) using inv distinct_topicsOf [of t c] by (auto simp: sub_inv_def intro!: index_wf_set)
  moreover have "topics_wf (sc_root t')"
    unfolding t'(2) using inv f by (auto simp: sub_inv_def intro: topics_wf_insert)
  moreover have "alist_get (node_clients (sc_root t') (SplitTopicLevels f)) c' = subs t' c' f" for c' f
  proof (cases "f = ?f")
    case True
    then have "node_clients (sc_root t') (SplitTopicLevels f) =
        alist_set c opt (node_clients (sc_root t) (SplitTopicLevels f))"
      by (simp add: t'(2) trie_simps)
    then show ?thesis
      using inv True by (simp add: createSub_subs [OF ok] sub_inv_def)
  next
    case False
    then have "node_clients (sc_root t') (SplitTopicLevels f) = node_clients (sc_root t) (SplitTopicLevels f)"
      by (simp add: t'(2) trie_simps SplitTopicLevels_inject)
    then show ?thesis
      using inv False by (simp add: createSub_subs [OF ok] sub_inv_def)
  qed
  moreover have "opt_Topic o' = f \<and> valid_filter f" if "subs t' c' f = Some o'" for c' f o'
    using that inv t'(1) by (auto simp: createSub_subs [OF ok] sub_inv_def split: if_splits)
  ultimately show ?thesis unfolding sub_inv_def by blast
qed

lemma deleteSub_None:
  assumes "sub_inv t" "lookupPath (sc_root t) (SplitTopicLevels f) = None"
  shows "subs t c f = None"
proof -
  have "node_clients (sc_root t) (SplitTopicLevels f) = []" using assms(2) by (simp add: node_clients_def)
  then show ?thesis using assms(1) unfolding sub_inv_def by (metis alist_get_Nil)
qed

lemma deleteSub_subs:
  assumes "sub_inv t"
  shows "subs (deleteSub opt c t) c' f = (if c' = c \<and> f = opt_Topic opt then None else subs t c' f)"
proof (cases "lookupPath (sc_root t) (SplitTopicLevels (opt_Topic opt))")
  case None
  then show ?thesis
    using deleteSub_None [OF assms, of "opt_Topic opt" c] by (simp add: deleteSub_def)
next
  case (Some n)
  then show ?thesis
    by (auto simp: deleteSub_def subs_def topicsOf_dropIndex [where r' = "sc_root t"] topicsOf_root)
qed

text \<open>An update of the clients of one node that only removes some of them keeps the shape of the trie.\<close>

lemma tree_wf_shrink:
  assumes "tree_wf root" "\<And>n. distinct (alist_keys (tn_Client n)) \<Longrightarrow> distinct (alist_keys (g n))"
  shows "tree_wf (modifyPath (\<lambda>n. setClient (g n) n) root p)"
proof (rule tree_wf_modifyPath [OF _ assms(1)])
  show "tree_wf (setClient (g n) n)" if "tree_wf n" for n
    using that by (rule tree_wf_update [where f = "\<lambda>n. setClient (g n) n", rotated 2]) (simp_all add: assms(2))
qed

lemma node_clients_shrink:
  assumes "lookupPath root p = Some n"
  shows "node_clients (modifyPath (\<lambda>n. setClient (g n) n) root p) q = (if q = p then g n else node_clients root q)"
  using node_modifyPath_same [OF assms, of "\<lambda>n. setClient (g n) n"] by (auto simp: trie_simps)

lemma topics_wf_shrink:
  assumes "topics_wf root" "lookupPath root p = Some n" "g n \<noteq> [] \<Longrightarrow> tn_Client n \<noteq> []"
  shows "topics_wf (modifyPath (\<lambda>n. setClient (g n) n) root p)"
proof -
  let ?r = "modifyPath (\<lambda>n. setClient (g n) n) root p"
  have topic: "node_topic ?r q = node_topic root q" for q by (simp add: trie_simps)
  have "node_clients root q \<noteq> []" if "node_clients ?r q \<noteq> []" for q
  proof (cases "q = p")
    case True
    then have "node_clients root q = tn_Client n" using assms(2) by (simp add: node_clients_def)
    with True that assms(3) show ?thesis by (simp add: node_clients_shrink [OF assms(2)])
  qed (use that in \<open>simp add: node_clients_shrink [OF assms(2)]\<close>)
  then show ?thesis using assms(1) unfolding topics_wf_def topic by blast
qed

lemma deleteSub_inv:
  assumes inv: "sub_inv t"
  shows "sub_inv (deleteSub opt c t)"
proof (cases "lookupPath (sc_root t) (SplitTopicLevels (opt_Topic opt))")
  case None
  then show ?thesis using inv by (simp add: deleteSub_def)
next
  case (Some n)
  let ?p = "SplitTopicLevels (opt_Topic opt)" and ?t = "deleteSub opt c t"
  have t': "?t = \<lparr>sc_root = modifyPath (\<lambda>n. setClient (alist_del c (tn_Client n)) n) (sc_root t) ?p,
      sc_clients = dropIndex c (opt_Topic opt) (sc_clients t)\<rparr>"
    using Some by (simp add: deleteSub_def)
  have "tree_wf (sc_root ?t)" "index_wf (sc_clients ?t)" "topics_wf (sc_root ?t)"
    unfolding t' using inv Some
    by (auto simp: sub_inv_def intro!: tree_wf_shrink index_wf_dropIndex topics_wf_shrink)
  moreover have "alist_get (node_clients (sc_root ?t) (SplitTopicLevels f)) c' = subs ?t c' f" for c' f
  proof -
    have "tn_Client n = node_clients (sc_root t) ?p" using Some by (simp add: node_clients_def)
    then show ?thesis
      using inv unfolding deleteSub_subs [OF inv] unfolding t' sub_inv_def
      by (auto simp: node_clients_shrink [OF Some] SplitTopicLevels_inject)
  qed
  moreover have "opt_Topic o' = f \<and> valid_filter f" if "subs ?t c' f = Some o'" for c' f o'
    using that inv by (auto simp: deleteSub_subs [OF inv] sub_inv_def split: if_splits)
  ultimately show ?thesis unfolding sub_inv_def by blast
qed

lemma topicsOf_dropIndex_fold:
  "topicsOf \<lparr>sc_root = r, sc_clients = foldl (\<lambda>cs c. dropIndex c f cs) cs ids\<rparr> c' =
     (if c' \<in> set ids then alist_del f (topicsOf \<lparr>sc_root = r', sc_clients = cs\<rparr> c')
      else topicsOf \<lparr>sc_root = r', sc_clients = cs\<rparr> c')"
proof (induction ids arbitrary: cs)
  case Nil
  show ?case by (simp add: topicsOf_def)
next
  case (Cons c ids)
  have "alist_del f (alist_del f m) = alist_del f m" for m :: ClientSubTopic
    by (simp add: alist_del_def)
  then show ?case
    by (simp add: Cons topicsOf_dropIndex [where r = r' and r' = r'])
qed

lemma index_wf_dropIndex_fold: "index_wf cs \<Longrightarrow> index_wf (foldl (\<lambda>cs c. dropIndex c f cs) cs ids)"
  by (induction ids arbitrary: cs) (auto intro: index_wf_dropIndex)

lemma deleteTopic_removed:
  assumes inv: "sub_inv t"
  shows "set (fst (deleteTopic f t)) = {c. subs t c f \<noteq> None}" "distinct (fst (deleteTopic f t))"
proof -
  have s: "subs t c f = alist_get (node_clients (sc_root t) (SplitTopicLevels f)) c" for c
    using inv by (simp add: sub_inv_def)
  have "fst (deleteTopic f t) = alist_keys (node_clients (sc_root t) (SplitTopicLevels f))"
    by (simp add: deleteTopic_def node_clients_def Let_def split: option.splits)
  then show "set (fst (deleteTopic f t)) = {c. subs t c f \<noteq> None}"
    unfolding s by (auto simp: alist_get_None_iff image_iff)
  show "distinct (fst (deleteTopic f t))"
    using inv by (auto simp: deleteTopic_def Let_def sub_inv_def dest: tree_wf_lookup split: option.splits)
qed

lemma deleteTopic_subs:
  assumes inv: "sub_inv t"
  shows "subs (snd (deleteTopic f t)) c f' = (if f' = f then None else subs t c f')"
proof (cases "lookupPath (sc_root t) (SplitTopicLevels f)")
  case None
  then show ?thesis using deleteSub_None [OF inv, of f c] by (simp add: deleteTopic_def)
next
  case (Some n)
  have "set (fst (deleteTopic f t)) = fst ` set (tn_Client n)"
    using Some by (simp add: deleteTopic_def Let_def)
  then have "c \<in> fst ` set (tn_Client n) \<longleftrightarrow> subs t c f \<noteq> None"
    using deleteTopic_removed(1) [OF inv, of f] by auto
  then show ?thesis
    using Some
    by (auto simp: deleteTopic_def Let_def subs_def topicsOf_dropIndex_fold [where r' = "sc_root t"]
        topicsOf_root)
qed

lemma deleteTopic_inv:
  assumes inv: "sub_inv t"
  shows "sub_inv (snd (deleteTopic f t))"
proof (cases "lookupPath (sc_root t) (SplitTopicLevels f)")
  case None
  then show ?thesis using inv by (simp add: deleteTopic_def)
next
  case (Some n)
  let ?p = "SplitTopicLevels f" and ?t = "snd (deleteTopic f t)"
  have t': "?t = \<lparr>sc_root = modifyPath (\<lambda>n. setClient [] n) (sc_root t) ?p,
      sc_clients = foldl (\<lambda>cs c. dropIndex c f cs) (sc_clients t) (alist_keys (tn_Client n))\<rparr>"
    using Some by (simp add: deleteTopic_def Let_def eta_contract_eq)
  have "tree_wf (sc_root ?t)" "index_wf (sc_clients ?t)" "topics_wf (sc_root ?t)"
    unfolding t' using inv Some
    by (auto simp: sub_inv_def intro!: tree_wf_shrink [where g = "\<lambda>_. []"] index_wf_dropIndex_fold
        topics_wf_shrink [where g = "\<lambda>_. []"])
  moreover have "alist_get (node_clients (sc_root ?t) (SplitTopicLevels f')) c' = subs ?t c' f'" for c' f'
    using inv unfolding deleteTopic_subs [OF inv] unfolding t' sub_inv_def
    by (auto simp: node_clients_shrink [OF Some, of "\<lambda>_. []"] SplitTopicLevels_inject)
  moreover have "opt_Topic o' = f' \<and> valid_filter f'" if "subs ?t c' f' = Some o'" for c' f' o'
    using that inv by (auto simp: deleteTopic_subs [OF inv] sub_inv_def split: if_splits)
  ultimately show ?thesis unfolding sub_inv_def by blast
qed

lemma deleteSub_fold:
  assumes "sub_inv t"
  shows "sub_inv (foldl (\<lambda>t opt. deleteSub opt c t) t opts)"
    and "subs (foldl (\<lambda>t opt. deleteSub opt c t) t opts) c' f =
      (if c' = c \<and> f \<in> opt_Topic ` set opts then None else subs t c' f)"
  using assms
proof (induction opts arbitrary: t)
  case (Cons opt opts)
  {
    case 1
    then show ?case using Cons(1) deleteSub_inv by simp
  next
    case 2
    then show ?case using Cons(2) [OF deleteSub_inv] by (auto simp: deleteSub_subs)
  }
qed auto

lemma deleteClient_inv: "sub_inv t \<Longrightarrow> sub_inv (SubCore_deleteClient c t)"
  by (auto simp: SubCore_deleteClient_def deleteSub_fold split: option.splits)

lemma deleteClient_subs:
  assumes inv: "sub_inv t"
  shows "subs (SubCore_deleteClient c t) c' f = (if c' = c then None else subs t c' f)"
proof (cases "alist_get (sc_clients t) c")
  case None
  then show ?thesis by (simp add: SubCore_deleteClient_def subs_def topicsOf_def)
next
  case (Some ts)
  have "f \<in> opt_Topic ` set (map snd ts)" if "subs t c f = Some opt" for opt
  proof -
    have "(f, opt) \<in> set ts"
      using that Some by (simp add: subs_def topicsOf_def alist_get_Some_in)
    moreover have "opt_Topic opt = f" using that inv unfolding sub_inv_def by blast
    ultimately show ?thesis by force
  qed
  then show ?thesis
    using Some by (cases "subs t c f") (auto simp: SubCore_deleteClient_def deleteSub_fold(2) [OF inv])
qed

section \<open>What a match returns\<close>

text \<open>The client entries of the visited nodes in the order of the visit.\<close>

definition matchedEntries :: "SubCore \<Rightarrow> string \<Rightarrow> (string \<times> SubOption) list" where
  "matchedEntries t topic = concat (map tn_Client (walkMatchingTopicNodes t topic))"

definition hits :: "SubCore \<Rightarrow> string \<Rightarrow> string \<Rightarrow> SubOption set" where
  "hits t topic c = {opt. (c, opt) \<in> set (matchedEntries t topic)}"

lemma foldl_concat_map: "foldl (\<lambda>r n. foldl f r (g n)) r ns = foldl f r (concat (map g ns))"
  by (induction ns arbitrary: r) auto

lemma matchTopicClient_entries: "matchTopicClient t topic = foldl mergeClient [] (matchedEntries t topic)"
  by (simp add: matchTopicClient_def mergeMatchedNodeClients_def [abs_def] matchedEntries_def foldl_concat_map)

lemma matchTopicClientV2_entries: "matchTopicClientV2 t topic = foldl appendMatched [] (matchedEntries t topic)"
  by (simp add: matchTopicClientV2_def appendMatchedNodeClients_def [abs_def] matchedEntries_def foldl_concat_map)

lemma matchedEntries_invalid: "validatePublishTopic topic \<noteq> Inr () \<Longrightarrow> matchedEntries t topic = []"
  by (simp add: matchedEntries_def walkMatchingTopicNodes_def Let_def)

lemma matchedEntries_paths:
  assumes "sub_inv t" "validatePublishTopic topic = Inr ()"
  shows "matchedEntries t topic = concat (map (node_clients (sc_root t)) (walkPaths (sc_root t) topic))"
proof -
  have wf: "tree_wf (sc_root t)" using assms(1) by (simp add: sub_inv_def)
  have "tn_Client (node_at (sc_root t) p) = node_clients (sc_root t) p" if "p \<in> set (walkPaths (sc_root t) topic)" for p
    using that unfolding in_walkPaths_iff [OF wf assms(2)] by (auto simp: node_at_def node_clients_def)
  then show ?thesis
    unfolding matchedEntries_def walkMatchingTopicNodes_paths [OF wf] by (auto intro: arg_cong [of _ _ concat])
qed

lemma in_node_clients_iff:
  assumes "sub_inv t"
  shows "(c, opt) \<in> set (node_clients (sc_root t) p) \<longleftrightarrow> subs t c (opt_Topic opt) = Some opt \<and> p = SplitTopicLevels (opt_Topic opt)"
    (is "?L \<longleftrightarrow> ?R")
proof -
  have d: "distinct (alist_keys (node_clients (sc_root t) p))"
    using assms tree_wf_lookup by (auto simp: sub_inv_def node_clients_def split: option.splits)
  show ?thesis
  proof
    assume L: ?L
    then have p: "p = SplitTopicLevels (node_topic (sc_root t) p)"
      using assms unfolding sub_inv_def topics_wf_def by (metis empty_iff empty_set)
    then have s: "subs t c (node_topic (sc_root t) p) = Some opt"
      using assms L alist_get_eq_Some_iff [OF d] unfolding sub_inv_def by metis
    then have "opt_Topic opt = node_topic (sc_root t) p" using assms unfolding sub_inv_def by blast
    with p s show ?R by simp
  next
    assume R: ?R
    then have "alist_get (node_clients (sc_root t) p) c = Some opt" using assms by (simp add: sub_inv_def)
    then show ?L by (rule alist_get_Some_in)
  qed
qed

lemma subs_topic: "sub_inv t \<Longrightarrow> subs t c f = Some opt \<Longrightarrow> opt_Topic opt = f \<and> f \<noteq> [] \<and> levels_ok (SplitTopicLevels f)"
  unfolding sub_inv_def valid_filter_iff by blast

lemma in_matchedEntries_iff:
  assumes inv: "sub_inv t" and topic: "validatePublishTopic topic = Inr ()"
  shows "(c, opt) \<in> set (matchedEntries t topic) \<longleftrightarrow> (\<exists>f. subs t c f = Some opt \<and> sub_covers f topic)"
proof -
  have wf: "tree_wf (sc_root t)" using inv by (simp add: sub_inv_def)
  have ne: "topic \<noteq> []" using topic by (simp add: validatePublishTopic_iff)
  have look: "lookupPath (sc_root t) (SplitTopicLevels (opt_Topic opt)) \<noteq> None"
    if "subs t c (opt_Topic opt) = Some opt"
    using that deleteSub_None [OF inv] by fastforce
  have "(c, opt) \<in> set (matchedEntries t topic) \<longleftrightarrow>
      subs t c (opt_Topic opt) = Some opt \<and> covers_levels (SplitTopicLevels (opt_Topic opt)) (SplitTopicLevels topic)"
    unfolding matchedEntries_paths [OF assms]
    using look by (auto simp: in_node_clients_iff [OF inv] in_walkPaths_iff [OF wf topic])
  also have "\<dots> \<longleftrightarrow> (\<exists>f. subs t c f = Some opt \<and> sub_covers f topic)"
    using subs_topic [OF inv] sub_covers_iff [OF ne] by metis
  finally show ?thesis .
qed

lemma hits_iff:
  assumes "sub_inv t" "validatePublishTopic topic = Inr ()"
  shows "hits t topic c = {opt. \<exists>f. subs t c f = Some opt \<and> sub_covers f topic}"
  by (simp add: hits_def in_matchedEntries_iff [OF assms])

lemma distinct_concat_paths:
  assumes "distinct ps" "\<And>p. p \<in> set ps \<Longrightarrow> distinct (g p)"
    "\<And>p q x. x \<in> set (g p) \<Longrightarrow> x \<in> set (g q) \<Longrightarrow> p = q"
  shows "distinct (concat (map g ps))"
  using assms(1,2)
proof (induction ps)
  case (Cons p ps)
  have "set (g p) \<inter> set (concat (map g ps)) = {}" using Cons.prems assms(3) by fastforce
  then show ?case using Cons by simp
qed simp

lemma distinct_matchedEntries:
  assumes inv: "sub_inv t" and share: "hd (SplitTopicLevels topic) \<noteq> ''$share''"
  shows "distinct (matchedEntries t topic)"
proof (cases "validatePublishTopic topic = Inr ()")
  case True
  have wf: "tree_wf (sc_root t)" using inv by (simp add: sub_inv_def)
  have "distinct (node_clients (sc_root t) p)" for p
    using tree_wf_lookup [OF wf] by (auto simp: node_clients_def distinct_map split: option.splits)
  moreover have "p = q" if "x \<in> set (node_clients (sc_root t) p)" "x \<in> set (node_clients (sc_root t) q)" for p q x
    using that in_node_clients_iff [OF inv] by (metis prod.collapse)
  ultimately show ?thesis
    unfolding matchedEntries_paths [OF inv True]
    by (intro distinct_concat_paths distinct_walkPaths [OF wf share])
qed (simp add: matchedEntries_invalid)

text \<open>The order in which a client's overlapping subscriptions are preferred.\<close>

definition preferred :: "SubOption \<Rightarrow> SubOption \<Rightarrow> bool" where
  "preferred a b \<longleftrightarrow>
     opt_QoS a > opt_QoS b \<or> opt_QoS a = opt_QoS b \<and> isMoreSpecificFilter (opt_Topic a) (opt_Topic b)"

lemma isMoreSpecificFilter_trans: "isMoreSpecificFilter a b \<Longrightarrow> isMoreSpecificFilter b c \<Longrightarrow> isMoreSpecificFilter a c"
  by (auto simp: isMoreSpecificFilter_def Let_def split: if_splits)

lemma isMoreSpecificFilter_total: "a \<noteq> b \<Longrightarrow> isMoreSpecificFilter a b \<or> isMoreSpecificFilter b a"
  by (auto simp: isMoreSpecificFilter_def Let_def)

lemma isMoreSpecificFilter_irrefl [simp]: "\<not> isMoreSpecificFilter a a"
  by (simp add: isMoreSpecificFilter_def)

lemma preferred_trans: "preferred a b \<Longrightarrow> preferred b c \<Longrightarrow> preferred a c"
  by (auto simp: preferred_def intro: isMoreSpecificFilter_trans)

lemma preferred_irrefl [simp]: "\<not> preferred a a"
  by (simp add: preferred_def)

lemma mergeClient_get:
  "alist_get (mergeClient r (c, opt)) c' =
     (if c' \<noteq> c then alist_get r c'
      else case alist_get r c of None \<Rightarrow> Some opt | Some old \<Rightarrow> Some (if preferred opt old then opt else old))"
  by (auto simp: mergeClient_def preferred_def split: option.splits)

lemma mergeClient_fold:
  "(case alist_get (foldl mergeClient [] es) c of
      None \<Rightarrow> \<forall>opt. (c, opt) \<notin> set es
    | Some best \<Rightarrow> (c, best) \<in> set es \<and> (\<forall>opt. (c, opt) \<in> set es \<longrightarrow> \<not> preferred opt best))"
proof (induction es rule: rev_induct)
  case (snoc e es)
  obtain c' opt where e: "e = (c', opt)" by (cases e)
  show ?case
  proof (cases "c' = c")
    case True
    then show ?thesis
      using snoc preferred_trans
      by (auto simp: e mergeClient_get split: option.splits)
  next
    case False
    then show ?thesis using snoc by (auto simp: e mergeClient_get split: option.splits)
  qed
qed simp

lemma matchTopicClient_iff:
  assumes inv: "sub_inv t"
  shows "alist_get (matchTopicClient t topic) c = Some opt \<longleftrightarrow>
    opt \<in> hits t topic c \<and> (\<forall>opt' \<in> hits t topic c. opt' \<noteq> opt \<longrightarrow> preferred opt opt')"
proof (cases "validatePublishTopic topic = Inr ()")
  case False
  then show ?thesis by (simp add: matchTopicClient_entries matchedEntries_invalid hits_def)
next
  case True
  note m = mergeClient_fold [where es = "matchedEntries t topic" and c = c, folded matchTopicClient_entries]
  have total: "preferred a b \<or> preferred b a" if "a \<in> hits t topic c" "b \<in> hits t topic c" "a \<noteq> b" for a b
  proof -
    have "opt_Topic a \<noteq> opt_Topic b"
      using that subs_topic [OF inv] unfolding hits_iff [OF inv True] by fastforce
    then show ?thesis using isMoreSpecificFilter_total [of "opt_Topic a" "opt_Topic b"] by (auto simp: preferred_def)
  qed
  show ?thesis
  proof (cases "alist_get (matchTopicClient t topic) c")
    case None
    then show ?thesis using m by (simp add: hits_def)
  next
    case (Some best)
    then have best: "best \<in> hits t topic c" "\<And>opt. opt \<in> hits t topic c \<Longrightarrow> \<not> preferred opt best"
      using m by (simp_all add: hits_def)
    show ?thesis
      using Some best total preferred_trans preferred_irrefl by (metis option.inject)
  qed
qed

lemma appendMatched_fold:
  "alist_get (foldl appendMatched r es) c =
     (let new = map (\<lambda>e. matchedSubscriptionFromOption (snd e)) (filter (\<lambda>e. fst e = c) es)
      in if new = [] then alist_get r c
         else Some ((case alist_get r c of None \<Rightarrow> [] | Some l \<Rightarrow> l) @ new))"
  by (induction es arbitrary: r) (auto simp: appendMatched_def Let_def split: option.splits)

lemma distinct_keys_appendMatched_fold:
  "distinct (alist_keys r) \<Longrightarrow> distinct (alist_keys (foldl appendMatched r es))"
  by (induction es arbitrary: r) (simp_all add: appendMatched_def)

lemma distinct_keys_mergeClient_fold:
  "distinct (alist_keys r) \<Longrightarrow> distinct (alist_keys (foldl mergeClient r es))"
  by (induction es arbitrary: r) (auto simp: mergeClient_def Let_def split: option.splits)

lemma matchedSubscriptionFromOption_inject:
  "matchedSubscriptionFromOption a = matchedSubscriptionFromOption b \<longleftrightarrow> a = b"
  by (auto simp: matchedSubscriptionFromOption_def)

lemma matchTopicClientV2_get:
  "alist_get (matchTopicClientV2 t topic) c =
     (let ms = map (\<lambda>e. matchedSubscriptionFromOption (snd e)) (filter (\<lambda>e. fst e = c) (matchedEntries t topic))
      in if ms = [] then None else Some ms)"
  by (simp add: matchTopicClientV2_entries appendMatched_fold)

lemma filter_snd_entries:
  "snd ` {e \<in> set es. fst e = c} = {x. (c, x) \<in> set es}"
  "distinct es \<Longrightarrow> distinct (map snd (filter (\<lambda>e. fst e = c) es))"
  by (auto simp: image_iff distinct_map inj_on_def prod_eq_iff)

lemma matchTopicClientV2_some:
  assumes "alist_get (matchTopicClientV2 t topic) c = Some ms"
  shows "set ms = matchedSubscriptionFromOption ` hits t topic c" "ms \<noteq> []"
  using assms filter_snd_entries(1) [of "matchedEntries t topic" c]
  by (auto simp: matchTopicClientV2_get Let_def hits_def image_image [symmetric] simp del: image_image
      split: if_splits)

lemma matchTopicClientV2_none:
  "alist_get (matchTopicClientV2 t topic) c = None \<longleftrightarrow> hits t topic c = {}"
  by (auto simp: matchTopicClientV2_get Let_def hits_def filter_empty_conv)

lemma matchTopicClientV2_distinct:
  assumes "sub_inv t" "hd (SplitTopicLevels topic) \<noteq> ''$share''"
    "alist_get (matchTopicClientV2 t topic) c = Some ms"
  shows "distinct ms"
proof -
  have "distinct (map matchedSubscriptionFromOption (map snd (filter (\<lambda>e. fst e = c) (matchedEntries t topic))))"
    using filter_snd_entries(2) [OF distinct_matchedEntries [OF assms(1,2)], of c]
    by (subst distinct_map) (auto simp: inj_on_def matchedSubscriptionFromOption_inject)
  then show ?thesis using assms(3) by (auto simp: matchTopicClientV2_get Let_def comp_def split: if_splits)
qed

text \<open>\<open>matchTopic\<close>: the maximal QoS over the clients of a visited node, recorded when above 0.\<close>

definition qos_or_0 :: "(string \<times> int) list \<Rightarrow> string \<Rightarrow> int" where
  "qos_or_0 r f = (case alist_get r f of None \<Rightarrow> 0 | Some q \<Rightarrow> q)"

definition matchTopic_step :: "(string \<times> int) list \<Rightarrow> TreeNode \<Rightarrow> (string \<times> int) list" where
  "matchTopic_step result node =
     (if tn_Topic node = [] then result
      else (let qos = nodeMaxQoS node
            in if qos > qos_or_0 result (tn_Topic node) then alist_set (tn_Topic node) qos result else result))"

lemma matchTopic_fold: "matchTopic t topic = foldl matchTopic_step [] (walkMatchingTopicNodes t topic)"
  unfolding matchTopic_def matchTopic_step_def [abs_def] qos_or_0_def Let_def ..

definition qos_positive :: "(string \<times> int) list \<Rightarrow> bool" where
  "qos_positive r \<longleftrightarrow> (\<forall>f q. alist_get r f = Some q \<longrightarrow> q > 0)"

lemma Max_insert_max: "finite A \<Longrightarrow> Max (insert (max a b) A) = Max (insert a (insert b A))"
  for a b :: int
  by (cases "A = {}") (simp_all add: max.assoc)

lemma qos_or_0_step:
  "f \<noteq> [] \<Longrightarrow> qos_or_0 (matchTopic_step r n) f =
     (if tn_Topic n = f then max (qos_or_0 r f) (nodeMaxQoS n) else qos_or_0 r f)"
  by (simp add: matchTopic_step_def qos_or_0_def Let_def split: option.splits)

lemma qos_or_0_fold:
  "f \<noteq> [] \<Longrightarrow> qos_or_0 (foldl matchTopic_step r ns) f =
     Max (insert (qos_or_0 r f) (nodeMaxQoS ` {n \<in> set ns. tn_Topic n = f}))"
proof (induction ns arbitrary: r)
  case (Cons n ns)
  have "{m \<in> set (n # ns). tn_Topic m = f} =
      (if tn_Topic n = f then insert n {m \<in> set ns. tn_Topic m = f} else {m \<in> set ns. tn_Topic m = f})"
    by auto
  then show ?case
    using Cons.IH [OF Cons.prems] Cons.prems by (simp add: qos_or_0_step Max_insert_max)
qed simp

lemma qos_positive_fold: "qos_positive r \<Longrightarrow> qos_positive (foldl matchTopic_step r ns)"
proof (induction ns arbitrary: r)
  case (Cons n ns)
  have "qos_positive (matchTopic_step r n)"
    using Cons.prems
    by (auto simp: qos_positive_def matchTopic_step_def qos_or_0_def Let_def split: option.splits) fastforce
  then show ?case using Cons.IH by simp
qed simp

lemma qos_positive_get: "qos_positive r \<Longrightarrow> alist_get r f = Some q \<longleftrightarrow> q > 0 \<and> qos_or_0 r f = q"
  by (auto simp: qos_positive_def qos_or_0_def split: option.splits)

lemma nodeMaxQoS_Max: "nodeMaxQoS n = Max (insert 0 (opt_QoS ` snd ` set (tn_Client n)))"
proof -
  have "foldl (\<lambda>m (_, c). if opt_QoS c > m then opt_QoS c else m) a cs =
      Max (insert a (opt_QoS ` snd ` set cs))" for a and cs :: "(string \<times> SubOption) list"
  proof (induction cs arbitrary: a)
    case (Cons c cs)
    have "(case c of (_, o') \<Rightarrow> if opt_QoS o' > a then opt_QoS o' else a) = max a (opt_QoS (snd c))"
      by (cases c) auto
    then show ?case
      using Cons by (simp add: Max_insert_max)
  qed simp
  then show ?thesis by (simp add: nodeMaxQoS_def)
qed

lemma Max_insert_0_pos:
  "finite A \<Longrightarrow> q > (0::int) \<Longrightarrow> Max (insert 0 A) = q \<longleftrightarrow> q \<in> A \<and> (\<forall>x \<in> A. x \<le> q)"
  by (subst Max_eq_iff) auto

lemma Max_insert_0_UN:
  assumes "finite N" "\<And>n. finite (g n)"
  shows "Max (insert 0 ((\<lambda>n. Max (insert 0 (g n))) ` N)) = Max (insert (0::int) (\<Union>n \<in> N. g n))"
proof (rule order.antisym)
  have *: "Max (insert 0 ((\<lambda>n. Max (insert 0 (g n))) ` N)) \<le> z \<longleftrightarrow> Max (insert 0 (\<Union>n \<in> N. g n)) \<le> z" for z
    using assms by auto
  show "Max (insert 0 ((\<lambda>n. Max (insert 0 (g n))) ` N)) \<le> Max (insert 0 (\<Union>n \<in> N. g n))"
    unfolding * ..
  show "Max (insert 0 (\<Union>n \<in> N. g n)) \<le> Max (insert 0 ((\<lambda>n. Max (insert 0 (g n))) ` N))"
    unfolding * [symmetric] ..
qed

lemma visited_with_topic:
  assumes inv: "sub_inv t" and topic: "validatePublishTopic topic = Inr ()"
  shows "(\<exists>n \<in> set (walkMatchingTopicNodes t topic). tn_Topic n = f \<and> (c, opt) \<in> set (tn_Client n)) \<longleftrightarrow>
    subs t c f = Some opt \<and> sub_covers f topic"
proof -
  have wf: "tree_wf (sc_root t)" using inv by (simp add: sub_inv_def)
  have topic_eq: "tn_Topic n = opt_Topic opt"
    if n: "n \<in> set (walkMatchingTopicNodes t topic)" "(c, opt) \<in> set (tn_Client n)" for n
  proof -
    obtain p where p: "lookupPath (sc_root t) p = Some n"
      using n(1) unfolding walkMatchingTopicNodes_paths [OF wf]
      by (auto simp: in_walkPaths_iff [OF wf topic] node_at_def)
    then have c: "(c, opt) \<in> set (node_clients (sc_root t) p)" "node_topic (sc_root t) p = tn_Topic n"
      using n(2) by (simp_all add: node_clients_def node_topic_def)
    then have "p = SplitTopicLevels (opt_Topic opt)" using in_node_clients_iff [OF inv] by simp
    moreover have "p = SplitTopicLevels (tn_Topic n)"
      using inv c unfolding sub_inv_def topics_wf_def by (metis empty_iff empty_set)
    ultimately show ?thesis by (simp add: SplitTopicLevels_inject)
  qed
  have "(\<exists>n \<in> set (walkMatchingTopicNodes t topic). tn_Topic n = f \<and> (c, opt) \<in> set (tn_Client n)) \<longleftrightarrow>
      opt_Topic opt = f \<and> (c, opt) \<in> set (matchedEntries t topic)"
    using topic_eq by (auto simp: matchedEntries_def)
  also have "\<dots> \<longleftrightarrow> subs t c f = Some opt \<and> sub_covers f topic"
    unfolding in_matchedEntries_iff [OF assms] using subs_topic [OF inv] by metis
  finally show ?thesis .
qed

lemma matchTopic_iff:
  assumes inv: "sub_inv t" and topic: "validatePublishTopic topic = Inr ()"
  shows "alist_get (matchTopic t topic) f = Some q \<longleftrightarrow>
    sub_covers f topic \<and> q > 0 \<and> (\<exists>c opt. subs t c f = Some opt \<and> opt_QoS opt = q) \<and>
    (\<forall>c opt. subs t c f = Some opt \<longrightarrow> opt_QoS opt \<le> q)" (is "?L \<longleftrightarrow> ?R")
proof (cases "f = []")
  case True
  have "alist_get (foldl matchTopic_step r ns) [] = alist_get r []" for r ns
    by (induction ns arbitrary: r) (simp_all add: matchTopic_step_def Let_def)
  then have "\<not> ?L" using True by (simp add: matchTopic_fold)
  moreover have "\<not> ?R" using True subs_topic [OF inv] by blast
  ultimately show ?thesis by simp
next
  case f: False
  let ?ns = "walkMatchingTopicNodes t topic"
  define Q where "Q = (\<Union>n \<in> {n \<in> set ?ns. tn_Topic n = f}. opt_QoS ` snd ` set (tn_Client n))"
  have fin: "finite Q" by (simp add: Q_def)
  have "qos_positive []" by (simp add: qos_positive_def)
  then have "?L \<longleftrightarrow> q > 0 \<and> Max (insert 0 (nodeMaxQoS ` {n \<in> set ?ns. tn_Topic n = f})) = q"
    by (simp add: matchTopic_fold qos_positive_get [OF qos_positive_fold] qos_or_0_fold [OF f])
      (simp add: qos_or_0_def)
  also have "\<dots> \<longleftrightarrow> q > 0 \<and> Max (insert 0 Q) = q"
    using Max_insert_0_UN [of "{n \<in> set ?ns. tn_Topic n = f}" "\<lambda>n. opt_QoS ` snd ` set (tn_Client n)"]
    by (simp add: nodeMaxQoS_Max Q_def)
  also have "\<dots> \<longleftrightarrow> q > 0 \<and> q \<in> Q \<and> (\<forall>x \<in> Q. x \<le> q)"
    using Max_insert_0_pos [OF fin] by blast
  also have "\<dots> \<longleftrightarrow> ?R"
  proof -
    have Q_iff: "x \<in> Q \<longleftrightarrow> (\<exists>c opt. subs t c f = Some opt \<and> sub_covers f topic \<and> opt_QoS opt = x)" for x
    proof -
      have "x \<in> Q \<longleftrightarrow> (\<exists>c opt. (\<exists>n \<in> set ?ns. tn_Topic n = f \<and> (c, opt) \<in> set (tn_Client n)) \<and> opt_QoS opt = x)"
        by (force simp: Q_def)
      then show ?thesis unfolding visited_with_topic [OF assms] by blast
    qed
    show ?thesis unfolding Ball_def Q_iff by auto
  qed
  finally show ?thesis .
qed

section \<open>The contract of a subscription store\<close>

text \<open>
  What a store of subscriptions promises, for one shard and for the centre alike: every operation keeps the
  invariant, the stored options change only where the operation says so, and a match finds the options of the
  stored filters that the published topic hits.
\<close>

datatype sub_op =
    SubPut string SubOption
  | SubDel string string
  | SubDropTopic string
  | SubDropClient string

text \<open>The abstract specification: a map from client and filter to options.\<close>

fun spec_step :: "(string \<Rightarrow> string \<Rightarrow> SubOption option) \<Rightarrow> sub_op \<Rightarrow> string \<Rightarrow> string \<Rightarrow> SubOption option" where
  "spec_step m (SubPut c opt) =
     (if valid_filter (opt_Topic opt) then m(c := (m c)(opt_Topic opt := Some opt)) else m)"
| "spec_step m (SubDel c f) = m(c := (m c)(f := None))"
| "spec_step m (SubDropTopic f) = (\<lambda>c. (m c)(f := None))"
| "spec_step m (SubDropClient c) = m(c := (\<lambda>_. None))"

locale subscription_store =
  fixes inv :: "'s \<Rightarrow> bool"
    and stored :: "'s \<Rightarrow> string \<Rightarrow> string \<Rightarrow> SubOption option"
    and step :: "'s \<Rightarrow> sub_op \<Rightarrow> 's"
    and found :: "'s \<Rightarrow> string \<Rightarrow> string \<Rightarrow> SubOption set"
    and named :: "string \<Rightarrow> bool"
  assumes inv_step: "inv s \<Longrightarrow> inv (step s a)"
    and stored_step: "inv s \<Longrightarrow> (\<And>c. a = SubDropClient c \<Longrightarrow> named c) \<Longrightarrow> stored (step s a) = spec_step (stored s) a"
    and stored_filter: "inv s \<Longrightarrow> stored s c f = Some opt \<Longrightarrow> opt_Topic opt = f \<and> valid_filter f"
    and found_stored: "inv s \<Longrightarrow> validatePublishTopic topic = Inr () \<Longrightarrow>
      found s topic c = {opt. \<exists>f. stored s c f = Some opt \<and> sub_covers f topic}"
begin

definition legal :: "sub_op list \<Rightarrow> bool" where
  "legal ops \<longleftrightarrow> (\<forall>c. SubDropClient c \<in> set ops \<longrightarrow> named c)"

lemma run_refines:
  assumes "inv s" "legal ops"
  shows "inv (foldl step s ops) \<and> stored (foldl step s ops) = foldl spec_step (stored s) ops"
  using assms
proof (induction ops arbitrary: s)
  case (Cons a ops)
  have "legal ops" and a: "\<And>c. a = SubDropClient c \<Longrightarrow> named c"
    using Cons.prems by (auto simp: legal_def)
  then show ?case
    using Cons.IH [OF inv_step [OF Cons.prems(1), of a]] stored_step [OF Cons.prems(1) a] by simp
qed simp

lemma found_put:
  assumes "inv s" "validatePublishTopic topic = Inr ()" "valid_filter (opt_Topic opt)"
  shows "found (step s (SubPut c opt)) topic c' =
    (if c' = c then {o' \<in> found s topic c. opt_Topic o' \<noteq> opt_Topic opt} \<union>
        (if sub_covers (opt_Topic opt) topic then {opt} else {})
     else found s topic c')"
  using stored_filter [OF assms(1)]
  unfolding found_stored [OF inv_step [OF assms(1)] assms(2)] found_stored [OF assms(1,2)]
  by (subst stored_step [OF assms(1)]) (use assms(3) in \<open>fastforce split: if_splits\<close>)+

lemma found_del:
  assumes "inv s" "validatePublishTopic topic = Inr ()"
  shows "found (step s (SubDel c f)) topic c' = {o' \<in> found s topic c'. \<not> (c' = c \<and> opt_Topic o' = f)}"
  using stored_filter [OF assms(1)]
  unfolding found_stored [OF inv_step [OF assms(1)] assms(2)] found_stored [OF assms]
  by (subst stored_step [OF assms(1)]) (fastforce split: if_splits)+

lemma found_drop_client:
  assumes "inv s" "validatePublishTopic topic = Inr ()" "named c"
  shows "found (step s (SubDropClient c)) topic c' = (if c' = c then {} else found s topic c')"
  unfolding found_stored [OF inv_step [OF assms(1)] assms(2)] found_stored [OF assms(1,2)]
  by (subst stored_step [OF assms(1)]) (use assms(3) in auto)

lemma found_run:
  assumes "inv s" "legal ops" "validatePublishTopic topic = Inr ()"
  shows "found (foldl step s ops) topic c =
    {opt. \<exists>f. foldl spec_step (stored s) ops c f = Some opt \<and> sub_covers f topic}"
  using found_stored [OF _ assms(3)] run_refines [OF assms(1,2)] by simp

end

text \<open>The operations of one shard as steps of such a store.\<close>

fun SubCore_step :: "SubCore \<Rightarrow> sub_op \<Rightarrow> SubCore" where
  "SubCore_step t (SubPut c opt) = (case createSub c opt t of Inl e \<Rightarrow> t | Inr t' \<Rightarrow> t')"
| "SubCore_step t (SubDel c f) =
     deleteSub \<lparr>opt_QoS = 0, opt_RetainAsPublished = False, opt_Topic = f, opt_NoLocal = False,
       opt_RetainHandling = 0, opt_SubscriptionIdentifier = 0\<rparr> c t"
| "SubCore_step t (SubDropTopic f) = snd (deleteTopic f t)"
| "SubCore_step t (SubDropClient c) = SubCore_deleteClient c t"

lemma SubCore_step_refines: "sub_inv t \<Longrightarrow> subs (SubCore_step t a) = spec_step (subs t) a"
proof (intro ext, cases a)
  fix c' f
  case (SubPut c opt)
  then show "subs (SubCore_step t a) c' f = spec_step (subs t) a c' f"
    using createSub_valid [of opt c t] createSub_invalid [of opt c t] createSub_subs [of c opt t _ c' f]
    by (cases "createSub c opt t") auto
qed (auto simp: deleteSub_subs deleteTopic_subs deleteClient_subs)

interpretation core_store: subscription_store sub_inv subs SubCore_step hits "\<lambda>_. True"
proof unfold_locales
  fix t a
  assume "sub_inv t"
  then show "sub_inv (SubCore_step t a)"
    by (cases a) (auto simp: deleteSub_inv deleteTopic_inv deleteClient_inv dest: createSub_inv split: sum.splits)
next
  fix t and a :: sub_op
  assume "sub_inv t"
  then show "subs (SubCore_step t a) = spec_step (subs t) a" by (rule SubCore_step_refines)
next
  fix t c f opt
  assume "sub_inv t" "subs t c f = Some opt"
  then show "opt_Topic opt = f \<and> valid_filter f" unfolding sub_inv_def by blast
next
  fix t topic c
  assume "sub_inv t" "validatePublishTopic topic = Inr ()"
  then show "hits t topic c = {opt. \<exists>f. subs t c f = Some opt \<and> sub_covers f topic}" by (rule hits_iff)
qed

section \<open>Properties of the trie\<close>

text \<open>The states a shard can be in: any sequence of operations from the empty trie.\<close>

definition shard_after :: "sub_op list \<Rightarrow> SubCore" where
  "shard_after ops = foldl SubCore_step NewSubCore ops"

definition spec_after :: "sub_op list \<Rightarrow> string \<Rightarrow> string \<Rightarrow> SubOption option" where
  "spec_after ops = foldl spec_step (\<lambda>_ _. None) ops"

lemma core_legal [simp]: "core_store.legal ops"
  by (simp add: core_store.legal_def)

lemma sub_inv_after: "sub_inv (shard_after ops)"
  using core_store.run_refines [OF sub_inv_NewSubCore core_legal] by (simp add: shard_after_def)

lemma subs_after: "subs (shard_after ops) = spec_after ops"
proof -
  have "subs NewSubCore = (\<lambda>_ _. None)" by (intro ext) simp
  then show ?thesis
    using core_store.run_refines [OF sub_inv_NewSubCore core_legal, of ops]
    by (simp add: shard_after_def spec_after_def)
qed

lemma hits_after:
  "validatePublishTopic topic = Inr () \<Longrightarrow>
     hits (shard_after ops) topic c = {opt. \<exists>f. spec_after ops c f = Some opt \<and> sub_covers f topic}"
  by (simp add: hits_iff [OF sub_inv_after] subs_after)

text \<open>C6: the two views a shard keeps stay in step under every sequence of operations: the subscriptions listed
  for a client, and the entries of that client at the trie node of each filter, are the abstract map from client
  and filter to options; rejected filters change nothing.\<close>

theorem shard_refines_map:
  "alist_get (getClientSubscriptions (shard_after ops) c) f = spec_after ops c f \<and>
   alist_get (node_clients (sc_root (shard_after ops)) (SplitTopicLevels f)) c = spec_after ops c f"
  using sub_inv_after [of ops] subs_after [of ops]
  by (simp add: sub_inv_def getClientSubscriptions_def subs_def fun_eq_iff)

text \<open>C7: matching by walking the trie agrees with the reference matcher: a client is in the result exactly when
  one of its stored filters matches the published topic (for a shared filter the part after the group), its list
  holds exactly the matching subscriptions, and none twice unless the topic itself starts with \<open>$share\<close>.\<close>

theorem trie_match_reference:
  assumes "validatePublishTopic topic = Inr ()"
  shows "case alist_get (matchTopicClientV2 (shard_after ops) topic) c of
      None \<Rightarrow> \<forall>f. spec_after ops c f = None \<or> \<not> sub_covers f topic
    | Some ms \<Rightarrow> ms \<noteq> [] \<and>
        set ms = matchedSubscriptionFromOption ` {opt. \<exists>f. spec_after ops c f = Some opt \<and> sub_covers f topic} \<and>
        (hd (SplitTopicLevels topic) \<noteq> ''$share'' \<longrightarrow> distinct ms)"
proof (cases "alist_get (matchTopicClientV2 (shard_after ops) topic) c")
  case None
  then have "hits (shard_after ops) topic c = {}" by (simp only: matchTopicClientV2_none)
  then show ?thesis
    using None by (auto simp: hits_after [OF assms])
next
  case (Some ms)
  then show ?thesis
    using matchTopicClientV2_some [OF Some] matchTopicClientV2_distinct [OF sub_inv_after _ Some]
    by (simp add: hits_after [OF assms])
qed

text \<open>C8: the folded match keeps one subscription per client, the one preferred over every other match of that
  client (higher QoS, then fewer wildcards, more levels, alphabetical order), whatever order the nodes and maps
  are visited in.\<close>

theorem folded_match_is_best:
  assumes "validatePublishTopic topic = Inr ()"
  shows "alist_get (matchTopicClient (shard_after ops) topic) c = Some opt \<longleftrightarrow>
    (\<exists>f. spec_after ops c f = Some opt \<and> sub_covers f topic) \<and>
    (\<forall>f opt'. spec_after ops c f = Some opt' \<longrightarrow> sub_covers f topic \<longrightarrow> opt' \<noteq> opt \<longrightarrow>
      opt_QoS opt' < opt_QoS opt \<or>
      opt_QoS opt = opt_QoS opt' \<and> isMoreSpecificFilter (opt_Topic opt) (opt_Topic opt'))"
  unfolding matchTopicClient_iff [OF sub_inv_after] hits_after [OF assms]
  unfolding preferred_def by blast

text \<open>C9: \<open>matchTopic\<close> reports a matching filter with the maximal QoS of its subscribers only if that is above 0;
  a filter all of whose subscribers have QoS 0 is never reported.\<close>

theorem match_topic_skips_qos0:
  assumes "validatePublishTopic topic = Inr ()"
  shows "alist_get (matchTopic (shard_after ops) topic) f = Some q \<longleftrightarrow>
    sub_covers f topic \<and> q > 0 \<and> (\<exists>c opt. spec_after ops c f = Some opt \<and> opt_QoS opt = q) \<and>
    (\<forall>c opt. spec_after ops c f = Some opt \<longrightarrow> opt_QoS opt \<le> q)"
  using matchTopic_iff [OF sub_inv_after assms] by (simp add: subs_after)

text \<open>Concrete subscriptions on which the theorems are applied.\<close>

abbreviation mk_opt :: "string \<Rightarrow> int \<Rightarrow> SubOption" where
  "mk_opt f q \<equiv> \<lparr>opt_QoS = q, opt_RetainAsPublished = False, opt_Topic = f, opt_NoLocal = False,
     opt_RetainHandling = 0, opt_SubscriptionIdentifier = 0\<rparr>"

definition wit_ops :: "sub_op list" where
  "wit_ops = [SubPut ''c'' (mk_opt ''a/+'' 1), SubPut ''c'' (mk_opt ''a/b'' 1), SubPut ''c'' (mk_opt ''x#'' 1),
     SubPut ''d'' (mk_opt ''$share/g/a/#'' 0), SubPut ''e'' (mk_opt ''a/b'' 2), SubDel ''e'' ''a/b'']"

lemmas eval_simps = valid_filter_iff SplitTopicLevels_def sub_covers_def MatchTopicFilter_def has_prefix_def
  validatePublishTopic_def isMoreSpecificFilter_def isWildcardLevel_def

lemma spec_wit_ops:
  "spec_after wit_ops c f =
     (if c = ''c'' \<and> f = ''a/+'' then Some (mk_opt ''a/+'' 1)
      else if c = ''c'' \<and> f = ''a/b'' then Some (mk_opt ''a/b'' 1)
      else if c = ''d'' \<and> f = ''$share/g/a/#'' then Some (mk_opt ''$share/g/a/#'' 0) else None)"
  by (simp add: spec_after_def wit_ops_def eval_simps)

lemma wit_covers:
  "validatePublishTopic ''a/b'' = Inr ()" "hd (SplitTopicLevels ''a/b'') = ''a''" "sub_covers ''a/+'' ''a/b''"
  "sub_covers ''a/b'' ''a/b''" "sub_covers ''$share/g/a/#'' ''a/b''" "isMoreSpecificFilter ''a/b'' ''a/+''"
  by (simp_all add: eval_simps)

lemma spec_wit_d:
  "spec_after wit_ops ''d'' f = Some opt \<longleftrightarrow> f = ''$share/g/a/#'' \<and> opt = mk_opt ''$share/g/a/#'' 0"
  by (simp add: spec_wit_ops eq_commute [of opt])

lemma spec_wit_c:
  "spec_after wit_ops ''c'' f = Some opt \<longleftrightarrow>
     f = ''a/+'' \<and> opt = mk_opt ''a/+'' 1 \<or> f = ''a/b'' \<and> opt = mk_opt ''a/b'' 1"
  by (simp add: spec_wit_ops eq_commute [of opt])

theorem trie_match_reference_witness:
  "\<exists>ms. alist_get (matchTopicClientV2 (shard_after wit_ops) ''a/b'') ''d'' = Some ms \<and> distinct ms \<and>
     set ms = {matchedSubscriptionFromOption (mk_opt ''$share/g/a/#'' 0)}"
proof -
  note t = trie_match_reference [OF wit_covers(1), of wit_ops "''d''", unfolded spec_wit_d]
  have s: "{opt. \<exists>f. (f = ''$share/g/a/#'' \<and> opt = mk_opt ''$share/g/a/#'' 0) \<and> sub_covers f ''a/b''} =
      {mk_opt ''$share/g/a/#'' 0}"
    using wit_covers(5) by blast
  show ?thesis
  proof (cases "alist_get (matchTopicClientV2 (shard_after wit_ops) ''a/b'') ''d''")
    case None
    then have "spec_after wit_ops ''d'' ''$share/g/a/#'' = None \<or> \<not> sub_covers ''$share/g/a/#'' ''a/b''"
      using t by simp
    then show ?thesis using wit_covers(5) by (simp add: spec_wit_ops)
  next
    case (Some ms)
    then show ?thesis using t unfolding s by (simp add: wit_covers(2))
  qed
qed

theorem folded_match_is_best_witness:
  "alist_get (matchTopicClient (shard_after wit_ops) ''a/b'') ''c'' = Some (mk_opt ''a/b'' 1)"
  unfolding folded_match_is_best [OF wit_covers(1)] spec_wit_c using wit_covers(3,4,6) by auto

theorem match_topic_skips_qos0_witness:
  "alist_get (matchTopic (shard_after wit_ops) ''a/b'') ''$share/g/a/#'' \<noteq> Some 0 \<and>
   alist_get (matchTopic (shard_after wit_ops) ''a/b'') ''$share/g/a/#'' \<noteq> Some 1"
proof -
  have "spec_after wit_ops c ''$share/g/a/#'' = Some opt \<Longrightarrow> opt_QoS opt = 0" for c opt
    by (auto simp: spec_wit_ops split: if_splits)
  then show ?thesis unfolding match_topic_skips_qos0 [OF wit_covers(1)] by fastforce
qed

end
