(* ===== verification/Sub_Center.thy ===== *)
theory Sub_Center
  imports Prelude Topic_Filter Sub_Trie "HOL-Library.Product_Lexorder"
begin

text \<open>
  The in-memory subscription centre (\<open>internal/broker/subcenter/memory\<close>): shards of the trie keyed by the first
  non-empty topic level, the index from clients to shards, the owner tokens that fence writes, the read
  operations that match across shards, the subtree view, the share-group members and the snapshot. The locks
  protect single operations and are left out; a map that is ranged over is an association list. A nil entry of a
  request is an option with an empty topic, which is what its getters return.

  Lemmas: the centre implements the same contract as one shard, the index counts the topics of every client
  in every shard, a match looks into every shard that can hold a matching filter, and a write with another
  owner's token changes nothing.
\<close>

section \<open>State\<close>

type_synonym clientShardIndex = "(string \<times> (string \<times> int) list) list"

record MemorySubCenter =
  msc_shards :: "(string \<times> SubCore) list"
  msc_index :: clientShardIndex
  msc_clientOwnerTokens :: "(string \<times> string) list"

definition NewMemorySubCenter :: MemorySubCenter where
  "NewMemorySubCenter = \<lparr>msc_shards = [], msc_index = [], msc_clientOwnerTokens = []\<rparr>"

definition newClientShardIndex :: clientShardIndex where
  "newClientShardIndex = []"

definition shardCounts :: "clientShardIndex \<Rightarrow> string \<Rightarrow> (string \<times> int) list" where
  "shardCounts i clientID = (case alist_get i clientID of None \<Rightarrow> [] | Some m \<Rightarrow> m)"

definition shardCount :: "clientShardIndex \<Rightarrow> string \<Rightarrow> string \<Rightarrow> int" where
  "shardCount i clientID shardKey = (case alist_get (shardCounts i clientID) shardKey of None \<Rightarrow> 0 | Some n \<Rightarrow> n)"

definition index_inc :: "string \<Rightarrow> string \<Rightarrow> clientShardIndex \<Rightarrow> clientShardIndex" where
  "index_inc clientID shardKey i =
     (if clientID = [] \<or> shardKey = [] then i
      else alist_set clientID
             (alist_set shardKey (shardCount i clientID shardKey + 1) (shardCounts i clientID)) i)"

definition index_dec :: "string \<Rightarrow> string \<Rightarrow> clientShardIndex \<Rightarrow> clientShardIndex" where
  "index_dec clientID shardKey i =
     (if clientID = [] \<or> shardKey = [] then i
      else
        (case alist_get i clientID of
           None \<Rightarrow> i
         | Some shards \<Rightarrow>
             (case alist_get shards shardKey of
                None \<Rightarrow> i
              | Some v \<Rightarrow>
                  (let v = v - 1;
                       shards = (if v \<le> 0 then alist_del shardKey shards else alist_set shardKey v shards)
                   in if length shards = 0 then alist_del clientID i else alist_set clientID shards i))))"

definition shardsForClient :: "clientShardIndex \<Rightarrow> string \<Rightarrow> string list" where
  "shardsForClient i clientID =
     (if clientID = [] then []
      else (case alist_get i clientID of None \<Rightarrow> [] | Some shards \<Rightarrow> alist_keys shards))"

definition index_deleteClient :: "string \<Rightarrow> clientShardIndex \<Rightarrow> clientShardIndex" where
  "index_deleteClient clientID i = (if clientID = [] then i else alist_del clientID i)"

section \<open>Shards\<close>

definition getShard :: "MemorySubCenter \<Rightarrow> string \<Rightarrow> SubCore option" where
  "getShard t key = alist_get (msc_shards t) key"

definition putShard :: "string \<Rightarrow> SubCore \<Rightarrow> MemorySubCenter \<Rightarrow> MemorySubCenter" where
  "putShard key sub t = t\<lparr>msc_shards := alist_set key sub (msc_shards t)\<rparr>"

text \<open>The second check under the write lock sees what the first one saw: the operations run one at a time.\<close>

definition getOrCreateShard :: "string \<Rightarrow> MemorySubCenter \<Rightarrow> SubCore \<times> MemorySubCenter" where
  "getOrCreateShard key t =
     (let key = (if key = [] then ''_default'' else key)
      in case getShard t key of
           Some shard \<Rightarrow> (shard, t)
         | None \<Rightarrow> (NewSubCore, putShard key NewSubCore t))"

fun shardKeyFromTopic_loop :: "string list \<Rightarrow> string" where
  "shardKeyFromTopic_loop [] = ''_default''"
| "shardKeyFromTopic_loop (lv # levels) = (if lv = [] then shardKeyFromTopic_loop levels else lv)"

definition shardKeyFromTopic :: "string \<Rightarrow> string" where
  "shardKeyFromTopic topic =
     (let levels = SplitTopicLevels topic
      in if length levels = 0 then ''_default'' else shardKeyFromTopic_loop levels)"

definition shardKeysForMatch :: "string \<Rightarrow> string list" where
  "shardKeysForMatch publishTopic =
     (let key = shardKeyFromTopic publishTopic
      in if key = ''+'' \<or> key = ''#'' then [key]
         else if key = ''$share'' then [''$share'', ''+'', ''#'']
         else [key, ''+'', ''#'', ''$share''])"

text \<open>\<open>newIdx.m[clientID][shardKey] += cnt\<close> for every client of every shard with a topic.\<close>

definition index_add :: "string \<Rightarrow> clientShardIndex \<Rightarrow> string \<times> ClientSubTopic \<Rightarrow> clientShardIndex" where
  "index_add shardKey i ct =
     (let cnt = int (length (snd ct))
      in if cnt \<le> 0 then i
         else alist_set (fst ct)
                (alist_set shardKey (shardCount i (fst ct) shardKey + cnt) (shardCounts i (fst ct))) i)"

definition rebuildClientIndexFromShards :: "MemorySubCenter \<Rightarrow> MemorySubCenter" where
  "rebuildClientIndexFromShards t =
     t\<lparr>msc_index :=
         foldl (\<lambda>i (shardKey, shard). foldl (index_add shardKey) i (sc_clients shard))
           newClientShardIndex (msc_shards t)\<rparr>"

section \<open>Owner tokens\<close>

definition getOwnerToken :: "MemorySubCenter \<Rightarrow> string \<Rightarrow> string" where
  "getOwnerToken t clientID =
     (if clientID = [] then []
      else (case alist_get (msc_clientOwnerTokens t) clientID of None \<Rightarrow> [] | Some token \<Rightarrow> token))"

definition setOwnerToken :: "string \<Rightarrow> string \<Rightarrow> MemorySubCenter \<Rightarrow> MemorySubCenter" where
  "setOwnerToken clientID token t =
     (if clientID = [] then t
      else if token = []
      then t\<lparr>msc_clientOwnerTokens := alist_del clientID (msc_clientOwnerTokens t)\<rparr>
      else t\<lparr>msc_clientOwnerTokens := alist_set clientID token (msc_clientOwnerTokens t)\<rparr>)"

definition copyOwnerTokens :: "MemorySubCenter \<Rightarrow> (string \<times> string) list" where
  "copyOwnerTokens t = foldl (\<lambda>out (k, v). alist_set k v out) [] (msc_clientOwnerTokens t)"

section \<open>Write operations\<close>

record SubRequest =
  sreq_Topics :: "SubOption list"
  sreq_ClientID :: string
  sreq_OwnerToken :: string

record SubResponse =
  sres_Topics :: "(string \<times> int) list"
  sres_Success :: bool

record UnSubRequest =
  ureq_Topics :: "string list"
  ureq_ClientID :: string
  ureq_OwnerToken :: string

record DeleteClientRequest =
  dreq_ClientID :: string
  dreq_OwnerToken :: string

definition hasTopic :: "SubCore \<Rightarrow> string \<Rightarrow> string \<Rightarrow> bool" where
  "hasTopic sub clientID topic =
     (case alist_get (sc_clients sub) clientID of
        None \<Rightarrow> False
      | Some subTopics \<Rightarrow> alist_get subTopics topic \<noteq> None)"

text \<open>One iteration of the loop of \<open>CreateSub\<close>: the new state and the error of \<open>createSub\<close>, if any.\<close>

definition CreateSub_one :: "string \<Rightarrow> SubOption \<Rightarrow> MemorySubCenter \<Rightarrow> MemorySubCenter \<times> subError option" where
  "CreateSub_one clientID subOption t =
     (let topic = opt_Topic subOption;
          shardKey = shardKeyFromTopic topic;
          (shard, t) = getOrCreateShard shardKey t;
          already = hasTopic shard clientID topic
      in case createSub clientID subOption shard of
           Inl err \<Rightarrow> (t, Some err)
         | Inr shard \<Rightarrow>
             (let t = putShard shardKey shard t
              in (if \<not> already then t\<lparr>msc_index := index_inc clientID shardKey (msc_index t)\<rparr> else t, None)))"

fun CreateSub_loop ::
  "string \<Rightarrow> SubOption list \<Rightarrow> MemorySubCenter \<Rightarrow> (string \<times> int) list \<Rightarrow> subError list \<Rightarrow>
   MemorySubCenter \<times> (string \<times> int) list \<times> subError list" where
  "CreateSub_loop clientID [] t topics errs = (t, topics, errs)"
| "CreateSub_loop clientID (subOption # opts) t topics errs =
     (case CreateSub_one clientID subOption t of
        (t, Some err) \<Rightarrow>
          CreateSub_loop clientID opts t (alist_set (opt_Topic subOption) (-1) topics) (errs @ [err])
      | (t, None) \<Rightarrow>
          CreateSub_loop clientID opts t (alist_set (opt_Topic subOption) (opt_QoS subOption) topics) errs)"

text \<open>The joined error is the list of the errors; it is nil when the list is empty.\<close>

definition CreateSub :: "SubRequest \<Rightarrow> MemorySubCenter \<Rightarrow> (SubResponse \<times> subError list) \<times> MemorySubCenter" where
  "CreateSub req t =
     (let stored = getOwnerToken t (sreq_ClientID req);
          token = sreq_OwnerToken req
      in if token \<noteq> [] \<and> stored \<noteq> [] \<and> stored \<noteq> token
         then ((\<lparr>sres_Topics =
                   foldl (\<lambda>r subOption.
                     if opt_Topic subOption = [] then r else alist_set (opt_Topic subOption) (-1) r)
                     [] (sreq_Topics req),
                 sres_Success = False\<rparr>, []), t)
         else
           (let t = (if token \<noteq> [] \<and> stored = [] then setOwnerToken (sreq_ClientID req) token t else t);
                (t, topics, errs) = CreateSub_loop (sreq_ClientID req) (sreq_Topics req) t [] []
            in ((\<lparr>sres_Topics = topics, sres_Success = False\<rparr>, errs), t)))"

definition mkTopicOption :: "string \<Rightarrow> SubOption" where
  "mkTopicOption topic = \<lparr>opt_QoS = 0, opt_RetainAsPublished = False, opt_Topic = topic, opt_NoLocal = False,
     opt_RetainHandling = 0, opt_SubscriptionIdentifier = 0\<rparr>"

definition DeleteSub_one :: "string \<Rightarrow> string \<Rightarrow> MemorySubCenter \<Rightarrow> MemorySubCenter \<times> int" where
  "DeleteSub_one clientID topic t =
     (let shardKey = shardKeyFromTopic topic
      in case getShard t shardKey of
           None \<Rightarrow> (t, 0x11)
         | Some shard \<Rightarrow>
             (let existed = hasTopic shard clientID topic;
                  t = putShard shardKey (deleteSub (mkTopicOption topic) clientID shard) t
              in if existed
                 then (t\<lparr>msc_index := index_dec clientID shardKey (msc_index t)\<rparr>, 0)
                 else (t, 0x11)))"

fun DeleteSub_loop :: "string \<Rightarrow> string list \<Rightarrow> MemorySubCenter \<Rightarrow> int list \<Rightarrow> MemorySubCenter \<times> int list" where
  "DeleteSub_loop clientID [] t res = (t, res)"
| "DeleteSub_loop clientID (topic # topics) t res =
     (case DeleteSub_one clientID topic t of
        (t, code) \<Rightarrow> DeleteSub_loop clientID topics t (res @ [code]))"

definition DeleteSub :: "UnSubRequest \<Rightarrow> MemorySubCenter \<Rightarrow> int list \<times> MemorySubCenter" where
  "DeleteSub req t =
     (if ureq_OwnerToken req \<noteq> [] \<and> getOwnerToken t (ureq_ClientID req) \<noteq> ureq_OwnerToken req
      then (map (\<lambda>_. -1) (ureq_Topics req), t)
      else (case DeleteSub_loop (ureq_ClientID req) (ureq_Topics req) t [] of (t, res) \<Rightarrow> (res, t)))"

text \<open>The response is always a success.\<close>

definition DeleteTopic :: "string \<Rightarrow> MemorySubCenter \<Rightarrow> bool \<times> MemorySubCenter" where
  "DeleteTopic topic t =
     (let shardKey = shardKeyFromTopic topic
      in case getShard t shardKey of
           None \<Rightarrow> (True, t)
         | Some shard \<Rightarrow>
             (let (removedClientIDs, shard) = deleteTopic topic shard;
                  t = putShard shardKey shard t
              in (True, t\<lparr>msc_index := foldl (\<lambda>i c. index_dec c shardKey i) (msc_index t) removedClientIDs\<rparr>)))"

definition DeleteClient :: "DeleteClientRequest \<Rightarrow> MemorySubCenter \<Rightarrow> bool \<times> MemorySubCenter" where
  "DeleteClient req t =
     (if dreq_OwnerToken req \<noteq> [] \<and> getOwnerToken t (dreq_ClientID req) \<noteq> dreq_OwnerToken req
      then (False, t)
      else
        (let shardKeys = shardsForClient (msc_index t) (dreq_ClientID req)
         in if length shardKeys = 0 then (True, t)
            else
              (let t = foldl (\<lambda>t shardKey.
                         case getShard t shardKey of
                           None \<Rightarrow> t
                         | Some shard \<Rightarrow> putShard shardKey (SubCore_deleteClient (dreq_ClientID req) shard) t)
                         t shardKeys
               in (True, t\<lparr>msc_index := index_deleteClient (dreq_ClientID req) (msc_index t)\<rparr>))))"

definition SetClientOwnerToken :: "string \<Rightarrow> string \<Rightarrow> MemorySubCenter \<Rightarrow> bool \<times> MemorySubCenter" where
  "SetClientOwnerToken clientID token t =
     (if clientID = [] then (False, t) else (True, setOwnerToken clientID token t))"

section \<open>Read operations\<close>

text \<open>The shards a publish looks into, in order, absent ones skipped.\<close>

definition matchShards :: "MemorySubCenter \<Rightarrow> string \<Rightarrow> SubCore list" where
  "matchShards t topic = List.map_filter (getShard t) (shardKeysForMatch topic)"

definition GetAllMatchTopics :: "MemorySubCenter \<Rightarrow> string \<Rightarrow> (string \<times> int) list" where
  "GetAllMatchTopics t topic =
     foldl (\<lambda>r shard.
       foldl (\<lambda>r (subTopic, maxQoS).
         (case alist_get r subTopic of
            None \<Rightarrow> alist_set subTopic maxQoS r
          | Some old \<Rightarrow> if maxQoS > old then alist_set subTopic maxQoS r else r))
         r (matchTopic shard topic))
       [] (matchShards t topic)"

definition keepHigherQoS ::
  "(string \<times> SubOption) list \<Rightarrow> string \<times> SubOption \<Rightarrow> (string \<times> SubOption) list" where
  "keepHigherQoS r co =
     (case alist_get r (fst co) of
        None \<Rightarrow> alist_set (fst co) (snd co) r
      | Some old \<Rightarrow> if opt_QoS (snd co) > opt_QoS old then alist_set (fst co) (snd co) r else r)"

definition GetAllMatchClient :: "MemorySubCenter \<Rightarrow> string \<Rightarrow> (string \<times> SubOption) list" where
  "GetAllMatchClient t topic =
     foldl (\<lambda>r shard. foldl keepHigherQoS r (matchTopicClient shard topic)) [] (matchShards t topic)"

record ClientMatch =
  cm_ClientID :: string
  cm_MaxQoS :: int
  cm_Matched :: "MatchedSubscription list"

type_synonym agg = "int \<times> MatchedSubscription list"

definition aggAppend :: "agg \<Rightarrow> MatchedSubscription \<Rightarrow> agg" where
  "aggAppend a ms = (if ms_QoS ms > fst a then ms_QoS ms else fst a, snd a @ [ms])"

definition aggClient :: "(string \<times> agg) list \<Rightarrow> string \<times> MatchedSubscription list \<Rightarrow> (string \<times> agg) list" where
  "aggClient aggMap cs =
     (if length (snd cs) = 0 then aggMap
      else
        (let a = (case alist_get aggMap (fst cs) of None \<Rightarrow> (0, []) | Some a \<Rightarrow> a)
         in alist_set (fst cs) (foldl aggAppend a (snd cs)) aggMap))"

definition GetAllMatchClientV2 :: "MemorySubCenter \<Rightarrow> string \<Rightarrow> ClientMatch list" where
  "GetAllMatchClientV2 t topic =
     (let aggMap = foldl (\<lambda>m shard. foldl aggClient m (matchTopicClientV2 shard topic)) [] (matchShards t topic)
      in map (\<lambda>(clientID, a). \<lparr>cm_ClientID = clientID, cm_MaxQoS = fst a, cm_Matched = snd a\<rparr>) aggMap)"

definition GetAllMatchTopicsForWildTopic :: "MemorySubCenter \<Rightarrow> string \<Rightarrow> string list" where
  "GetAllMatchTopicsForWildTopic t topic =
     concat (map (\<lambda>(k, shard). matchTopicForWildcard shard topic) (msc_shards t))"

definition GetClientSubscriptions :: "MemorySubCenter \<Rightarrow> string \<Rightarrow> (string \<times> SubOption) list" where
  "GetClientSubscriptions t clientID =
     (if clientID = [] then []
      else
        foldl (\<lambda>r (k, shard). foldl (\<lambda>r (topic, subOption). alist_set topic subOption r) r (topicsOf shard clientID))
          [] (msc_shards t))"

section \<open>Every shard that can match is looked into\<close>

lemma shardKeyFromTopic_eq: "shardKeyFromTopic f = shardKeyFromTopic_loop (SplitTopicLevels f)"
  by (simp add: shardKeyFromTopic_def SplitTopicLevels_def)

lemma shardKeyFromTopic_nonempty [simp]: "shardKeyFromTopic f \<noteq> []"
proof -
  have "shardKeyFromTopic_loop ls \<noteq> []" for ls by (induction ls) auto
  then show ?thesis by (simp add: shardKeyFromTopic_eq)
qed

lemma filter_matches_shard:
  "filter_matches fs ts \<Longrightarrow> shardKeyFromTopic_loop fs \<in> {shardKeyFromTopic_loop ts, ''+'', ''#''}"
  by (induction rule: filter_matches.induct) auto

lemma plain_shard:
  "plain_levels ts \<Longrightarrow> shardKeyFromTopic_loop ts \<noteq> ''+'' \<and> shardKeyFromTopic_loop ts \<noteq> ''#''"
  by (induction ts) auto

lemma shardKeysForMatch_valid:
  assumes "validatePublishTopic topic = Inr ()"
  shows "set (shardKeysForMatch topic) = {shardKeyFromTopic topic, ''+'', ''#'', ''$share''}"
    and "distinct (shardKeysForMatch topic)"
  using assms plain_shard [of "SplitTopicLevels topic"]
  by (auto simp: shardKeysForMatch_def Let_def shardKeyFromTopic_eq validatePublishTopic_iff)

lemma sub_covers_shard:
  assumes "validatePublishTopic topic = Inr ()" "sub_covers f topic" "f \<noteq> []"
  shows "shardKeyFromTopic f \<in> set (shardKeysForMatch topic)"
proof -
  have "covers_levels (SplitTopicLevels f) (SplitTopicLevels topic)"
    using assms sub_covers_iff by (simp add: validatePublishTopic_iff)
  then have "shardKeyFromTopic f \<in> {shardKeyFromTopic topic, ''+'', ''#'', ''$share''}"
    using filter_matches_shard by (auto simp: covers_levels_def shardKeyFromTopic_eq)
  then show ?thesis by (simp add: shardKeysForMatch_valid [OF assms(1)])
qed

section \<open>The client index\<close>

definition index_pos :: "clientShardIndex \<Rightarrow> bool" where
  "index_pos i \<longleftrightarrow>
     (\<forall>c. distinct (alist_keys (shardCounts i c))) \<and>
     (\<forall>c k n. alist_get (shardCounts i c) k = Some n \<longrightarrow> n > 0)"

lemma shardCount_simps [simp]:
  "shardCounts (alist_set c m i) c' = (if c' = c then m else shardCounts i c')"
  "shardCounts (alist_del c i) c' = (if c' = c then [] else shardCounts i c')"
  "shardCounts [] c' = []"
  by (simp_all add: shardCounts_def)

lemma index_inc_count:
  "c \<noteq> [] \<Longrightarrow> k \<noteq> [] \<Longrightarrow>
     shardCount (index_inc c k i) c' k' = shardCount i c' k' + (if c' = c \<and> k' = k then 1 else 0)"
  by (simp add: index_inc_def shardCount_def)

lemma index_inc_pos: "index_pos i \<Longrightarrow> index_pos (index_inc c k i)"
  by (fastforce simp: index_pos_def index_inc_def shardCount_def split: option.splits)

lemma alist_del_Nil_get: "alist_del k m = [] \<Longrightarrow> k' \<noteq> k \<Longrightarrow> alist_get m k' = None"
  using alist_get_del [of k m k'] by simp

lemma index_dec_counts:
  "c \<noteq> [] \<Longrightarrow> k \<noteq> [] \<Longrightarrow>
     alist_get (shardCounts (index_dec c k i) c') k' =
       (if c' = c \<and> k' = k
        then (case alist_get (shardCounts i c) k of None \<Rightarrow> None | Some v \<Rightarrow> if v \<le> 1 then None else Some (v - 1))
        else alist_get (shardCounts i c') k')"
  by (auto simp: index_dec_def shardCounts_def Let_def alist_del_Nil_get split: option.splits if_splits)

lemma index_dec_count:
  "c \<noteq> [] \<Longrightarrow> k \<noteq> [] \<Longrightarrow> shardCount i c k > 0 \<Longrightarrow>
     shardCount (index_dec c k i) c' k' = shardCount i c' k' - (if c' = c \<and> k' = k then 1 else 0)"
  by (auto simp: shardCount_def index_dec_counts split: option.splits)

lemma index_dec_distinct:
  "distinct (alist_keys (shardCounts i c')) \<Longrightarrow> distinct (alist_keys (shardCounts (index_dec c k i) c'))"
  by (auto simp: index_dec_def shardCounts_def Let_def split: option.splits)

lemma index_dec_pos: "index_pos i \<Longrightarrow> index_pos (index_dec c k i)"
proof (cases "c = [] \<or> k = []")
  case False
  then show "index_pos i \<Longrightarrow> index_pos (index_dec c k i)"
    by (auto simp: index_pos_def index_dec_counts index_dec_distinct split: option.splits if_splits)
qed (auto simp: index_dec_def)

lemma index_dec_nameless: "c = [] \<Longrightarrow> index_dec c k i = i" "c = [] \<Longrightarrow> index_inc c k i = i"
  by (simp_all add: index_dec_def index_inc_def)

lemma index_dec_fold:
  assumes "distinct ids" "k \<noteq> []" "index_pos i" "\<And>c. c \<in> set ids \<Longrightarrow> c \<noteq> [] \<Longrightarrow> shardCount i c k > 0"
  shows "index_pos (foldl (\<lambda>i c. index_dec c k i) i ids) \<and>
    (c' \<noteq> [] \<longrightarrow> shardCount (foldl (\<lambda>i c. index_dec c k i) i ids) c' k' =
       shardCount i c' k' - (if c' \<in> set ids \<and> k' = k then 1 else 0))"
  using assms
proof (induction ids arbitrary: i)
  case (Cons c ids)
  have c: "index_pos (index_dec c k i)"
    "c' \<noteq> [] \<Longrightarrow> shardCount (index_dec c k i) c' k' = shardCount i c' k' - (if c' = c \<and> k' = k then 1 else 0)" for c' k'
    using Cons.prems index_dec_pos index_dec_count [of c k i c' k']
    by (cases "c = []"; simp add: index_dec_nameless)+
  have "d \<noteq> [] \<Longrightarrow> shardCount (index_dec c k i) d k > 0" if "d \<in> set ids" for d
    using Cons.prems that c(2) [of d k] by auto
  then show ?case
    using Cons.IH [of "index_dec c k i"] Cons.prems c by auto
qed simp

lemma shardsForClient_iff:
  assumes "index_pos i" "c \<noteq> []"
  shows "k \<in> set (shardsForClient i c) \<longleftrightarrow> shardCount i c k > 0"
proof -
  have "k \<in> set (shardsForClient i c) \<longleftrightarrow> alist_get (shardCounts i c) k \<noteq> None"
    unfolding alist_get_None_iff using assms(2)
    by (auto simp: shardsForClient_def shardCounts_def split: option.splits)
  then show ?thesis
    using assms(1) by (auto simp: index_pos_def shardCount_def split: option.splits)
qed

section \<open>The centre as a subscription store\<close>

definition shard_at :: "MemorySubCenter \<Rightarrow> string \<Rightarrow> SubCore" where
  "shard_at t k = (case getShard t k of None \<Rightarrow> NewSubCore | Some s \<Rightarrow> s)"

definition center_inv :: "MemorySubCenter \<Rightarrow> bool" where
  "center_inv t \<longleftrightarrow>
     distinct (alist_keys (msc_shards t)) \<and> index_pos (msc_index t) \<and>
     (\<forall>k. sub_inv (shard_at t k)) \<and>
     (\<forall>k c f opt. subs (shard_at t k) c f = Some opt \<longrightarrow> shardKeyFromTopic f = k) \<and>
     (\<forall>k c. c \<noteq> [] \<longrightarrow> shardCount (msc_index t) c k = int (length (topicsOf (shard_at t k) c)))"

definition center_subs :: "MemorySubCenter \<Rightarrow> string \<Rightarrow> string \<Rightarrow> SubOption option" where
  "center_subs t c f = subs (shard_at t (shardKeyFromTopic f)) c f"

definition center_hits :: "MemorySubCenter \<Rightarrow> string \<Rightarrow> string \<Rightarrow> SubOption set" where
  "center_hits t topic c = (\<Union>shard \<in> set (matchShards t topic). hits shard topic c)"

lemma center_invD:
  assumes "center_inv t"
  shows "sub_inv (shard_at t k)" "subs (shard_at t k) c f = Some opt \<Longrightarrow> shardKeyFromTopic f = k"
    "c \<noteq> [] \<Longrightarrow> shardCount (msc_index t) c k = int (length (topicsOf (shard_at t k) c))"
    "index_pos (msc_index t)" "distinct (alist_keys (msc_shards t))"
  using assms unfolding center_inv_def by blast+

lemma shard_at_putShard [simp]: "shard_at (putShard k s t) k' = (if k' = k then s else shard_at t k')"
  by (simp add: shard_at_def getShard_def putShard_def)

lemma putShard_simps [simp]:
  "msc_index (putShard k s t) = msc_index t"
  "msc_clientOwnerTokens (putShard k s t) = msc_clientOwnerTokens t"
  "shard_at (t\<lparr>msc_index := i\<rparr>) k = shard_at t k"
  "shard_at (t\<lparr>msc_clientOwnerTokens := o'\<rparr>) k = shard_at t k"
  by (simp_all add: putShard_def shard_at_def getShard_def)

lemma distinct_putShard [simp]:
  "distinct (alist_keys (msc_shards t)) \<Longrightarrow> distinct (alist_keys (msc_shards (putShard k s t)))"
  by (simp add: putShard_def)

lemma topicsOf_NewSubCore [simp]: "topicsOf NewSubCore c = []"
  by (simp add: topicsOf_def NewSubCore_def)

lemma shard_at_New [simp]: "shard_at NewMemorySubCenter k = NewSubCore"
  by (simp add: shard_at_def getShard_def NewMemorySubCenter_def)

lemma center_inv_New: "center_inv NewMemorySubCenter"
  unfolding center_inv_def shard_at_New
  by (simp add: sub_inv_NewSubCore index_pos_def shardCount_def) (simp add: NewMemorySubCenter_def)

lemma hasTopic_iff: "hasTopic s c f \<longleftrightarrow> subs s c f \<noteq> None"
  by (simp add: hasTopic_def subs_def topicsOf_def split: option.splits)

lemma length_alist_set:
  "length (alist_set k v m) = (if alist_get m k = None then length m + 1 else length m)"
  by (induction k v m rule: alist_set.induct) auto

lemma length_alist_del:
  "distinct (alist_keys m) \<Longrightarrow>
     int (length (alist_del k m)) = int (length m) - (if alist_get m k = None then 0 else 1)"
proof (induction m)
  case (Cons a m)
  have "alist_del k m = m" if "k \<notin> fst ` set m" for m :: "('a \<times> 'b) list"
    using that by (force simp: alist_del_def filter_id_conv)
  then show ?case
    using Cons by (cases a) (auto simp: alist_del_def)
qed simp

lemma topicsOf_createSub:
  assumes "createSub c opt s = Inr s'"
  shows "length (topicsOf s' c') =
    length (topicsOf s c') + (if c' = c \<and> subs s c (opt_Topic opt) = None then 1 else 0)"
  unfolding createSub_Inr(2) [OF assms] by (simp add: length_alist_set topicsOf_root subs_def)

lemma topicsOf_deleteSub:
  assumes "sub_inv s"
  shows "int (length (topicsOf (deleteSub opt c s) c')) =
    int (length (topicsOf s c')) - (if c' = c \<and> subs s c (opt_Topic opt) \<noteq> None then 1 else 0)"
proof (cases "lookupPath (sc_root s) (SplitTopicLevels (opt_Topic opt))")
  case None
  then show ?thesis using deleteSub_None [OF assms None] by (simp add: deleteSub_def)
next
  case (Some n)
  have "distinct (alist_keys (topicsOf s c))" using assms distinct_topicsOf by (auto simp: sub_inv_def)
  then show ?thesis
    using Some length_alist_del [of "topicsOf s c" "opt_Topic opt"]
    by (auto simp: deleteSub_def topicsOf_dropIndex [where r' = "sc_root s"] topicsOf_root subs_def)
qed

lemma topicsOf_deleteTopic:
  assumes "sub_inv s"
  shows "int (length (topicsOf (snd (deleteTopic f s)) c)) =
    int (length (topicsOf s c)) - (if subs s c f \<noteq> None then 1 else 0)"
proof (cases "lookupPath (sc_root s) (SplitTopicLevels f)")
  case None
  then show ?thesis using deleteSub_None [OF assms None, of c] by (simp add: deleteTopic_def)
next
  case (Some n)
  have "distinct (alist_keys (topicsOf s c))" using assms distinct_topicsOf by (auto simp: sub_inv_def)
  moreover have "c \<in> set (alist_keys (tn_Client n)) \<longleftrightarrow> subs s c f \<noteq> None"
    using deleteTopic_removed(1) [OF assms, of f] Some by (auto simp: deleteTopic_def Let_def)
  ultimately show ?thesis
    using Some length_alist_del [of "topicsOf s c" f]
    by (auto simp: deleteTopic_def Let_def topicsOf_dropIndex_fold [where r' = "sc_root s"] topicsOf_root
        subs_def simp del: set_map)
qed

text \<open>
  An operation that changes one shard by an operation of that shard and adjusts the counts of the clients there
  keeps the invariant.
\<close>

lemma center_inv_update:
  assumes inv: "center_inv t" and d: "distinct (alist_keys (msc_shards t'))" "index_pos (msc_index t')"
    and other: "\<And>k'. k' \<noteq> k \<Longrightarrow> shard_at t' k' = shard_at t k'"
    and same: "sub_inv (shard_at t' k)"
      "\<And>c f opt. subs (shard_at t' k) c f = Some opt \<Longrightarrow> shardKeyFromTopic f = k"
    and count: "\<And>c k'. c \<noteq> [] \<Longrightarrow> shardCount (msc_index t') c k' = shardCount (msc_index t) c k' +
      (if k' = k then int (length (topicsOf (shard_at t' k) c)) - int (length (topicsOf (shard_at t k) c)) else 0)"
  shows "center_inv t'"
  unfolding center_inv_def
proof (intro conjI allI impI)
  fix k' c f opt
  show "sub_inv (shard_at t' k')"
    using same(1) other center_invD(1) [OF inv] by (cases "k' = k") auto
  show "shardKeyFromTopic f = k'" if "subs (shard_at t' k') c f = Some opt"
    using same(2) other center_invD(2) [OF inv] that by (cases "k' = k") auto
  show "shardCount (msc_index t') c k' = int (length (topicsOf (shard_at t' k') c))" if "c \<noteq> []"
    using count [OF that] other center_invD(3) [OF inv that] by (cases "k' = k") auto
qed (fact d)+

lemma CreateSub_one_facts:
  fixes opt :: SubOption
  assumes inv: "center_inv t"
  defines "k \<equiv> shardKeyFromTopic (opt_Topic opt)"
  shows "shard_at (fst (CreateSub_one c opt t)) k' =
      (if k' = k then SubCore_step (shard_at t k) (SubPut c opt) else shard_at t k')"
    "center_inv (fst (CreateSub_one c opt t))"
    "snd (CreateSub_one c opt t) = None \<longleftrightarrow> valid_filter (opt_Topic opt)"
    "msc_clientOwnerTokens (fst (CreateSub_one c opt t)) = msc_clientOwnerTokens t"
proof -
  have k: "k \<noteq> []" by (simp add: k_def)
  obtain t0 where t0: "getOrCreateShard k t = (shard_at t k, t0)" "\<And>k'. shard_at t0 k' = shard_at t k'"
      "msc_index t0 = msc_index t" "msc_clientOwnerTokens t0 = msc_clientOwnerTokens t"
      "distinct (alist_keys (msc_shards t0))"
  proof (cases "getShard t k")
    case None
    then have "shard_at t k = NewSubCore" by (simp add: shard_at_def)
    then show ?thesis
      using None k center_invD(5) [OF inv] that [of "putShard k NewSubCore t"] by (auto simp: getOrCreateShard_def)
  next
    case (Some s)
    then show ?thesis
      using k center_invD(5) [OF inv] that [of t] by (auto simp: getOrCreateShard_def shard_at_def)
  qed
  have "shard_at (fst (CreateSub_one c opt t)) k' =
      (if k' = k then SubCore_step (shard_at t k) (SubPut c opt) else shard_at t k') \<and>
    center_inv (fst (CreateSub_one c opt t)) \<and>
    (snd (CreateSub_one c opt t) = None \<longleftrightarrow> valid_filter (opt_Topic opt)) \<and>
    msc_clientOwnerTokens (fst (CreateSub_one c opt t)) = msc_clientOwnerTokens t"
  proof (cases "createSub c opt (shard_at t k)")
    case (Inl e)
    have "center_inv t0" using inv t0(2,3,5) unfolding center_inv_def by simp
    moreover have "\<not> valid_filter (opt_Topic opt)" using Inl createSub_valid [of opt c "shard_at t k"] by auto
    ultimately show ?thesis
      using t0 Inl by (simp add: CreateSub_one_def k_def [symmetric])
  next
    case (Inr s)
    let ?i = "if hasTopic (shard_at t k) c (opt_Topic opt) then msc_index t else index_inc c k (msc_index t)"
    let ?t = "(putShard k s t0)\<lparr>msc_index := ?i\<rparr>"
    have t': "fst (CreateSub_one c opt t) = ?t" "snd (CreateSub_one c opt t) = None"
      using t0 Inr by (simp_all add: CreateSub_one_def k_def [symmetric] Let_def)
    have "center_inv ?t"
    proof (rule center_inv_update [OF inv, where k = k])
      show "index_pos (msc_index ?t)" using center_invD(4) [OF inv] index_inc_pos by simp
      show "sub_inv (shard_at ?t k)" using createSub_inv [OF center_invD(1) [OF inv] Inr] by simp
      show "shardKeyFromTopic f = k" if "subs (shard_at ?t k) c' f = Some o'" for c' f o'
        using that center_invD(2) [OF inv] by (auto simp: createSub_subs [OF Inr] k_def split: if_splits)
      show "shardCount (msc_index ?t) c' k' = shardCount (msc_index t) c' k' +
          (if k' = k then int (length (topicsOf (shard_at ?t k) c')) - int (length (topicsOf (shard_at t k) c')) else 0)"
        if "c' \<noteq> []" for c' k'
        using that k index_inc_count [of c k "msc_index t" c' k']
        by (cases "c = []") (auto simp: topicsOf_createSub [OF Inr] hasTopic_iff index_dec_nameless)
    qed (use t0 in simp_all)
    then show ?thesis
      using t' t0 Inr createSub_Inr(1) [OF Inr] by simp
  qed
  then show "shard_at (fst (CreateSub_one c opt t)) k' =
      (if k' = k then SubCore_step (shard_at t k) (SubPut c opt) else shard_at t k')"
    "center_inv (fst (CreateSub_one c opt t))"
    "snd (CreateSub_one c opt t) = None \<longleftrightarrow> valid_filter (opt_Topic opt)"
    "msc_clientOwnerTokens (fst (CreateSub_one c opt t)) = msc_clientOwnerTokens t"
    by blast+
qed

lemma shard_at_getShard: "getShard t k = Some s \<Longrightarrow> shard_at t k = s"
  by (simp add: shard_at_def)

lemma SubCore_step_del: "SubCore_step s (SubDel c f) = deleteSub (mkTopicOption f) c s"
  by (simp add: mkTopicOption_def)

lemma mkTopicOption_topic [simp]: "opt_Topic (mkTopicOption f) = f"
  by (simp add: mkTopicOption_def)

lemma deleteSub_New: "subs (deleteSub opt c NewSubCore) = subs NewSubCore"
  by (intro ext) (simp add: deleteSub_subs [OF sub_inv_NewSubCore])

lemma DeleteSub_one_facts:
  fixes f :: string
  assumes inv: "center_inv t"
  defines "k \<equiv> shardKeyFromTopic f"
  shows "subs (shard_at (fst (DeleteSub_one c f t)) k') c' f' =
      (if k' = k \<and> c' = c \<and> f' = f then None else subs (shard_at t k') c' f')" (is ?A)
    "center_inv (fst (DeleteSub_one c f t))" (is ?B)
    "snd (DeleteSub_one c f t) = (if center_subs t c f = None then 0x11 else 0)" (is ?C)
    "msc_clientOwnerTokens (fst (DeleteSub_one c f t)) = msc_clientOwnerTokens t" (is ?D)
proof -
  have k: "k \<noteq> []" by (simp add: k_def)
  have "?A \<and> ?B \<and> ?C \<and> ?D"
  proof (cases "getShard t k")
    case None
    then have "shard_at t k = NewSubCore" by (simp add: shard_at_def)
    then show ?thesis
      using None inv by (simp add: DeleteSub_one_def k_def [symmetric] center_subs_def)
  next
    case (Some s)
    note s = shard_at_getShard [OF Some]
    note sinv = center_invD(1) [OF inv, of k, unfolded s]
    let ?s = "deleteSub (mkTopicOption f) c s"
    let ?i = "if hasTopic s c f then index_dec c k (msc_index t) else msc_index t"
    let ?t = "(putShard k ?s t)\<lparr>msc_index := ?i\<rparr>"
    have t': "fst (DeleteSub_one c f t) = ?t" "snd (DeleteSub_one c f t) = (if hasTopic s c f then 0 else 0x11)"
      using Some by (simp_all add: DeleteSub_one_def k_def [symmetric] Let_def)
    have "center_inv ?t"
    proof (rule center_inv_update [OF inv, where k = k])
      show "index_pos (msc_index ?t)" using center_invD(4) [OF inv] index_dec_pos by simp
      show "sub_inv (shard_at ?t k)" using deleteSub_inv [OF sinv] by simp
      show "shardKeyFromTopic f = k" if "subs (shard_at ?t k) c' f = Some o'" for c' f o'
        using that center_invD(2) [OF inv, of k] s by (auto simp: deleteSub_subs [OF sinv] split: if_splits)
      show "shardCount (msc_index ?t) c' k' = shardCount (msc_index t) c' k' +
          (if k' = k then int (length (topicsOf (shard_at ?t k) c')) - int (length (topicsOf (shard_at t k) c')) else 0)"
        if "c' \<noteq> []" for c' k'
      proof (cases "hasTopic s c f \<and> c \<noteq> []")
        case True
        then have "0 < length (topicsOf s c)"
          by (auto simp: hasTopic_iff subs_def)
        moreover from this have "0 < shardCount (msc_index t) c k" using True center_invD(3) [OF inv, of c k] s by simp
        ultimately show ?thesis
          using True index_dec_count [of c k "msc_index t" c' k'] k s
          by (auto simp: topicsOf_deleteSub [OF sinv] hasTopic_iff)
      qed (use that s in \<open>auto simp: topicsOf_deleteSub [OF sinv] hasTopic_iff index_dec_nameless\<close>)
    qed (use center_invD(5) [OF inv] in simp_all)
    then show ?thesis
      using t' s by (auto simp: deleteSub_subs [OF sinv] hasTopic_iff center_subs_def k_def)
  qed
  then show ?A ?B ?C ?D by blast+
qed

lemma DeleteTopic_facts:
  fixes f :: string
  assumes inv: "center_inv t"
  defines "k \<equiv> shardKeyFromTopic f"
  shows "subs (shard_at (snd (DeleteTopic f t)) k') c f' =
      (if k' = k \<and> f' = f then None else subs (shard_at t k') c f')" (is ?A)
    "center_inv (snd (DeleteTopic f t))" (is ?B)
    "msc_clientOwnerTokens (snd (DeleteTopic f t)) = msc_clientOwnerTokens t" (is ?C)
proof -
  have k: "k \<noteq> []" by (simp add: k_def)
  have "?A \<and> ?B \<and> ?C"
  proof (cases "getShard t k")
    case None
    then have "shard_at t k = NewSubCore" by (simp add: shard_at_def)
    then show ?thesis using None inv by (simp add: DeleteTopic_def k_def [symmetric])
  next
    case (Some s)
    note s = shard_at_getShard [OF Some]
    note sinv = center_invD(1) [OF inv, of k, unfolded s]
    let ?s = "snd (deleteTopic f s)" and ?ids = "fst (deleteTopic f s)"
    let ?t = "(putShard k ?s t)\<lparr>msc_index := foldl (\<lambda>i c. index_dec c k i) (msc_index t) ?ids\<rparr>"
    have t': "snd (DeleteTopic f t) = ?t"
      using Some by (simp add: DeleteTopic_def k_def [symmetric] Let_def split_beta)
    have pos: "shardCount (msc_index t) c k > 0" if "c \<in> set ?ids" "c \<noteq> []" for c
    proof -
      have "topicsOf s c \<noteq> []" using that(1) deleteTopic_removed(1) [OF sinv] by (auto simp: subs_def)
      then show ?thesis using center_invD(3) [OF inv that(2), of k] s by simp
    qed
    have dec: "index_pos (foldl (\<lambda>i c. index_dec c k i) (msc_index t) ?ids) \<and>
        (c' \<noteq> [] \<longrightarrow> shardCount (foldl (\<lambda>i c. index_dec c k i) (msc_index t) ?ids) c' k' =
          shardCount (msc_index t) c' k' - (if c' \<in> set ?ids \<and> k' = k then 1 else 0))" for c' k'
      by (rule index_dec_fold [OF deleteTopic_removed(2) [OF sinv, of f] k center_invD(4) [OF inv]]) (rule pos)
    have "center_inv ?t"
    proof (rule center_inv_update [OF inv, where k = k])
      show "index_pos (msc_index ?t)" using dec by simp
      show "sub_inv (shard_at ?t k)" using deleteTopic_inv [OF sinv] by simp
      show "shardKeyFromTopic f' = k" if "subs (shard_at ?t k) c' f' = Some o'" for c' f' o'
        using that center_invD(2) [OF inv, of k] s by (auto simp: deleteTopic_subs [OF sinv] split: if_splits)
      show "shardCount (msc_index ?t) c' k' = shardCount (msc_index t) c' k' +
          (if k' = k then int (length (topicsOf (shard_at ?t k) c')) - int (length (topicsOf (shard_at t k) c')) else 0)"
        if "c' \<noteq> []" for c' k'
        using dec [of c' k'] that s deleteTopic_removed(1) [OF sinv, of f] by (simp add: topicsOf_deleteTopic [OF sinv])
    qed (use center_invD(5) [OF inv] in simp_all)
    then show ?thesis
      using t' s by (auto simp: deleteTopic_subs [OF sinv])
  qed
  then show ?A ?B ?C by blast+
qed

lemma deleteClient_shards_fold:
  defines "del c \<equiv> (\<lambda>t k. case getShard t k of None \<Rightarrow> t | Some shard \<Rightarrow> putShard k (SubCore_deleteClient c shard) t)"
  assumes "distinct ks" "distinct (alist_keys (msc_shards t))"
  shows "distinct (alist_keys (msc_shards (foldl (del c) t ks))) \<and>
    msc_index (foldl (del c) t ks) = msc_index t \<and>
    msc_clientOwnerTokens (foldl (del c) t ks) = msc_clientOwnerTokens t \<and>
    shard_at (foldl (del c) t ks) k = (if k \<in> set ks then SubCore_deleteClient c (shard_at t k) else shard_at t k)"
  using assms(2,3)
proof (induction ks arbitrary: t)
  case (Cons k' ks)
  have "SubCore_deleteClient c NewSubCore = NewSubCore" by (simp add: SubCore_deleteClient_def NewSubCore_def)
  then have "shard_at (del c t k') k = (if k = k' then SubCore_deleteClient c (shard_at t k) else shard_at t k)"
      "distinct (alist_keys (msc_shards (del c t k')))" "msc_index (del c t k') = msc_index t"
      "msc_clientOwnerTokens (del c t k') = msc_clientOwnerTokens t"
    using Cons.prems by (auto simp: del_def shard_at_def split: option.splits) (simp_all add: getShard_def putShard_def)
  then show ?case using Cons.IH [of "del c t k'"] Cons.prems by auto
qed simp

lemma deleteClient_topicsOf:
  assumes "sub_inv s"
  shows "topicsOf (SubCore_deleteClient c s) c' = (if c' = c then [] else topicsOf s c')"
proof -
  have "topicsOf (deleteSub opt c s) c' = (if c' = c then topicsOf (deleteSub opt c s) c else topicsOf s c')" for opt s c'
    by (auto simp: deleteSub_def Let_def topicsOf_dropIndex [where r' = "sc_root s"] topicsOf_root split: option.splits)
  then have "c' \<noteq> c \<Longrightarrow> topicsOf (foldl (\<lambda>t opt. deleteSub opt c t) s opts) c' = topicsOf s c'" for opts
    by (induction opts arbitrary: s) auto
  then have other: "c' \<noteq> c \<Longrightarrow> topicsOf (SubCore_deleteClient c s) c' = topicsOf s c'"
    by (simp add: SubCore_deleteClient_def split: option.splits)
  have "alist_get (topicsOf (SubCore_deleteClient c s) c) f = None" for f
    using deleteClient_subs [OF assms, of c c f] by (simp add: subs_def)
  then have "topicsOf (SubCore_deleteClient c s) c = []"
    by (cases "topicsOf (SubCore_deleteClient c s) c") (auto simp: alist_get_def split: if_splits, metis option.distinct(1))
  then show ?thesis using other by simp
qed

lemma distinct_shardsForClient: "index_pos i \<Longrightarrow> distinct (shardsForClient i c)"
proof -
  assume "index_pos i"
  then have "distinct (alist_keys (shardCounts i c))" unfolding index_pos_def by blast
  then show ?thesis by (simp add: shardsForClient_def shardCounts_def split: option.splits)
qed

lemma DeleteClient_facts:
  assumes inv: "center_inv t" and c: "c \<noteq> []"
  defines "t' \<equiv> snd (DeleteClient \<lparr>dreq_ClientID = c, dreq_OwnerToken = []\<rparr> t)"
  shows "subs (shard_at t' k) c' f = (if c' = c then None else subs (shard_at t k) c' f)"
    and "center_inv t'" and "msc_clientOwnerTokens t' = msc_clientOwnerTokens t"
proof -
  let ?ks = "shardsForClient (msc_index t) c"
  let ?t = "foldl (\<lambda>t k. case getShard t k of None \<Rightarrow> t | Some s \<Rightarrow> putShard k (SubCore_deleteClient c s) t) t ?ks"
  have ks: "k \<in> set ?ks \<longleftrightarrow> topicsOf (shard_at t k) c \<noteq> []" for k
    using shardsForClient_iff [OF center_invD(4) [OF inv] c] center_invD(3) [OF inv c] by simp
  have fold: "shard_at ?t k = (if k \<in> set ?ks then SubCore_deleteClient c (shard_at t k) else shard_at t k)"
    "msc_index ?t = msc_index t" "msc_clientOwnerTokens ?t = msc_clientOwnerTokens t"
    "distinct (alist_keys (msc_shards ?t))" for k
    using deleteClient_shards_fold [OF distinct_shardsForClient [OF center_invD(4) [OF inv]] center_invD(5) [OF inv]]
    by blast+
  have gone: "topicsOf (shard_at ?t k) c = []"
    "c' \<noteq> c \<Longrightarrow> topicsOf (shard_at ?t k) c' = topicsOf (shard_at t k) c'" for k c'
    using ks [of k] deleteClient_topicsOf [OF center_invD(1) [OF inv, of k]] by (auto simp: fold(1))
  have t': "t' = ?t\<lparr>msc_index := alist_del c (msc_index t)\<rparr> \<or> t' = t \<and> (\<forall>k. topicsOf (shard_at t k) c = [])"
  proof (cases "?ks = []")
    case True
    then show ?thesis using ks by (simp add: t'_def DeleteClient_def)
  next
    case False
    then have "t' = ?t\<lparr>msc_index := alist_del c (msc_index ?t)\<rparr>"
      using c unfolding t'_def DeleteClient_def Let_def DeleteClientRequest.simps index_deleteClient_def by simp
    then show ?thesis by (simp add: fold(2))
  qed
  then have sh: "topicsOf (shard_at t' k) c' = (if c' = c then [] else topicsOf (shard_at t k) c')" for k c'
    using gone by auto
  show subs: "subs (shard_at t' k) c' f = (if c' = c then None else subs (shard_at t k) c' f)" for k c' f
    by (simp add: subs_def sh)
  show "msc_clientOwnerTokens t' = msc_clientOwnerTokens t" using t' fold(3) by auto
  show "center_inv t'"
  proof (cases "t' = t")
    case False
    then have t: "t' = ?t\<lparr>msc_index := alist_del c (msc_index t)\<rparr>" using t' by blast
    have "sub_inv (shard_at t' k)" for k
      using center_invD(1) [OF inv, of k] deleteClient_inv by (simp add: t fold(1))
    moreover have "shardKeyFromTopic f = k" if "subs (shard_at t' k) c' f = Some opt" for k c' f opt
      using that center_invD(2) [OF inv] by (auto simp: subs split: if_splits)
    moreover have "shardCount (msc_index t') c' k = int (length (topicsOf (shard_at t' k) c'))" if "c' \<noteq> []" for c' k
      using center_invD(3) [OF inv that, of k] by (simp add: sh) (simp add: t shardCount_def)
    moreover have "index_pos (msc_index t')"
      using center_invD(4) [OF inv] by (simp add: t index_pos_def)
    moreover have "distinct (alist_keys (msc_shards t'))" using fold(4) by (simp add: t)
    ultimately show ?thesis unfolding center_inv_def by blast
  qed (simp add: inv)
qed

fun center_step :: "MemorySubCenter \<Rightarrow> sub_op \<Rightarrow> MemorySubCenter" where
  "center_step t (SubPut c opt) = fst (CreateSub_one c opt t)"
| "center_step t (SubDel c f) = fst (DeleteSub_one c f t)"
| "center_step t (SubDropTopic f) = snd (DeleteTopic f t)"
| "center_step t (SubDropClient c) = snd (DeleteClient \<lparr>dreq_ClientID = c, dreq_OwnerToken = []\<rparr> t)"

lemma DeleteClient_nameless: "snd (DeleteClient \<lparr>dreq_ClientID = [], dreq_OwnerToken = tok\<rparr> t) = t"
  by (simp add: DeleteClient_def shardsForClient_def)

lemma center_step_inv: "center_inv t \<Longrightarrow> center_inv (center_step t a)"
proof (cases a)
  case (SubDropClient c)
  assume "center_inv t"
  then show ?thesis using SubDropClient DeleteClient_facts(2) DeleteClient_nameless by (cases "c = []") simp_all
qed (simp_all add: CreateSub_one_facts DeleteSub_one_facts DeleteTopic_facts)

lemma center_step_refines:
  assumes inv: "center_inv t" and c: "\<And>c. a = SubDropClient c \<Longrightarrow> c \<noteq> []"
  shows "center_subs (center_step t a) = spec_step (center_subs t) a"
proof (intro ext)
  fix c' f'
  show "center_subs (center_step t a) c' f' = spec_step (center_subs t) a c' f'"
  proof (cases a)
    case (SubPut c opt)
    have "subs (SubCore_step (shard_at t k) (SubPut c opt)) = spec_step (subs (shard_at t k)) (SubPut c opt)" for k
      by (rule SubCore_step_refines [OF center_invD(1) [OF inv]])
    then show ?thesis
      by (simp add: SubPut center_subs_def CreateSub_one_facts(1) [OF inv] del: SubCore_step.simps)
  next
    case (SubDel c f)
    then show ?thesis by (auto simp: center_subs_def DeleteSub_one_facts(1) [OF inv])
  next
    case (SubDropTopic f)
    then show ?thesis by (auto simp: center_subs_def DeleteTopic_facts(1) [OF inv])
  next
    case (SubDropClient c'')
    then show ?thesis using DeleteClient_facts(1) [OF inv c] by (simp add: center_subs_def)
  qed
qed

lemma in_matchShards:
  "shard \<in> set (matchShards t topic) \<longleftrightarrow> (\<exists>k \<in> set (shardKeysForMatch topic). getShard t k = Some shard)"
  by (auto simp: matchShards_def map_filter_def image_iff)

lemma center_hits_iff:
  assumes inv: "center_inv t" and topic: "validatePublishTopic topic = Inr ()"
  shows "center_hits t topic c = {opt. \<exists>f. center_subs t c f = Some opt \<and> sub_covers f topic}"
proof -
  have hits: "hits (shard_at t k) topic c = {opt. \<exists>f. subs (shard_at t k) c f = Some opt \<and> sub_covers f topic}" for k
    by (rule hits_iff [OF center_invD(1) [OF inv] topic])
  have "hits NewSubCore topic c = {}" using hits_iff [OF sub_inv_NewSubCore topic] by simp
  then have "center_hits t topic c = (\<Union>k \<in> set (shardKeysForMatch topic). hits (shard_at t k) topic c)"
  proof (intro set_eqI)
    fix x
    assume new: "hits NewSubCore topic c = {}"
    have "x \<in> center_hits t topic c \<longleftrightarrow> (\<exists>s. s \<in> set (matchShards t topic) \<and> x \<in> hits s topic c)"
      by (auto simp: center_hits_def)
    also have "\<dots> \<longleftrightarrow> (\<exists>k \<in> set (shardKeysForMatch topic). x \<in> hits (shard_at t k) topic c)"
      unfolding in_matchShards using new by (auto simp: shard_at_def split: option.splits)
    finally show "x \<in> center_hits t topic c \<longleftrightarrow> x \<in> (\<Union>k \<in> set (shardKeysForMatch topic). hits (shard_at t k) topic c)"
      by simp
  qed
  also have "\<dots> = {opt. \<exists>f. center_subs t c f = Some opt \<and> sub_covers f topic}"
    unfolding hits
  proof (intro set_eqI iffI)
    fix opt
    assume "opt \<in> (\<Union>k \<in> set (shardKeysForMatch topic). {opt. \<exists>f. subs (shard_at t k) c f = Some opt \<and> sub_covers f topic})"
    then show "opt \<in> {opt. \<exists>f. center_subs t c f = Some opt \<and> sub_covers f topic}"
      using center_invD(2) [OF inv] by (auto simp: center_subs_def) metis
  next
    fix opt
    assume "opt \<in> {opt. \<exists>f. center_subs t c f = Some opt \<and> sub_covers f topic}"
    then obtain f where f: "subs (shard_at t (shardKeyFromTopic f)) c f = Some opt" "sub_covers f topic"
      by (auto simp: center_subs_def)
    moreover have "f \<noteq> []" using subs_topic [OF center_invD(1) [OF inv] f(1)] by blast
    ultimately show "opt \<in> (\<Union>k \<in> set (shardKeysForMatch topic).
        {opt. \<exists>f. subs (shard_at t k) c f = Some opt \<and> sub_covers f topic})"
      using sub_covers_shard [OF topic] by blast
  qed
  finally show ?thesis .
qed

interpretation center_store: subscription_store center_inv center_subs center_step center_hits "\<lambda>c. c \<noteq> []"
proof unfold_locales
  fix t c f opt
  assume "center_inv t" "center_subs t c f = Some opt"
  then show "opt_Topic opt = f \<and> valid_filter f"
    using core_store.stored_filter [OF center_invD(1)] by (simp add: center_subs_def)
qed (simp_all add: center_step_inv center_step_refines center_hits_iff)

section \<open>Whole requests\<close>

text \<open>The requests that change the centre, and what they mean for the subscriptions and the owner tokens.\<close>

datatype SubReq =
    RCreate SubRequest
  | RDelete UnSubRequest
  | RTopic string
  | RClient DeleteClientRequest
  | ROwner string string

fun apply_req :: "MemorySubCenter \<Rightarrow> SubReq \<Rightarrow> MemorySubCenter" where
  "apply_req t (RCreate req) = snd (CreateSub req t)"
| "apply_req t (RDelete req) = snd (DeleteSub req t)"
| "apply_req t (RTopic topic) = snd (DeleteTopic topic t)"
| "apply_req t (RClient req) = snd (DeleteClient req t)"
| "apply_req t (ROwner c token) = snd (SetClientOwnerToken c token t)"

type_synonym sub_spec = "(string \<Rightarrow> string \<Rightarrow> SubOption option) \<times> (string \<Rightarrow> string)"

text \<open>
  A request with a token is fenced when the client has another owner; subscribing binds the token when there is
  no owner yet, the other two need the owner.
\<close>

fun spec_req :: "sub_spec \<Rightarrow> SubReq \<Rightarrow> sub_spec" where
  "spec_req (m, own) (RCreate req) =
     (let c = sreq_ClientID req; token = sreq_OwnerToken req
      in if token \<noteq> [] \<and> own c \<noteq> [] \<and> own c \<noteq> token then (m, own)
         else (foldl spec_step m (map (SubPut c) (sreq_Topics req)),
               if token \<noteq> [] \<and> c \<noteq> [] then own(c := token) else own))"
| "spec_req (m, own) (RDelete req) =
     (let c = ureq_ClientID req; token = ureq_OwnerToken req
      in if token \<noteq> [] \<and> own c \<noteq> token then (m, own)
         else (foldl spec_step m (map (SubDel c) (ureq_Topics req)), own))"
| "spec_req (m, own) (RTopic f) = (spec_step m (SubDropTopic f), own)"
| "spec_req (m, own) (RClient req) =
     (let c = dreq_ClientID req; token = dreq_OwnerToken req
      in if c = [] \<or> token \<noteq> [] \<and> own c \<noteq> token then (m, own)
         else (spec_step m (SubDropClient c), own))"
| "spec_req (m, own) (ROwner c token) = (m, if c = [] then own else own(c := token))"

definition abs_center :: "MemorySubCenter \<Rightarrow> sub_spec" where
  "abs_center t = (center_subs t, getOwnerToken t)"

lemma CreateSub_loop_state: "fst (CreateSub_loop c opts t r e) = foldl center_step t (map (SubPut c) opts)"
proof (induction opts arbitrary: t r e)
  case (Cons opt opts)
  then show ?case by (cases "CreateSub_one c opt t"; cases "snd (CreateSub_one c opt t)") auto
qed simp

lemma DeleteSub_loop_state: "fst (DeleteSub_loop c fs t r) = foldl center_step t (map (SubDel c) fs)"
proof (induction fs arbitrary: t r)
  case (Cons f fs)
  then show ?case by (cases "DeleteSub_one c f t") auto
qed simp

lemma center_step_tokens:
  assumes "center_inv t"
  shows "msc_clientOwnerTokens (center_step t a) = msc_clientOwnerTokens t"
proof (cases a)
  case (SubDropClient c)
  then show ?thesis
    using DeleteClient_facts(3) [OF assms] DeleteClient_nameless by (cases "c = []") simp_all
qed (use assms in \<open>simp_all add: CreateSub_one_facts DeleteSub_one_facts DeleteTopic_facts\<close>)

lemma center_steps_abs:
  assumes "center_inv t" "\<And>c. SubDropClient c \<notin> set ops"
  shows "center_inv (foldl center_step t ops)"
    "abs_center (foldl center_step t ops) = (foldl spec_step (center_subs t) ops, getOwnerToken t)"
proof -
  have "msc_clientOwnerTokens (foldl center_step t ops) = msc_clientOwnerTokens t"
    using assms(1) by (induction ops arbitrary: t) (auto simp: center_step_inv center_step_tokens)
  moreover have "center_store.legal ops" using assms(2) by (simp add: center_store.legal_def)
  ultimately show "center_inv (foldl center_step t ops)"
    "abs_center (foldl center_step t ops) = (foldl spec_step (center_subs t) ops, getOwnerToken t)"
    using center_store.run_refines [OF assms(1)] by (auto simp: abs_center_def getOwnerToken_def [abs_def])
qed

lemma setOwnerToken_facts:
  "center_inv t \<Longrightarrow> center_inv (setOwnerToken c token t)"
  "center_subs (setOwnerToken c token t) = center_subs t"
  "getOwnerToken (setOwnerToken c token t) = (if c = [] then getOwnerToken t else (getOwnerToken t)(c := token))"
  by (auto simp: setOwnerToken_def center_inv_def center_subs_def [abs_def] getOwnerToken_def fun_eq_iff)

lemma apply_req_refines:
  assumes inv: "center_inv t"
  shows "center_inv (apply_req t req) \<and> abs_center (apply_req t req) = spec_req (abs_center t) req"
proof (cases req)
  case (RCreate r)
  let ?c = "sreq_ClientID r" and ?tok = "sreq_OwnerToken r"
  show ?thesis
  proof (cases "?tok \<noteq> [] \<and> getOwnerToken t ?c \<noteq> [] \<and> getOwnerToken t ?c \<noteq> ?tok")
    case True
    then show ?thesis using inv RCreate by (simp add: CreateSub_def Let_def abs_center_def)
  next
    case False
    define t0 where "t0 = (if ?tok \<noteq> [] \<and> getOwnerToken t ?c = [] then setOwnerToken ?c ?tok t else t)"
    have t0: "center_inv t0" "center_subs t0 = center_subs t"
        "getOwnerToken t0 = (if ?tok \<noteq> [] \<and> ?c \<noteq> [] then (getOwnerToken t)(?c := ?tok) else getOwnerToken t)"
      using False inv by (auto simp: t0_def setOwnerToken_facts fun_eq_iff)
    have "apply_req t req = foldl center_step t0 (map (SubPut ?c) (sreq_Topics r))"
      using False CreateSub_loop_state [of ?c "sreq_Topics r" t0 "[]" "[]"]
      by (auto simp: RCreate CreateSub_def Let_def t0_def split_beta)
    moreover have "SubDropClient c \<notin> set (map (SubPut ?c) (sreq_Topics r))" for c by auto
    ultimately show ?thesis
      using False center_steps_abs [OF t0(1), of "map (SubPut ?c) (sreq_Topics r)"] t0(2,3)
      by (auto simp: RCreate abs_center_def Let_def)
  qed
next
  case (RDelete r)
  let ?c = "ureq_ClientID r"
  have "SubDropClient c \<notin> set (map (SubDel ?c) (ureq_Topics r))" for c by auto
  then show ?thesis
    using inv center_steps_abs [OF inv, of "map (SubDel ?c) (ureq_Topics r)"]
      DeleteSub_loop_state [of ?c "ureq_Topics r" t "[]"]
    by (auto simp: RDelete DeleteSub_def abs_center_def Let_def split_beta)
next
  case (RTopic f)
  then show ?thesis
    using center_steps_abs [OF inv, of "[SubDropTopic f]"] by (simp add: abs_center_def)
next
  case (RClient r)
  let ?c = "dreq_ClientID r"
  have force: "DeleteClient r t = DeleteClient \<lparr>dreq_ClientID = ?c, dreq_OwnerToken = []\<rparr> t"
    if "\<not> (dreq_OwnerToken r \<noteq> [] \<and> getOwnerToken t ?c \<noteq> dreq_OwnerToken r)"
    using that unfolding DeleteClient_def DeleteClientRequest.simps by auto
  have stale: "snd (DeleteClient r t) = t" if "dreq_OwnerToken r \<noteq> [] \<and> getOwnerToken t ?c \<noteq> dreq_OwnerToken r"
    using that by (simp add: DeleteClient_def)
  show ?thesis
  proof (cases "?c = [] \<or> dreq_OwnerToken r \<noteq> [] \<and> getOwnerToken t ?c \<noteq> dreq_OwnerToken r")
    case True
    then have "snd (DeleteClient r t) = t"
      using stale DeleteClient_nameless [of "dreq_OwnerToken r" t] by (cases r) auto
    then show ?thesis using True inv by (auto simp: RClient abs_center_def Let_def)
  next
    case False
    then show ?thesis
      using center_step_inv [OF inv, of "SubDropClient ?c"] center_step_refines [OF inv, of "SubDropClient ?c"]
        center_step_tokens [OF inv, of "SubDropClient ?c"] force
      by (auto simp: RClient abs_center_def Let_def getOwnerToken_def [abs_def])
  qed
next
  case (ROwner c tok)
  then show ?thesis
    using inv by (auto simp: SetClientOwnerToken_def abs_center_def setOwnerToken_facts)
qed

definition center_after :: "SubReq list \<Rightarrow> MemorySubCenter" where
  "center_after reqs = foldl apply_req NewMemorySubCenter reqs"

definition spec_after_reqs :: "SubReq list \<Rightarrow> sub_spec" where
  "spec_after_reqs reqs = foldl spec_req (\<lambda>_ _. None, \<lambda>_. []) reqs"

lemma abs_center_New: "abs_center NewMemorySubCenter = (\<lambda>_ _. None, \<lambda>_. [])"
  by (simp add: abs_center_def center_subs_def [abs_def] getOwnerToken_def fun_eq_iff)
    (simp add: NewMemorySubCenter_def)

lemma center_after_refines:
  "center_inv (center_after reqs) \<and> abs_center (center_after reqs) = spec_after_reqs reqs"
proof (induction reqs rule: rev_induct)
  case Nil
  show ?case by (simp add: center_after_def spec_after_reqs_def center_inv_New abs_center_New)
next
  case (snoc r reqs)
  then show ?case using apply_req_refines [of "center_after reqs" r] by (simp add: center_after_def spec_after_reqs_def)
qed

lemmas center_inv_after = conjunct1 [OF center_after_refines]

lemma center_subs_after: "center_subs (center_after reqs) = fst (spec_after_reqs reqs)"
  using center_after_refines [of reqs] by (simp add: abs_center_def prod_eq_iff)

lemma foldl_alist_set_get:
  "distinct (alist_keys m) \<Longrightarrow>
     alist_get (foldl (\<lambda>r (k, v). alist_set k v r) r m) k =
       (case alist_get m k of None \<Rightarrow> alist_get r k | Some v \<Rightarrow> Some v)"
proof (induction m arbitrary: r)
  case (Cons a m)
  then have "alist_get m (fst a) = None" by (auto simp: alist_get_None_iff)
  then show ?case using Cons by (cases a) (auto split: option.splits)
qed simp

text \<open>Collecting a client's subscriptions over all shards: no filter is in two shards.\<close>

lemma GetClientSubscriptions_get:
  assumes inv: "center_inv t" and c: "c \<noteq> []"
  shows "alist_get (GetClientSubscriptions t c) f = center_subs t c f"
proof -
  let ?step = "\<lambda>r (k, shard). foldl (\<lambda>r (topic, o'). alist_set topic o' r) r (topicsOf shard c)"
  have "alist_get (foldl ?step r ss) f =
      (case alist_get ss (shardKeyFromTopic f) of
         None \<Rightarrow> alist_get r f
       | Some s \<Rightarrow> (case subs s c f of None \<Rightarrow> alist_get r f | Some opt \<Rightarrow> Some opt))"
    if "distinct (alist_keys ss)" "\<And>k s. (k, s) \<in> set ss \<Longrightarrow> shard_at t k = s" for ss r
    using that
  proof (induction ss arbitrary: r)
    case (Cons a ss)
    obtain k s where a: "a = (k, s)" by (cases a)
    have s: "shard_at t k = s" using Cons.prems(2) a by simp
    have "distinct (alist_keys (topicsOf s c))"
      using center_invD(1) [OF inv, of k] s distinct_topicsOf by (auto simp: sub_inv_def)
    then have "alist_get (?step r a) f = (case subs s c f of None \<Rightarrow> alist_get r f | Some opt \<Rightarrow> Some opt)"
      by (simp add: a foldl_alist_set_get subs_def)
    moreover have "subs s c f = None" if "shardKeyFromTopic f \<noteq> k"
      using that center_invD(2) [OF inv, of k c f] s by (cases "subs s c f") auto
    moreover have "alist_get ss k = None" using Cons.prems(1) a by (auto simp: alist_get_None_iff)
    ultimately show ?case
      using Cons a by (auto split: option.splits)
  qed simp
  moreover have "shard_at t k = s" if "(k, s) \<in> set (msc_shards t)" for k s
    using that alist_get_eq_Some_iff [OF center_invD(5) [OF inv], of k s] by (simp add: shard_at_def getShard_def)
  ultimately show ?thesis
    using c center_invD(5) [OF inv]
    by (auto simp: GetClientSubscriptions_def center_subs_def shard_at_def getShard_def split: option.splits)
qed

section \<open>Matching across shards\<close>

definition matched_for :: "SubCore \<Rightarrow> string \<Rightarrow> string \<Rightarrow> MatchedSubscription list" where
  "matched_for shard topic c = (case alist_get (matchTopicClientV2 shard topic) c of None \<Rightarrow> [] | Some ms \<Rightarrow> ms)"

lemma aggAppend_fold:
  "foldl aggAppend (q, l) ms = (Max (insert q (ms_QoS ` set ms)), l @ ms)"
proof (induction ms arbitrary: q l)
  case (Cons m ms)
  have "aggAppend (q, l) m = (max q (ms_QoS m), l @ [m])" by (auto simp: aggAppend_def)
  then show ?case by (simp add: Cons Max_insert_max)
qed simp

lemma aggClient_fold:
  "alist_get (foldl aggClient m es) c =
     (let ms = concat (map snd (filter (\<lambda>e. fst e = c) es))
      in if ms = [] then alist_get m c
         else Some (foldl aggAppend (case alist_get m c of None \<Rightarrow> (0, []) | Some a \<Rightarrow> a) ms))"
  by (induction es arbitrary: m)
    (auto simp: aggClient_def Let_def simp del: concat_eq_Nil_conv Nil_eq_concat_conv split: option.splits)

lemma distinct_aggClient_fold: "distinct (alist_keys m) \<Longrightarrow> distinct (alist_keys (foldl aggClient m es))"
  by (induction es arbitrary: m) (simp_all add: aggClient_def Let_def)

lemma filter_key_concat:
  "distinct (alist_keys m) \<Longrightarrow>
     concat (map snd (filter (\<lambda>e. fst e = c) m)) = (case alist_get m c of None \<Rightarrow> [] | Some l \<Rightarrow> l)"
proof (induction m)
  case (Cons a m)
  have "filter (\<lambda>e. fst e = fst a) m = []" using Cons.prems by (simp add: filter_empty_conv) (metis image_eqI)
  then show ?case using Cons by (cases a) auto
qed simp

lemma matched_entries_of:
  "concat (map snd (filter (\<lambda>e. fst e = c) (matchTopicClientV2 shard topic))) = matched_for shard topic c"
  unfolding matched_for_def
  by (rule filter_key_concat) (simp add: matchTopicClientV2_entries distinct_keys_appendMatched_fold)

lemma set_matched_for: "set (matched_for shard topic c) = matchedSubscriptionFromOption ` hits shard topic c"
  using matchTopicClientV2_some [of shard topic c] matchTopicClientV2_none [of shard topic c]
  by (auto simp: matched_for_def split: option.splits)

definition center_matched :: "MemorySubCenter \<Rightarrow> string \<Rightarrow> string \<Rightarrow> MatchedSubscription list" where
  "center_matched t topic c = concat (map (\<lambda>shard. matched_for shard topic c) (matchShards t topic))"

lemma set_center_matched:
  "set (center_matched t topic c) = matchedSubscriptionFromOption ` center_hits t topic c"
  by (auto simp: center_matched_def center_hits_def set_matched_for)

lemma GetAllMatchClientV2_iff:
  "cm \<in> set (GetAllMatchClientV2 t topic) \<longleftrightarrow>
     center_matched t topic (cm_ClientID cm) \<noteq> [] \<and> cm_Matched cm = center_matched t topic (cm_ClientID cm) \<and>
     cm_MaxQoS cm = Max (insert 0 (ms_QoS ` set (cm_Matched cm)))"
  and distinct_GetAllMatchClientV2: "distinct (map cm_ClientID (GetAllMatchClientV2 t topic))"
proof -
  let ?es = "concat (map (\<lambda>shard. matchTopicClientV2 shard topic) (matchShards t topic))"
  let ?m = "foldl aggClient [] ?es"
  have m: "GetAllMatchClientV2 t topic =
      map (\<lambda>(c, a). \<lparr>cm_ClientID = c, cm_MaxQoS = fst a, cm_Matched = snd a\<rparr>) ?m"
    by (simp add: GetAllMatchClientV2_def foldl_concat_map)
  have d: "distinct (alist_keys ?m)" by (rule distinct_aggClient_fold) simp
  have "concat (map snd (filter (\<lambda>e. fst e = c) ?es)) = center_matched t topic c" for c
  proof -
    have "concat (map snd (filter P (concat (map g xs)))) = concat (map (\<lambda>x. concat (map snd (filter P (g x)))) xs)"
      for P and g :: "SubCore \<Rightarrow> (string \<times> MatchedSubscription list) list" and xs
      by (induction xs) auto
    then show ?thesis by (simp add: center_matched_def matched_entries_of)
  qed
  then have get: "alist_get ?m c = (if center_matched t topic c = [] then None
      else Some (Max (insert 0 (ms_QoS ` set (center_matched t topic c))), center_matched t topic c))" for c
    by (simp add: aggClient_fold Let_def aggAppend_fold)
  have "cm \<in> set (GetAllMatchClientV2 t topic) \<longleftrightarrow> (cm_ClientID cm, (cm_MaxQoS cm, cm_Matched cm)) \<in> set ?m"
    unfolding m by (cases cm) (force simp: image_iff)
  also have "\<dots> \<longleftrightarrow> alist_get ?m (cm_ClientID cm) = Some (cm_MaxQoS cm, cm_Matched cm)"
    using alist_get_eq_Some_iff [OF d] by metis
  finally show "cm \<in> set (GetAllMatchClientV2 t topic) \<longleftrightarrow>
     center_matched t topic (cm_ClientID cm) \<noteq> [] \<and> cm_Matched cm = center_matched t topic (cm_ClientID cm) \<and>
     cm_MaxQoS cm = Max (insert 0 (ms_QoS ` set (cm_Matched cm)))"
    unfolding get by auto
  show "distinct (map cm_ClientID (GetAllMatchClientV2 t topic))"
    unfolding m using d by (simp add: split_def comp_def)
qed


lemma distinct_center_matched:
  assumes inv: "center_inv t" and topic: "validatePublishTopic topic = Inr ()"
    and share: "hd (SplitTopicLevels topic) \<noteq> ''$share''"
  shows "distinct (center_matched t topic c)"
proof -
  have d: "distinct (matched_for (shard_at t k) topic c)" for k
    using matchTopicClientV2_distinct [OF center_invD(1) [OF inv] share]
    by (auto simp: matched_for_def split: option.splits)
  have key: "shardKeyFromTopic (ms_TopicFilter m) = k" if m: "m \<in> set (matched_for (shard_at t k) topic c)" for m k
  proof -
    obtain opt where opt: "opt \<in> hits (shard_at t k) topic c" "m = matchedSubscriptionFromOption opt"
      using m unfolding set_matched_for by blast
    then obtain f where f: "subs (shard_at t k) c f = Some opt"
      using hits_iff [OF center_invD(1) [OF inv] topic] by blast
    then have "opt_Topic opt = f" using subs_topic [OF center_invD(1) [OF inv]] by blast
    then show ?thesis using f center_invD(2) [OF inv] opt(2) by (simp add: matchedSubscriptionFromOption_def)
  qed
  have "distinct (concat (map (\<lambda>s. matched_for s topic c) (List.map_filter (getShard t) ks))) \<and>
      (\<forall>m \<in> set (concat (map (\<lambda>s. matched_for s topic c) (List.map_filter (getShard t) ks))).
        shardKeyFromTopic (ms_TopicFilter m) \<in> set ks)"
    if "distinct ks" for ks
    using that
  proof (induction ks)
    case (Cons k ks)
    show ?case
    proof (cases "getShard t k")
      case (Some s)
      then have "shard_at t k = s" by (simp add: shard_at_def)
      then show ?thesis using Cons Some d [of k] key [of _ k] by (fastforce simp: map_filter_simps)
    qed (use Cons in \<open>auto simp: map_filter_simps\<close>)
  qed (simp add: map_filter_simps)
  then show ?thesis
    using shardKeysForMatch_valid(2) [OF topic] by (simp add: center_matched_def matchShards_def)
qed

lemma keepHigherQoS_fold:
  "(case alist_get (foldl keepHigherQoS [] es) c of
      None \<Rightarrow> \<forall>opt. (c, opt) \<notin> set es
    | Some best \<Rightarrow> (c, best) \<in> set es \<and> (\<forall>opt. (c, opt) \<in> set es \<longrightarrow> opt_QoS opt \<le> opt_QoS best))"
proof (induction es rule: rev_induct)
  case (snoc e es)
  obtain c' opt where e: "e = (c', opt)" by (cases e)
  have "alist_get (keepHigherQoS r (c', opt)) c =
     (if c \<noteq> c' then alist_get r c
      else case alist_get r c of None \<Rightarrow> Some opt | Some old \<Rightarrow> Some (if opt_QoS opt > opt_QoS old then opt else old))" for r
    by (auto simp: keepHigherQoS_def split: option.splits)
  then show ?case
    using snoc by (cases "c' = c") (force simp: e split: option.splits)+
qed simp

lemma GetAllMatchClient_best:
  assumes inv: "center_inv t"
  shows "case alist_get (GetAllMatchClient t topic) c of
      None \<Rightarrow> center_hits t topic c = {}
    | Some best \<Rightarrow> best \<in> center_hits t topic c \<and> (\<forall>opt \<in> center_hits t topic c. opt_QoS opt \<le> opt_QoS best)"
proof -
  let ?es = "concat (map (\<lambda>shard. matchTopicClient shard topic) (matchShards t topic))"
  have r: "GetAllMatchClient t topic = foldl keepHigherQoS [] ?es"
    by (simp add: GetAllMatchClient_def foldl_concat_map)
  have sinv: "sub_inv s" if "s \<in> set (matchShards t topic)" for s
    using that center_invD(1) [OF inv] shard_at_getShard unfolding in_matchShards by metis
  have d: "distinct (alist_keys (matchTopicClient s topic))" for s
    by (simp add: matchTopicClient_entries distinct_keys_mergeClient_fold)
  have in_es: "(c, opt) \<in> set ?es \<longleftrightarrow> (\<exists>s \<in> set (matchShards t topic). opt \<in> hits s topic c \<and>
      (\<forall>opt' \<in> hits s topic c. opt' \<noteq> opt \<longrightarrow> preferred opt opt'))" for opt
    using matchTopicClient_iff [OF sinv] alist_get_eq_Some_iff [OF d] by (auto; metis)
  have sub: "opt \<in> center_hits t topic c" if "(c, opt) \<in> set ?es" for opt
    using that unfolding in_es by (auto simp: center_hits_def)
  have dom: "\<exists>opt'. (c, opt') \<in> set ?es \<and> opt_QoS opt \<le> opt_QoS opt'" if opt: "opt \<in> center_hits t topic c" for opt
  proof -
    obtain s where s: "s \<in> set (matchShards t topic)" "opt \<in> hits s topic c" using opt by (auto simp: center_hits_def)
    note m = mergeClient_fold [where es = "matchedEntries s topic" and c = c, folded matchTopicClient_entries]
    obtain best where best: "alist_get (matchTopicClient s topic) c = Some best" "\<not> preferred opt best"
      using m s(2) by (auto simp: hits_def split: option.splits)
    have "(c, best) \<in> set ?es" using s(1) alist_get_Some_in [OF best(1)] by auto
    moreover have "opt_QoS opt \<le> opt_QoS best" using best(2) by (auto simp: preferred_def)
    ultimately show ?thesis by blast
  qed
  show ?thesis
    using keepHigherQoS_fold [where es = ?es and c = c] sub dom
    unfolding r [symmetric] by (auto split: option.splits) (blast intro: order_trans)+
qed

section \<open>Properties of the centre\<close>

lemma owner_after: "getOwnerToken (center_after reqs) = snd (spec_after_reqs reqs)"
  using center_after_refines [of reqs] by (simp add: abs_center_def prod_eq_iff)

text \<open>C10: the sharded centre with its client index and owner tokens implements the abstract map under every
  sequence of requests: the subscriptions it lists for a client and the owner it remembers are those of the
  specification, in which a subscribe request is refused when the client has another owner (and binds its token
  when there is none), and an unsubscribe or client removal with a token needs that token to be the owner's.\<close>

theorem center_refines_requests:
  "alist_get (GetClientSubscriptions (center_after reqs) c) f =
     (if c = [] then None else fst (spec_after_reqs reqs) c f) \<and>
   getOwnerToken (center_after reqs) = snd (spec_after_reqs reqs)"
  using GetClientSubscriptions_get [OF center_inv_after, of c reqs f]
  by (cases "c = []") (simp_all add: GetClientSubscriptions_def owner_after center_subs_after)

text \<open>C11: matching over the shards selected by the first level of the topic loses nothing and repeats nothing:
  the response has one entry per client that has a stored filter matching the topic, its list holds exactly the
  matching subscriptions of that client (each once, unless the topic starts with \<open>$share\<close>), and its QoS is the
  maximum of theirs.\<close>

theorem center_match_complete:
  assumes "validatePublishTopic topic = Inr ()"
  shows "distinct (map cm_ClientID (GetAllMatchClientV2 (center_after reqs) topic)) \<and>
    (\<forall>c. c \<in> cm_ClientID ` set (GetAllMatchClientV2 (center_after reqs) topic) \<longleftrightarrow>
      (\<exists>f opt. fst (spec_after_reqs reqs) c f = Some opt \<and> sub_covers f topic)) \<and>
    (\<forall>m \<in> set (GetAllMatchClientV2 (center_after reqs) topic).
      set (cm_Matched m) = matchedSubscriptionFromOption `
        {opt. \<exists>f. fst (spec_after_reqs reqs) (cm_ClientID m) f = Some opt \<and> sub_covers f topic} \<and>
      cm_MaxQoS m = Max (insert 0 (ms_QoS ` set (cm_Matched m))) \<and>
      (hd (SplitTopicLevels topic) \<noteq> ''$share'' \<longrightarrow> distinct (cm_Matched m)))"
proof -
  let ?t = "center_after reqs"
  have set: "set (center_matched ?t topic c) = matchedSubscriptionFromOption `
      {opt. \<exists>f. fst (spec_after_reqs reqs) c f = Some opt \<and> sub_covers f topic}" for c
    by (simp add: set_center_matched center_hits_iff [OF center_inv_after assms] center_subs_after)
  have "c \<in> cm_ClientID ` set (GetAllMatchClientV2 ?t topic) \<longleftrightarrow> center_matched ?t topic c \<noteq> []" for c
  proof
    assume "center_matched ?t topic c \<noteq> []"
    then have "\<lparr>cm_ClientID = c, cm_MaxQoS = Max (insert 0 (ms_QoS ` set (center_matched ?t topic c))),
        cm_Matched = center_matched ?t topic c\<rparr> \<in> set (GetAllMatchClientV2 ?t topic)"
      by (subst GetAllMatchClientV2_iff) simp
    then show "c \<in> cm_ClientID ` set (GetAllMatchClientV2 ?t topic)" by force
  qed (auto simp: GetAllMatchClientV2_iff)
  moreover have "center_matched ?t topic c \<noteq> [] \<longleftrightarrow>
      (\<exists>f opt. fst (spec_after_reqs reqs) c f = Some opt \<and> sub_covers f topic)" for c
    unfolding set_empty [symmetric] set by blast
  ultimately show ?thesis
    using distinct_GetAllMatchClientV2 set distinct_center_matched [OF center_inv_after assms]
    by (auto simp: GetAllMatchClientV2_iff)
qed

text \<open>C12: the folded match returns for a client one of its matching subscriptions, and none of the others has a
  higher QoS; a client without a match is absent.\<close>

theorem center_folded_match_qos:
  assumes "validatePublishTopic topic = Inr ()"
  shows "case alist_get (GetAllMatchClient (center_after reqs) topic) c of
      None \<Rightarrow> \<forall>f opt. fst (spec_after_reqs reqs) c f = Some opt \<longrightarrow> \<not> sub_covers f topic
    | Some best \<Rightarrow> (\<exists>f. fst (spec_after_reqs reqs) c f = Some best \<and> sub_covers f topic) \<and>
        (\<forall>f opt. fst (spec_after_reqs reqs) c f = Some opt \<longrightarrow> sub_covers f topic \<longrightarrow> opt_QoS opt \<le> opt_QoS best)"
  using GetAllMatchClient_best [OF center_inv_after, of reqs topic c]
  unfolding center_hits_iff [OF center_inv_after assms] center_subs_after
  by (auto split: option.splits)

text \<open>Requests by another owner than the one of the client: they carry a token, and it is another one.\<close>

fun foreign_req :: "string \<Rightarrow> string \<Rightarrow> SubReq \<Rightarrow> bool" where
  "foreign_req c tok (RCreate r) = (sreq_ClientID r = c \<longrightarrow> sreq_OwnerToken r \<notin> {[], tok})"
| "foreign_req c tok (RDelete r) = (ureq_ClientID r = c \<longrightarrow> ureq_OwnerToken r \<notin> {[], tok})"
| "foreign_req c tok (RTopic f) = False"
| "foreign_req c tok (RClient r) = (dreq_ClientID r = c \<longrightarrow> dreq_OwnerToken r \<notin> {[], tok})"
| "foreign_req c tok (ROwner c' tok') = (c' \<noteq> c)"

lemma spec_step_other:
  "c \<noteq> c' \<Longrightarrow> foldl spec_step m (map (SubPut c') opts) c = m c"
  "c \<noteq> c' \<Longrightarrow> foldl spec_step m (map (SubDel c') fs) c = m c"
proof -
  show "c \<noteq> c' \<Longrightarrow> foldl spec_step m (map (SubPut c') opts) c = m c"
    by (induction opts arbitrary: m) auto
  show "c \<noteq> c' \<Longrightarrow> foldl spec_step m (map (SubDel c') fs) c = m c"
    by (induction fs arbitrary: m) auto
qed

lemma foreign_req_frame:
  assumes "foreign_req c tok r" "own c = tok" "tok \<noteq> []"
  shows "fst (spec_req (m, own) r) c = m c \<and> snd (spec_req (m, own) r) c = tok"
proof (cases r)
  case (RDelete q)
  then show ?thesis
    using assms by (cases "ureq_ClientID q = c") (auto simp: Let_def spec_step_other)
qed (use assms in \<open>auto simp: Let_def spec_step_other\<close>)

lemma foreign_reqs_frame:
  assumes "\<forall>r \<in> set later. foreign_req c tok r" "snd s c = tok" "tok \<noteq> []"
  shows "fst (foldl spec_req s later) c = fst s c \<and> snd (foldl spec_req s later) c = tok"
  using assms
proof (induction later arbitrary: s)
  case (Cons r later)
  then have "fst (spec_req s r) c = fst s c \<and> snd (spec_req s r) c = tok"
    using foreign_req_frame [of c tok r "snd s" "fst s"] by simp
  then show ?case using Cons by simp
qed simp

text \<open>C13: fencing. Once a client has an owner token, no sequence of requests that carry other tokens for that
  client, interleaved with any requests for other clients, changes its subscriptions or its owner.\<close>

theorem stale_owner_harmless:
  assumes "getOwnerToken (center_after reqs) c = tok" "tok \<noteq> []" "\<forall>r \<in> set later. foreign_req c tok r"
  shows "alist_get (GetClientSubscriptions (center_after (reqs @ later)) c) f =
      alist_get (GetClientSubscriptions (center_after reqs) c) f \<and>
    getOwnerToken (center_after (reqs @ later)) c = tok"
proof -
  have c: "c \<noteq> []" using assms(1,2) by (auto simp: getOwnerToken_def)
  have "spec_after_reqs (reqs @ later) = foldl spec_req (spec_after_reqs reqs) later"
    by (simp add: spec_after_reqs_def)
  then show ?thesis
    using foreign_reqs_frame [OF assms(3) _ assms(2), of "spec_after_reqs reqs"] assms(1)
    by (simp add: GetClientSubscriptions_get [OF center_inv_after c] center_subs_after owner_after)
qed

text \<open>Response codes: a subscribe request answers every filter with the QoS stored for it or with -1 when the
  filter is rejected; an unsubscribe request answers success exactly for the filters that were subscribed.\<close>

lemma CreateSub_loop_codes:
  assumes "center_inv t"
  shows "(\<forall>f. alist_get (fst (snd (CreateSub_loop c opts t r e))) f =
      (case find (\<lambda>opt. opt_Topic opt = f) (rev opts) of
         None \<Rightarrow> alist_get r f
       | Some opt \<Rightarrow> Some (if valid_filter f then opt_QoS opt else -1))) \<and>
    length (snd (snd (CreateSub_loop c opts t r e))) =
      length e + length (filter (\<lambda>opt. \<not> valid_filter (opt_Topic opt)) opts)"
  using assms
proof (induction opts arbitrary: t r e)
  case (Cons opt opts)
  note one = CreateSub_one_facts [OF Cons.prems, of c opt]
  obtain t' res where t': "CreateSub_one c opt t = (t', res)" by (cases "CreateSub_one c opt t")
  have inv: "center_inv t'" using one(2) t' by simp
  have find: "find P (xs @ [x]) = (case find P xs of None \<Rightarrow> (if P x then Some x else None) | Some y \<Rightarrow> Some y)"
    for P and x :: SubOption and xs
    by (induction xs) auto
  show ?case
  proof (cases res)
    case None
    then have "valid_filter (opt_Topic opt)" using one(3) t' by simp
    then show ?thesis
      using Cons.IH [OF inv] t' None by (auto simp: find split: option.splits)
  next
    case (Some err)
    then have "\<not> valid_filter (opt_Topic opt)" using one(3) t' by simp
    then show ?thesis
      using Cons.IH [OF inv] t' Some by (auto simp: find split: option.splits)
  qed
qed simp

lemma DeleteSub_loop_codes:
  assumes "center_inv t"
  shows "distinct fs \<Longrightarrow>
    snd (DeleteSub_loop c fs t r) = r @ map (\<lambda>f. if center_subs t c f = None then 0x11 else 0) fs"
  using assms
proof (induction fs arbitrary: t r)
  case (Cons f fs)
  note one = DeleteSub_one_facts [OF Cons.prems(2), of c f]
  obtain t' code where t': "DeleteSub_one c f t = (t', code)" by (cases "DeleteSub_one c f t")
  have "center_subs t' c f' = center_subs t c f'" if "f' \<noteq> f" for f'
    using one(1) t' that by (simp add: center_subs_def)
  then have "center_subs t' c x = center_subs t c x" if "x \<in> set fs" for x
    using Cons.prems(1) that by (metis distinct.simps(2))
  then have "map (\<lambda>f. if center_subs t' c f = None then 0x11 else 0) fs =
      map (\<lambda>f. if center_subs t c f = None then (0x11::int) else 0) fs"
    by simp
  then show ?case
    using Cons.IH [of t' "r @ [code]"] Cons.prems one(2,3) t' by auto
qed simp


text \<open>Concrete requests on which the theorems are applied.\<close>

definition wit_reqs :: "SubReq list" where
  "wit_reqs =
     [RCreate \<lparr>sreq_Topics = [mk_opt ''a/+'' 1, mk_opt ''#'' 0, mk_opt ''a#'' 2], sreq_ClientID = ''c'', sreq_OwnerToken = ''t1''\<rparr>,
      RCreate \<lparr>sreq_Topics = [mk_opt ''x'' 1], sreq_ClientID = ''c'', sreq_OwnerToken = ''t2''\<rparr>]"

lemma spec_wit_reqs:
  "spec_after_reqs wit_reqs =
     (\<lambda>c f. if c = ''c'' \<and> f = ''a/+'' then Some (mk_opt ''a/+'' 1)
            else if c = ''c'' \<and> f = ''#'' then Some (mk_opt ''#'' 0) else None,
      \<lambda>c. if c = ''c'' then ''t1'' else [])"
  by (auto simp: spec_after_reqs_def wit_reqs_def eval_simps Let_def fun_eq_iff)

lemma spec_wit_reqs_iff:
  "fst (spec_after_reqs wit_reqs) c f = Some opt \<longleftrightarrow>
     c = ''c'' \<and> (f = ''a/+'' \<and> opt = mk_opt ''a/+'' 1 \<or> f = ''#'' \<and> opt = mk_opt ''#'' 0)"
  by (simp add: spec_wit_reqs eq_commute [of opt])

lemma wit_center_covers: "sub_covers ''a/+'' ''a/b''" "sub_covers ''#'' ''a/b''"
  by (simp_all add: eval_simps)

lemma wit_owner: "getOwnerToken (center_after wit_reqs) ''c'' = ''t1''"
  by (simp add: owner_after spec_wit_reqs)

theorem center_match_complete_witness:
  "cm_ClientID ` set (GetAllMatchClientV2 (center_after wit_reqs) ''a/b'') = {''c''}"
proof -
  have "(\<exists>f opt. fst (spec_after_reqs wit_reqs) c f = Some opt \<and> sub_covers f ''a/b'') \<longleftrightarrow> c = ''c''" for c
    unfolding spec_wit_reqs_iff using wit_center_covers by blast
  then have "c \<in> cm_ClientID ` set (GetAllMatchClientV2 (center_after wit_reqs) ''a/b'') \<longleftrightarrow> c = ''c''" for c
    using spec [OF conjunct1 [OF conjunct2 [OF center_match_complete [OF wit_covers(1), of wit_reqs]]], of c] by simp
  then show ?thesis by (intro set_eqI) (simp only: singleton_iff)
qed

theorem center_folded_match_qos_witness:
  "\<exists>best. alist_get (GetAllMatchClient (center_after wit_reqs) ''a/b'') ''c'' = Some best \<and> opt_QoS best \<ge> 1"
proof -
  note t = center_folded_match_qos [OF wit_covers(1), of wit_reqs "''c''", unfolded spec_wit_reqs_iff]
  show ?thesis
  proof (cases "alist_get (GetAllMatchClient (center_after wit_reqs) ''a/b'') ''c''")
    case None
    then have "\<not> sub_covers ''a/+'' ''a/b''" using t by simp
    then show ?thesis using wit_center_covers(1) by simp
  next
    case (Some best)
    then have "opt_QoS (mk_opt ''a/+'' 1) \<le> opt_QoS best" using t wit_center_covers(1) by auto
    then show ?thesis using Some by simp
  qed
qed

theorem stale_owner_harmless_witness:
  "alist_get (GetClientSubscriptions (center_after (wit_reqs @
      [RClient \<lparr>dreq_ClientID = ''c'', dreq_OwnerToken = ''t2''\<rparr>, RClient \<lparr>dreq_ClientID = ''d'', dreq_OwnerToken = []\<rparr>])) ''c'') ''#'' =
     alist_get (GetClientSubscriptions (center_after wit_reqs) ''c'') ''#''"
  using stale_owner_harmless [OF wit_owner, of "[RClient \<lparr>dreq_ClientID = ''c'', dreq_OwnerToken = ''t2''\<rparr>,
    RClient \<lparr>dreq_ClientID = ''d'', dreq_OwnerToken = []\<rparr>]" "''#''"] by simp


end
