(* ===== verification/Sub_Views.thy ===== *)
theory Sub_Views
  imports Prelude Topic_Filter Sub_Trie Sub_Center
begin

text \<open>
  The views of the subscription centre: the subtree shown to operators (\<open>subtree.go\<close>), the members of a share
  group (\<open>shared_subscription.go\<close>) and the snapshot (\<open>snapshot.go\<close>). The protobuf library that turns the snapshot
  message into bytes is a pair of parameters; what the code relies on is that reading returns the message
  written, where an empty map comes back as nil.
\<close>

section \<open>Share groups\<close>

record ShareGroupMember =
  sgm_ClientID :: string
  sgm_TopicFilter :: string

definition isSharedSubscription :: "string \<Rightarrow> bool" where
  "isSharedSubscription topicFilter = (length topicFilter > 7 \<and> take 7 topicFilter = ''$share/'')"

definition parseSharedSubscription :: "string \<Rightarrow> shareParseError + string \<times> string" where
  "parseSharedSubscription topicFilter =
     (if \<not> isSharedSubscription topicFilter then Inl (notSharedSubscription topicFilter)
      else
        (let withoutPrefix = drop 7 topicFilter
         in if withoutPrefix = [] then Inl missingShareName
            else
              (let parts = split_on CHR ''/'' withoutPrefix
               in if length parts < 2 then Inl missingTopicFilter
                  else
                    (let shareGroup = parts ! 0
                     in if shareGroup = [] then Inl emptyShareName
                        else if contains_wildcard shareGroup then Inl shareNameWildcard
                        else
                          (let actualTopicFilter = join_on CHR ''/'' (drop 1 parts)
                           in if actualTopicFilter = [] then Inl emptyTopicFilter
                              else Inr (shareGroup, actualTopicFilter))))))"

text \<open>The body of the innermost loop: one subscription of one client.\<close>

definition addMember ::
  "string \<Rightarrow> string \<Rightarrow> (string \<times> ShareGroupMember) list \<Rightarrow> string \<times> SubOption \<Rightarrow> (string \<times> ShareGroupMember) list" where
  "addMember shareGroup clientID memberMap ts =
     (if \<not> isSharedSubscription (fst ts) then memberMap
      else
        (case parseSharedSubscription (fst ts) of
           Inl err \<Rightarrow> memberMap
         | Inr (parsedShareGroup, actualTopicFilter) \<Rightarrow>
             (if parsedShareGroup \<noteq> shareGroup then memberMap
              else
                (let key = clientID @ ''|'' @ actualTopicFilter
                 in case alist_get memberMap key of
                      Some _ \<Rightarrow> memberMap
                    | None \<Rightarrow>
                        alist_set key \<lparr>sgm_ClientID = clientID, sgm_TopicFilter = actualTopicFilter\<rparr> memberMap))))"

definition shareMemberMap :: "string \<Rightarrow> MemorySubCenter \<Rightarrow> (string \<times> ShareGroupMember) list" where
  "shareMemberMap shareGroup t =
     foldl (\<lambda>m (k, shard).
       foldl (\<lambda>m (clientID, subTopics). foldl (addMember shareGroup clientID) m subTopics) m (sc_clients shard))
       [] (msc_shards t)"

definition GetShareGroupMembers :: "string \<Rightarrow> MemorySubCenter \<Rightarrow> ShareGroupMember list" where
  "GetShareGroupMembers shareGroup t =
     (if shareGroup = [] then []
      else sort_key (\<lambda>m. (sgm_ClientID m, sgm_TopicFilter m)) (map snd (shareMemberMap shareGroup t)))"

section \<open>The subtree view\<close>

definition cloneMergedSubOption :: "SubOption \<Rightarrow> SubOption" where
  "cloneMergedSubOption opt =
     \<lparr>opt_QoS = opt_QoS opt, opt_RetainAsPublished = opt_RetainAsPublished opt, opt_Topic = opt_Topic opt,
      opt_NoLocal = False, opt_RetainHandling = 0, opt_SubscriptionIdentifier = 0\<rparr>"

definition lastTopicSection :: "string \<Rightarrow> string" where
  "lastTopicSection topic =
     (let levels = SplitTopicLevels topic
      in if length levels = 0 then ''/'' else if last levels = [] then ''/'' else last levels)"

definition emptyTreeNode :: "string \<Rightarrow> TreeNode" where
  "emptyTreeNode topic = TreeNode (lastTopicSection topic) topic [] (Some []) []"

fun cloneNodeLimited :: "TreeNode \<Rightarrow> nat \<Rightarrow> TreeNode" where
  "cloneNodeLimited n 0 =
     TreeNode (tn_TopicSection n) (tn_Topic n) (map (\<lambda>(k, v). (k, cloneMergedSubOption v)) (tn_Client n))
       (Some []) (tn_ClusterSub n)"
| "cloneNodeLimited n (Suc maxDepth) =
     TreeNode (tn_TopicSection n) (tn_Topic n) (map (\<lambda>(k, v). (k, cloneMergedSubOption v)) (tn_Client n))
       (Some (map (\<lambda>(k, child). (k, cloneNodeLimited child maxDepth)) (tn_ChildNode n))) (tn_ClusterSub n)"

definition mergeTreeClients :: "(string \<times> SubOption) list \<Rightarrow> (string \<times> SubOption) list \<Rightarrow> (string \<times> SubOption) list" where
  "mergeTreeClients dst src =
     foldl (\<lambda>d (clientID, opt).
       case alist_get d clientID of
         None \<Rightarrow> alist_set clientID (cloneMergedSubOption opt) d
       | Some old \<Rightarrow> if opt_QoS opt > opt_QoS old then alist_set clientID (cloneMergedSubOption opt) d else d)
       dst src"

definition mergeTreeClusterSubs :: "(string \<times> int) list \<Rightarrow> (string \<times> int) list \<Rightarrow> (string \<times> int) list" where
  "mergeTreeClusterSubs dst src =
     foldl (\<lambda>d (k, v).
       case alist_get d k of None \<Rightarrow> alist_set k v d | Some old \<Rightarrow> if v > old then alist_set k v d else d)
       dst src"

fun mergeTreeNode :: "TreeNode \<Rightarrow> TreeNode \<Rightarrow> TreeNode" where
  "mergeTreeNode dst (TreeNode section topic clients children clusterSub) =
     TreeNode
       (if tn_TopicSection dst = [] \<and> section \<noteq> [] then section else tn_TopicSection dst)
       (if tn_Topic dst = [] \<and> topic \<noteq> [] then topic else tn_Topic dst)
       (mergeTreeClients (tn_Client dst) clients)
       (Some (foldl (\<lambda>d (k, child).
          case alist_get d k of
            Some existing \<Rightarrow> alist_set k (mergeTreeNode existing child) d
          | None \<Rightarrow> alist_set k child d)
          (tn_ChildNode dst) (case children of None \<Rightarrow> [] | Some ch \<Rightarrow> ch)))
       (mergeTreeClusterSubs (tn_ClusterSub dst) clusterSub)"

definition GetSubTree :: "string \<Rightarrow> int \<Rightarrow> MemorySubCenter \<Rightarrow> TreeNode" where
  "GetSubTree topic maxDepth t =
     (let topic = (if topic = [] then ''/'' else topic);
          maxDepth = (if maxDepth \<le> 0 then 8 else maxDepth)
      in if topic = ''/'' then
           foldl (\<lambda>virtualRoot (k, shard).
             mergeTreeNode virtualRoot (cloneNodeLimited (sc_root shard) (nat maxDepth)))
             (TreeNode ''/'' ''/'' [] (Some []) []) (msc_shards t)
         else
           (case getShard t (shardKeyFromTopic topic) of
              None \<Rightarrow> emptyTreeNode topic
            | Some shard \<Rightarrow>
                (case lookupPath (sc_root shard) (SplitTopicLevels topic) of
                   None \<Rightarrow> emptyTreeNode topic
                 | Some node \<Rightarrow> cloneNodeLimited node (nat maxDepth))))"

section \<open>Snapshots\<close>

record ClusterSub =
  cls_Cluster :: "(string \<times> SubCoreProto option) list"
  cls_ClientOwnerTokens :: "(string \<times> string) list option"

text \<open>\<open>sort.Strings\<close> fixes the order in which the shards are locked and put into the message.\<close>

definition snapshotOf :: "MemorySubCenter \<Rightarrow> ClusterSub" where
  "snapshotOf t =
     (let keys = sort (alist_keys (msc_shards t))
      in \<lparr>cls_Cluster =
            foldl (\<lambda>m k. case getShard t k of
                           None \<Rightarrow> m
                         | Some shard \<Rightarrow>
                             alist_set k (Some \<lparr>scp_Root = Some (Some (sc_root shard)), scp_Clients = Some (sc_clients shard)\<rparr>) m)
              [] keys,
          cls_ClientOwnerTokens = Some (copyOwnerTokens t)\<rparr>)"

definition WriteSnapshot :: "(ClusterSub \<Rightarrow> 'e + 'd) \<Rightarrow> MemorySubCenter \<Rightarrow> 'e + 'd" where
  "WriteSnapshot marshal t = marshal (snapshotOf t)"

definition recoverFrom :: "ClusterSub \<Rightarrow> MemorySubCenter" where
  "recoverFrom clusterSub =
     rebuildClientIndexFromShards
       \<lparr>msc_shards = foldl (\<lambda>m (k, v). alist_set k (NewSubCoreFromProto v) m) [] (cls_Cluster clusterSub),
        msc_index = [],
        msc_clientOwnerTokens =
          (case cls_ClientOwnerTokens clusterSub of
             None \<Rightarrow> []
           | Some tokens \<Rightarrow> foldl (\<lambda>m (k, v). alist_set k v m) [] tokens)\<rparr>"

definition RecoverSnapshot :: "('d \<Rightarrow> 'e + ClusterSub) \<Rightarrow> 'd \<Rightarrow> MemorySubCenter \<Rightarrow> ('e + unit) \<times> MemorySubCenter" where
  "RecoverSnapshot unmarshal data t =
     (case unmarshal data of
        Inl err \<Rightarrow> (Inl err, t)
      | Inr clusterSub \<Rightarrow> (Inr (), recoverFrom clusterSub))"

section \<open>What a snapshot keeps\<close>

text \<open>The message as the library reads it back: maps without an entry are nil.\<close>

fun norm_node :: "TreeNode \<Rightarrow> TreeNode" where
  "norm_node (TreeNode section topic clients children clusterSub) =
     TreeNode section topic clients
       (case children of
          None \<Rightarrow> None
        | Some ch \<Rightarrow> if ch = [] then None else Some (map (\<lambda>(k, n). (k, norm_node n)) ch))
       clusterSub"

definition norm_core :: "SubCoreProto \<Rightarrow> SubCoreProto" where
  "norm_core core =
     \<lparr>scp_Root = map_option (map_option norm_node) (scp_Root core),
      scp_Clients = (if scp_Clients core = Some [] then None else scp_Clients core)\<rparr>"

definition norm_cluster :: "ClusterSub \<Rightarrow> ClusterSub" where
  "norm_cluster m =
     \<lparr>cls_Cluster = map (\<lambda>(k, v). (k, map_option norm_core v)) (cls_Cluster m),
      cls_ClientOwnerTokens = (if cls_ClientOwnerTokens m = Some [] then None else cls_ClientOwnerTokens m)\<rparr>"

definition norm_shard :: "SubCore \<Rightarrow> SubCore" where
  "norm_shard s = \<lparr>sc_root = norm_node (sc_root s), sc_clients = sc_clients s\<rparr>"

lemma norm_node_sel [simp]:
  "tn_Client (norm_node n) = tn_Client n"
  "tn_Topic (norm_node n) = tn_Topic n"
  "tn_ChildNode (norm_node n) = map (\<lambda>(k, n). (k, norm_node n)) (tn_ChildNode n)"
  by (cases n; simp add: tn_ChildNode_def split: option.splits)+

lemma alist_get_map_snd: "alist_get (map (\<lambda>(k, v). (k, g v)) m) k = map_option g (alist_get m k)"
  by (induction m) auto

lemma fst_map_snd [simp]: "fst \<circ> (\<lambda>(k, v). (k, g v)) = fst"
  by auto

lemma lookupPath_norm: "lookupPath (norm_node n) p = map_option norm_node (lookupPath n p)"
  by (induction p arbitrary: n) (auto simp: alist_get_map_snd split: option.splits)

lemma node_norm [simp]:
  "node_clients (norm_node n) p = node_clients n p"
  "node_topic (norm_node n) p = node_topic n p"
  by (simp_all add: node_clients_def node_topic_def lookupPath_norm split: option.splits)

lemma norm_shard_facts:
  "sub_inv s \<Longrightarrow> sub_inv (norm_shard s)" "subs (norm_shard s) = subs s" "topicsOf (norm_shard s) = topicsOf s"
proof -
  show t: "topicsOf (norm_shard s) = topicsOf s" by (simp add: topicsOf_def [abs_def] norm_shard_def)
  then show u: "subs (norm_shard s) = subs s" by (simp add: subs_def [abs_def])
  assume inv: "sub_inv s"
  then have "tree_wf (norm_node (sc_root s))"
    by (auto simp: sub_inv_def tree_wf_def lookupPath_norm)
  moreover have "topics_wf (norm_node (sc_root s))"
    using inv by (simp add: sub_inv_def topics_wf_def)
  ultimately show "sub_inv (norm_shard s)"
    using inv unfolding sub_inv_def u by (simp add: norm_shard_def)
qed

lemma NewSubCoreFromProto_norm:
  "NewSubCoreFromProto (Some (norm_core \<lparr>scp_Root = Some (Some (sc_root s)), scp_Clients = Some (sc_clients s)\<rparr>)) =
     norm_shard s"
  by (simp add: NewSubCoreFromProto_def norm_core_def norm_shard_def Let_def)

lemma foldl_alist_set_map:
  "distinct (alist_keys m) \<Longrightarrow> alist_get (foldl (\<lambda>r (k, v). alist_set k (g v) r) [] m) k = map_option g (alist_get m k)"
proof -
  have "alist_get (foldl (\<lambda>r (k, v). alist_set k (g v) r) r m) k =
      (case alist_get m k of None \<Rightarrow> alist_get r k | Some v \<Rightarrow> Some (g v))"
    if "distinct (alist_keys m)" for r
    using that
  proof (induction m arbitrary: r)
    case (Cons a m)
    then have "alist_get m (fst a) = None" by (auto simp: alist_get_None_iff)
    then show ?case using Cons by (cases a) (auto split: option.splits)
  qed simp
  then show "distinct (alist_keys m) \<Longrightarrow> ?thesis" by (simp split: option.splits)
qed

lemma distinct_foldl_alist_set:
  "distinct (alist_keys r) \<Longrightarrow> distinct (alist_keys (foldl (\<lambda>r (k, v). alist_set k (g v) r) r m))"
  by (induction m arbitrary: r) (auto split: prod.splits)

lemma snapshot_shards:
  "distinct (alist_keys (cls_Cluster (snapshotOf t)))"
  "alist_get (cls_Cluster (snapshotOf t)) k =
     map_option (\<lambda>s. Some \<lparr>scp_Root = Some (Some (sc_root s)), scp_Clients = Some (sc_clients s)\<rparr>) (getShard t k)"
proof -
  let ?f = "\<lambda>s. Some \<lparr>scp_Root = Some (Some (sc_root s)), scp_Clients = Some (sc_clients s)\<rparr>"
  let ?step = "\<lambda>m k. case getShard t k of None \<Rightarrow> m | Some s \<Rightarrow> alist_set k (?f s) m"
  have "distinct (alist_keys m) \<Longrightarrow> distinct (alist_keys (foldl ?step m ks))" for m ks
    by (induction ks arbitrary: m) (auto split: option.splits)
  then show "distinct (alist_keys (cls_Cluster (snapshotOf t)))" by (simp add: snapshotOf_def)
  have "alist_get (foldl ?step m ks) k =
      (if k \<in> set ks \<and> getShard t k \<noteq> None then map_option ?f (getShard t k) else alist_get m k)" for m ks
    by (induction ks arbitrary: m) (auto split: option.splits)
  moreover have "k \<in> set (alist_keys (msc_shards t))" if "getShard t k \<noteq> None"
    using that alist_get_None_iff [of "msc_shards t" k] by (auto simp: getShard_def)
  ultimately show "alist_get (cls_Cluster (snapshotOf t)) k = map_option ?f (getShard t k)"
    by (cases "getShard t k") (auto simp: snapshotOf_def)
qed

section \<open>Rebuilding the client index\<close>

lemma index_add_fold:
  assumes "distinct (alist_keys cs)" "index_pos i"
  shows "index_pos (foldl (index_add k) i cs) \<and>
    shardCount (foldl (index_add k) i cs) c k' = shardCount i c k' +
      (if k' = k then int (length (case alist_get cs c of None \<Rightarrow> [] | Some ts \<Rightarrow> ts)) else 0)"
  using assms
proof (induction cs arbitrary: i)
  case (Cons a cs)
  obtain d ts where a: "a = (d, ts)" by (cases a)
  have none: "alist_get cs d = None" using Cons.prems(1) a by (auto simp: alist_get_None_iff)
  have "shardCount (index_add k i a) c k' = shardCount i c k' + (if c = d \<and> k' = k then int (length ts) else 0)" for c k'
    by (simp add: a index_add_def shardCount_def Let_def)
  moreover have "index_pos (index_add k i a)"
    using Cons.prems(2) by (fastforce simp: a index_add_def index_pos_def shardCount_def Let_def split: option.splits)
  ultimately show ?case
    using Cons.IH [of "index_add k i a"] Cons.prems(1) none a by (auto split: option.splits)
qed simp

lemma rebuild_counts:
  assumes "distinct (alist_keys ss)" "\<And>k s. (k, s) \<in> set ss \<Longrightarrow> distinct (alist_keys (sc_clients s))" "index_pos i"
  shows "index_pos (foldl (\<lambda>i (k, s). foldl (index_add k) i (sc_clients s)) i ss) \<and>
    shardCount (foldl (\<lambda>i (k, s). foldl (index_add k) i (sc_clients s)) i ss) c k' = shardCount i c k' +
      (case alist_get ss k' of None \<Rightarrow> 0 | Some s \<Rightarrow> int (length (topicsOf s c)))"
  using assms
proof (induction ss arbitrary: i)
  case (Cons a ss)
  obtain k s where a: "a = (k, s)" by (cases a)
  have none: "alist_get ss k = None" using Cons.prems(1) a by (auto simp: alist_get_None_iff)
  have d: "distinct (alist_keys (sc_clients s))" using Cons.prems(2) [of k s] a by simp
  note add = index_add_fold [OF d Cons.prems(3)]
  let ?i = "foldl (index_add k) i (sc_clients s)"
  have "index_pos (foldl (\<lambda>i (k, s). foldl (index_add k) i (sc_clients s)) ?i ss) \<and>
    shardCount (foldl (\<lambda>i (k, s). foldl (index_add k) i (sc_clients s)) ?i ss) c k' = shardCount ?i c k' +
      (case alist_get ss k' of None \<Rightarrow> 0 | Some s \<Rightarrow> int (length (topicsOf s c)))"
    by (rule Cons.IH) (use Cons.prems add in auto)
  then show ?case
    using add [of k c k'] none a by (cases "k' = k") (simp_all add: topicsOf_def)
qed simp

section \<open>Recovery\<close>

lemma recover_shard:
  assumes "center_inv t"
  shows "getShard (recoverFrom (norm_cluster (snapshotOf t))) k = map_option norm_shard (getShard t k)"
    "distinct (alist_keys (msc_shards (recoverFrom (norm_cluster (snapshotOf t)))))"
proof -
  let ?m = "cls_Cluster (norm_cluster (snapshotOf t))"
  have d: "distinct (alist_keys ?m)" using snapshot_shards(1) by (simp add: norm_cluster_def)
  have shards: "msc_shards (recoverFrom (norm_cluster (snapshotOf t))) =
      foldl (\<lambda>m (k, v). alist_set k (NewSubCoreFromProto v) m) [] ?m"
    by (simp add: recoverFrom_def rebuildClientIndexFromShards_def)
  show "getShard (recoverFrom (norm_cluster (snapshotOf t))) k = map_option norm_shard (getShard t k)"
    unfolding getShard_def shards foldl_alist_set_map [OF d]
    by (cases "getShard t k")
      (simp_all add: norm_cluster_def alist_get_map_snd snapshot_shards(2) NewSubCoreFromProto_norm getShard_def)
  show "distinct (alist_keys (msc_shards (recoverFrom (norm_cluster (snapshotOf t)))))"
    unfolding shards by (rule distinct_foldl_alist_set) simp
qed

lemma NewSubCore_norm: "norm_shard NewSubCore = \<lparr>sc_root = TreeNode ''/'' ''/'' [] None [], sc_clients = []\<rparr>"
  by (simp add: norm_shard_def NewSubCore_def)

lemma recover_tokens:
  assumes "distinct (alist_keys (msc_clientOwnerTokens t))"
  shows "getOwnerToken (recoverFrom (norm_cluster (snapshotOf t))) = getOwnerToken t"
proof -
  have copy: "alist_get (copyOwnerTokens t) k = alist_get (msc_clientOwnerTokens t) k" "distinct (alist_keys (copyOwnerTokens t))" for k
    using foldl_alist_set_get [OF assms, of "[]" k] distinct_foldl_alist_set [of "[]" "\<lambda>v. v" "msc_clientOwnerTokens t"]
    by (simp_all add: copyOwnerTokens_def split: option.splits)
  have "alist_get (foldl (\<lambda>m (k, v). alist_set k v m) [] (copyOwnerTokens t)) k = alist_get (msc_clientOwnerTokens t) k" for k
    using foldl_alist_set_get [OF copy(2), of "[]" k] copy(1) by (simp split: option.splits)
  moreover have "alist_get (msc_clientOwnerTokens t) k = None" if "copyOwnerTokens t = []" for k
    using copy(1) [of k] that by simp
  ultimately show ?thesis
    by (auto simp: getOwnerToken_def [abs_def] recoverFrom_def norm_cluster_def snapshotOf_def Let_def
        rebuildClientIndexFromShards_def)
qed

lemma recover_refines:
  assumes inv: "center_inv t" and tokens: "distinct (alist_keys (msc_clientOwnerTokens t))"
  defines "t' \<equiv> recoverFrom (norm_cluster (snapshotOf t))"
  shows "center_inv t' \<and> abs_center t' = abs_center t"
proof -
  note sh = recover_shard [OF inv, folded t'_def]
  have at: "sub_inv (shard_at t' k)" "subs (shard_at t' k) = subs (shard_at t k)"
      "topicsOf (shard_at t' k) = topicsOf (shard_at t k)" for k
    using center_invD(1) [OF inv, of k] norm_shard_facts sub_inv_NewSubCore
    by (cases "getShard t k"; simp add: shard_at_def sh(1))+
  have d: "distinct (alist_keys (sc_clients s))" if "(k, s) \<in> set (msc_shards t')" for k s
  proof -
    have "shard_at t' k = s"
      using that alist_get_eq_Some_iff [OF sh(2), of k s] by (simp add: shard_at_def getShard_def)
    then show ?thesis using at(1) [of k] by (simp add: sub_inv_def index_wf_def)
  qed
  have idx: "msc_index t' = foldl (\<lambda>i (k, s). foldl (index_add k) i (sc_clients s)) [] (msc_shards t')"
    by (simp add: t'_def recoverFrom_def rebuildClientIndexFromShards_def newClientShardIndex_def)
  have "index_pos []" by (simp add: index_pos_def)
  note cnt = rebuild_counts [OF sh(2) d this, folded idx]
  have "center_inv t'"
    unfolding center_inv_def
  proof (intro conjI allI impI)
    fix k c f opt
    show "shardCount (msc_index t') c k = int (length (topicsOf (shard_at t' k) c))"
      using cnt [where c = c and k' = k] by (auto simp: shard_at_def getShard_def shardCount_def split: option.splits)
    show "shardKeyFromTopic f = k" if "subs (shard_at t' k) c f = Some opt"
      using that center_invD(2) [OF inv] at(2) by metis
  qed (use sh(2) cnt at(1) in auto)
  moreover have "center_subs t' = center_subs t" by (simp add: center_subs_def [abs_def] at(2))
  ultimately show ?thesis
    using recover_tokens [OF tokens] by (simp add: abs_center_def t'_def)
qed

lemma distinct_tokens_setOwner:
  "distinct (alist_keys (msc_clientOwnerTokens t)) \<Longrightarrow>
     distinct (alist_keys (msc_clientOwnerTokens (setOwnerToken c token t)))"
  by (simp add: setOwnerToken_def)

lemma distinct_tokens_req:
  assumes inv: "center_inv t" and d: "distinct (alist_keys (msc_clientOwnerTokens t))"
  shows "distinct (alist_keys (msc_clientOwnerTokens (apply_req t r)))"
proof -
  have steps: "msc_clientOwnerTokens (foldl center_step t ops) = msc_clientOwnerTokens t" if "center_inv t" for t ops
    using that by (induction ops arbitrary: t) (auto simp: center_step_inv center_step_tokens)
  show ?thesis
  proof (cases r)
    case (RCreate q)
    define t0 where "t0 = (if sreq_OwnerToken q \<noteq> [] \<and> getOwnerToken t (sreq_ClientID q) = []
      then setOwnerToken (sreq_ClientID q) (sreq_OwnerToken q) t else t)"
    have "center_inv t0" "distinct (alist_keys (msc_clientOwnerTokens t0))"
      using inv d by (simp_all add: t0_def setOwnerToken_facts distinct_tokens_setOwner)
    then show ?thesis
      using d steps [of t0 "map (SubPut (sreq_ClientID q)) (sreq_Topics q)"]
        CreateSub_loop_state [of "sreq_ClientID q" "sreq_Topics q" t0 "[]" "[]"]
      by (auto simp: RCreate CreateSub_def Let_def split_beta t0_def)
  next
    case (RDelete q)
    then show ?thesis
      using d steps [OF inv, of "map (SubDel (ureq_ClientID q)) (ureq_Topics q)"]
        DeleteSub_loop_state [of "ureq_ClientID q" "ureq_Topics q" t "[]"]
      by (auto simp: DeleteSub_def split_beta)
  next
    case (RTopic f)
    then show ?thesis using d DeleteTopic_facts(3) [OF inv] by simp
  next
    case (RClient q)
    have "msc_clientOwnerTokens (snd (DeleteClient q t)) = msc_clientOwnerTokens t"
    proof (cases "dreq_OwnerToken q \<noteq> [] \<and> getOwnerToken t (dreq_ClientID q) \<noteq> dreq_OwnerToken q")
      case False
      then have "DeleteClient q t = DeleteClient \<lparr>dreq_ClientID = dreq_ClientID q, dreq_OwnerToken = []\<rparr> t"
        unfolding DeleteClient_def DeleteClientRequest.simps by auto
      then show ?thesis using center_step_tokens [OF inv, of "SubDropClient (dreq_ClientID q)"] by simp
    qed (auto simp: DeleteClient_def)
    then show ?thesis using d RClient by simp
  next
    case (ROwner c tok)
    then show ?thesis using d by (simp add: SetClientOwnerToken_def distinct_tokens_setOwner)
  qed
qed

lemma distinct_tokens_after: "distinct (alist_keys (msc_clientOwnerTokens (center_after reqs)))"
proof (induction reqs rule: rev_induct)
  case Nil
  show ?case by (simp add: center_after_def NewMemorySubCenter_def)
next
  case (snoc r reqs)
  then show ?case using distinct_tokens_req [OF center_inv_after] by (simp add: center_after_def)
qed

lemma apply_reqs_refine:
  assumes "center_inv t"
  shows "center_inv (foldl apply_req t reqs) \<and> abs_center (foldl apply_req t reqs) = foldl spec_req (abs_center t) reqs"
  using assms by (induction reqs arbitrary: t) (auto simp: apply_req_refines)

text \<open>C15: a centre recovered from a snapshot of another answers as that one would have: after any further
  requests, the subscriptions, the owners and the matches are those of the whole sequence of requests, although the
  client index is rebuilt. The protobuf library is assumed to read back a message it
  could write, with empty maps as nil.\<close>

theorem snapshot_recovers:
  assumes proto: "\<And>m data. marshal m = Inr data \<Longrightarrow> unmarshal data = Inr (norm_cluster m)"
    and data: "WriteSnapshot marshal (center_after reqs) = Inr data"
  shows "\<exists>t. RecoverSnapshot unmarshal data t0 = (Inr (), t) \<and>
    (\<forall>later. abs_center (foldl apply_req t later) = spec_after_reqs (reqs @ later)) \<and>
    (\<forall>later topic c. validatePublishTopic topic = Inr () \<longrightarrow>
      center_hits (foldl apply_req t later) topic c = center_hits (center_after (reqs @ later)) topic c)"
proof -
  let ?t = "recoverFrom (norm_cluster (snapshotOf (center_after reqs)))"
  have t: "center_inv ?t" "abs_center ?t = spec_after_reqs reqs"
    using recover_refines [OF center_inv_after distinct_tokens_after] center_after_refines by auto
  have later: "center_inv (foldl apply_req ?t later)" "abs_center (foldl apply_req ?t later) = spec_after_reqs (reqs @ later)" for later
    using apply_reqs_refine [OF t(1), of later] t(2) by (simp_all add: spec_after_reqs_def)
  then have "center_subs (foldl apply_req ?t later) = center_subs (center_after (reqs @ later))" for later
    by (simp add: abs_center_def center_subs_after prod_eq_iff)
  then have "center_hits (foldl apply_req ?t later) topic c = center_hits (center_after (reqs @ later)) topic c"
    if "validatePublishTopic topic = Inr ()" for later topic c
    using that by (simp add: center_hits_iff [OF later(1)] center_hits_iff [OF center_inv_after])
  then show ?thesis
    using proto [OF data [unfolded WriteSnapshot_def]] later(2) by (auto simp: RecoverSnapshot_def)
qed

theorem snapshot_recovers_witness:
  "\<exists>data t. WriteSnapshot (\<lambda>m. Inr m :: unit + ClusterSub) (center_after wit_reqs) = Inr data \<and>
     RecoverSnapshot (\<lambda>m. Inr (norm_cluster m) :: unit + ClusterSub) data NewMemorySubCenter = (Inr (), t) \<and>
     abs_center t = spec_after_reqs wit_reqs"
proof -
  let ?m = "\<lambda>m. Inr m :: unit + ClusterSub" and ?u = "\<lambda>m. Inr (norm_cluster m) :: unit + ClusterSub"
  have data: "WriteSnapshot ?m (center_after wit_reqs) = Inr (snapshotOf (center_after wit_reqs))"
    by (simp add: WriteSnapshot_def)
  have "\<exists>t. RecoverSnapshot ?u (snapshotOf (center_after wit_reqs)) NewMemorySubCenter = (Inr (), t) \<and>
      (\<forall>later. abs_center (foldl apply_req t later) = spec_after_reqs (wit_reqs @ later)) \<and>
      (\<forall>later topic c. validatePublishTopic topic = Inr () \<longrightarrow>
        center_hits (foldl apply_req t later) topic c = center_hits (center_after (wit_reqs @ later)) topic c)"
    by (rule snapshot_recovers [of ?m, OF _ data]) simp
  then obtain t where
    t: "RecoverSnapshot ?u (snapshotOf (center_after wit_reqs)) NewMemorySubCenter = (Inr (), t)" and
    later: "\<forall>later. abs_center (foldl apply_req t later) = spec_after_reqs (wit_reqs @ later)"
    by (elim exE conjE)
  from spec [OF later, of "[]"] have "abs_center t = spec_after_reqs wit_reqs" by simp
  with data t show ?thesis by (intro exI conjI)
qed

section \<open>Members of a share group\<close>

lemma parseSharedSubscription_eq:
  "parseSharedSubscription s = Inr (g, f) \<longleftrightarrow> ParseSharedSubscription s = Inr (g, f)"
proof (cases "isSharedSubscription s")
  case True
  then have "IsSharedSubscription s" "drop 7 s \<noteq> []"
    by (auto simp: isSharedSubscription_def IsSharedSubscription_def has_prefix_def numeral_eq_Suc)
  have strip: "drop (length ''$share/'') s = drop 7 s" by (simp add: numeral_eq_Suc)
  show ?thesis
    using True \<open>IsSharedSubscription s\<close> \<open>drop 7 s \<noteq> []\<close> split_on_nonempty [of "CHR ''/''" "drop 7 s"]
    unfolding parseSharedSubscription_def ParseSharedSubscription_def SplitTopicLevels_def Let_def strip
    by (simp add: drop_Suc hd_conv_nth del: drop_eq_Nil)
next
  case False
  then have "ParseSharedSubscription s \<noteq> Inr (g, f)"
    by (auto simp: ParseSharedSubscription_Inr_iff BuildSharedSubscriptionTopicFilter_def isSharedSubscription_def)
  then show ?thesis using False by (simp add: parseSharedSubscription_def)
qed

definition member_key :: "string \<times> string \<Rightarrow> string" where
  "member_key p = fst p @ ''|'' @ snd p"

definition put_member :: "(string \<times> ShareGroupMember) list \<Rightarrow> string \<times> string \<Rightarrow> (string \<times> ShareGroupMember) list" where
  "put_member m p =
     (if alist_get m (member_key p) = None
      then alist_set (member_key p) \<lparr>sgm_ClientID = fst p, sgm_TopicFilter = snd p\<rparr> m else m)"

definition members_of :: "string \<Rightarrow> string \<Rightarrow> (string \<times> SubOption) list \<Rightarrow> (string \<times> string) list" where
  "members_of g c ts =
     concat (map (\<lambda>x. case parseSharedSubscription (fst x) of
                        Inl _ \<Rightarrow> [] | Inr (g', f) \<Rightarrow> if g' = g then [(c, f)] else []) ts)"

definition share_pairs :: "string \<Rightarrow> MemorySubCenter \<Rightarrow> (string \<times> string) list" where
  "share_pairs g t =
     concat (map (\<lambda>(k, s). concat (map (\<lambda>(c, ts). members_of g c ts) (sc_clients s))) (msc_shards t))"

lemma addMember_put:
  "addMember g c m x =
     foldl put_member m (case parseSharedSubscription (fst x) of
                        Inl _ \<Rightarrow> [] | Inr (g', f) \<Rightarrow> if g' = g then [(c, f)] else [])"
  by (auto simp: addMember_def put_member_def member_key_def Let_def parseSharedSubscription_def
      split: sum.splits option.splits)

lemma shareMemberMap_pairs: "shareMemberMap g t = foldl put_member [] (share_pairs g t)"
proof -
  have ts: "foldl (addMember g c) m ts = foldl put_member m (members_of g c ts)" for c m ts
    by (simp add: members_of_def foldl_concat_map [symmetric] addMember_put [abs_def])
  show ?thesis
    by (simp add: shareMemberMap_def share_pairs_def foldl_concat_map [symmetric] ts split_beta cong: foldl_cong)
qed

lemma put_members:
  assumes "inj_on member_key (S \<union> set ps)"
    and "\<And>k x. (k, x) \<in> set m \<longleftrightarrow> (sgm_ClientID x, sgm_TopicFilter x) \<in> S \<and> k = member_key (sgm_ClientID x, sgm_TopicFilter x)"
    and "distinct (alist_keys m)"
  shows "distinct (alist_keys (foldl put_member m ps)) \<and>
    ((k, x) \<in> set (foldl put_member m ps) \<longleftrightarrow>
      (sgm_ClientID x, sgm_TopicFilter x) \<in> S \<union> set ps \<and> k = member_key (sgm_ClientID x, sgm_TopicFilter x))"
  using assms
proof (induction ps arbitrary: m S)
  case (Cons p ps)
  let ?m = "put_member m p"
  let ?x = "\<lparr>sgm_ClientID = fst p, sgm_TopicFilter = snd p\<rparr>"
  have d: "distinct (alist_keys ?m)" using Cons.prems(3) by (simp add: put_member_def)
  have known: "alist_get m (member_key p) = None \<longleftrightarrow> p \<notin> S"
  proof
    assume n: "alist_get m (member_key p) = None"
    have "(member_key p, ?x) \<notin> set m"
      using n alist_get_eq_Some_iff [OF Cons.prems(3), of "member_key p" ?x] by simp
    then show "p \<notin> S" using Cons.prems(2) [of "member_key p" ?x] by simp
  next
    assume p: "p \<notin> S"
    show "alist_get m (member_key p) = None"
    proof (rule ccontr)
      assume "alist_get m (member_key p) \<noteq> None"
      then obtain y where "(member_key p, y) \<in> set m" by (auto dest: alist_get_Some_in)
      then have "(sgm_ClientID y, sgm_TopicFilter y) \<in> S" "member_key p = member_key (sgm_ClientID y, sgm_TopicFilter y)"
        using Cons.prems(2) by auto
      then show False using Cons.prems(1) p by (auto simp: inj_on_def)
    qed
  qed
  have new: "(k, x) \<in> set ?m \<longleftrightarrow>
      (sgm_ClientID x, sgm_TopicFilter x) \<in> insert p S \<and> k = member_key (sgm_ClientID x, sgm_TopicFilter x)" for k x
  proof (cases "p \<in> S")
    case True
    then have "?m = m" using known by (auto simp: put_member_def)
    then show ?thesis using True Cons.prems(2) by (simp add: insert_absorb)
  next
    case False
    then have m: "?m = alist_set (member_key p) ?x m" using known by (simp add: put_member_def)
    have "(k, x) \<in> set ?m \<longleftrightarrow> k = member_key p \<and> x = ?x \<or> k \<noteq> member_key p \<and> (k, x) \<in> set m"
      using alist_get_eq_Some_iff [OF d, of k x] alist_get_eq_Some_iff [OF Cons.prems(3), of k x] by (auto simp: m split: if_splits)
    moreover have "x = ?x \<longleftrightarrow> (sgm_ClientID x, sgm_TopicFilter x) = p" by (cases x; cases p) auto
    moreover have "k = member_key p \<Longrightarrow> (k, x) \<notin> set m"
      using known False alist_get_eq_Some_iff [OF Cons.prems(3), of k x] by auto
    moreover have "(sgm_ClientID x, sgm_TopicFilter x) = p \<Longrightarrow> member_key (sgm_ClientID x, sgm_TopicFilter x) = member_key p"
      by simp
    ultimately show ?thesis
      unfolding Cons.prems(2) [of k x] insert_iff by metis
  qed
  have inj: "inj_on member_key (insert p S \<union> set ps)" using Cons.prems(1) by simp
  show ?case using Cons.IH [OF inj new d] by simp
qed auto

lemma set_share_pairs:
  assumes inv: "center_inv t"
  shows "set (share_pairs g t) =
    {(c, f). g \<noteq> [] \<and> CHR ''/'' \<notin> set g \<and> \<not> contains_wildcard g \<and> f \<noteq> [] \<and>
       center_subs t c (BuildSharedSubscriptionTopicFilter g f) \<noteq> None}"
proof -
  have of_ts: "set (members_of g c ts) = {(c, f) |f. \<exists>s \<in> fst ` set ts. ParseSharedSubscription s = Inr (g, f)}" for c ts
    by (auto simp: members_of_def parseSharedSubscription_eq [symmetric] split: sum.splits if_splits; force)
  have idx: "(\<exists>ts. (c, ts) \<in> set (sc_clients s) \<and> f \<in> fst ` set ts) \<longleftrightarrow> subs s c f \<noteq> None" if "sub_inv s" for s c f
  proof -
    have "(c, ts) \<in> set (sc_clients s) \<longleftrightarrow> alist_get (sc_clients s) c = Some ts" for ts
      using that by (simp add: sub_inv_def index_wf_def alist_get_eq_Some_iff)
    moreover have "f \<in> fst ` set ts \<longleftrightarrow> alist_get ts f \<noteq> None" for ts :: ClientSubTopic
      by (simp add: alist_get_None_iff)
    ultimately show ?thesis
      by (cases "alist_get (sc_clients s) c") (simp_all add: subs_def topicsOf_def)
  qed
  have shard: "(k, s) \<in> set (msc_shards t) \<longleftrightarrow> getShard t k = Some s" for k s
    using inv by (simp add: center_inv_def getShard_def alist_get_eq_Some_iff)
  have sh: "sub_inv s \<and> shard_at t k = s" if "getShard t k = Some s" for k s
    using that center_invD(1) [OF inv, of k] by (simp add: shard_at_def)
  have pairs: "(c, f) \<in> set (share_pairs g t) \<longleftrightarrow>
      (\<exists>k s flt. getShard t k = Some s \<and> subs s c flt \<noteq> None \<and> ParseSharedSubscription flt = Inr (g, f))" for c f
  proof -
    have "(c, f) \<in> set (share_pairs g t) \<longleftrightarrow>
        (\<exists>k s ts. (k, s) \<in> set (msc_shards t) \<and> (c, ts) \<in> set (sc_clients s) \<and>
           (\<exists>flt \<in> fst ` set ts. ParseSharedSubscription flt = Inr (g, f)))"
      by (simp add: share_pairs_def of_ts split_beta) force
    then show ?thesis unfolding shard using idx [OF conjunct1 [OF sh]] by metis
  qed
  have "(\<exists>k s flt. getShard t k = Some s \<and> subs s c flt \<noteq> None \<and> ParseSharedSubscription flt = Inr (g, f)) \<longleftrightarrow>
      (\<exists>flt. center_subs t c flt \<noteq> None \<and> ParseSharedSubscription flt = Inr (g, f))" for c f
  proof
    assume "\<exists>k s flt. getShard t k = Some s \<and> subs s c flt \<noteq> None \<and> ParseSharedSubscription flt = Inr (g, f)"
    then obtain k s flt where *: "getShard t k = Some s" "subs s c flt \<noteq> None" "ParseSharedSubscription flt = Inr (g, f)"
      by blast
    then have "shardKeyFromTopic flt = k"
      using sh [OF *(1)] center_invD(2) [OF inv, of k c flt] by auto
    then show "\<exists>flt. center_subs t c flt \<noteq> None \<and> ParseSharedSubscription flt = Inr (g, f)"
      using * sh [OF *(1)] by (auto simp: center_subs_def)
  next
    assume "\<exists>flt. center_subs t c flt \<noteq> None \<and> ParseSharedSubscription flt = Inr (g, f)"
    then obtain flt where flt: "center_subs t c flt \<noteq> None" "ParseSharedSubscription flt = Inr (g, f)" by blast
    then obtain s where "getShard t (shardKeyFromTopic flt) = Some s"
      by (cases "getShard t (shardKeyFromTopic flt)") (simp_all add: center_subs_def shard_at_def)
    then show "\<exists>k s flt. getShard t k = Some s \<and> subs s c flt \<noteq> None \<and> ParseSharedSubscription flt = Inr (g, f)"
      using flt sh by (metis center_subs_def)
  qed
  then show ?thesis using pairs
    by (auto simp: ParseSharedSubscription_Inr_iff)
qed

lemma append_sep_inj: "x \<notin> set a \<Longrightarrow> x \<notin> set a' \<Longrightarrow> a @ x # b = a' @ x # b' \<longleftrightarrow> a = a' \<and> b = b'"
proof (induction a arbitrary: a')
  case Nil
  then show ?case by (cases a') auto
next
  case (Cons y a)
  then show ?case by (cases a') auto
qed

lemma member_key_inj:
  assumes "\<And>c f. (c, f) \<in> S \<Longrightarrow> CHR ''|'' \<notin> set c"
  shows "inj_on member_key S"
proof (rule inj_onI)
  fix p q
  assume pq: "p \<in> S" "q \<in> S" and eq: "member_key p = member_key q"
  have "CHR ''|'' \<notin> set (fst p)" "CHR ''|'' \<notin> set (fst q)"
    using pq assms [of "fst p" "snd p"] assms [of "fst q" "snd q"] by auto
  then show "p = q"
    using eq append_sep_inj [of "CHR ''|''" "fst p" "fst q" "snd p" "snd q"]
    by (simp add: member_key_def prod_eq_iff)
qed

definition share_members :: "string \<Rightarrow> MemorySubCenter \<Rightarrow> (string \<times> string) list" where
  "share_members g t = map (\<lambda>m. (sgm_ClientID m, sgm_TopicFilter m)) (GetShareGroupMembers g t)"

lemma share_sorted:
  fixes xs :: "ShareGroupMember list" and pair
  defines "pair \<equiv> \<lambda>m. (sgm_ClientID m, sgm_TopicFilter m)"
  shows "sorted (map pair (sort_key pair xs))"
    and "set (map pair (sort_key pair xs)) = set (map pair xs)"
    and "distinct (map pair (sort_key pair xs)) = distinct (map pair xs)"
  by (simp_all add: distinct_map)

text \<open>C16: while no client ID contains the separator, the members of a share group are exactly the clients
  with a shared subscription of that group, each with the filter behind the group name, without repetition
  and in the order of client ID and filter; a group name that is empty, has a slash or has a wildcard has
  no members.\<close>

theorem share_members_exact:
  assumes sep: "\<And>c f. fst (spec_after_reqs reqs) c f \<noteq> None \<Longrightarrow> CHR ''|'' \<notin> set c"
  shows "set (share_members g (center_after reqs)) =
      {(c, f). g \<noteq> [] \<and> CHR ''/'' \<notin> set g \<and> \<not> contains_wildcard g \<and> f \<noteq> [] \<and>
         fst (spec_after_reqs reqs) c (BuildSharedSubscriptionTopicFilter g f) \<noteq> None} \<and>
    sorted (share_members g (center_after reqs)) \<and> distinct (share_members g (center_after reqs))"
proof (cases "g = []")
  case False
  let ?t = "center_after reqs" and ?pair = "\<lambda>m. (sgm_ClientID m, sgm_TopicFilter m)"
  have pairs: "set (share_pairs g ?t) =
      {(c, f). g \<noteq> [] \<and> CHR ''/'' \<notin> set g \<and> \<not> contains_wildcard g \<and> f \<noteq> [] \<and>
         fst (spec_after_reqs reqs) c (BuildSharedSubscriptionTopicFilter g f) \<noteq> None}"
    by (simp add: set_share_pairs [OF center_inv_after] center_subs_after)
  have "inj_on member_key ({} \<union> set (share_pairs g ?t))"
    using pairs sep by (intro member_key_inj) auto
  then have facts: "distinct (alist_keys (shareMemberMap g ?t))"
    "(k, x) \<in> set (shareMemberMap g ?t) \<longleftrightarrow> ?pair x \<in> set (share_pairs g ?t) \<and> k = member_key (?pair x)" for k x
    using put_members [of "{}" "share_pairs g ?t" "[]" k x] by (simp_all add: shareMemberMap_pairs)
  have "set (map ?pair (map snd (shareMemberMap g ?t))) = set (share_pairs g ?t)"
  proof (intro set_eqI iffI)
    fix p assume "p \<in> set (share_pairs g ?t)"
    then have "(member_key p, \<lparr>sgm_ClientID = fst p, sgm_TopicFilter = snd p\<rparr>) \<in> set (shareMemberMap g ?t)"
      using facts(2) by simp
    then show "p \<in> set (map ?pair (map snd (shareMemberMap g ?t)))" by force
  qed (use facts(2) in auto)
  moreover have "distinct (map ?pair (map snd (shareMemberMap g ?t)))"
  proof -
    have "map fst (shareMemberMap g ?t) = map (member_key \<circ> (?pair \<circ> snd)) (shareMemberMap g ?t)"
      using facts(2) by auto
    then have "map fst (shareMemberMap g ?t) = map member_key (map ?pair (map snd (shareMemberMap g ?t)))"
      by simp
    then show ?thesis using facts(1) by (metis distinct_map)
  qed
  ultimately have "set (share_members g ?t) = set (share_pairs g ?t)" "distinct (share_members g ?t)"
    using False share_sorted(2,3) [of "map snd (shareMemberMap g ?t)"]
    by (simp_all only: share_members_def GetShareGroupMembers_def if_False)
  moreover have "sorted (share_members g ?t)"
    using False share_sorted(1) [of "map snd (shareMemberMap g ?t)"]
    by (simp only: share_members_def GetShareGroupMembers_def if_False)
  ultimately show ?thesis using pairs by simp
qed (simp add: share_members_def GetShareGroupMembers_def)


definition wit_share_reqs :: "SubReq list" where
  "wit_share_reqs =
     [RCreate \<lparr>sreq_Topics = [mk_opt ''$share/g/t'' 1, mk_opt ''$share/h/t'' 1, mk_opt ''t'' 0], sreq_ClientID = ''c'',
        sreq_OwnerToken = []\<rparr>]"

lemma spec_wit_share_reqs:
  "fst (spec_after_reqs wit_share_reqs) c f =
     (if c = ''c'' \<and> f = ''$share/g/t'' then Some (mk_opt ''$share/g/t'' 1)
      else if c = ''c'' \<and> f = ''$share/h/t'' then Some (mk_opt ''$share/h/t'' 1)
      else if c = ''c'' \<and> f = ''t'' then Some (mk_opt ''t'' 0) else None)"
  by (simp add: spec_after_reqs_def wit_share_reqs_def eval_simps)

theorem share_members_exact_witness:
  "(''c'', ''t'') \<in> set (share_members ''g'' (center_after wit_share_reqs)) \<and>
   (''c'', ''h/t'') \<notin> set (share_members ''g'' (center_after wit_share_reqs))"
proof -
  have sep: "\<And>c f. fst (spec_after_reqs wit_share_reqs) c f \<noteq> None \<Longrightarrow> CHR ''|'' \<notin> set c"
    by (simp add: spec_wit_share_reqs split: if_splits)
  show ?thesis
    using conjunct1 [OF share_members_exact [of wit_share_reqs "''g''", OF sep]]
    by (simp add: spec_wit_share_reqs BuildSharedSubscriptionTopicFilter_def contains_wildcard_def)
qed

lemma shareMemberMap_keys:
  "distinct (alist_keys (shareMemberMap g t)) \<and>
   (\<forall>(k, x) \<in> set (shareMemberMap g t). k = member_key (sgm_ClientID x, sgm_TopicFilter x))"
proof -
  have "distinct (alist_keys (foldl put_member m ps)) \<and>
      (\<forall>(k, x) \<in> set (foldl put_member m ps). k = member_key (sgm_ClientID x, sgm_TopicFilter x))"
    if "distinct (alist_keys m)" "\<forall>(k, x) \<in> set m. k = member_key (sgm_ClientID x, sgm_TopicFilter x)" for m ps
    using that
  proof (induction ps arbitrary: m)
    case (Cons p ps)
    have d: "distinct (alist_keys (put_member m p))" using Cons.prems(1) by (simp add: put_member_def)
    have new: "\<forall>(k, x) \<in> set (put_member m p). k = member_key (sgm_ClientID x, sgm_TopicFilter x)"
    proof (intro ballI, clarify)
      fix k x assume "(k, x) \<in> set (put_member m p)"
      then have "alist_get (put_member m p) k = Some x" using alist_get_eq_Some_iff [OF d] by simp
      then have "alist_get m k = Some x \<or> k = member_key p \<and> x = \<lparr>sgm_ClientID = fst p, sgm_TopicFilter = snd p\<rparr>"
        by (simp add: put_member_def split: if_splits)
      then show "k = member_key (sgm_ClientID x, sgm_TopicFilter x)"
        using Cons.prems(2) by (auto dest: alist_get_Some_in)
    qed
    from Cons.IH [OF d new] show ?case by simp
  qed simp
  from this [of "[]" "share_pairs g t"] show ?thesis by (simp add: shareMemberMap_pairs)
qed

lemma share_members_in:
  "p \<in> set (share_members g t) \<Longrightarrow>
     \<exists>m. (member_key p, m) \<in> set (shareMemberMap g t) \<and> (sgm_ClientID m, sgm_TopicFilter m) = p"
  using conjunct2 [OF shareMemberMap_keys [of g t]]
  by (cases "g = []") (force simp: share_members_def GetShareGroupMembers_def)+

definition collide_reqs :: "SubReq list" where
  "collide_reqs =
     [RCreate \<lparr>sreq_Topics = [mk_opt ''$share/g/b|c'' 1], sreq_ClientID = ''a'', sreq_OwnerToken = []\<rparr>,
      RCreate \<lparr>sreq_Topics = [mk_opt ''$share/g/c'' 1], sreq_ClientID = ''a|b'', sreq_OwnerToken = []\<rparr>]"

text \<open>C17: the key under which members are collected joins client ID and filter with a bar that both
  may contain, so two members whose keys coincide are never both reported: of the clients \<open>a\<close>, subscribed to
  \<open>$share/g/b|c\<close>, and \<open>a|b\<close>, subscribed to \<open>$share/g/c\<close>, one is missing from the group.\<close>

theorem share_members_collide:
  "\<not> {(c, x @ ''|'' @ f), (c @ ''|'' @ x, f)} \<subseteq> set (share_members g t) \<and>
   fst (spec_after_reqs collide_reqs) ''a'' (BuildSharedSubscriptionTopicFilter ''g'' ''b|c'') \<noteq> None \<and>
   fst (spec_after_reqs collide_reqs) ''a|b'' (BuildSharedSubscriptionTopicFilter ''g'' ''c'') \<noteq> None"
proof -
  have False if both: "(c, x @ ''|'' @ f) \<in> set (share_members g t)" "(c @ ''|'' @ x, f) \<in> set (share_members g t)"
  proof -
    obtain m1 where
      m1: "(member_key (c, x @ ''|'' @ f), m1) \<in> set (shareMemberMap g t)" "(sgm_ClientID m1, sgm_TopicFilter m1) = (c, x @ ''|'' @ f)"
      using share_members_in [OF both(1)] by (elim exE conjE)
    obtain m2 where
      m2: "(member_key (c @ ''|'' @ x, f), m2) \<in> set (shareMemberMap g t)" "(sgm_ClientID m2, sgm_TopicFilter m2) = (c @ ''|'' @ x, f)"
      using share_members_in [OF both(2)] by (elim exE conjE)
    have "member_key (c, x @ ''|'' @ f) = member_key (c @ ''|'' @ x, f)" by (simp add: member_key_def)
    then have "m1 = m2"
      using eq_key_imp_eq_value [OF conjunct1 [OF shareMemberMap_keys [of g t]] m1(1)] m2(1) by simp
    then show False using m1(2) m2(2) by simp
  qed
  moreover have "fst (spec_after_reqs collide_reqs) ''a'' ''$share/g/b|c'' \<noteq> None"
      "fst (spec_after_reqs collide_reqs) ''a|b'' ''$share/g/c'' \<noteq> None"
    by (simp_all add: spec_after_reqs_def collide_reqs_def eval_simps)
  ultimately show ?thesis
    unfolding BuildSharedSubscriptionTopicFilter_def append_Cons append_Nil insert_subset by (intro conjI notI) simp_all
qed

section \<open>The subtree view shows the subscriptions\<close>

definition client_at :: "TreeNode \<Rightarrow> string list \<Rightarrow> string \<Rightarrow> SubOption option" where
  "client_at n p c = alist_get (node_clients n p) c"

lemma client_at_Nil: "client_at n [] c = alist_get (tn_Client n) c"
  by (simp add: client_at_def node_clients_def)

lemma client_at_Cons:
  "client_at n (l # p) c = (case alist_get (tn_ChildNode n) l of None \<Rightarrow> None | Some m \<Rightarrow> client_at m p c)"
  by (simp add: client_at_def node_clients_def split: option.splits)

lemma client_at_fresh: "client_at (TreeNode l t [] (Some []) cu) p c = None"
  by (cases p) (simp_all add: client_at_Nil client_at_Cons tn_ChildNode_def)

lemma cloneNodeLimited_sel [simp]:
  "tn_Client (cloneNodeLimited n d) = map (\<lambda>(k, v). (k, cloneMergedSubOption v)) (tn_Client n)"
  "tn_ChildNode (cloneNodeLimited n d) =
     (case d of 0 \<Rightarrow> [] | Suc d' \<Rightarrow> map (\<lambda>(k, child). (k, cloneNodeLimited child d')) (tn_ChildNode n))"
  by (cases d; simp add: tn_ChildNode_def)+

lemma client_at_clone:
  "length p \<le> d \<Longrightarrow> client_at (cloneNodeLimited n d) p c = map_option cloneMergedSubOption (client_at n p c)"
proof (induction p arbitrary: n d)
  case Nil
  show ?case by (simp add: client_at_Nil alist_get_map_snd)
next
  case (Cons l p)
  then obtain d' where "d = Suc d'" "length p \<le> d'" by (cases d) auto
  then show ?case using Cons.IH by (simp add: client_at_Cons alist_get_map_snd split: option.splits)
qed

lemma tree_wf_clone: "tree_wf n \<Longrightarrow> tree_wf (cloneNodeLimited n d)"
proof (induction d arbitrary: n)
  case 0
  show ?case by (rule tree_wf_intro) (simp_all add: tree_wf_keys(2) [OF 0])
next
  case (Suc d)
  show ?case
  proof (rule tree_wf_intro)
    fix l m assume "alist_get (tn_ChildNode (cloneNodeLimited n (Suc d))) l = Some m"
    then obtain k where "alist_get (tn_ChildNode n) l = Some k" "m = cloneNodeLimited k d"
      by (auto simp: alist_get_map_snd)
    then show "tree_wf m" using Suc.IH [OF tree_wf_child [OF Suc.prems]] by simp
  qed (simp_all add: tree_wf_keys [OF Suc.prems])
qed

text \<open>An option already reduced to the fields of the view is reduced again without change.\<close>

lemma cloneMergedSubOption_idem [simp]: "cloneMergedSubOption (cloneMergedSubOption opt) = cloneMergedSubOption opt"
  by (simp add: cloneMergedSubOption_def)

definition all_reduced :: "TreeNode \<Rightarrow> bool" where
  "all_reduced n \<longleftrightarrow> (\<forall>p c opt. client_at n p c = Some opt \<longrightarrow> cloneMergedSubOption opt = opt)"

lemma all_reduced_clone: "all_reduced (cloneNodeLimited n d)"
proof -
  have "client_at (cloneNodeLimited n d) p c = Some opt \<Longrightarrow> cloneMergedSubOption opt = opt" for p c opt
  proof (induction p arbitrary: n d)
    case Nil
    then show ?case by (auto simp: client_at_Nil alist_get_map_snd)
  next
    case (Cons l p)
    then show ?case by (auto simp: client_at_Cons alist_get_map_snd split: option.splits nat.splits)
  qed
  then show ?thesis by (simp add: all_reduced_def)
qed

lemma all_reduced_child: "all_reduced n \<Longrightarrow> alist_get (tn_ChildNode n) l = Some m \<Longrightarrow> all_reduced m"
  unfolding all_reduced_def by (metis client_at_Cons option.simps(5))

definition merge_opt :: "SubOption option \<Rightarrow> SubOption option \<Rightarrow> SubOption option" where
  "merge_opt old new =
     (case new of
        None \<Rightarrow> old
      | Some opt \<Rightarrow> (case old of None \<Rightarrow> new | Some o' \<Rightarrow> if opt_QoS opt > opt_QoS o' then new else old))"

lemma merge_opt_None [simp]: "merge_opt None new = new" "merge_opt old None = old"
  by (simp_all add: merge_opt_def split: option.splits)

lemma foldl_alist_step:
  assumes "\<And>d k v. alist_get (step d k v) l = (if l = k then Some (g (alist_get d l) v) else alist_get d l)"
    and "distinct (alist_keys src)"
  shows "alist_get (foldl (\<lambda>d (k, v). step d k v) dst src) l =
    (case alist_get src l of None \<Rightarrow> alist_get dst l | Some v \<Rightarrow> Some (g (alist_get dst l) v))"
  using assms(2)
proof (induction src arbitrary: dst)
  case (Cons x src)
  obtain k v where x: "x = (k, v)" by (cases x)
  have "alist_get src k = None" using Cons.prems x by (simp add: alist_get_None_iff)
  then show ?case using Cons x assms(1) by (auto split: option.splits)
qed simp

lemma mergeTreeClients_get:
  assumes "distinct (alist_keys src)" "\<And>opt. alist_get src c = Some opt \<Longrightarrow> cloneMergedSubOption opt = opt"
  shows "alist_get (mergeTreeClients dst src) c = merge_opt (alist_get dst c) (alist_get src c)"
proof -
  have "alist_get (mergeTreeClients dst src) c =
      (case alist_get src c of
         None \<Rightarrow> alist_get dst c
       | Some v \<Rightarrow> Some (case alist_get dst c of
           None \<Rightarrow> cloneMergedSubOption v
         | Some o' \<Rightarrow> if opt_QoS v > opt_QoS o' then cloneMergedSubOption v else o'))"
    unfolding mergeTreeClients_def
    by (rule foldl_alist_step [OF _ assms(1)]) (auto split: option.splits)
  then show ?thesis using assms(2) by (auto simp: merge_opt_def split: option.splits)
qed

lemma merge_children_get:
  fixes join :: "'v \<Rightarrow> 'v \<Rightarrow> 'v"
  assumes "distinct (alist_keys src)"
  shows "alist_get (foldl (\<lambda>d (k, child).
      case alist_get d k of Some existing \<Rightarrow> alist_set k (join existing child) d | None \<Rightarrow> alist_set k child d) dst src) l =
    (case alist_get src l of
       None \<Rightarrow> alist_get dst l
     | Some child \<Rightarrow> Some (case alist_get dst l of None \<Rightarrow> child | Some e \<Rightarrow> join e child))"
  by (rule foldl_alist_step [OF _ assms]) (auto split: option.splits)

lemma client_at_merge:
  assumes "tree_wf src" "all_reduced src"
  shows "client_at (mergeTreeNode dst src) p c = merge_opt (client_at dst p c) (client_at src p c)"
  using assms
proof (induction p arbitrary: dst src)
  case Nil
  have "tn_Client (mergeTreeNode dst src) = mergeTreeClients (tn_Client dst) (tn_Client src)" by (cases src) simp
  then show ?case
    using mergeTreeClients_get [OF tree_wf_keys(2) [OF Nil.prems(1)], of c] Nil.prems(2)
    by (simp add: all_reduced_def) (metis client_at_Nil)
next
  case (Cons l p)
  have "tn_ChildNode (mergeTreeNode dst src) = foldl (\<lambda>d (k, child).
      case alist_get d k of Some existing \<Rightarrow> alist_set k (mergeTreeNode existing child) d | None \<Rightarrow> alist_set k child d)
      (tn_ChildNode dst) (tn_ChildNode src)"
    by (cases src) (simp add: tn_ChildNode_def)
  then have ch: "alist_get (tn_ChildNode (mergeTreeNode dst src)) l =
      (case alist_get (tn_ChildNode src) l of
         None \<Rightarrow> alist_get (tn_ChildNode dst) l
       | Some child \<Rightarrow> Some (case alist_get (tn_ChildNode dst) l of None \<Rightarrow> child | Some e \<Rightarrow> mergeTreeNode e child))"
    by (simp add: merge_children_get [OF tree_wf_keys(1) [OF Cons.prems(1)]])
  show ?case
  proof (cases "alist_get (tn_ChildNode src) l")
    case (Some m)
    then show ?thesis
      using Cons.IH [OF tree_wf_child [OF Cons.prems(1)] all_reduced_child [OF Cons.prems(2)]]
      by (simp add: client_at_Cons ch split: option.splits)
  qed (simp add: client_at_Cons ch)
qed

lemma client_at_shard: "sub_inv s \<Longrightarrow> client_at (sc_root s) (SplitTopicLevels f) c = subs s c f"
  by (simp add: client_at_def sub_inv_def)

lemma client_at_append:
  "client_at n (p @ q) c = (case lookupPath n p of None \<Rightarrow> None | Some m \<Rightarrow> client_at m q c)"
  by (simp add: client_at_def node_clients_def lookupPath_append split: option.splits)

text \<open>The effective depth, and the levels below which the view starts.\<close>

definition view_depth :: "int \<Rightarrow> nat" where
  "view_depth maxDepth = nat (if maxDepth \<le> 0 then 8 else maxDepth)"

lemma GetSubTree_below:
  assumes inv: "center_inv t" and topic: "topic \<noteq> []" "topic \<noteq> ''/''" "\<exists>l \<in> set (SplitTopicLevels topic). l \<noteq> []"
    and p: "length p \<le> view_depth d" "\<And>l. l \<in> set p \<Longrightarrow> CHR ''/'' \<notin> set l"
  shows "client_at (GetSubTree topic d t) p c =
    map_option cloneMergedSubOption (center_subs t c (join_on CHR ''/'' (SplitTopicLevels topic @ p)))"
proof -
  let ?f = "join_on CHR ''/'' (SplitTopicLevels topic @ p)"
  have "SplitTopicLevels topic @ p \<noteq> [[]]"
    using topic(3) by (cases "SplitTopicLevels topic") auto
  then have levels: "SplitTopicLevels ?f = SplitTopicLevels topic @ p"
    using topic p(2) level_no_slash by (intro SplitTopicLevels_join) auto
  have "shardKeyFromTopic_loop (ls @ p) = shardKeyFromTopic_loop ls" if "\<exists>l \<in> set ls. l \<noteq> []" for ls
    using that by (induction ls) auto
  then have key: "shardKeyFromTopic ?f = shardKeyFromTopic topic"
    using topic(1,3) by (simp add: shardKeyFromTopic_def levels)
  show ?thesis
  proof (cases "getShard t (shardKeyFromTopic topic)")
    case None
    then show ?thesis
      using topic by (simp add: GetSubTree_def emptyTreeNode_def center_subs_def key shard_at_def client_at_fresh)
  next
    case (Some s)
    then have s: "sub_inv s" "center_subs t c ?f = subs s c ?f"
      using center_invD(1) [OF inv, of "shardKeyFromTopic topic"] by (simp_all add: shard_at_def center_subs_def key)
    have "client_at (sc_root s) (SplitTopicLevels topic @ p) c = subs s c ?f"
      using client_at_shard [OF s(1), of ?f c] levels by simp
    then show ?thesis
      using topic Some p(1) s(2) client_at_clone [of p "view_depth d"]
      by (cases "lookupPath (sc_root s) (SplitTopicLevels topic)")
        (simp_all add: GetSubTree_def view_depth_def client_at_append emptyTreeNode_def client_at_fresh)
  qed
qed

lemma GetSubTree_root:
  assumes inv: "center_inv t" and topic: "topic = [] \<or> topic = ''/''"
    and p: "length p \<le> view_depth d" "p \<noteq> []" "p \<noteq> [[]]" "\<And>l. l \<in> set p \<Longrightarrow> CHR ''/'' \<notin> set l"
  shows "client_at (GetSubTree topic d t) p c =
    map_option cloneMergedSubOption (center_subs t c (join_on CHR ''/'' p))"
proof -
  let ?f = "join_on CHR ''/'' p"
  define step where "step = (\<lambda>r (k :: string, s :: SubCore). mergeTreeNode r (cloneNodeLimited (sc_root s) (view_depth d)))"
  have levels: "SplitTopicLevels ?f = p" using p(2,3,4) by (rule SplitTopicLevels_join)
  have one: "client_at (step r (k, s)) p c = merge_opt (client_at r p c) (map_option cloneMergedSubOption (subs s c ?f))"
    if "sub_inv s" for r k s
    using that client_at_merge [OF tree_wf_clone all_reduced_clone] client_at_clone [OF p(1), of "sc_root s" c]
      client_at_shard [OF that, of ?f c] levels
    by (simp add: step_def sub_inv_def)
  have all: "client_at (foldl step r ss) p c =
      (case alist_get ss (shardKeyFromTopic ?f) of
         None \<Rightarrow> client_at r p c
       | Some s \<Rightarrow> merge_opt (client_at r p c) (map_option cloneMergedSubOption (subs s c ?f)))"
    if "distinct (alist_keys ss)" "\<And>k s. (k, s) \<in> set ss \<Longrightarrow> sub_inv s \<and> (k = shardKeyFromTopic ?f \<or> subs s c ?f = None)" for r ss
    using that
  proof (induction ss arbitrary: r)
    case (Cons x ss)
    obtain k s where x: "x = (k, s)" by (cases x)
    have s: "sub_inv s" "k = shardKeyFromTopic ?f \<or> subs s c ?f = None" using Cons.prems(2) [of k s] x by auto
    have "alist_get ss k = None" using Cons.prems(1) x by (simp add: alist_get_None_iff)
    moreover have "client_at (foldl step (step r (k, s)) ss) p c =
      (case alist_get ss (shardKeyFromTopic ?f) of
         None \<Rightarrow> client_at (step r (k, s)) p c
       | Some s' \<Rightarrow> merge_opt (client_at (step r (k, s)) p c) (map_option cloneMergedSubOption (subs s' c ?f)))"
      by (rule Cons.IH) (use Cons.prems in auto)
    ultimately show ?case using one [OF s(1)] s(2) x by (auto split: option.splits)
  qed simp
  have shard: "(k, s) \<in> set (msc_shards t) \<Longrightarrow> shard_at t k = s" for k s
    using inv by (simp add: center_inv_def shard_at_def getShard_def alist_get_eq_Some_iff [symmetric])
  have "client_at (foldl step (TreeNode ''/'' ''/'' [] (Some []) []) (msc_shards t)) p c =
      (case alist_get (msc_shards t) (shardKeyFromTopic ?f) of
         None \<Rightarrow> client_at (TreeNode ''/'' ''/'' [] (Some []) []) p c
       | Some s \<Rightarrow> merge_opt (client_at (TreeNode ''/'' ''/'' [] (Some []) []) p c) (map_option cloneMergedSubOption (subs s c ?f)))"
  proof (rule all)
    fix k s assume "(k, s) \<in> set (msc_shards t)"
    then show "sub_inv s \<and> (k = shardKeyFromTopic ?f \<or> subs s c ?f = None)"
      using shard center_invD(1) [OF inv, of k] center_invD(2) [OF inv, of k c ?f] by (cases "subs s c ?f") auto
  qed (use inv in \<open>simp add: center_inv_def\<close>)
  moreover have "GetSubTree topic d t = foldl step (TreeNode ''/'' ''/'' [] (Some []) []) (msc_shards t)"
    using topic by (auto simp: GetSubTree_def step_def view_depth_def Let_def)
  ultimately show ?thesis
    by (simp add: center_subs_def shard_at_def getShard_def client_at_fresh split: option.splits)
qed

definition view_levels :: "string \<Rightarrow> string list" where
  "view_levels topic = (if topic = [] \<or> topic = ''/'' then [] else SplitTopicLevels topic)"

text \<open>C18: the operators' view of a topic shows, at every depth up to the requested one (8 when none is
  given), exactly the subscriptions stored for the filter the path spells, reduced to QoS, retain flag and filter; the
  view of the root merges every shard. The topic has to have a level that is not empty, or to be the root.\<close>

theorem subtree_view:
  assumes "topic = [] \<or> topic = ''/'' \<or> (\<exists>l \<in> set (SplitTopicLevels topic). l \<noteq> [])"
    and "length p \<le> view_depth d" "view_levels topic @ p \<noteq> []" "view_levels topic @ p \<noteq> [[]]"
    and "\<And>l. l \<in> set p \<Longrightarrow> CHR ''/'' \<notin> set l"
  shows "alist_get (node_clients (GetSubTree topic d (center_after reqs)) p) c =
    map_option cloneMergedSubOption (fst (spec_after_reqs reqs) c (join_on CHR ''/'' (view_levels topic @ p)))"
proof (cases "topic = [] \<or> topic = ''/''")
  case True
  then show ?thesis
    using GetSubTree_root [OF center_inv_after True assms(2) _ _ assms(5), of reqs c] assms(3,4)
    by (simp add: view_levels_def client_at_def center_subs_after)
next
  case False
  then show ?thesis
    using GetSubTree_below [OF center_inv_after, of topic p d reqs c] assms
    by (simp add: view_levels_def client_at_def center_subs_after)
qed

theorem subtree_view_witness:
  "alist_get (node_clients (GetSubTree ''a'' 1 (center_after wit_reqs)) [''+'']) ''c'' =
     Some (cloneMergedSubOption (mk_opt ''a/+'' 1))"
  using subtree_view [of "''a''" "[''+'']" 1 wit_reqs "''c''"]
  by (simp add: view_depth_def view_levels_def SplitTopicLevels_def spec_wit_reqs)


end
