(* ===== verification/Topic_Alias.thy ===== *)
theory Topic_Alias
  imports Prelude Mqtt_Packet
begin

text \<open>
  Topic aliases of one connection (\<open>src/internal/broker/client/internal/topicalias\<close>) and the part of the write path of
  \<open>client_io.go\<close> that assigns an alias and takes it back when the packet is discarded. Packets are
  changed in place by the code; here the operations return the manager and the packet. The two critical sections of
  \<open>ApplyDownlink\<close> are two functions, so that what another writer does in between is covered too.

  The main result runs the sending side of one manager against the receiving side of another and shows that
  every packet written arrives with the topic it had.
\<close>

datatype aliasError = ErrTopicAliasNotFound | ErrTopicAliasInvalid

record TopicAliasManager =
  uplinkAliasToTopic :: "(u16 \<times> string) list"
  downlinkTopicToAlias :: "(string \<times> u16) list"
  downlinkNext :: u16
  downlinkFree :: "u16 list"
  downlinkMax :: u16

definition NewTopicAliasManager :: TopicAliasManager where
  "NewTopicAliasManager =
     \<lparr>uplinkAliasToTopic = [], downlinkTopicToAlias = [], downlinkNext = 0, downlinkFree = [], downlinkMax = 0\<rparr>"

definition SetDownlinkMax :: "u16 \<Rightarrow> TopicAliasManager \<Rightarrow> TopicAliasManager" where
  "SetDownlinkMax maxAlias m = m\<lparr>downlinkMax := maxAlias\<rparr>"

definition GetDownlinkMax :: "TopicAliasManager \<Rightarrow> u16" where
  "GetDownlinkMax m = downlinkMax m"

definition ResetDownlink :: "TopicAliasManager \<Rightarrow> TopicAliasManager" where
  "ResetDownlink m = m\<lparr>downlinkTopicToAlias := [], downlinkNext := 0, downlinkFree := []\<rparr>"

definition emptyPublishProperties :: PublishProperties where
  "emptyPublishProperties =
     \<lparr>pp_PayloadFormat = None, pp_MessageExpiry = None, pp_WillDelayInterval = None, pp_ContentType = [],
      pp_ResponseTopic = [], pp_CorrelationData = None, pp_TopicAlias = None, pp_SubscriptionIdentifier = [], pp_User = []\<rparr>"

text \<open>\<open>p.Properties.TopicAlias = nil\<close>, and \<open>p.Properties.TopicAlias = &alias\<close> with properties made when there are none.\<close>

definition stripTopicAlias :: "Publish \<Rightarrow> Publish" where
  "stripTopicAlias p = p\<lparr>pub_Properties := map_option (\<lambda>q. q\<lparr>pp_TopicAlias := None\<rparr>) (pub_Properties p)\<rparr>"

definition putTopicAlias :: "u16 \<Rightarrow> Publish \<Rightarrow> Publish" where
  "putTopicAlias alias p =
     (let q = (case pub_Properties p of None \<Rightarrow> emptyPublishProperties | Some q \<Rightarrow> q)
      in p\<lparr>pub_Properties := Some (q\<lparr>pp_TopicAlias := Some alias\<rparr>)\<rparr>)"

definition aliasOf :: "Publish \<Rightarrow> u16 option" where
  "aliasOf p = (case pub_Properties p of None \<Rightarrow> None | Some q \<Rightarrow> pp_TopicAlias q)"

text \<open>The section under the read lock; None sends the packet on to the section under the write lock.\<close>

definition ApplyDownlink_fast :: "TopicAliasManager \<Rightarrow> Publish \<Rightarrow> Publish option" where
  "ApplyDownlink_fast m p =
     (if downlinkMax m = 0 \<or> pub_Topic p = [] then Some p
      else
        (case alist_get (downlinkTopicToAlias m) (pub_Topic p) of
           Some alias \<Rightarrow>
             Some (if alias = 0 \<or> alias > downlinkMax m then p else (putTopicAlias alias p)\<lparr>pub_Topic := []\<rparr>)
         | None \<Rightarrow> None))"

definition ApplyDownlink_allocate :: "TopicAliasManager \<Rightarrow> Publish \<Rightarrow> TopicAliasManager \<times> Publish" where
  "ApplyDownlink_allocate m p =
     (if downlinkNext m \<ge> downlinkMax m then (m, p)
      else
        (let alias = downlinkNext m + 1
         in (m\<lparr>downlinkNext := alias,
               downlinkTopicToAlias := alist_set (pub_Topic p) alias (downlinkTopicToAlias m)\<rparr>,
             putTopicAlias alias p)))"

definition ApplyDownlink_slow :: "TopicAliasManager \<Rightarrow> Publish \<Rightarrow> TopicAliasManager \<times> Publish" where
  "ApplyDownlink_slow m p =
     (if downlinkMax m = 0 \<or> pub_Topic p = [] then (m, p)
      else
        (case alist_get (downlinkTopicToAlias m) (pub_Topic p) of
           Some alias \<Rightarrow>
             (m, if alias = 0 \<or> alias > downlinkMax m then p else (putTopicAlias alias p)\<lparr>pub_Topic := []\<rparr>)
         | None \<Rightarrow>
             (if downlinkFree m \<noteq> [] then
                (let alias = last (downlinkFree m);
                     m = m\<lparr>downlinkFree := butlast (downlinkFree m)\<rparr>
                 in if alias \<noteq> 0 \<and> alias \<le> downlinkMax m
                    then (m\<lparr>downlinkTopicToAlias := alist_set (pub_Topic p) alias (downlinkTopicToAlias m)\<rparr>,
                          putTopicAlias alias p)
                    else ApplyDownlink_allocate m p)
              else ApplyDownlink_allocate m p)))"

definition ApplyDownlink :: "TopicAliasManager \<Rightarrow> Publish \<Rightarrow> TopicAliasManager \<times> Publish" where
  "ApplyDownlink m p =
     (let p = stripTopicAlias p
      in case ApplyDownlink_fast m p of Some p \<Rightarrow> (m, p) | None \<Rightarrow> ApplyDownlink_slow m p)"

definition RevertDownlinkAlias :: "string \<Rightarrow> TopicAliasManager \<Rightarrow> TopicAliasManager" where
  "RevertDownlinkAlias topic m =
     (if topic = [] then m
      else
        (case alist_get (downlinkTopicToAlias m) topic of
           None \<Rightarrow> m
         | Some alias \<Rightarrow>
             (let m = m\<lparr>downlinkTopicToAlias := alist_del topic (downlinkTopicToAlias m)\<rparr>
              in if alias > 0 then m\<lparr>downlinkFree := downlinkFree m @ [alias]\<rparr> else m)))"

text \<open>The result is the final topic and whether it came from an alias, next to the manager and the packet.\<close>

definition ApplyUplink ::
  "TopicAliasManager \<Rightarrow> Publish \<Rightarrow> u16 \<Rightarrow> (aliasError + string \<times> bool) \<times> TopicAliasManager \<times> Publish" where
  "ApplyUplink m p serverMax =
     (case aliasOf p of
        None \<Rightarrow> (Inr (pub_Topic p, False), m, p)
      | Some alias \<Rightarrow>
          (if alias = 0 then (Inl ErrTopicAliasInvalid, m, p)
           else if serverMax = 0 \<or> alias > serverMax then (Inl ErrTopicAliasInvalid, m, p)
           else if pub_Topic p \<noteq> [] then
             (Inr (pub_Topic p, False),
              m\<lparr>uplinkAliasToTopic := alist_set alias (pub_Topic p) (uplinkAliasToTopic m)\<rparr>, stripTopicAlias p)
           else
             (let topic = (case alist_get (uplinkAliasToTopic m) alias of None \<Rightarrow> [] | Some t \<Rightarrow> t)
              in if topic = [] then (Inl ErrTopicAliasNotFound, m, p)
                 else (Inr (topic, True), m, stripTopicAlias (p\<lparr>pub_Topic := topic\<rparr>)))))"

text \<open>\<open>revertDownlinkAlias\<close> of \<open>client_io.go\<close>: the topic the packet had before the alias replaced it.\<close>

definition revertDownlinkAlias :: "string \<Rightarrow> string \<Rightarrow> TopicAliasManager \<Rightarrow> TopicAliasManager" where
  "revertDownlinkAlias fullTopic publishTopic m =
     (let originalTopic = (if fullTopic = [] then publishTopic else fullTopic)
      in if originalTopic \<noteq> [] then RevertDownlinkAlias originalTopic m else m)"

text \<open>\<open>resetDownlinkTopicAlias\<close> of \<open>client_handler_connect.go\<close>, with the alias maximum of the CONNECT.\<close>

definition resetDownlinkTopicAlias :: "u16 option \<Rightarrow> TopicAliasManager \<Rightarrow> TopicAliasManager" where
  "resetDownlinkTopicAlias topicAliasMaximum m =
     (let m = ResetDownlink m
      in case topicAliasMaximum of Some maxAlias \<Rightarrow> SetDownlinkMax maxAlias m | None \<Rightarrow> SetDownlinkMax 0 m)"

section \<open>A sender and a receiver\<close>

text \<open>
  What happens to a packet with a topic: it is given an alias and written, or given an alias and discarded because it is
  larger than the client accepts, in which case the alias is taken back. The peer resolves what is written.
\<close>

datatype link_event = Written Publish | Discarded Publish

record link =
  ln_sender :: TopicAliasManager
  ln_receiver :: TopicAliasManager

definition link_start :: "u16 \<Rightarrow> link" where
  "link_start maxAlias =
     \<lparr>ln_sender = resetDownlinkTopicAlias (Some maxAlias) NewTopicAliasManager, ln_receiver = NewTopicAliasManager\<rparr>"

fun link_step :: "u16 \<Rightarrow> link \<Rightarrow> link_event \<Rightarrow> link \<times> (Publish \<times> (aliasError + string \<times> bool) \<times> Publish) list" where
  "link_step maxAlias l (Written p) =
     (let (s, q) = ApplyDownlink (ln_sender l) p;
          (res, r, q') = ApplyUplink (ln_receiver l) q maxAlias
      in (\<lparr>ln_sender = s, ln_receiver = r\<rparr>, [(p, res, q')]))"
| "link_step maxAlias l (Discarded p) =
     (let (s, q) = ApplyDownlink (ln_sender l) p
      in (l\<lparr>ln_sender := revertDownlinkAlias (pub_Topic p) (pub_Topic q) s\<rparr>, []))"

fun link_run :: "u16 \<Rightarrow> link \<Rightarrow> link_event list \<Rightarrow> (Publish \<times> (aliasError + string \<times> bool) \<times> Publish) list" where
  "link_run maxAlias l [] = []"
| "link_run maxAlias l (e # es) =
     (case link_step maxAlias l e of (l', arrived) \<Rightarrow> arrived @ link_run maxAlias l' es)"

text \<open>
  The invariant: aliases in use or free lie between 1 and the last one allocated, none is held twice, and the receiver knows
  every alias in use under its topic.
\<close>

definition sender_inv :: "u16 \<Rightarrow> TopicAliasManager \<Rightarrow> bool" where
  "sender_inv maxAlias m \<longleftrightarrow>
     downlinkMax m = maxAlias \<and> downlinkNext m \<le> maxAlias \<and>
     distinct (alist_keys (downlinkTopicToAlias m)) \<and>
     distinct (map snd (downlinkTopicToAlias m) @ downlinkFree m) \<and>
     (\<forall>a \<in> set (map snd (downlinkTopicToAlias m) @ downlinkFree m). 0 < a \<and> a \<le> downlinkNext m)"

definition link_inv :: "u16 \<Rightarrow> link \<Rightarrow> bool" where
  "link_inv maxAlias l \<longleftrightarrow>
     sender_inv maxAlias (ln_sender l) \<and>
     (\<forall>t a. alist_get (downlinkTopicToAlias (ln_sender l)) t = Some a \<longrightarrow>
        t \<noteq> [] \<and> alist_get (uplinkAliasToTopic (ln_receiver l)) a = Some t)"

lemma alias_packet_simps [simp]:
  "pub_Topic (stripTopicAlias p) = pub_Topic p"
  "pub_Topic (putTopicAlias a p) = pub_Topic p"
  "aliasOf (stripTopicAlias p) = None"
  "aliasOf (putTopicAlias a p) = Some a"
  "aliasOf (p\<lparr>pub_Topic := t\<rparr>) = aliasOf p"
  by (simp_all add: stripTopicAlias_def putTopicAlias_def aliasOf_def Let_def split: option.splits)

text \<open>What the sender may do with a packet: leave it, shorten it to a known alias, or announce a new alias.\<close>

inductive applied :: "TopicAliasManager \<Rightarrow> Publish \<Rightarrow> TopicAliasManager \<Rightarrow> Publish \<Rightarrow> bool" for m p where
  applied_plain: "sender_inv (downlinkMax m) m' \<Longrightarrow> downlinkMax m' = downlinkMax m \<Longrightarrow>
    downlinkTopicToAlias m' = downlinkTopicToAlias m \<Longrightarrow> applied m p m' (stripTopicAlias p)"
| applied_known: "alist_get (downlinkTopicToAlias m) (pub_Topic p) = Some a \<Longrightarrow>
    applied m p m ((putTopicAlias a (stripTopicAlias p))\<lparr>pub_Topic := []\<rparr>)"
| applied_new: "alist_get (downlinkTopicToAlias m) (pub_Topic p) = None \<Longrightarrow> pub_Topic p \<noteq> [] \<Longrightarrow>
    a \<notin> set (map snd (downlinkTopicToAlias m)) \<Longrightarrow> sender_inv (downlinkMax m) m' \<Longrightarrow> downlinkMax m' = downlinkMax m \<Longrightarrow>
    downlinkTopicToAlias m' = alist_set (pub_Topic p) a (downlinkTopicToAlias m) \<Longrightarrow>
    applied m p m' (putTopicAlias a (stripTopicAlias p))"

lemma alias_succ:
  fixes n k :: u16
  assumes "n < k"
  shows "n < n + 1" "n + 1 \<le> k" "0 < n + 1"
proof -
  have "n \<noteq> - 1" using assms word_order.extremum_strict [of k] by auto
  then have "1 + n \<noteq> 0" by (metis add.commute add_eq_0_iff)
  then have "unat (n + 1) = unat n + 1" using unatSuc [of n] by (simp add: add.commute)
  then show "n < n + 1" "n + 1 \<le> k" "0 < n + 1"
    using assms by (simp_all add: word_less_nat_alt word_le_nat_alt)
qed

lemma sender_inv_alias:
  assumes "sender_inv maxAlias m" "a \<in> snd ` set (downlinkTopicToAlias m) \<union> set (downlinkFree m)"
  shows "0 < a" "a \<le> downlinkNext m" "a \<le> maxAlias"
proof -
  have "0 < a \<and> a \<le> downlinkNext m" "downlinkNext m \<le> maxAlias" using assms by (auto simp: sender_inv_def)
  then show "0 < a" "a \<le> downlinkNext m" "a \<le> maxAlias" by auto
qed

lemma map_snd_alist_set_new: "alist_get m k = None \<Longrightarrow> map snd (alist_set k v m) = map snd m @ [v]"
  by (induction k v m rule: alist_set.induct) auto

lemma sender_inv_reuse:
  assumes inv: "sender_inv maxAlias m" and free: "downlinkFree m \<noteq> []" and new: "alist_get (downlinkTopicToAlias m) t = None"
  shows "sender_inv maxAlias (m\<lparr>downlinkFree := butlast (downlinkFree m),
    downlinkTopicToAlias := alist_set t (last (downlinkFree m)) (downlinkTopicToAlias m)\<rparr>)"
proof -
  obtain fs a where "downlinkFree m = fs @ [a]" using free by (cases "downlinkFree m" rule: rev_cases) auto
  then show ?thesis using inv new by (auto simp: sender_inv_def map_snd_alist_set_new)
qed

lemma allocate_applied:
  assumes inv: "sender_inv (downlinkMax m0) m" and m: "downlinkMax m = downlinkMax m0"
    "downlinkTopicToAlias m = downlinkTopicToAlias m0"
    and new: "alist_get (downlinkTopicToAlias m) (pub_Topic p) = None" "pub_Topic p \<noteq> []"
    and res: "ApplyDownlink_allocate m (stripTopicAlias p) = (m', q)"
  shows "applied m0 p m' q"
proof (cases "downlinkNext m \<ge> downlinkMax m")
  case True
  then show ?thesis using assms applied_plain [of m0 m p] by (simp add: ApplyDownlink_allocate_def)
next
  case False
  let ?a = "downlinkNext m + 1"
  have a: "downlinkNext m < ?a" "?a \<le> downlinkMax m" "0 < ?a" using alias_succ False by (auto simp: not_le)
  have fresh: "?a \<notin> snd ` set (downlinkTopicToAlias m) \<union> set (downlinkFree m)"
    using sender_inv_alias(2) [OF inv, of ?a] a(1) by (meson leD)
  have res': "m' = m\<lparr>downlinkNext := ?a, downlinkTopicToAlias := alist_set (pub_Topic p) ?a (downlinkTopicToAlias m)\<rparr>"
      "q = putTopicAlias ?a (stripTopicAlias p)"
    using res False by (auto simp: ApplyDownlink_allocate_def Let_def)
  have "sender_inv (downlinkMax m0) m'"
    using inv a fresh new m order.trans [of _ "downlinkNext m" ?a]
    by (auto simp: res' sender_inv_def map_snd_alist_set_new)
  then show ?thesis
    unfolding res'(2) using applied_new [of m0 p ?a m'] new m fresh by (simp add: res'(1))
qed

lemma ApplyDownlink_applied:
  assumes inv: "sender_inv (downlinkMax m) m" and res: "ApplyDownlink m p = (m', q)"
  shows "applied m p m' q"
proof -
  let ?p = "stripTopicAlias p"
  consider (off) "downlinkMax m = 0 \<or> pub_Topic p = []"
    | (known) a where "downlinkMax m \<noteq> 0" "pub_Topic p \<noteq> []" "alist_get (downlinkTopicToAlias m) (pub_Topic p) = Some a"
    | (new) "downlinkMax m \<noteq> 0" "pub_Topic p \<noteq> []" "alist_get (downlinkTopicToAlias m) (pub_Topic p) = None"
    by (cases "alist_get (downlinkTopicToAlias m) (pub_Topic p)") auto
  then show ?thesis
  proof cases
    case off
    then show ?thesis using res inv applied_plain [of m m p] by (auto simp: ApplyDownlink_def ApplyDownlink_fast_def)
  next
    case known
    then have "a \<in> snd ` set (downlinkTopicToAlias m)" by (force dest: alist_get_Some_in)
    then have "0 < a" "a \<le> downlinkMax m" using sender_inv_alias [OF inv, of a] by auto
    then show ?thesis
      using known res applied_known [of m p a] by (auto simp: ApplyDownlink_def ApplyDownlink_fast_def Let_def not_less)
  next
    case new
    then have slow: "ApplyDownlink_slow m ?p = (m', q)" using res by (simp add: ApplyDownlink_def ApplyDownlink_fast_def)
    show ?thesis
    proof (cases "downlinkFree m = []")
      case True
      then show ?thesis using allocate_applied [OF inv, of p m' q] new slow by (simp add: ApplyDownlink_slow_def)
    next
      case False
      let ?a = "last (downlinkFree m)"
      have a: "?a \<in> set (downlinkFree m)" using False by simp
      then have ok: "0 < ?a" "?a \<le> downlinkMax m" using sender_inv_alias [OF inv, of ?a] by auto
      have "?a \<notin> set (map snd (downlinkTopicToAlias m))" "?a \<noteq> 0" using a ok(1) inv by (auto simp: sender_inv_def)
      then show ?thesis
        using slow new ok False sender_inv_reuse [OF inv False new(3)] applied_new [of m p ?a m']
        by (auto simp: ApplyDownlink_slow_def Let_def)
    qed
  qed
qed

lemma ApplyUplink_resolve:
  assumes "aliasOf q = Some a" "0 < a" "a \<le> maxAlias"
  shows "pub_Topic q \<noteq> [] \<Longrightarrow> ApplyUplink m q maxAlias =
      (Inr (pub_Topic q, False), m\<lparr>uplinkAliasToTopic := alist_set a (pub_Topic q) (uplinkAliasToTopic m)\<rparr>, stripTopicAlias q)"
    "pub_Topic q = [] \<Longrightarrow> alist_get (uplinkAliasToTopic m) a = Some t \<Longrightarrow> t \<noteq> [] \<Longrightarrow>
      ApplyUplink m q maxAlias = (Inr (t, True), m, stripTopicAlias (q\<lparr>pub_Topic := t\<rparr>))"
proof -
  have "a \<noteq> 0" "maxAlias \<noteq> 0" "\<not> maxAlias < a" using assms by auto
  then show "pub_Topic q \<noteq> [] \<Longrightarrow> ApplyUplink m q maxAlias =
      (Inr (pub_Topic q, False), m\<lparr>uplinkAliasToTopic := alist_set a (pub_Topic q) (uplinkAliasToTopic m)\<rparr>, stripTopicAlias q)"
    "pub_Topic q = [] \<Longrightarrow> alist_get (uplinkAliasToTopic m) a = Some t \<Longrightarrow> t \<noteq> [] \<Longrightarrow>
      ApplyUplink m q maxAlias = (Inr (t, True), m, stripTopicAlias (q\<lparr>pub_Topic := t\<rparr>))"
    using assms(1) by (simp_all add: ApplyUplink_def)
qed

lemma link_written:
  assumes inv: "link_inv maxAlias l" and app: "applied (ln_sender l) p m' q" and up: "ApplyUplink (ln_receiver l) q maxAlias = (res, r, q')"
  shows "link_inv maxAlias \<lparr>ln_sender = m', ln_receiver = r\<rparr> \<and>
    (\<exists>fromAlias. res = Inr (pub_Topic p, fromAlias)) \<and> (\<exists>a. q' = stripTopicAlias p \<or> q' = stripTopicAlias (putTopicAlias a p))"
proof -
  have s: "sender_inv maxAlias (ln_sender l)" "downlinkMax (ln_sender l) = maxAlias"
    using inv by (auto simp: link_inv_def sender_inv_def)
  have strip_new: "stripTopicAlias (putTopicAlias a (stripTopicAlias p)) = stripTopicAlias (putTopicAlias a p)" for a
    by (simp add: stripTopicAlias_def putTopicAlias_def Let_def split: option.splits)
  have strip_known: "stripTopicAlias (putTopicAlias a (stripTopicAlias p)\<lparr>pub_Topic := pub_Topic p\<rparr>) = stripTopicAlias (putTopicAlias a p)" for a
    by (simp add: stripTopicAlias_def putTopicAlias_def Let_def split: option.splits)
  from app show ?thesis
  proof cases
    case applied_plain
    then show ?thesis using inv up s by (auto simp: link_inv_def ApplyUplink_def)
  next
    case (applied_known a)
    then have a: "a \<in> snd ` set (downlinkTopicToAlias (ln_sender l))" by (force dest: alist_get_Some_in)
    moreover have "pub_Topic p \<noteq> []" "alist_get (uplinkAliasToTopic (ln_receiver l)) a = Some (pub_Topic p)"
      using inv applied_known(3) by (auto simp: link_inv_def)
    moreover have "0 < a" "a \<le> maxAlias" using a sender_inv_alias [OF s(1), of a] by auto
    ultimately have "(res, r, q') = (Inr (pub_Topic p, True), ln_receiver l, stripTopicAlias (putTopicAlias a p))"
      using ApplyUplink_resolve(2) [of q a maxAlias "ln_receiver l" "pub_Topic p"] up applied_known strip_known [of a] by simp
    then show ?thesis using inv applied_known(1) by (cases l) auto
  next
    case (applied_new a)
    have new: "map snd (downlinkTopicToAlias m') = map snd (downlinkTopicToAlias (ln_sender l)) @ [a]"
      using map_snd_alist_set_new [OF applied_new(2)] applied_new(7) by simp
    then have "a \<in> snd ` set (downlinkTopicToAlias m')" by (metis in_set_conv_decomp list.set_map)
    then have a: "0 < a" "a \<le> maxAlias" using sender_inv_alias [OF applied_new(5), of a] s(2) by auto
    have "(res, r, q') = (Inr (pub_Topic p, False),
        (ln_receiver l)\<lparr>uplinkAliasToTopic := alist_set a (pub_Topic p) (uplinkAliasToTopic (ln_receiver l))\<rparr>, stripTopicAlias (putTopicAlias a p))"
      using ApplyUplink_resolve(1) [of q a maxAlias "ln_receiver l"] up a applied_new(1,3) strip_new [of a] by simp
    moreover have "a' \<noteq> a" if "alist_get (downlinkTopicToAlias (ln_sender l)) t = Some a'" for t a'
      using applied_new(4) alist_get_Some_in [OF that] by force
    ultimately show ?thesis
      using inv applied_new(3,5,7) s(2) by (auto simp: link_inv_def)
  qed
qed

lemma alist_del_split:
  assumes "alist_get m k = Some v" "distinct (alist_keys m)"
  obtains ys zs where "m = ys @ (k, v) # zs" "alist_del k m = ys @ zs"
proof -
  obtain ys zs where m: "m = ys @ (k, v) # zs" using alist_get_Some_in [OF assms(1)] by (auto dest: split_list)
  then have "k \<notin> fst ` set ys" "k \<notin> fst ` set zs" using assms(2) by auto
  then have "alist_del k ys = ys" "alist_del k zs = zs" by (force simp: alist_del_def filter_id_conv)+
  then have "alist_del k m = ys @ zs" using m by (simp add: alist_del_def)
  with m show thesis by (rule that)
qed

lemma sender_inv_revert:
  assumes inv: "sender_inv maxAlias m"
  shows "sender_inv maxAlias (RevertDownlinkAlias t m)"
    "t \<noteq> [] \<Longrightarrow> alist_get (downlinkTopicToAlias (RevertDownlinkAlias t m)) t' =
      (if t' = t then None else alist_get (downlinkTopicToAlias m) t')"
proof -
  show "t \<noteq> [] \<Longrightarrow> alist_get (downlinkTopicToAlias (RevertDownlinkAlias t m)) t' =
      (if t' = t then None else alist_get (downlinkTopicToAlias m) t')"
    by (auto simp: RevertDownlinkAlias_def Let_def split: option.splits)
  show "sender_inv maxAlias (RevertDownlinkAlias t m)"
  proof (cases "t = [] \<or> alist_get (downlinkTopicToAlias m) t = None")
    case False
    then obtain a where a: "t \<noteq> []" "alist_get (downlinkTopicToAlias m) t = Some a" by auto
    then have "a \<in> snd ` set (downlinkTopicToAlias m)" by (force dest: alist_get_Some_in)
    then have pos: "0 < a" "a \<le> downlinkNext m" using sender_inv_alias [OF inv, of a] by auto
    obtain ys zs where "downlinkTopicToAlias m = ys @ (t, a) # zs" "alist_del t (downlinkTopicToAlias m) = ys @ zs"
      using alist_del_split [OF a(2)] inv by (auto simp: sender_inv_def)
    then show ?thesis
      using inv a pos by (auto simp: sender_inv_def RevertDownlinkAlias_def)
  qed (use inv in \<open>auto simp: RevertDownlinkAlias_def split: option.splits\<close>)
qed

lemma link_discarded:
  assumes inv: "link_inv maxAlias l" and app: "applied (ln_sender l) p m' q"
  shows "link_inv maxAlias (l\<lparr>ln_sender := revertDownlinkAlias (pub_Topic p) (pub_Topic q) m'\<rparr>)"
proof -
  have s: "sender_inv maxAlias (ln_sender l)" "downlinkMax (ln_sender l) = maxAlias"
    using inv by (auto simp: link_inv_def sender_inv_def)
  have m': "sender_inv maxAlias m'" "pub_Topic p = [] \<Longrightarrow> pub_Topic q = [] \<and> downlinkTopicToAlias m' = downlinkTopicToAlias (ln_sender l)"
    "t \<noteq> pub_Topic p \<Longrightarrow> alist_get (downlinkTopicToAlias m') t = alist_get (downlinkTopicToAlias (ln_sender l)) t" for t
    using app s by (cases; auto)+
  then show ?thesis
    using inv sender_inv_revert [OF m'(1), of "pub_Topic p"]
    by (cases "pub_Topic p = []") (auto simp: link_inv_def revertDownlinkAlias_def split: if_splits)
qed

lemma link_start_inv: "link_inv maxAlias (link_start maxAlias)"
  by (simp add: link_inv_def sender_inv_def link_start_def resetDownlinkTopicAlias_def NewTopicAliasManager_def
      ResetDownlink_def SetDownlinkMax_def)

lemma link_run_resolves:
  assumes "link_inv maxAlias l" "(p, res, q) \<in> set (link_run maxAlias l es)"
  shows "(\<exists>fromAlias. res = Inr (pub_Topic p, fromAlias)) \<and> (\<exists>a. q = stripTopicAlias p \<or> q = stripTopicAlias (putTopicAlias a p))"
  using assms
proof (induction es arbitrary: l)
  case (Cons e es)
  have s: "sender_inv (downlinkMax (ln_sender l)) (ln_sender l)"
    using Cons.prems(1) by (auto simp: link_inv_def sender_inv_def)
  show ?case
  proof (cases e)
    case (Written p')
    obtain s' q' res' r q'' where down: "ApplyDownlink (ln_sender l) p' = (s', q')"
      and up: "ApplyUplink (ln_receiver l) q' maxAlias = (res', r, q'')" by (metis prod.exhaust)
    show ?thesis
      using link_written [OF Cons.prems(1) ApplyDownlink_applied [OF s down] up] Cons.IH Cons.prems(2) Written down up
      by auto
  next
    case (Discarded p')
    obtain s' q' where down: "ApplyDownlink (ln_sender l) p' = (s', q')" by (cases "ApplyDownlink (ln_sender l) p'")
    show ?thesis
      using link_discarded [OF Cons.prems(1) ApplyDownlink_applied [OF s down]] Cons.IH Cons.prems(2) Discarded down
      by auto
  qed
qed simp

text \<open>C20: whatever the alias maximum the client announced and whichever packets are discarded on the way, every
  PUBLISH that is written arrives with the topic it had: resolving it on a fresh receiver never fails, gives the topic back and leaves
  a packet that differs from the original in nothing but the alias.\<close>

theorem topic_alias_resolves:
  assumes "(p, res, q) \<in> set (link_run maxAlias (link_start maxAlias) events)"
  shows "(\<exists>fromAlias. res = Inr (pub_Topic p, fromAlias)) \<and>
    (q = stripTopicAlias p \<or> pub_Properties p = None \<and> q = p\<lparr>pub_Properties := Some emptyPublishProperties\<rparr>)"
proof -
  have "q = stripTopicAlias p \<or> pub_Properties p = None \<and> q = p\<lparr>pub_Properties := Some emptyPublishProperties\<rparr>"
    if "q = stripTopicAlias (putTopicAlias a p)" for a
    using that by (cases "pub_Properties p")
      (auto simp: stripTopicAlias_def putTopicAlias_def Let_def emptyPublishProperties_def)
  then show ?thesis using link_run_resolves [OF link_start_inv assms] by blast
qed

definition wit_pub :: "string \<Rightarrow> Publish" where
  "wit_pub t = \<lparr>pub_Payload = [], pub_Topic = t, pub_Properties = None, pub_PacketID = 0, pub_QoS = 0,
     pub_Duplicate = False, pub_Retain = False\<rparr>"

theorem topic_alias_resolves_witness:
  "\<exists>q fromAlias. (wit_pub ''b'', Inr (''b'', fromAlias), q) \<in> set (link_run 1 (link_start 1)
     [Written (wit_pub ''a''), Discarded (wit_pub ''a''), Written (wit_pub ''b''), Written (wit_pub ''b'')]) \<and>
     q = (wit_pub ''b'')\<lparr>pub_Properties := Some emptyPublishProperties\<rparr>"
proof -
  let ?q = "(wit_pub ''b'')\<lparr>pub_Properties := Some emptyPublishProperties\<rparr>"
  have "(wit_pub ''b'', Inr (''b'', True), ?q) \<in> set (link_run 1 (link_start 1)
     [Written (wit_pub ''a''), Discarded (wit_pub ''a''), Written (wit_pub ''b''), Written (wit_pub ''b'')])"
    by code_simp
  then show ?thesis using topic_alias_resolves by fastforce
qed

end
