(* ===== verification/Packet_Id.thy ===== *)
theory Packet_Id
  imports Prelude Mqtt_Packet
begin

text \<open>
  Packet identifiers of one connection: the counter of \<open>src/internal/broker/client/internal/packetid\<close> with its decimal
  form and the map from identifiers to topics, the window of \<open>src/internal/broker/client/rate\<close>, and the search for a free
  identifier (\<open>NextPacketID\<close> of \<open>client_identity.go\<close>), which asks the store of unfinished messages whether an
  identifier is in use. That question is a parameter here.
\<close>

section \<open>The counter\<close>

record PacketIDFactory =
  pif_id :: u16

text \<open>\<open>rand.Intn(math.MaxUint16-1) + 1\<close>, for the value \<open>Intn\<close> returned.\<close>

definition randomInitPacketID :: "nat \<Rightarrow> u16" where
  "randomInitPacketID intn = of_nat (intn + 1)"

definition NewPacketIDFactory :: "nat \<Rightarrow> PacketIDFactory" where
  "NewPacketIDFactory intn = \<lparr>pif_id = randomInitPacketID intn\<rparr>"

definition SetID :: "u16 \<Rightarrow> PacketIDFactory \<Rightarrow> PacketIDFactory" where
  "SetID i p = p\<lparr>pif_id := i\<rparr>"

definition PacketIDFactory_NextPacketID :: "PacketIDFactory \<Rightarrow> u16 \<times> PacketIDFactory" where
  "PacketIDFactory_NextPacketID p =
     (let i = (if pif_id p = 0xFFFF then 1 else pif_id p + 1);
          i = (if i = 0 then 1 else i)
      in (i, p\<lparr>pif_id := i\<rparr>))"

section \<open>The decimal form\<close>

definition digit :: "nat \<Rightarrow> char" where
  "digit d = char_of (48 + d)"

fun showNat :: "nat \<Rightarrow> string" where
  "showNat n = (if n < 10 then [digit n] else showNat (n div 10) @ [digit (n mod 10)])"

declare showNat.simps [simp del]

definition PacketIDToString :: "u16 \<Rightarrow> string" where
  "PacketIDToString i = showNat (unat i)"

fun parseDigits :: "int \<Rightarrow> string \<Rightarrow> int option" where
  "parseDigits acc [] = Some acc"
| "parseDigits acc (c # cs) =
     (let d = int (of_char c) - 48 in if 0 \<le> d \<and> d \<le> 9 then parseDigits (acc * 10 + d) cs else None)"

text \<open>\<open>strconv.ParseInt(s, 10, 64)\<close>: a sign, at least one digit, and a value of 64 bits.\<close>

definition ParseInt :: "string \<Rightarrow> int option" where
  "ParseInt s =
     (let neg = (s \<noteq> [] \<and> hd s = CHR ''-'');
          ds = (if s \<noteq> [] \<and> (hd s = CHR ''-'' \<or> hd s = CHR ''+'') then tl s else s)
      in if ds = [] then None
         else
           (case parseDigits 0 ds of
              None \<Rightarrow> None
            | Some v \<Rightarrow>
                (let v = (if neg then - v else v)
                 in if - (2 ^ 63) \<le> v \<and> v < 2 ^ 63 then Some v else None)))"

definition StringToPacketID :: "string \<Rightarrow> u16" where
  "StringToPacketID s = (case ParseInt s of None \<Rightarrow> 0 | Some i \<Rightarrow> of_int i)"

section \<open>Topics by identifier\<close>

type_synonym PacketIDTopic = "(u16 \<times> string) list"

definition NewPacketIDTopic :: PacketIDTopic where
  "NewPacketIDTopic = []"

definition SetPacketIDTopic :: "u16 \<Rightarrow> string \<Rightarrow> PacketIDTopic \<Rightarrow> PacketIDTopic" where
  "SetPacketIDTopic i topic p = alist_set i topic p"

definition GetTopic :: "PacketIDTopic \<Rightarrow> u16 \<Rightarrow> string" where
  "GetTopic p i = (case alist_get p i of None \<Rightarrow> [] | Some t \<Rightarrow> t)"

definition DeletePacketID :: "u16 \<Rightarrow> PacketIDTopic \<Rightarrow> PacketIDTopic" where
  "DeletePacketID i p = alist_del i p"

section \<open>The window\<close>

text \<open>
  A bucket is a channel with a token per free place; with no limit it is a closed channel, from which every receive
  succeeds and whose length is 0.
\<close>

record Bucket =
  bk_ch :: nat
  bk_num :: int

definition NewBucket :: "int \<Rightarrow> Bucket" where
  "NewBucket num = \<lparr>bk_ch = (if num \<le> 0 then 0 else nat num), bk_num = num\<rparr>"

text \<open>\<open>GetToken\<close> blocks while the channel is empty: None means that it waits.\<close>

definition GetToken :: "Bucket \<Rightarrow> Bucket option" where
  "GetToken b =
     (if bk_num b \<le> 0 then Some b else if bk_ch b = 0 then None else Some (b\<lparr>bk_ch := bk_ch b - 1\<rparr>))"

definition TryGetToken :: "Bucket \<Rightarrow> bool \<times> Bucket" where
  "TryGetToken b =
     (if bk_num b \<le> 0 then (True, b) else if bk_ch b = 0 then (False, b) else (True, b\<lparr>bk_ch := bk_ch b - 1\<rparr>))"

definition PutToken :: "Bucket \<Rightarrow> Bucket" where
  "PutToken b =
     (if bk_num b \<le> 0 then b else if int (bk_ch b) < bk_num b then b\<lparr>bk_ch := bk_ch b + 1\<rparr> else b)"

definition RemainingToken :: "Bucket \<Rightarrow> nat" where
  "RemainingToken b = bk_ch b"

text \<open>\<open>setupPublishBucket\<close>: the window of the CONNECT, or 65535, or one of the configuration, and at least 1.\<close>

definition setupPublishBucket :: "u16 option \<Rightarrow> int option \<Rightarrow> int \<Rightarrow> Bucket" where
  "setupPublishBucket receiveMaximum windowSizeCfg rateLimitWindowSize =
     (let windowSize = (case receiveMaximum of Some r \<Rightarrow> uint r | None \<Rightarrow> 65535);
          windowSize =
            (case windowSizeCfg of
               Some w \<Rightarrow>
                 (if windowSize \<le> 0
                  then (if w > 0 then w else if rateLimitWindowSize > 0 then rateLimitWindowSize else windowSize)
                  else windowSize)
             | None \<Rightarrow> windowSize);
          windowSize = (if windowSize \<le> 0 then 1 else windowSize)
      in NewBucket windowSize)"

section \<open>A free identifier\<close>

fun NextPacketID_loop :: "nat \<Rightarrow> (u16 \<Rightarrow> bool) \<Rightarrow> PacketIDFactory \<Rightarrow> u16 \<times> PacketIDFactory" where
  "NextPacketID_loop 0 inUse f = (0, f)"
| "NextPacketID_loop (Suc attempts) inUse f =
     (let (packetID, f) = PacketIDFactory_NextPacketID f
      in if packetID = 0 then NextPacketID_loop attempts inUse f
         else if inUse packetID then NextPacketID_loop attempts inUse f
         else (packetID, f))"

definition Client_NextPacketID :: "(u16 \<Rightarrow> bool) \<Rightarrow> PacketIDFactory \<Rightarrow> u16 \<times> PacketIDFactory" where
  "Client_NextPacketID inUse f = NextPacketID_loop 65535 inUse f"

section \<open>The counter runs through all identifiers\<close>

definition next_id :: "u16 \<Rightarrow> u16" where
  "next_id i = (if i = 0xFFFF then 1 else i + 1)"

lemma unat_next_id: "unat (next_id i) = (if unat i = 65535 then 1 else unat i + 1)"
proof (cases "unat i = 65535")
  case True
  then have "i = 0xFFFF" by (simp add: word_unat_eq_iff)
  then show ?thesis by (simp add: next_id_def)
next
  case False
  have "unat i < 65536" using unsigned_less [of i, where ?'a = nat] by simp
  then have "unat (i + 1) = unat i + 1" using False by (simp add: unat_word_ariths)
  moreover have "i \<noteq> 0xFFFF" using False by auto
  ultimately show ?thesis using False by (simp add: next_id_def)
qed

lemma next_id_nonzero: "next_id i \<noteq> 0"
  using unat_next_id [of i] by (auto split: if_splits)

lemma NextPacketID_eq: "PacketIDFactory_NextPacketID p = (next_id (pif_id p), p\<lparr>pif_id := next_id (pif_id p)\<rparr>)"
  using next_id_nonzero [of "pif_id p"] by (simp add: PacketIDFactory_NextPacketID_def next_id_def Let_def)

lemma unat_next_id_iter: "0 < k \<Longrightarrow> unat ((next_id ^^ k) i) = (unat i + 65534 + k) mod 65535 + 1"
proof (induction k)
  case (Suc k)
  show ?case
  proof (cases "k = 0")
    case True
    have "unat i < 65536" using unsigned_less [of i, where ?'a = nat] by simp
    then have "unat i = 65535 \<or> unat i < 65535" by linarith
    then have "(unat i + 65535) mod 65535 + 1 = unat (next_id i)" using unat_next_id [of i] by (elim disjE) simp_all
    then show ?thesis using True by simp
  next
    case False
    then have "unat ((next_id ^^ k) i) = (unat i + 65534 + k) mod 65535 + 1" using Suc.IH by simp
    then have "unat (next_id ((next_id ^^ k) i)) =
        (if (unat i + 65534 + k) mod 65535 + 1 = 65535 then 1 else (unat i + 65534 + k) mod 65535 + 2)"
      using unat_next_id [of "(next_id ^^ k) i"] by simp
    then show ?thesis using mod_Suc [of "unat i + 65534 + k" 65535] by simp
  qed
qed simp

lemma next_id_reaches:
  assumes "t \<noteq> 0"
  obtains k where "0 < k" "k \<le> 65535" "(next_id ^^ k) i = t"
proof -
  have t: "1 \<le> unat t" "unat t \<le> 65535"
    using assms unsigned_less [of t, where ?'a = nat] by (simp_all add: unat_gt_0 Suc_le_eq)
  have i: "unat i \<le> 65535" using unsigned_less [of i, where ?'a = nat] by simp
  define k where "k = (if unat i < unat t then unat t - unat i else unat t + 65535 - unat i)"
  have k: "0 < k" "k \<le> 65535" using t i by (auto simp: k_def)
  have "(unat i + 65534 + k) mod 65535 = unat t - 1"
  proof (cases "unat i < unat t")
    case True
    then have "unat i + 65534 + k = (unat t - 1) + 65535" using t by (simp add: k_def)
    then have "(unat i + 65534 + k) mod 65535 = (unat t - 1) mod 65535" by (simp only: mod_add_self2)
    also have "\<dots> = unat t - 1" using t by (intro mod_less) linarith
    finally show ?thesis .
  next
    case False
    then have "unat i + 65534 + k = (unat t - 1) + 2 * 65535" using t i by (simp add: k_def)
    then have "(unat i + 65534 + k) mod 65535 = (unat t - 1) mod 65535" by (simp only: mod_mult_self1)
    also have "\<dots> = unat t - 1" using t by (intro mod_less) linarith
    finally show ?thesis .
  qed
  then have "(next_id ^^ k) i = t" using unat_next_id_iter [OF k(1), of i] t by (simp add: word_unat_eq_iff)
  with k show thesis by (rule that)
qed

lemma NextPacketID_loop_spec:
  "(\<exists>k. 0 < k \<and> k \<le> n \<and> \<not> inUse ((next_id ^^ k) (pif_id f)) \<and>
      fst (NextPacketID_loop n inUse f) = (next_id ^^ k) (pif_id f)) \<or>
   (\<forall>k. 0 < k \<and> k \<le> n \<longrightarrow> inUse ((next_id ^^ k) (pif_id f))) \<and> fst (NextPacketID_loop n inUse f) = 0"
proof (induction n arbitrary: f)
  case (Suc n)
  let ?i = "next_id (pif_id f)" and ?f = "f\<lparr>pif_id := next_id (pif_id f)\<rparr>"
  show ?case
  proof (cases "inUse ?i")
    case False
    then have "0 < (1::nat) \<and> 1 \<le> Suc n \<and> \<not> inUse ((next_id ^^ 1) (pif_id f)) \<and>
        fst (NextPacketID_loop (Suc n) inUse f) = (next_id ^^ 1) (pif_id f)"
      using next_id_nonzero by (simp add: NextPacketID_eq)
    then show ?thesis by blast
  next
    case True
    then have step: "NextPacketID_loop (Suc n) inUse f = NextPacketID_loop n inUse ?f"
      using next_id_nonzero by (simp add: NextPacketID_eq)
    have shift: "(next_id ^^ k) (pif_id ?f) = (next_id ^^ Suc k) (pif_id f)" for k
      by (simp add: funpow_swap1)
    from Suc.IH [of ?f] show ?thesis
    proof (elim disjE exE conjE)
      fix k assume "0 < k" "k \<le> n" "\<not> inUse ((next_id ^^ k) (pif_id ?f))"
        "fst (NextPacketID_loop n inUse ?f) = (next_id ^^ k) (pif_id ?f)"
      then have "0 < Suc k \<and> Suc k \<le> Suc n \<and> \<not> inUse ((next_id ^^ Suc k) (pif_id f)) \<and>
          fst (NextPacketID_loop (Suc n) inUse f) = (next_id ^^ Suc k) (pif_id f)"
        unfolding step shift by simp
      then show ?thesis by blast
    next
      assume all: "\<forall>k. 0 < k \<and> k \<le> n \<longrightarrow> inUse ((next_id ^^ k) (pif_id ?f))"
        and none: "fst (NextPacketID_loop n inUse ?f) = 0"
      have "inUse ((next_id ^^ k) (pif_id f))" if "0 < k" "k \<le> Suc n" for k
        using that all True unfolding shift by (cases k; cases "k = 1") auto
      then show ?thesis using none step by simp
    qed
  qed
qed auto

text \<open>C21: the search for a packet identifier is bounded and complete. It always ends, with an identifier that is not 0
  and not in use whenever there is one, wherever the counter stands, and with 0 exactly when all 65535 are in use.\<close>

theorem next_packet_id_free:
  "(fst (Client_NextPacketID inUse f) = 0 \<longleftrightarrow> (\<forall>i. i \<noteq> 0 \<longrightarrow> inUse i)) \<and>
   (fst (Client_NextPacketID inUse f) \<noteq> 0 \<longrightarrow> \<not> inUse (fst (Client_NextPacketID inUse f)))"
proof -
  have nz: "(next_id ^^ k) i \<noteq> 0" if "0 < k" for k i
    using that next_id_nonzero by (cases k) auto
  from NextPacketID_loop_spec [of 65535 inUse f] show ?thesis
  proof (elim disjE exE conjE)
    fix k assume k: "0 < k" "\<not> inUse ((next_id ^^ k) (pif_id f))"
      "fst (NextPacketID_loop 65535 inUse f) = (next_id ^^ k) (pif_id f)"
    then show ?thesis using nz [OF k(1)] unfolding Client_NextPacketID_def by auto
  next
    assume all: "\<forall>k. 0 < k \<and> k \<le> 65535 \<longrightarrow> inUse ((next_id ^^ k) (pif_id f))"
      and none: "fst (NextPacketID_loop 65535 inUse f) = 0"
    have "inUse i" if "i \<noteq> 0" for i using all by (metis next_id_reaches [OF that, of "pif_id f"])
    then show ?thesis using none unfolding Client_NextPacketID_def by simp
  qed
qed

theorem next_packet_id_free_witness:
  "fst (Client_NextPacketID (\<lambda>i. i = 1) \<lparr>pif_id = 0xFFFF\<rparr>) \<noteq> 0 \<and> fst (Client_NextPacketID (\<lambda>i. i = 1) \<lparr>pif_id = 0xFFFF\<rparr>) \<noteq> 1"
proof -
  have "(2 :: u16) \<noteq> 0" "(2 :: u16) \<noteq> 1" by simp_all
  then have "\<not> (\<forall>i :: u16. i \<noteq> 0 \<longrightarrow> i = 1)" by blast
  then show ?thesis using next_packet_id_free [of "\<lambda>i. i = 1" "\<lparr>pif_id = 0xFFFF\<rparr>"] by blast
qed

section \<open>The decimal form is read back\<close>

lemma parseDigits_append:
  "parseDigits acc (xs @ ys) = (case parseDigits acc xs of None \<Rightarrow> None | Some v \<Rightarrow> parseDigits v ys)"
  by (induction xs arbitrary: acc) (auto simp: Let_def)

lemma of_char_digit: "d < 10 \<Longrightarrow> (of_char (digit d) :: nat) = 48 + d"
  by (simp add: digit_def)

lemma parseDigits_showNat: "parseDigits 0 (showNat n) = Some (int n)"
proof (induction n rule: showNat.induct)
  case (1 n)
  show ?case
  proof (cases "n < 10")
    case True
    then show ?thesis by (subst showNat.simps) (simp add: of_char_digit Let_def)
  next
    case False
    then have "parseDigits 0 (showNat n) = parseDigits (int (n div 10)) [digit (n mod 10)]"
      using 1 by (subst showNat.simps) (simp add: parseDigits_append)
    also have "\<dots> = Some (int (n div 10) * 10 + int (n mod 10))"
      by (simp add: of_char_digit Let_def del: of_nat_div of_nat_mod zdiv_int zmod_int)
    also have "int (n div 10) * 10 + int (n mod 10) = int n"
      by (metis div_mult_mod_eq of_nat_add of_nat_mult of_nat_numeral)
    finally show ?thesis .
  qed
qed

lemma showNat_head: "showNat n \<noteq> [] \<and> hd (showNat n) \<noteq> CHR ''-'' \<and> hd (showNat n) \<noteq> CHR ''+''"
proof (induction n rule: showNat.induct)
  case (1 n)
  have "digit n \<noteq> CHR ''-'' \<and> digit n \<noteq> CHR ''+''" if "n < 10"
    using of_char_digit [OF that] by (auto simp del: of_char_eq_iff dest!: arg_cong [of _ _ "of_char :: char \<Rightarrow> nat"])
  then show ?case using 1 by (subst (1 2 3) showNat.simps) auto
qed

lemma StringToPacketID_PacketIDToString: "StringToPacketID (PacketIDToString i) = i"
proof -
  have "uint i < 2 ^ 16" using uint_lt2p [of i] by simp
  moreover have "- (2 ^ 63) \<le> uint i" by (rule order_trans [OF _ uint_ge_0]) simp
  ultimately have "ParseInt (PacketIDToString i) = Some (uint i)"
    using showNat_head [of "unat i"] by (simp add: ParseInt_def PacketIDToString_def parseDigits_showNat Let_def)
  then show ?thesis by (simp add: StringToPacketID_def)
qed

section \<open>The window is never empty for good\<close>

lemma setupPublishBucket_positive:
  "bk_num (setupPublishBucket r w l) \<ge> 1 \<and> int (bk_ch (setupPublishBucket r w l)) = bk_num (setupPublishBucket r w l)"
  by (auto simp: setupPublishBucket_def NewBucket_def Let_def split: option.splits)

end
