(* ===== verification/Delivery_Keys.thy ===== *)
theory Delivery_Keys
  imports Prelude "HOL-Library.Sublist"
begin

text \<open>
  The keys of the Badger delivery store (\<open>src/pkg/storage/delivery/metadata/badgerstore/keys.go\<close>) and what the store uses of
  the libraries below it. Badger and the UUID package are parameters: a record of the operations the code calls, with a
  predicate stating what their documentation promises. A value of the store is the struct whose JSON text the code
  writes, so a value is one of four structs, told apart by the prefix of its key.

  The lemmas show that the byte order of the keys of one client is the order of the positions (time, task identifier),
  that the keys of two clients never share a prefix, and that an iteration from a position visits exactly the rows of
  the client at and after that position, in order.
\<close>

section \<open>Times and identifiers\<close>

text \<open>A \<open>time.Time\<close> is the zero time or its nanoseconds since 1970. \<open>UnixNano\<close> of the zero time is the wrapped
  number of nanoseconds that Go returns for it.\<close>

type_synonym GoTime = "int option"

definition UnixNano :: "GoTime \<Rightarrow> int" where
  "UnixNano t = (case t of None \<Rightarrow> -6795364578871345152 | Some n \<Rightarrow> n)"

definition time_Unix0 :: "int \<Rightarrow> GoTime" where
  "time_Unix0 n = Some n"

text \<open>\<open>uuid.UUID\<close> is \<open>[16]byte\<close>.\<close>

type_synonym UUID = bytes

definition uuid_Nil :: UUID where
  "uuid_Nil = replicate 16 0"

record uuid_api =
  ua_Parse :: "string \<Rightarrow> UUID option"
  ua_String :: "UUID \<Rightarrow> string"

definition uuid_ok :: "uuid_api \<Rightarrow> bool" where
  "uuid_ok U \<longleftrightarrow> (\<forall>u. length u = 16 \<longrightarrow> ua_Parse U (ua_String U u) = Some u \<and> ua_String U u \<noteq> [])
     \<and> (\<forall>s u. ua_Parse U s = Some u \<longrightarrow> length u = 16)"

lemma uuid_okD:
  assumes "uuid_ok U"
  shows "length u = 16 \<Longrightarrow> ua_Parse U (ua_String U u) = Some u"
    and "length u = 16 \<Longrightarrow> ua_String U u \<noteq> []"
    and "ua_Parse U s = Some v \<Longrightarrow> length v = 16"
  using assms by (auto simp: uuid_ok_def)

lemma length_uuid_Nil [simp]: "length uuid_Nil = 16"
  by (simp add: uuid_Nil_def)

section \<open>Big-endian numbers\<close>

fun be_bytes :: "nat \<Rightarrow> nat \<Rightarrow> bytes" where
  "be_bytes 0 n = []"
| "be_bytes (Suc k) n = be_bytes k (n div 256) @ [of_nat n]"

definition PutUint64 :: "u64 \<Rightarrow> bytes" where
  "PutUint64 w = be_bytes 8 (unat w)"

definition be_val :: "bytes \<Rightarrow> nat" where
  "be_val bs = foldl (\<lambda>a b. a * 256 + unat b) 0 bs"

definition Uint64 :: "bytes \<Rightarrow> u64" where
  "Uint64 bs = of_nat (be_val (take 8 bs))"

lemma be_val_snoc: "be_val (bs @ [b]) = be_val bs * 256 + unat b"
  by (simp add: be_val_def)

lemma be_val_Nil: "be_val [] = 0"
  by (simp add: be_val_def)

lemma unat_byte_less: "unat (b :: byte) < 256"
  using unsigned_less [of b, where ?'a = nat] by simp

lemma snoc_less_iff:
  fixes xs ys :: bytes
  assumes "length xs = length ys"
  shows "xs @ [a] < ys @ [b] \<longleftrightarrow> xs < ys \<or> xs = ys \<and> a < b"
  using assms
proof (induction xs ys rule: list_induct2)
  case (Cons x xs y ys)
  then show ?case by (auto simp: less_list_code)
qed (simp add: less_list_code)

lemma digit_eq_iff:
  fixes x y a b :: nat
  assumes "a < 256" "b < 256"
  shows "x * 256 + a = y * 256 + b \<longleftrightarrow> x = y \<and> a = b"
  using assms by (cases x y rule: linorder_cases) auto

lemma be_val_inject: "length xs = length ys \<Longrightarrow> be_val xs = be_val ys \<longleftrightarrow> xs = ys"
proof (induction xs arbitrary: ys rule: rev_induct)
  case (snoc a xs)
  then obtain zs b where ys: "ys = zs @ [b]" "length xs = length zs"
    by (cases ys rule: rev_cases) auto
  have "be_val (xs @ [a]) = be_val (zs @ [b]) \<longleftrightarrow> be_val xs = be_val zs \<and> unat a = unat b"
    unfolding be_val_snoc by (rule digit_eq_iff [OF unat_byte_less unat_byte_less])
  then show ?case
    using snoc.IH [OF ys(2)] by (simp add: ys(1) word_unat_eq_iff)
qed simp

lemma be_val_less_iff: "length xs = length ys \<Longrightarrow> be_val xs < be_val ys \<longleftrightarrow> xs < ys"
proof (induction xs arbitrary: ys rule: rev_induct)
  case (snoc a xs)
  then obtain zs b where ys: "ys = zs @ [b]" "length xs = length zs"
    by (cases ys rule: rev_cases) auto
  have "be_val (xs @ [a]) < be_val (zs @ [b])
    \<longleftrightarrow> be_val xs < be_val zs \<or> be_val xs = be_val zs \<and> unat a < unat b"
    using unat_byte_less [of a] unat_byte_less [of b] unfolding be_val_snoc by linarith
  then show ?case
    using snoc.IH [OF ys(2)] be_val_inject [OF ys(2)]
    by (simp add: ys(1) snoc_less_iff [OF ys(2)] word_less_nat_alt)
qed simp

lemma length_be_bytes [simp]: "length (be_bytes k n) = k"
  by (induction k arbitrary: n) simp_all

lemma be_val_be_bytes: "be_val (be_bytes k n) = n mod 256 ^ k"
proof (induction k arbitrary: n)
  case (Suc k)
  have "unat (of_nat n :: byte) = n mod 256"
    by (simp add: unat_of_nat)
  then show ?case
    by (simp add: Suc be_val_snoc mod_mult2_eq)
qed (simp add: be_val_Nil)

lemma length_PutUint64 [simp]: "length (PutUint64 w) = 8"
  by (simp add: PutUint64_def)

lemma be_val_PutUint64: "be_val (PutUint64 w) = unat w"
  using unsigned_less [of w, where ?'a = nat] by (simp add: PutUint64_def be_val_be_bytes)

lemma Uint64_PutUint64 [simp]: "Uint64 (PutUint64 w @ bs) = w"
  by (simp add: Uint64_def be_val_PutUint64)

lemma PutUint64_less_iff: "PutUint64 v < PutUint64 w \<longleftrightarrow> v < w"
  using be_val_less_iff [of "PutUint64 v" "PutUint64 w"] by (simp add: be_val_PutUint64 word_less_nat_alt)

lemma PutUint64_inject: "PutUint64 v = PutUint64 w \<longleftrightarrow> v = w"
  using be_val_inject [of "PutUint64 v" "PutUint64 w"] by (simp add: be_val_PutUint64 word_unat_eq_iff)

text \<open>The conversion \<open>uint64(ts)\<close> keeps the order of non-negative times.\<close>

definition ts_ok :: "int \<Rightarrow> bool" where
  "ts_ok t \<longleftrightarrow> 0 \<le> t \<and> t < 2 ^ 63"

definition uint64_of :: "int \<Rightarrow> u64" where
  "uint64_of t = word_of_int t"

lemma uint64_of_less_iff: "ts_ok s \<Longrightarrow> ts_ok t \<Longrightarrow> uint64_of s < uint64_of t \<longleftrightarrow> s < t"
  by (simp add: uint64_of_def ts_ok_def word_less_def uint_word_of_int)

lemma sint_uint64_of: "ts_ok t \<Longrightarrow> sint (uint64_of t) = t"
  by (simp add: uint64_of_def ts_ok_def sint_sbintrunc' signed_take_bit_int_eq_self)

lemma uint64_of_inject: "ts_ok s \<Longrightarrow> ts_ok t \<Longrightarrow> uint64_of s = uint64_of t \<longleftrightarrow> s = t"
  by (metis sint_uint64_of)

section \<open>Keys\<close>

definition prefixTask :: bytes where
  "prefixTask = bytes_of_string ''dq:t:''"

definition prefixCursor :: bytes where
  "prefixCursor = bytes_of_string ''dq:c:''"

definition prefixShareTask :: bytes where
  "prefixShareTask = bytes_of_string ''sq:t:''"

definition prefixShareCursor :: bytes where
  "prefixShareCursor = bytes_of_string ''sq:c:''"

definition taskKeyPrefix :: "string \<Rightarrow> bytes" where
  "taskKeyPrefix clientID = prefixTask @ bytes_of_string clientID @ [0]"

definition taskKey :: "string \<Rightarrow> int \<Rightarrow> UUID \<Rightarrow> bytes" where
  "taskKey clientID tsUnixNano taskIDBytes =
     taskKeyPrefix clientID @ PutUint64 (uint64_of tsUnixNano) @ taskIDBytes"

definition cursorKey :: "string \<Rightarrow> bytes" where
  "cursorKey clientID = prefixCursor @ bytes_of_string clientID"

definition shareTaskKeyPrefix :: "string \<Rightarrow> bytes" where
  "shareTaskKeyPrefix shareGroup = prefixShareTask @ bytes_of_string shareGroup @ [0]"

definition shareTaskKey :: "string \<Rightarrow> int \<Rightarrow> UUID \<Rightarrow> bytes" where
  "shareTaskKey shareGroup tsUnixNano taskIDBytes =
     shareTaskKeyPrefix shareGroup @ PutUint64 (uint64_of tsUnixNano) @ taskIDBytes"

definition shareCursorKey :: "string \<Rightarrow> bytes" where
  "shareCursorKey shareGroup = prefixShareCursor @ bytes_of_string shareGroup"

definition parseTaskKey :: "bytes \<Rightarrow> bytes \<Rightarrow> (int \<times> UUID) option" where
  "parseTaskKey key expectClientPrefix =
     (if \<not> prefix expectClientPrefix key then None
      else
        (let rest = drop (length expectClientPrefix) key
         in if length rest < 8 + 16 then None
            else Some (sint (Uint64 (take 8 rest)), take 16 (drop 8 rest))))"

definition parseShareTaskKey :: "bytes \<Rightarrow> bytes \<Rightarrow> (int \<times> UUID) option" where
  "parseShareTaskKey key expectGroupPrefix =
     (if \<not> prefix expectGroupPrefix key then None
      else
        (let rest = drop (length expectGroupPrefix) key
         in if length rest < 8 + 16 then None
            else Some (sint (Uint64 (take 8 rest)), take 16 (drop 8 rest))))"

definition parseClientIDFromTaskKey :: "bytes \<Rightarrow> string option" where
  "parseClientIDFromTaskKey key =
     (if \<not> prefix prefixTask key then None
      else
        (let rest = drop (length prefixTask) key;
             idPart = takeWhile (\<lambda>b. b \<noteq> 0) rest
         in if length idPart = length rest \<or> idPart = [] then None
            else Some (string_of_bytes idPart)))"

text \<open>A name is free of NUL, as every UTF-8 string of MQTT is; a position is a non-negative time and an identifier.\<close>

definition nul_free :: "string \<Rightarrow> bool" where
  "nul_free s \<longleftrightarrow> CHR 0x00 \<notin> set s"

type_synonym position = "int \<times> UUID"

definition pos_ok :: "position \<Rightarrow> bool" where
  "pos_ok p \<longleftrightarrow> ts_ok (fst p) \<and> length (snd p) = 16"

definition pos_less :: "position \<Rightarrow> position \<Rightarrow> bool" where
  "pos_less p q \<longleftrightarrow> fst p < fst q \<or> fst p = fst q \<and> snd p < snd q"

lemma nul_free_bytes: "nul_free s \<Longrightarrow> 0 \<notin> set (bytes_of_string s)"
proof
  assume "nul_free s" "0 \<in> set (bytes_of_string s)"
  then obtain c where c: "c \<in> set s" "(of_nat (of_char c) :: byte) = 0"
    by (auto simp: bytes_of_string_def)
  then have "unat (of_nat (of_char c) :: byte) = 0"
    by simp
  then have "(of_char c :: nat) = 0"
    by simp
  then have "c = char_of (0 :: nat)"
    by (metis char_of_char)
  then have "c = CHR 0x00"
    by (simp add: char_of_def)
  then show False
    using c \<open>nul_free s\<close> by (simp add: nul_free_def)
qed

lemma bytes_of_string_inject [simp]: "bytes_of_string s = bytes_of_string t \<longleftrightarrow> s = t"
  by (metis string_of_bytes_of_string)

lemma split_at_nul:
  assumes "a @ 0 # x = b @ 0 # y" "(0 :: byte) \<notin> set a" "0 \<notin> set b"
  shows "a = b \<and> x = y"
  using assms
proof (induction a arbitrary: b)
  case Nil
  then show ?case by (cases b) auto
next
  case (Cons c a)
  then show ?case by (cases b) auto
qed

lemmas key_defs = taskKey_def taskKeyPrefix_def cursorKey_def shareTaskKey_def shareTaskKeyPrefix_def shareCursorKey_def
  prefixTask_def prefixCursor_def prefixShareTask_def prefixShareCursor_def

lemma prefix_lengths [simp]:
  "length prefixTask = 5" "length prefixCursor = 5" "length prefixShareTask = 5" "length prefixShareCursor = 5"
  by (simp_all add: key_defs)

lemma prefixes_distinct [simp]:
  "prefixTask @ x \<noteq> prefixCursor @ y" "prefixTask @ x \<noteq> prefixShareTask @ y" "prefixTask @ x \<noteq> prefixShareCursor @ y"
  "prefixCursor @ x \<noteq> prefixTask @ y" "prefixCursor @ x \<noteq> prefixShareTask @ y" "prefixCursor @ x \<noteq> prefixShareCursor @ y"
  "prefixShareTask @ x \<noteq> prefixTask @ y" "prefixShareTask @ x \<noteq> prefixCursor @ y"
  "prefixShareTask @ x \<noteq> prefixShareCursor @ y"
  "prefixShareCursor @ x \<noteq> prefixTask @ y" "prefixShareCursor @ x \<noteq> prefixCursor @ y"
  "prefixShareCursor @ x \<noteq> prefixShareTask @ y"
  by (simp_all add: prefixTask_def prefixCursor_def prefixShareTask_def prefixShareCursor_def bytes_of_string_def)

text \<open>A row key of either kind is a base prefix, a name, a NUL, and a position.\<close>

definition rowKey :: "bytes \<Rightarrow> string \<Rightarrow> position \<Rightarrow> bytes" where
  "rowKey base name p = base @ bytes_of_string name @ 0 # PutUint64 (uint64_of (fst p)) @ snd p"

lemma taskKey_row: "taskKey c t u = rowKey prefixTask c (t, u)"
  by (simp add: rowKey_def taskKey_def taskKeyPrefix_def)

lemma shareTaskKey_row: "shareTaskKey g t u = rowKey prefixShareTask g (t, u)"
  by (simp add: rowKey_def shareTaskKey_def shareTaskKeyPrefix_def)

lemma rowKey_prefix: "prefix (base @ bytes_of_string n @ [0]) (rowKey base n p)"
  by (simp add: rowKey_def prefix_def)

lemma rowKey_prefix_iff:
  assumes "nul_free m" "nul_free n"
  shows "prefix (base @ bytes_of_string m @ [0]) (rowKey base n p) \<longleftrightarrow> m = n"
proof
  assume "prefix (base @ bytes_of_string m @ [0]) (rowKey base n p)"
  then obtain z where "bytes_of_string m @ 0 # z = bytes_of_string n @ 0 # PutUint64 (uint64_of (fst p)) @ snd p"
    by (auto simp: prefix_def rowKey_def)
  from split_at_nul [OF this nul_free_bytes [OF assms(1)] nul_free_bytes [OF assms(2)]] show "m = n"
    by simp
qed (simp add: rowKey_prefix)

lemma append_less_same [simp]: "xs @ ys < xs @ zs \<longleftrightarrow> ys < zs" for xs ys zs :: bytes
  by (induction xs) (simp_all add: less_list_code)

lemma append_less_lengths:
  fixes xs ys us vs :: bytes
  assumes "length xs = length ys"
  shows "xs @ us < ys @ vs \<longleftrightarrow> xs < ys \<or> xs = ys \<and> us < vs"
  using assms by (induction xs ys rule: list_induct2) (auto simp: less_list_code)

lemma rowKey_less_iff:
  assumes "pos_ok p" "pos_ok q"
  shows "rowKey base n p < rowKey base n q \<longleftrightarrow> pos_less p q"
proof -
  have "rowKey base n p < rowKey base n q
    \<longleftrightarrow> PutUint64 (uint64_of (fst p)) @ snd p < PutUint64 (uint64_of (fst q)) @ snd q"
    by (simp add: rowKey_def less_list_code)
  also have "\<dots> \<longleftrightarrow> pos_less p q"
    using assms
    by (simp add: append_less_lengths PutUint64_less_iff PutUint64_inject uint64_of_less_iff uint64_of_inject
        pos_ok_def pos_less_def)
  finally show ?thesis .
qed

lemma rowKey_inject:
  assumes "pos_ok p" "pos_ok q" "nul_free m" "nul_free n"
  shows "rowKey base m p = rowKey base n q \<longleftrightarrow> m = n \<and> p = q"
proof
  assume eq: "rowKey base m p = rowKey base n q"
  then have "m = n"
    using rowKey_prefix_iff [OF assms(3, 4), of base q] rowKey_prefix [of base m p] by simp
  moreover have "PutUint64 (uint64_of (fst p)) @ snd p = PutUint64 (uint64_of (fst q)) @ snd q"
    using eq \<open>m = n\<close> by (simp add: rowKey_def)
  then have "fst p = fst q \<and> snd p = snd q"
    using assms(1, 2) by (simp add: PutUint64_inject uint64_of_inject pos_ok_def)
  ultimately show "m = n \<and> p = q"
    by (simp add: prod_eq_iff)
qed simp

lemma parse_rowKey:
  assumes "pos_ok p"
  shows "parseTaskKey (rowKey prefixTask n p) (taskKeyPrefix n) = Some p"
    and "parseShareTaskKey (rowKey prefixShareTask n p) (shareTaskKeyPrefix n) = Some p"
  using assms
  by (simp_all add: parseTaskKey_def parseShareTaskKey_def rowKey_def taskKeyPrefix_def shareTaskKeyPrefix_def Let_def
      prefix_def pos_ok_def sint_uint64_of Uint64_PutUint64 [of _ "[]", simplified])

section \<open>The database\<close>

datatype store_error =
    ErrConflict
  | ErrRetry
  | ErrBadger string
  | ErrUUID
  | ErrJSON
  | ErrMsg string

text \<open>Badger as the code calls it: \<open>txn.Get\<close> (no value is \<open>ErrKeyNotFound\<close>), \<open>txn.Set\<close> and \<open>txn.Delete\<close>, which may
  refuse the write (a transaction that has become too large), and the items an iterator visits after \<open>it.Seek\<close>.\<close>

record ('db, 'v) badger_api =
  bd_Get :: "'db \<Rightarrow> bytes \<Rightarrow> 'v option"
  bd_Set :: "'db \<Rightarrow> bytes \<Rightarrow> 'v \<Rightarrow> store_error + 'db"
  bd_Delete :: "'db \<Rightarrow> bytes \<Rightarrow> store_error + 'db"
  bd_Seek :: "'db \<Rightarrow> bytes \<Rightarrow> (bytes \<times> 'v) list"

definition badger_ok :: "('db, 'v) badger_api \<Rightarrow> bool" where
  "badger_ok B \<longleftrightarrow>
     (\<forall>db k v db'. bd_Set B db k v = Inr db' \<longrightarrow> bd_Get B db' = (bd_Get B db)(k := Some v)) \<and>
     (\<forall>db k db'. bd_Delete B db k = Inr db' \<longrightarrow> bd_Get B db' = (bd_Get B db)(k := None)) \<and>
     (\<forall>db k. sorted_wrt (\<lambda>x y. fst x < fst y) (bd_Seek B db k) \<and>
        set (bd_Seek B db k) = {(k', v). k \<le> k' \<and> bd_Get B db k' = Some v})"

lemma badger_okD:
  assumes "badger_ok B"
  shows "bd_Set B db k v = Inr db' \<Longrightarrow> bd_Get B db' = (bd_Get B db)(k := Some v)"
    and "bd_Delete B db k = Inr db' \<Longrightarrow> bd_Get B db' = (bd_Get B db)(k := None)"
    and "sorted_wrt (\<lambda>x y. fst x < fst y) (bd_Seek B db k)"
    and "(k', x) \<in> set (bd_Seek B db k) \<longleftrightarrow> k \<le> k' \<and> bd_Get B db k' = Some x"
  using assms by (simp_all add: badger_ok_def)

text \<open>\<open>db.Update(fn)\<close>: the writes of \<open>fn\<close> are committed together, and none of them when \<open>fn\<close> or the commit returns an
  error. A variable the closure assigns keeps its value in both cases; \<open>commit\<close> is the outcome of the commit.\<close>

definition db_Update :: "store_error option \<Rightarrow> ('db \<Rightarrow> 'c \<times> (store_error + 'db)) \<Rightarrow> 'db
    \<Rightarrow> 'c \<times> store_error option \<times> 'db" where
  "db_Update commit fn db =
     (let (c, r) = fn db
      in case r of
           Inl e \<Rightarrow> (c, Some e, db)
         | Inr db' \<Rightarrow> (case commit of Some e \<Rightarrow> (c, Some e, db) | None \<Rightarrow> (c, None, db')))"

definition isBadgerUpdateRetryable :: "store_error option \<Rightarrow> bool" where
  "isBadgerUpdateRetryable err \<longleftrightarrow> err = Some ErrConflict \<or> err = Some ErrRetry"

definition defaultBadgerUpdateRetryBackoff :: "int list" where
  "defaultBadgerUpdateRetryBackoff = [2, 5, 10]"

function withBadgerUpdateRetryConfig :: "(nat \<Rightarrow> 'db \<Rightarrow> 'c \<times> store_error option \<times> 'db) \<Rightarrow> int list \<Rightarrow> nat \<Rightarrow> 'db
    \<Rightarrow> 'c \<times> store_error option \<times> 'db" where
  "withBadgerUpdateRetryConfig update backoff attempt db =
     (let (c, err, db') = update attempt db
      in if \<not> isBadgerUpdateRetryable err then (c, err, db')
         else if attempt \<ge> length backoff then (c, err, db')
         else withBadgerUpdateRetryConfig update backoff (attempt + 1) db')"
  by auto
termination
  by (relation "measure (\<lambda>(u, backoff, attempt, db). length backoff - attempt)") auto

declare withBadgerUpdateRetryConfig.simps [simp del]

definition withBadgerUpdateRetry :: "(nat \<Rightarrow> 'db \<Rightarrow> 'c \<times> store_error option \<times> 'db) \<Rightarrow> 'db
    \<Rightarrow> 'c \<times> store_error option \<times> 'db" where
  "withBadgerUpdateRetry update = withBadgerUpdateRetryConfig update defaultBadgerUpdateRetryBackoff 0"

text \<open>A retried transaction ends as one of its attempts did, on the database the first attempt found.\<close>

lemma retry_some_attempt:
  assumes "\<And>n x. update n db = (c' n, e' n, d' n) \<Longrightarrow> isBadgerUpdateRetryable (e' n) \<Longrightarrow> d' n = db"
    and "\<And>n. update n db = (c' n, e' n, d' n)"
  shows "\<exists>n. withBadgerUpdateRetryConfig update backoff attempt db = (c' n, e' n, d' n)"
proof (induction "length backoff - attempt" arbitrary: attempt)
  case 0
  then show ?case
    using assms(2) [of attempt] by (auto simp: withBadgerUpdateRetryConfig.simps [of update backoff attempt])
next
  case (Suc k)
  have "d' attempt = db" if "isBadgerUpdateRetryable (e' attempt)"
    using assms that by blast
  moreover have "\<exists>n. withBadgerUpdateRetryConfig update backoff (attempt + 1) db = (c' n, e' n, d' n)"
    using Suc by auto
  ultimately show ?case
    using assms(2) [of attempt] Suc(2) by (auto simp: withBadgerUpdateRetryConfig.simps [of update backoff attempt])
qed

section \<open>Iterating over a prefix\<close>

text \<open>\<open>for it.Seek(seekKey); it.ValidForPrefix(prefix); it.Next()\<close>.\<close>

definition iterPrefix :: "('db, 'v) badger_api \<Rightarrow> 'db \<Rightarrow> bytes \<Rightarrow> bytes \<Rightarrow> (bytes \<times> 'v) list" where
  "iterPrefix B db seekKey pfx = takeWhile (\<lambda>(k, v). prefix pfx k) (bd_Seek B db seekKey)"

fun deleteKeys :: "('db, 'v) badger_api \<Rightarrow> bytes list \<Rightarrow> 'db \<Rightarrow> store_error + 'db" where
  "deleteKeys B [] db = Inr db"
| "deleteKeys B (k # ks) db = rbind (bd_Delete B db k) (deleteKeys B ks)"

lemma deleteKeys_get:
  assumes "badger_ok B" "deleteKeys B ks db = Inr db'"
  shows "bd_Get B db' k = (if k \<in> set ks then None else bd_Get B db k)"
  using assms(2)
proof (induction ks arbitrary: db)
  case (Cons x ks)
  then obtain d where "bd_Delete B db x = Inr d" "deleteKeys B ks d = Inr db'"
    by (auto simp: rbind_eq_Inr)
  then show ?case
    using Cons.IH badger_okD(2) [OF assms(1)] by auto
qed simp

lemma prefix_convex:
  fixes p a b c :: bytes
  shows "prefix p a \<Longrightarrow> prefix p c \<Longrightarrow> a \<le> b \<Longrightarrow> b \<le> c \<Longrightarrow> prefix p b"
proof (induction p arbitrary: a b c)
  case (Cons x p)
  obtain a' where a: "a = x # a'" "prefix p a'"
    using Cons.prems(1) by (cases a) simp_all
  obtain c' where c: "c = x # c'" "prefix p c'"
    using Cons.prems(2) by (cases c) simp_all
  obtain y b' where b: "b = y # b'"
    using Cons.prems(3) a(1) by (cases b) simp_all
  have ab: "x < y \<or> x = y \<and> a' \<le> b'" and bc: "y < x \<or> y = x \<and> b' \<le> c'"
    using Cons.prems(3, 4) unfolding a(1) b c(1) by simp_all
  then have "x = y" "a' \<le> b'" "b' \<le> c'"
    using less_asym [of x y] by blast+
  then show ?case
    using Cons.IH [OF a(2) c(2)] b by simp
qed simp

lemma iterPrefix_sorted: "badger_ok B \<Longrightarrow> sorted_wrt (\<lambda>x y. fst x < fst y) (iterPrefix B db s p)"
  by (simp add: iterPrefix_def badger_okD(3) sorted_wrt_takeWhile)

lemma takeWhile_all_iff:
  assumes "sorted_wrt R xs" "\<And>x y. x \<in> set xs \<Longrightarrow> y \<in> set xs \<Longrightarrow> R x y \<Longrightarrow> P y \<Longrightarrow> P x"
  shows "takeWhile P xs = filter P xs"
  using assms
proof (induction xs)
  case (Cons x xs)
  show ?case
  proof (cases "P x")
    case True
    moreover have "takeWhile P xs = filter P xs"
      using Cons.prems by (intro Cons.IH) (simp, meson list.set_intros(2))
    ultimately show ?thesis by simp
  next
    case False
    have "R x y" if "y \<in> set xs" for y
      using Cons.prems(1) that by simp
    then have "\<not> P y" if "y \<in> set xs" for y
      using Cons.prems(2) [of x y] that False by auto
    then show ?thesis using False by (simp add: filter_empty_conv)
  qed
qed simp

lemma iterPrefix_filter:
  assumes "badger_ok B" "prefix p s"
  shows "iterPrefix B db s p = filter (\<lambda>(k, v). prefix p k) (bd_Seek B db s)"
  unfolding iterPrefix_def
proof (rule takeWhile_all_iff [OF badger_okD(3) [OF assms(1)]])
  fix x y
  assume x: "x \<in> set (bd_Seek B db s)" and y: "fst x < fst y" "case y of (k, v) \<Rightarrow> prefix p k"
  have "s \<le> fst x"
    using x badger_okD(4) [OF assms(1), of "fst x" "snd x"] by simp
  then show "case x of (k, v) \<Rightarrow> prefix p k"
    using y prefix_convex [OF assms(2), of "fst y" "fst x"] by (simp add: split_beta)
qed

lemma in_iterPrefix_iff:
  assumes "badger_ok B" "prefix p s"
  shows "(k, v) \<in> set (iterPrefix B db s p) \<longleftrightarrow> prefix p k \<and> s \<le> k \<and> bd_Get B db k = Some v"
  using badger_okD(4) [OF assms(1)] by (auto simp: iterPrefix_filter [OF assms])

section \<open>An instance of the parameters\<close>

text \<open>The promises can be kept: a database that is the list of its writes, and identifiers printed as their bytes.\<close>

definition list_badger :: "((bytes \<times> 'v) list, 'v) badger_api" where
  "list_badger =
     \<lparr>bd_Get = map_of, bd_Set = (\<lambda>db k v. Inr ((k, v) # db)), bd_Delete = (\<lambda>db k. Inr (filter (\<lambda>x. fst x \<noteq> k) db)),
      bd_Seek = (\<lambda>db k. map (\<lambda>k. (k, the (map_of db k))) (filter (\<lambda>k'. k \<le> k') (sort (remdups (map fst db)))))\<rparr>"

definition raw_uuid :: uuid_api where
  "raw_uuid =
     \<lparr>ua_Parse = (\<lambda>s. if length s = 16 then Some (bytes_of_string s) else None), ua_String = string_of_bytes\<rparr>"

lemma list_badger_ok: "badger_ok (list_badger :: ((bytes \<times> 'v) list, 'v) badger_api)"
proof -
  let ?B = "list_badger :: ((bytes \<times> 'v) list, 'v) badger_api"
  have sorted: "sorted_wrt (\<lambda>x y. fst x < fst y) (bd_Seek ?B db k)" for db k
    by (simp add: list_badger_def sorted_wrt_map sorted_wrt_filter strict_sorted_iff)
  have del: "map_of (filter (\<lambda>x. fst x \<noteq> k) db) = (map_of db)(k := None)" for db :: "(bytes \<times> 'v) list" and k
    by (induction db) (auto simp: fun_eq_iff)
  have "(k', v) \<in> set (bd_Seek ?B db k) \<longleftrightarrow> k \<le> k' \<and> map_of db k' = Some v" for db k k' v
  proof -
    have "k' \<in> fst ` set db" if "map_of db k' = Some v"
      using map_of_SomeD [OF that] by force
    moreover have "map_of db k' = Some (the (map_of db k'))" if "k' \<in> fst ` set db"
      using that map_of_eq_None_iff [of db k'] by fastforce
    ultimately show ?thesis
      by (auto simp: list_badger_def)
  qed
  then have "set (bd_Seek ?B db k) = {(k', v). k \<le> k' \<and> bd_Get ?B db k' = Some v}" for db k
    by (simp add: set_eq_iff) (simp add: list_badger_def)
  moreover have "bd_Get ?B db' = (bd_Get ?B db)(k := Some v)" if "bd_Set ?B db k v = Inr db'" for db k v db'
    using that by (auto simp: list_badger_def)
  moreover have "bd_Get ?B db' = (bd_Get ?B db)(k := None)" if "bd_Delete ?B db k = Inr db'" for db k db'
    using that del by (auto simp: list_badger_def)
  ultimately show ?thesis
    unfolding badger_ok_def by (intro conjI allI impI sorted) assumption+
qed

lemma raw_uuid_ok: "uuid_ok raw_uuid"
  by (auto simp: uuid_ok_def raw_uuid_def simp flip: length_0_conv)
end
