(* ===== verification/Delivery_Store.thy ===== *)
theory Delivery_Store
  imports Delivery_Keys
begin

text \<open>
  The delivery queues of the Badger store: \<open>state_machine_update.go\<close>, \<open>state_machine_lookup.go\<close>, \<open>local_store.go\<close> and the
  structs of \<open>codec.go\<close> and \<open>state_machine.go\<close> under \<open>src/pkg/storage/delivery/metadata/badgerstore\<close>. Each client has a
  queue of task rows ordered by position and one cursor. The shared-subscription rows of the same database are in
  \<open>Share_Store\<close>.

  A function that runs a transaction takes the outcome of its commit as an argument and returns what the Go function
  returns together with the database. The lemmas relate every operation to \<open>tasks\<close>, the map from positions to rows of one
  client, and to \<open>cursor_of\<close>, its cursor.
\<close>

section \<open>Stored structs\<close>

type_synonym TaskStatus = string

record taskValue =
  tv_MessageID :: string
  tv_DeliveryQoS :: int
  tv_SubscriptionIDs :: "int list"
  tv_NoLocal :: bool
  tv_RetainAsPublished :: bool
  tv_ShareGroup :: string
  tv_SharedTaskID :: string

record cursorValue =
  cv_UpdatedTSUnixNano :: int
  cv_ClientID :: string
  cv_LastTSUnixNano :: int
  cv_LastTaskID :: string

record shareTaskValue =
  stv_ShareGroup :: string
  stv_TopicFilter :: string
  stv_MessageID :: string
  stv_DeliveryQoS :: int
  stv_PublishQoS :: int
  stv_PublisherClient :: string
  stv_SubscriptionIDs :: string
  stv_WinnerNoLocal :: bool
  stv_WinnerRAP :: bool
  stv_Status :: TaskStatus
  stv_ProcessedByNode :: u64
  stv_ProcessedAtNano :: int
  stv_RollbackReason :: string

record shareCursorValue =
  scv_ShareGroup :: string
  scv_LastProcessedTSNano :: int
  scv_LastProcessedTaskID :: string
  scv_LeaderNodeID :: u64
  scv_LastRenewalNano :: int

datatype kvValue =
    KTask taskValue
  | KCursor cursorValue
  | KShareTask shareTaskValue
  | KShareCursor shareCursorValue

text \<open>\<open>json.Unmarshal\<close> into the struct the code expects under the key.\<close>

definition unmarshalTask :: "kvValue \<Rightarrow> store_error + taskValue" where
  "unmarshalTask v = (case v of KTask tv \<Rightarrow> Inr tv | _ \<Rightarrow> Inl ErrJSON)"

definition unmarshalCursor :: "kvValue \<Rightarrow> store_error + cursorValue" where
  "unmarshalCursor v = (case v of KCursor cv \<Rightarrow> Inr cv | _ \<Rightarrow> Inl ErrJSON)"

type_synonym 'db badger = "('db, kvValue) badger_api"

section \<open>Requests and replies\<close>

record appendTaskRequest =
  at_TSUnixNano :: int
  at_TaskID :: string
  at_ClientID :: string
  at_MessageID :: string
  at_DeliveryQoS :: int
  at_SubscriptionIDs :: "int list"
  at_NoLocal :: bool
  at_RetainAsPublished :: bool
  at_ShareGroup :: string
  at_SharedTaskID :: string

record advanceCursorRequest =
  ac_UpdatedTSUnixNano :: int
  ac_ClientID :: string
  ac_LastTSUnixNano :: int
  ac_LastTaskID :: string

record deleteClientStateRequest =
  dcs_ClientID :: string

record deleteSharedTasksRequest =
  dst_ClientID :: string
  dst_ShareGroup :: string

record readTasksQuery =
  rtq_ClientID :: string
  rtq_LastTSUnixNano :: int
  rtq_LastTaskID :: UUID
  rtq_Limit :: int

record DeliveryTask =
  dt_TS :: GoTime
  dt_TaskID :: UUID
  dt_ClientID :: string
  dt_MessageID :: UUID
  dt_Generation :: int
  dt_DeliveryQoS :: int
  dt_SubscriptionIDs :: "int list"
  dt_NoLocal :: bool
  dt_RetainAsPublished :: bool
  dt_ShareGroup :: string
  dt_SharedTaskID :: UUID

record DeliveryCursor =
  dc_UpdatedTS :: GoTime
  dc_ClientID :: string
  dc_Generation :: int
  dc_LastTS :: GoTime
  dc_LastTaskID :: UUID

record DeliveryBacklogSummary =
  dbs_PendingTasks :: int
  dbs_ActiveClients :: int

section \<open>Lookups\<close>

definition cloneSubscriptionIDs :: "int list \<Rightarrow> int list" where
  "cloneSubscriptionIDs ids = (if length ids > 0 then ids else [])"

definition deliveryTaskFromValue :: "uuid_api \<Rightarrow> string \<Rightarrow> int \<Rightarrow> UUID \<Rightarrow> taskValue \<Rightarrow> DeliveryTask option" where
  "deliveryTaskFromValue U clientID tsUnixNano taskUUID tv =
     (case ua_Parse U (tv_MessageID tv) of
        None \<Rightarrow> None
      | Some msgUUID \<Rightarrow>
          (let sharedTaskID =
                 (if tv_SharedTaskID tv \<noteq> []
                  then (case ua_Parse U (tv_SharedTaskID tv) of Some parsed \<Rightarrow> parsed | None \<Rightarrow> uuid_Nil)
                  else uuid_Nil)
           in Some \<lparr>dt_TS = time_Unix0 tsUnixNano, dt_TaskID = taskUUID, dt_ClientID = clientID, dt_MessageID = msgUUID,
                    dt_Generation = 0, dt_DeliveryQoS = tv_DeliveryQoS tv,
                    dt_SubscriptionIDs = cloneSubscriptionIDs (tv_SubscriptionIDs tv), dt_NoLocal = tv_NoLocal tv,
                    dt_RetainAsPublished = tv_RetainAsPublished tv, dt_ShareGroup = tv_ShareGroup tv,
                    dt_SharedTaskID = sharedTaskID\<rparr>))"

text \<open>\<open>uuid.FromBytes\<close> fails only for a slice that is not 16 bytes long.\<close>

definition deliveryTaskFromItem :: "uuid_api \<Rightarrow> string \<Rightarrow> bytes \<Rightarrow> bytes \<Rightarrow> nat \<Rightarrow> bytes \<times> kvValue
    \<Rightarrow> store_error + DeliveryTask option" where
  "deliveryTaskFromItem U clientID clientPrefix seekKey outLen item =
     (let key = fst item
      in if outLen = 0 \<and> key = seekKey then Inr None
         else
           (case parseTaskKey key clientPrefix of
              None \<Rightarrow> Inr None
            | Some (tsUnixNano, taskUUID) \<Rightarrow>
                (if length taskUUID \<noteq> 16 then Inr None
                 else rbind (unmarshalTask (snd item)) (\<lambda>tv.
                   Inr (deliveryTaskFromValue U clientID tsUnixNano taskUUID tv)))))"

fun readTaskItems :: "uuid_api \<Rightarrow> string \<Rightarrow> bytes \<Rightarrow> bytes \<Rightarrow> int \<Rightarrow> (bytes \<times> kvValue) list \<Rightarrow> DeliveryTask list
    \<Rightarrow> store_error + DeliveryTask list" where
  "readTaskItems U clientID clientPrefix seekKey limit [] out = Inr out"
| "readTaskItems U clientID clientPrefix seekKey limit (item # items) out =
     (if int (length out) < limit
      then rbind (deliveryTaskFromItem U clientID clientPrefix seekKey (length out) item) (\<lambda>task.
        readTaskItems U clientID clientPrefix seekKey limit items
          (case task of Some t \<Rightarrow> out @ [t] | None \<Rightarrow> out))
      else Inr out)"

definition deliveryTaskSeekKey :: "readTasksQuery \<Rightarrow> bytes \<Rightarrow> bytes" where
  "deliveryTaskSeekKey q clientPrefix =
     (if rtq_LastTaskID q = uuid_Nil \<and> rtq_LastTSUnixNano q \<le> 0 then clientPrefix
      else taskKey (rtq_ClientID q) (rtq_LastTSUnixNano q) (rtq_LastTaskID q))"

definition lookupDeliveryTasks :: "uuid_api \<Rightarrow> 'db badger \<Rightarrow> 'db \<Rightarrow> readTasksQuery \<Rightarrow> store_error + DeliveryTask list" where
  "lookupDeliveryTasks U B db q =
     (if rtq_ClientID q = [] \<or> rtq_Limit q \<le> 0 then Inr []
      else
        (let clientPrefix = taskKeyPrefix (rtq_ClientID q);
             seekKey = deliveryTaskSeekKey q clientPrefix
         in readTaskItems U (rtq_ClientID q) clientPrefix seekKey (rtq_Limit q)
              (iterPrefix B db seekKey clientPrefix) []))"

definition deliveryCursorFromValue :: "uuid_api \<Rightarrow> kvValue \<Rightarrow> store_error + DeliveryCursor" where
  "deliveryCursorFromValue U val =
     rbind (unmarshalCursor val) (\<lambda>cv.
       case ua_Parse U (cv_LastTaskID cv) of
         None \<Rightarrow> Inl ErrUUID
       | Some lastTask \<Rightarrow>
           Inr \<lparr>dc_UpdatedTS = time_Unix0 (cv_UpdatedTSUnixNano cv), dc_ClientID = cv_ClientID cv, dc_Generation = 0,
                dc_LastTS = time_Unix0 (cv_LastTSUnixNano cv), dc_LastTaskID = lastTask\<rparr>)"

definition lookupDeliveryCursorInTxn :: "uuid_api \<Rightarrow> 'db badger \<Rightarrow> 'db \<Rightarrow> string \<Rightarrow> store_error + DeliveryCursor option" where
  "lookupDeliveryCursorInTxn U B txn clientID =
     (case bd_Get B txn (cursorKey clientID) of
        None \<Rightarrow> Inr None
      | Some val \<Rightarrow> rbind (deliveryCursorFromValue U val) (\<lambda>cursor. Inr (Some cursor)))"

definition lookupDeliveryCursor :: "uuid_api \<Rightarrow> 'db badger \<Rightarrow> 'db \<Rightarrow> string \<Rightarrow> store_error + DeliveryCursor option" where
  "lookupDeliveryCursor U B db clientID =
     (if clientID = [] then Inr None else lookupDeliveryCursorInTxn U B db clientID)"

definition deliveryPositionAfter :: "int \<Rightarrow> UUID \<Rightarrow> DeliveryCursor option \<Rightarrow> bool" where
  "deliveryPositionAfter tsUnixNano taskID current =
     (case current of
        None \<Rightarrow> True
      | Some cur \<Rightarrow>
          (if tsUnixNano \<noteq> UnixNano (dc_LastTS cur) then tsUnixNano > UnixNano (dc_LastTS cur)
           else taskID > dc_LastTaskID cur))"

text \<open>The set of client IDs is kept in a Go map, so its size is the number of distinct names.\<close>

definition lookupDeliveryBacklogSummary :: "'db badger \<Rightarrow> 'db \<Rightarrow> DeliveryBacklogSummary" where
  "lookupDeliveryBacklogSummary B db =
     (let items = iterPrefix B db prefixTask prefixTask
      in \<lparr>dbs_PendingTasks = int (length items),
          dbs_ActiveClients = int (length (remdups (List.map_filter (\<lambda>it. parseClientIDFromTaskKey (fst it)) items)))\<rparr>)"

section \<open>Updates\<close>

fun taskItemsContain :: "string \<Rightarrow> (bytes \<times> kvValue) list \<Rightarrow> store_error + bool" where
  "taskItemsContain messageID [] = Inr False"
| "taskItemsContain messageID (item # items) =
     rbind (unmarshalTask (snd item)) (\<lambda>tv.
       if tv_MessageID tv = messageID then Inr True else taskItemsContain messageID items)"

definition deliveryTaskExistsInTxn :: "'db badger \<Rightarrow> 'db \<Rightarrow> string \<Rightarrow> string \<Rightarrow> store_error + bool" where
  "deliveryTaskExistsInTxn B txn clientID messageID =
     (if clientID = [] \<or> messageID = [] then Inr False
      else
        (let clientPrefix = taskKeyPrefix clientID
         in taskItemsContain messageID (iterPrefix B txn clientPrefix clientPrefix)))"

definition deleteDeliveryTasksThroughCursor :: "uuid_api \<Rightarrow> 'db badger \<Rightarrow> 'db \<Rightarrow> string \<Rightarrow> int \<Rightarrow> string
    \<Rightarrow> store_error + 'db" where
  "deleteDeliveryTasksThroughCursor U B txn clientID lastTSUnixNano lastTaskID =
     (case ua_Parse U lastTaskID of
        None \<Rightarrow> Inl ErrUUID
      | Some taskUUID \<Rightarrow>
          (let endKey = taskKey clientID lastTSUnixNano taskUUID;
               clientPrefix = taskKeyPrefix clientID
           in deleteKeys B (takeWhile (\<lambda>key. \<not> key > endKey) (map fst (iterPrefix B txn clientPrefix clientPrefix))) txn))"

definition deleteClientDeliveryState :: "'db badger \<Rightarrow> 'db \<Rightarrow> string \<Rightarrow> store_error + 'db" where
  "deleteClientDeliveryState B txn clientID =
     (let clientPrefix = taskKeyPrefix clientID
      in rbind (deleteKeys B (map fst (iterPrefix B txn clientPrefix clientPrefix)) txn) (\<lambda>txn.
           bd_Delete B txn (cursorKey clientID)))"

fun deleteSharedItems :: "'db badger \<Rightarrow> string \<Rightarrow> (bytes \<times> kvValue) list \<Rightarrow> 'db \<Rightarrow> store_error + 'db" where
  "deleteSharedItems B shareGroup [] txn = Inr txn"
| "deleteSharedItems B shareGroup (item # items) txn =
     rbind (unmarshalTask (snd item)) (\<lambda>tv.
       rbind (if tv_ShareGroup tv = shareGroup \<and> tv_SharedTaskID tv \<noteq> [] then bd_Delete B txn (fst item) else Inr txn)
         (deleteSharedItems B shareGroup items))"

definition deleteClientSharedDeliveryTasks :: "'db badger \<Rightarrow> 'db \<Rightarrow> string \<Rightarrow> string \<Rightarrow> store_error + 'db" where
  "deleteClientSharedDeliveryTasks B txn clientID shareGroup =
     (let clientPrefix = taskKeyPrefix clientID
      in deleteSharedItems B shareGroup (iterPrefix B txn clientPrefix clientPrefix) txn)"

text \<open>The result of an update is \<open>statemachine.Result\<close>'s value, the error and the database.\<close>

type_synonym 'db update_result = "nat \<times> store_error option \<times> 'db"

definition valueResult :: "bool \<times> store_error option \<times> 'db \<Rightarrow> 'db update_result" where
  "valueResult r = (case r of (flag, err, db) \<Rightarrow> (if flag then 1 else 0, err, db))"

definition taskValueOf :: "appendTaskRequest \<Rightarrow> taskValue" where
  "taskValueOf r =
     \<lparr>tv_MessageID = at_MessageID r, tv_DeliveryQoS = at_DeliveryQoS r,
      tv_SubscriptionIDs = cloneSubscriptionIDs (at_SubscriptionIDs r), tv_NoLocal = at_NoLocal r,
      tv_RetainAsPublished = at_RetainAsPublished r, tv_ShareGroup = at_ShareGroup r, tv_SharedTaskID = at_SharedTaskID r\<rparr>"

definition updateAppendTask :: "uuid_api \<Rightarrow> 'db badger \<Rightarrow> (nat \<Rightarrow> store_error option) \<Rightarrow> appendTaskRequest \<Rightarrow> 'db
    \<Rightarrow> 'db update_result" where
  "updateAppendTask U B commit r db =
     (if at_ClientID r = [] then (0, Some (ErrMsg ''client_id is empty''), db)
      else
        (case ua_Parse U (at_TaskID r) of
           None \<Rightarrow> (0, Some ErrUUID, db)
         | Some taskUUID \<Rightarrow>
             (let val = KTask (taskValueOf r);
                  key = taskKey (at_ClientID r) (at_TSUnixNano r) taskUUID
              in valueResult (withBadgerUpdateRetry (\<lambda>attempt.
                   db_Update (commit attempt) (\<lambda>txn.
                     case deliveryTaskExistsInTxn B txn (at_ClientID r) (at_MessageID r) of
                       Inl e \<Rightarrow> (False, Inl e)
                     | Inr exists \<Rightarrow> (if exists then (False, Inr txn) else (True, bd_Set B txn key val)))) db))))"

definition cursorValueOf :: "advanceCursorRequest \<Rightarrow> cursorValue" where
  "cursorValueOf r =
     \<lparr>cv_UpdatedTSUnixNano = ac_UpdatedTSUnixNano r, cv_ClientID = ac_ClientID r,
      cv_LastTSUnixNano = ac_LastTSUnixNano r, cv_LastTaskID = ac_LastTaskID r\<rparr>"

definition updateAdvanceCursor :: "uuid_api \<Rightarrow> 'db badger \<Rightarrow> store_error option \<Rightarrow> advanceCursorRequest \<Rightarrow> 'db
    \<Rightarrow> 'db update_result" where
  "updateAdvanceCursor U B commit r db =
     (if ac_ClientID r = [] then (0, Some (ErrMsg ''client_id is empty''), db)
      else if ac_LastTaskID r = [] then (0, Some (ErrMsg ''last_task_id is empty''), db)
      else
        (let val = KCursor (cursorValueOf r);
             key = cursorKey (ac_ClientID r)
         in valueResult (db_Update commit (\<lambda>txn.
              case lookupDeliveryCursorInTxn U B txn (ac_ClientID r) of
                Inl e \<Rightarrow> (False, Inl e)
              | Inr current \<Rightarrow>
                  (case ua_Parse U (ac_LastTaskID r) of
                     None \<Rightarrow> (False, Inl ErrUUID)
                   | Some nextTaskID \<Rightarrow>
                       (if \<not> deliveryPositionAfter (ac_LastTSUnixNano r) nextTaskID current then (False, Inr txn)
                        else
                          (case bd_Set B txn key val of
                             Inl e \<Rightarrow> (False, Inl e)
                           | Inr txn \<Rightarrow>
                               (True, deleteDeliveryTasksThroughCursor U B txn (ac_ClientID r) (ac_LastTSUnixNano r)
                                        (ac_LastTaskID r)))))) db)))"

definition updateDeleteClientState :: "'db badger \<Rightarrow> store_error option \<Rightarrow> deleteClientStateRequest \<Rightarrow> 'db
    \<Rightarrow> 'db update_result" where
  "updateDeleteClientState B commit r db =
     (if dcs_ClientID r = [] then (0, Some (ErrMsg ''client_id is empty''), db)
      else valueResult (db_Update commit (\<lambda>txn. (False, deleteClientDeliveryState B txn (dcs_ClientID r))) db))"

definition updateDeleteSharedTasks :: "'db badger \<Rightarrow> store_error option \<Rightarrow> deleteSharedTasksRequest \<Rightarrow> 'db
    \<Rightarrow> 'db update_result" where
  "updateDeleteSharedTasks B commit r db =
     (if dst_ClientID r = [] then (0, Some (ErrMsg ''client_id is empty''), db)
      else if dst_ShareGroup r = [] then (0, Some (ErrMsg ''share_group is empty''), db)
      else valueResult (db_Update commit (\<lambda>txn.
        (False, deleteClientSharedDeliveryTasks B txn (dst_ClientID r) (dst_ShareGroup r))) db))"

section \<open>The local store\<close>

text \<open>\<open>ctxErr\<close> is \<open>ctx.Err()\<close> when the call begins.\<close>

definition AppendDeliveryTask :: "uuid_api \<Rightarrow> 'db badger \<Rightarrow> (nat \<Rightarrow> store_error option) \<Rightarrow> store_error option
    \<Rightarrow> DeliveryTask \<Rightarrow> 'db \<Rightarrow> bool \<times> store_error option \<times> 'db" where
  "AppendDeliveryTask U B commit ctxErr task db =
     (if ctxErr \<noteq> None then (False, ctxErr, db)
      else
        (let sharedTaskID = (if dt_SharedTaskID task \<noteq> uuid_Nil then ua_String U (dt_SharedTaskID task) else []);
             (val, err, db) =
               updateAppendTask U B commit
                 \<lparr>at_TSUnixNano = UnixNano (dt_TS task), at_TaskID = ua_String U (dt_TaskID task),
                  at_ClientID = dt_ClientID task, at_MessageID = ua_String U (dt_MessageID task),
                  at_DeliveryQoS = dt_DeliveryQoS task, at_SubscriptionIDs = dt_SubscriptionIDs task,
                  at_NoLocal = dt_NoLocal task, at_RetainAsPublished = dt_RetainAsPublished task,
                  at_ShareGroup = dt_ShareGroup task, at_SharedTaskID = sharedTaskID\<rparr> db
         in (val = 1, err, db)))"

definition ReadDeliveryTasks :: "uuid_api \<Rightarrow> 'db badger \<Rightarrow> store_error option \<Rightarrow> 'db \<Rightarrow> string \<Rightarrow> GoTime \<Rightarrow> UUID \<Rightarrow> int
    \<Rightarrow> store_error + DeliveryTask list" where
  "ReadDeliveryTasks U B ctxErr db clientID lastTS lastTaskID limit =
     (case ctxErr of
        Some e \<Rightarrow> Inl e
      | None \<Rightarrow>
          lookupDeliveryTasks U B db
            \<lparr>rtq_ClientID = clientID, rtq_LastTSUnixNano = UnixNano lastTS, rtq_LastTaskID = lastTaskID,
             rtq_Limit = limit\<rparr>)"

definition AdvanceDeliveryCursor :: "uuid_api \<Rightarrow> 'db badger \<Rightarrow> store_error option \<Rightarrow> store_error option
    \<Rightarrow> DeliveryCursor \<Rightarrow> 'db \<Rightarrow> bool \<times> store_error option \<times> 'db" where
  "AdvanceDeliveryCursor U B commit ctxErr cursor db =
     (if ctxErr \<noteq> None then (False, ctxErr, db)
      else
        (let (val, err, db) =
               updateAdvanceCursor U B commit
                 \<lparr>ac_UpdatedTSUnixNano = UnixNano (dc_UpdatedTS cursor), ac_ClientID = dc_ClientID cursor,
                  ac_LastTSUnixNano = UnixNano (dc_LastTS cursor), ac_LastTaskID = ua_String U (dc_LastTaskID cursor)\<rparr> db
         in (val = 1, err, db)))"

definition ReadDeliveryCursor :: "uuid_api \<Rightarrow> 'db badger \<Rightarrow> store_error option \<Rightarrow> 'db \<Rightarrow> string
    \<Rightarrow> store_error + DeliveryCursor option" where
  "ReadDeliveryCursor U B ctxErr db clientID =
     (case ctxErr of Some e \<Rightarrow> Inl e | None \<Rightarrow> lookupDeliveryCursor U B db clientID)"

definition Store_DeliveryBacklogSummary :: "'db badger \<Rightarrow> store_error option \<Rightarrow> 'db \<Rightarrow> store_error + DeliveryBacklogSummary" where
  "Store_DeliveryBacklogSummary B ctxErr db =
     (case ctxErr of Some e \<Rightarrow> Inl e | None \<Rightarrow> Inr (lookupDeliveryBacklogSummary B db))"

definition ResetClientDeliveryState :: "'db badger \<Rightarrow> store_error option \<Rightarrow> store_error option \<Rightarrow> string \<Rightarrow> 'db
    \<Rightarrow> store_error option \<times> 'db" where
  "ResetClientDeliveryState B commit ctxErr clientID db =
     (if ctxErr \<noteq> None then (ctxErr, db)
      else if clientID = [] then (Some (ErrMsg ''clientID is empty''), db)
      else snd (updateDeleteClientState B commit \<lparr>dcs_ClientID = clientID\<rparr> db))"

definition Store_DeleteClientSharedDeliveryTasks :: "'db badger \<Rightarrow> store_error option \<Rightarrow> store_error option \<Rightarrow> string
    \<Rightarrow> string \<Rightarrow> 'db \<Rightarrow> store_error option \<times> 'db" where
  "Store_DeleteClientSharedDeliveryTasks B commit ctxErr clientID shareGroup db =
     (if ctxErr \<noteq> None then (ctxErr, db)
      else if clientID = [] then (Some (ErrMsg ''clientID is empty''), db)
      else if shareGroup = [] then (Some (ErrMsg ''shareGroup is empty''), db)
      else snd (updateDeleteSharedTasks B commit \<lparr>dst_ClientID = clientID, dst_ShareGroup = shareGroup\<rparr> db))"

section \<open>The rows of one client\<close>

text \<open>What may be stored under which key, and the queue and cursor of one client read off the database.\<close>

definition row_wf :: "uuid_api \<Rightarrow> bytes \<Rightarrow> kvValue \<Rightarrow> bool" where
  "row_wf U k v \<longleftrightarrow>
     (case v of
        KTask tv \<Rightarrow> (\<exists>c p. nul_free c \<and> pos_ok p \<and> k = rowKey prefixTask c p)
      | KCursor cv \<Rightarrow> (\<exists>c u. k = cursorKey c \<and> cv_ClientID cv = c \<and> ts_ok (cv_LastTSUnixNano cv)
                          \<and> ua_Parse U (cv_LastTaskID cv) = Some u)
      | KShareTask tv \<Rightarrow> (\<exists>g p. nul_free g \<and> pos_ok p \<and> k = rowKey prefixShareTask g p)
      | KShareCursor cv \<Rightarrow> (\<exists>g. k = shareCursorKey g))"

definition store_wf :: "uuid_api \<Rightarrow> (bytes \<Rightarrow> kvValue option) \<Rightarrow> bool" where
  "store_wf U g \<longleftrightarrow> (\<forall>k v. g k = Some v \<longrightarrow> row_wf U k v)"

definition tasks :: "(bytes \<Rightarrow> kvValue option) \<Rightarrow> string \<Rightarrow> position \<Rightarrow> taskValue option" where
  "tasks g c p =
     (if pos_ok p then (case g (rowKey prefixTask c p) of Some (KTask tv) \<Rightarrow> Some tv | _ \<Rightarrow> None) else None)"

definition cursor_of :: "uuid_api \<Rightarrow> (bytes \<Rightarrow> kvValue option) \<Rightarrow> string \<Rightarrow> position option" where
  "cursor_of U g c =
     (case g (cursorKey c) of
        Some (KCursor cv) \<Rightarrow> map_option (\<lambda>u. (cv_LastTSUnixNano cv, u)) (ua_Parse U (cv_LastTaskID cv))
      | _ \<Rightarrow> None)"

lemma cursorKey_neq_row [simp]:
  "rowKey prefixTask c p \<noteq> cursorKey d" "rowKey prefixShareTask c p \<noteq> cursorKey d"
  "rowKey prefixTask c p \<noteq> shareCursorKey d" "rowKey prefixShareTask c p \<noteq> shareCursorKey d"
  "cursorKey d \<noteq> rowKey prefixTask c p" "cursorKey d \<noteq> rowKey prefixShareTask c p"
  "shareCursorKey d \<noteq> rowKey prefixTask c p" "shareCursorKey d \<noteq> rowKey prefixShareTask c p"
  "rowKey prefixTask c p \<noteq> rowKey prefixShareTask d q" "rowKey prefixShareTask d q \<noteq> rowKey prefixTask c p"
  "cursorKey d \<noteq> shareCursorKey c" "shareCursorKey c \<noteq> cursorKey d"
  by (simp_all add: rowKey_def cursorKey_def shareCursorKey_def)

lemma cursorKey_inject [simp]: "cursorKey c = cursorKey d \<longleftrightarrow> c = d" "shareCursorKey c = shareCursorKey d \<longleftrightarrow> c = d"
  by (simp_all add: cursorKey_def shareCursorKey_def)

lemma prefix_le: "prefix p k \<Longrightarrow> p \<le> k" for p k :: bytes
proof (induction p arbitrary: k)
  case (Cons a p)
  then show ?case by (cases k) simp_all
qed simp

lemma wf_client_row:
  assumes "store_wf U g" "g k = Some v" "prefix (taskKeyPrefix c) k" "nul_free c"
  obtains p tv where "pos_ok p" "k = rowKey prefixTask c p" "v = KTask tv" "tasks g c p = Some tv"
proof -
  have wf: "row_wf U k v"
    using assms by (simp add: store_wf_def)
  obtain z where z: "k = prefixTask @ z"
    using assms(3) by (auto simp: taskKeyPrefix_def prefix_def)
  obtain tv where v: "v = KTask tv"
    using wf z
    by (cases v) (auto simp: row_wf_def rowKey_def cursorKey_def shareCursorKey_def dest: sym)
  then obtain d p where "nul_free d" "pos_ok p" "k = rowKey prefixTask d p"
    using wf by (auto simp: row_wf_def)
  moreover have "d = c"
    using calculation assms(3, 4) rowKey_prefix_iff [of c d prefixTask p] by (simp add: taskKeyPrefix_def)
  ultimately show ?thesis
    using that v assms(2) by (simp add: tasks_def)
qed

lemma tasks_Some:
  assumes "tasks g c p = Some tv"
  shows "pos_ok p" "g (rowKey prefixTask c p) = Some (KTask tv)"
  using assms by (auto simp: tasks_def split: if_splits option.splits kvValue.splits)

lemma client_items:
  assumes "badger_ok B" "store_wf U (bd_Get B db)" "nul_free c" "prefix (taskKeyPrefix c) s"
  shows "(k, v) \<in> set (iterPrefix B db s (taskKeyPrefix c))
    \<longleftrightarrow> (\<exists>p tv. k = rowKey prefixTask c p \<and> v = KTask tv \<and> tasks (bd_Get B db) c p = Some tv \<and> s \<le> k)"
proof -
  have "prefix (taskKeyPrefix c) (rowKey prefixTask c p)" for p
    by (simp add: taskKeyPrefix_def rowKey_prefix)
  then show ?thesis
    unfolding in_iterPrefix_iff [OF assms(1, 4)]
    using wf_client_row [OF assms(2) _ _ assms(3)] tasks_Some by metis
qed

lemma client_rows:
  assumes "badger_ok B" "store_wf U (bd_Get B db)" "nul_free c"
  shows "(k, v) \<in> set (iterPrefix B db (taskKeyPrefix c) (taskKeyPrefix c))
    \<longleftrightarrow> (\<exists>p tv. k = rowKey prefixTask c p \<and> v = KTask tv \<and> tasks (bd_Get B db) c p = Some tv)"
proof -
  have "taskKeyPrefix c \<le> rowKey prefixTask c p" for p
    by (rule prefix_le) (simp add: taskKeyPrefix_def rowKey_prefix)
  then show ?thesis
    unfolding client_items [OF assms prefix_order.refl] by blast
qed

section \<open>Reading a queue\<close>

definition taskOfItem :: "uuid_api \<Rightarrow> string \<Rightarrow> bytes \<times> kvValue \<Rightarrow> DeliveryTask option" where
  "taskOfItem U c it =
     (case parseTaskKey (fst it) (taskKeyPrefix c) of
        None \<Rightarrow> None
      | Some (t, u) \<Rightarrow> (case snd it of KTask tv \<Rightarrow> deliveryTaskFromValue U c t u tv | _ \<Rightarrow> None))"

definition task_pos :: "DeliveryTask \<Rightarrow> position" where
  "task_pos t = (UnixNano (dt_TS t), dt_TaskID t)"

lemma taskOfItem_row:
  "pos_ok p \<Longrightarrow> taskOfItem U c (rowKey prefixTask c p, KTask tv) = deliveryTaskFromValue U c (fst p) (snd p) tv"
  by (simp add: taskOfItem_def parse_rowKey split_beta)

lemma deliveryTaskFromItem_row:
  "pos_ok p \<Longrightarrow> n \<noteq> 0 \<or> rowKey prefixTask c p \<noteq> s
   \<Longrightarrow> deliveryTaskFromItem U c (taskKeyPrefix c) s n (rowKey prefixTask c p, KTask tv)
     = Inr (taskOfItem U c (rowKey prefixTask c p, KTask tv))"
  by (auto simp: taskOfItem_row deliveryTaskFromItem_def parse_rowKey split_beta unmarshalTask_def pos_ok_def)

lemma task_pos_from_value: "deliveryTaskFromValue U c t u tv = Some d \<Longrightarrow> task_pos d = (t, u)"
  by (auto simp: deliveryTaskFromValue_def task_pos_def UnixNano_def time_Unix0_def Let_def split: option.splits)

lemma readTaskItems_rows:
  assumes "\<forall>it \<in> set items. \<exists>p tv. pos_ok p \<and> it = (rowKey prefixTask c p, KTask tv)"
    and "\<forall>it \<in> set items. fst it \<noteq> s" "int (length out) \<le> limit"
  shows "readTaskItems U c (taskKeyPrefix c) s limit items out
    = Inr (out @ take (nat limit - length out) (List.map_filter (taskOfItem U c) items))"
  using assms
proof (induction items arbitrary: out)
  case (Cons it items)
  obtain p tv where it: "pos_ok p" "it = (rowKey prefixTask c p, KTask tv)"
    using Cons.prems(1) by auto
  have step: "deliveryTaskFromItem U c (taskKeyPrefix c) s (length out) it = Inr (taskOfItem U c it)"
    using deliveryTaskFromItem_row [OF it(1)] Cons.prems(2) it(2) by auto
  show ?case
  proof (cases "int (length out) < limit")
    case True
    then have "Suc (nat limit - Suc (length out)) = nat limit - length out"
      by linarith
    then show ?thesis
      using Cons True step
      by (cases "taskOfItem U c it") (auto simp: List.map_filter_simps take_Cons' split: if_splits)
  next
    case False
    then show ?thesis using Cons.prems(3) by simp
  qed
qed (simp add: List.map_filter_simps)

lemma readTaskItems_skip:
  assumes "\<forall>it \<in> set items. \<exists>p tv. pos_ok p \<and> it = (rowKey prefixTask c p, KTask tv)"
    and "sorted_wrt (\<lambda>x y. fst x < fst y) items" "\<forall>it \<in> set items. s \<le> fst it" "0 < limit"
  shows "readTaskItems U c (taskKeyPrefix c) s limit items []
    = Inr (take (nat limit) (List.map_filter (taskOfItem U c) (filter (\<lambda>it. fst it \<noteq> s) items)))"
proof (cases "\<exists>it \<in> set items. fst it = s")
  case False
  then have "filter (\<lambda>it. fst it \<noteq> s) items = items"
    by (auto simp: filter_id_conv)
  then show ?thesis
    using readTaskItems_rows [OF assms(1), of s "[]" limit U] False assms(4) by auto
next
  case True
  then obtain x items' where items: "items = x # items'"
    by (cases items) auto
  then have x: "fst x = s"
    using True assms(2, 3) by (auto simp: not_less [symmetric])
  have rest: "\<forall>it \<in> set items'. fst it \<noteq> s"
    using assms(2) items x by auto
  then have "filter (\<lambda>it. fst it \<noteq> s) items = items'"
    using items x by (simp add: filter_id_conv)
  moreover have "readTaskItems U c (taskKeyPrefix c) s limit items [] = readTaskItems U c (taskKeyPrefix c) s limit items' []"
    using assms(4) x by (simp add: items deliveryTaskFromItem_def)
  ultimately show ?thesis
    using readTaskItems_rows [of items' c s "[]" limit U] rest assms(1, 4) items by simp
qed

lemma sorted_rows_positions:
  assumes "\<forall>it \<in> set items. \<exists>p tv. pos_ok p \<and> it = (rowKey prefixTask c p, KTask tv)"
    and "sorted_wrt (\<lambda>x y. fst x < fst y) items"
  shows "sorted_wrt (\<lambda>s t. pos_less (task_pos s) (task_pos t)) (List.map_filter (taskOfItem U c) items)"
  using assms
proof (induction items)
  case (Cons it items)
  obtain p tv where it: "pos_ok p" "it = (rowKey prefixTask c p, KTask tv)"
    using Cons.prems(1) by auto
  have "pos_less (task_pos d) (task_pos e)" if d: "taskOfItem U c it = Some d"
    and e: "e \<in> set (List.map_filter (taskOfItem U c) items)" for d e
  proof -
    obtain x where x: "x \<in> set items" "taskOfItem U c x = Some e"
      using e by (auto simp: List.map_filter_def)
    then obtain q w where q: "pos_ok q" "x = (rowKey prefixTask c q, KTask w)"
      using Cons.prems(1) by auto
    have "rowKey prefixTask c p < rowKey prefixTask c q"
      using Cons.prems(2) x(1) it(2) q(2) by auto
    then have "pos_less p q"
      by (simp add: rowKey_less_iff [OF it(1) q(1)])
    moreover have "task_pos d = p" "task_pos e = q"
      using d x(2) it q by (auto simp: taskOfItem_row dest: task_pos_from_value)
    ultimately show ?thesis by simp
  qed
  then show ?case
    using Cons by (auto simp: List.map_filter_simps split: option.split)
qed (simp add: List.map_filter_simps)

text \<open>A read begins at the first row or after a position.\<close>

definition readsAfter :: "GoTime \<Rightarrow> UUID \<Rightarrow> position \<Rightarrow> bool" where
  "readsAfter lastTS lastTaskID p \<longleftrightarrow>
     (lastTaskID = uuid_Nil \<and> UnixNano lastTS \<le> 0) \<or> pos_less (UnixNano lastTS, lastTaskID) p"

definition readPosition :: "GoTime \<Rightarrow> UUID \<Rightarrow> bool" where
  "readPosition lastTS lastTaskID \<longleftrightarrow>
     (lastTaskID = uuid_Nil \<and> UnixNano lastTS \<le> 0) \<or> pos_ok (UnixNano lastTS, lastTaskID)"

lemma seek_rows:
  assumes "readPosition (Some ts) u" "pos_ok p"
    and "s = deliveryTaskSeekKey \<lparr>rtq_ClientID = c, rtq_LastTSUnixNano = ts, rtq_LastTaskID = u, rtq_Limit = l\<rparr>
               (taskKeyPrefix c)"
  shows "s \<le> rowKey prefixTask c p \<and> rowKey prefixTask c p \<noteq> s \<longleftrightarrow> readsAfter (Some ts) u p"
proof (cases "u = uuid_Nil \<and> ts \<le> 0")
  case True
  then have s: "s = taskKeyPrefix c"
    using assms(3) by (simp add: deliveryTaskSeekKey_def)
  have "s \<le> rowKey prefixTask c p"
    unfolding s by (rule prefix_le) (simp add: taskKeyPrefix_def rowKey_prefix)
  moreover have "length s < length (rowKey prefixTask c p)"
    by (simp add: s taskKeyPrefix_def rowKey_def)
  ultimately show ?thesis
    using True by (auto simp: readsAfter_def UnixNano_def)
next
  case False
  then have s: "s = rowKey prefixTask c (ts, u)" and ok: "pos_ok (ts, u)"
    using assms(1, 3) by (auto simp: deliveryTaskSeekKey_def taskKey_row readPosition_def UnixNano_def)
  have "s \<le> rowKey prefixTask c p \<and> rowKey prefixTask c p \<noteq> s \<longleftrightarrow> s < rowKey prefixTask c p"
    by (auto simp: less_le)
  then show ?thesis
    using rowKey_less_iff [OF ok assms(2)] False by (auto simp: s readsAfter_def UnixNano_def)
qed

lemma seek_prefix: "prefix (taskKeyPrefix (rtq_ClientID q)) (deliveryTaskSeekKey q (taskKeyPrefix (rtq_ClientID q)))"
  by (simp add: deliveryTaskSeekKey_def taskKey_def prefix_def)

lemma readsAfter_Some [simp]:
  "readsAfter (Some (UnixNano t)) u = readsAfter t u" "readPosition (Some (UnixNano t)) u = readPosition t u"
  by (simp_all add: readsAfter_def [abs_def] readPosition_def UnixNano_def)

lemma in_set_map_filter: "y \<in> set (List.map_filter f xs) \<longleftrightarrow> (\<exists>x \<in> set xs. f x = Some y)"
  by (induction xs) (auto simp: List.map_filter_simps split: option.split)

definition queued :: "uuid_api \<Rightarrow> (bytes \<Rightarrow> kvValue option) \<Rightarrow> string \<Rightarrow> position \<Rightarrow> DeliveryTask \<Rightarrow> bool" where
  "queued U g c p d \<longleftrightarrow> (\<exists>tv. tasks g c p = Some tv \<and> deliveryTaskFromValue U c (fst p) (snd p) tv = Some d)"

lemma ReadDeliveryTasks_rows:
  assumes "badger_ok B" "store_wf U (bd_Get B db)" "nul_free c" "c \<noteq> []" "readPosition lastTS lastID"
  obtains all where "sorted_wrt (\<lambda>s t. pos_less (task_pos s) (task_pos t)) all"
    and "\<And>d. d \<in> set all \<longleftrightarrow> (\<exists>p. queued U (bd_Get B db) c p d \<and> readsAfter lastTS lastID p)"
    and "\<And>limit. 0 < limit \<Longrightarrow> ReadDeliveryTasks U B None db c lastTS lastID limit = Inr (take (nat limit) all)"
proof -
  define s where "s = deliveryTaskSeekKey \<lparr>rtq_ClientID = c, rtq_LastTSUnixNano = UnixNano lastTS, rtq_LastTaskID = lastID,
    rtq_Limit = 1\<rparr> (taskKeyPrefix c)"
  define items where "items = iterPrefix B db s (taskKeyPrefix c)"
  define rows where "rows = filter (\<lambda>it. fst it \<noteq> s) items"
  have pre: "prefix (taskKeyPrefix c) s"
    using seek_prefix [of "\<lparr>rtq_ClientID = c, rtq_LastTSUnixNano = UnixNano lastTS, rtq_LastTaskID = lastID,
      rtq_Limit = 1\<rparr>"] by (simp add: s_def)
  note in_items = client_items [OF assms(1, 2, 3) pre, folded items_def]
  have form: "\<forall>it \<in> set items. \<exists>p tv. pos_ok p \<and> it = (rowKey prefixTask c p, KTask tv)"
    and ge: "\<forall>it \<in> set items. s \<le> fst it"
    using in_items tasks_Some(1) by (auto, metis)
  have sorted: "sorted_wrt (\<lambda>x y. fst x < fst y) items"
    by (simp add: items_def iterPrefix_sorted [OF assms(1)])
  have in_rows: "(rowKey prefixTask c p, KTask tv) \<in> set rows
    \<longleftrightarrow> tasks (bd_Get B db) c p = Some tv \<and> readsAfter lastTS lastID p" if "pos_ok p" for p tv
  proof -
    have "(rowKey prefixTask c p, KTask tv) \<in> set items \<longleftrightarrow> tasks (bd_Get B db) c p = Some tv \<and> s \<le> rowKey prefixTask c p"
      using in_items [of "rowKey prefixTask c p" "KTask tv"] rowKey_inject [OF that tasks_Some(1) assms(3, 3)]
      by (metis kvValue.inject(1))
    moreover have "s \<le> rowKey prefixTask c p \<and> rowKey prefixTask c p \<noteq> s \<longleftrightarrow> readsAfter lastTS lastID p"
      using seek_rows [of "UnixNano lastTS" lastID p s c 1] that assms(5) by (simp add: s_def)
    ultimately show ?thesis
      by (auto simp: rows_def)
  qed
  have rform: "\<forall>it \<in> set rows. \<exists>p tv. pos_ok p \<and> it = (rowKey prefixTask c p, KTask tv)"
    using form by (auto simp: rows_def)
  show ?thesis
  proof (rule that [of "List.map_filter (taskOfItem U c) rows"])
    show "sorted_wrt (\<lambda>s t. pos_less (task_pos s) (task_pos t)) (List.map_filter (taskOfItem U c) rows)"
      by (rule sorted_rows_positions [OF rform]) (simp add: rows_def sorted sorted_wrt_filter)
    fix d
    have "d \<in> set (List.map_filter (taskOfItem U c) rows) \<longleftrightarrow> (\<exists>it \<in> set rows. taskOfItem U c it = Some d)"
      by (rule in_set_map_filter)
    also have "\<dots> \<longleftrightarrow> (\<exists>p. queued U (bd_Get B db) c p d \<and> readsAfter lastTS lastID p)"
    proof
      assume "\<exists>it \<in> set rows. taskOfItem U c it = Some d"
      then obtain it where it: "it \<in> set rows" "taskOfItem U c it = Some d"
        by blast
      obtain p tv where p: "pos_ok p" "it = (rowKey prefixTask c p, KTask tv)"
        using bspec [OF rform it(1)] by blast
      have "tasks (bd_Get B db) c p = Some tv" "readsAfter lastTS lastID p"
        using it(1) in_rows [OF p(1)] by (simp_all add: p(2))
      then show "\<exists>p. queued U (bd_Get B db) c p d \<and> readsAfter lastTS lastID p"
        using it(2) taskOfItem_row [OF p(1)] unfolding queued_def p(2) by metis
    next
      assume "\<exists>p. queued U (bd_Get B db) c p d \<and> readsAfter lastTS lastID p"
      then obtain p tv where p: "tasks (bd_Get B db) c p = Some tv" "readsAfter lastTS lastID p"
        "deliveryTaskFromValue U c (fst p) (snd p) tv = Some d"
        unfolding queued_def by blast
      then have "(rowKey prefixTask c p, KTask tv) \<in> set rows"
        "taskOfItem U c (rowKey prefixTask c p, KTask tv) = Some d"
        using in_rows [OF tasks_Some(1)] taskOfItem_row [OF tasks_Some(1)] by auto
      then show "\<exists>it \<in> set rows. taskOfItem U c it = Some d"
        by blast
    qed
    finally show "d \<in> set (List.map_filter (taskOfItem U c) rows)
      \<longleftrightarrow> (\<exists>p. queued U (bd_Get B db) c p d \<and> readsAfter lastTS lastID p)" .
  next
    fix limit :: int
    assume "0 < limit"
    moreover have "deliveryTaskSeekKey \<lparr>rtq_ClientID = c, rtq_LastTSUnixNano = UnixNano lastTS, rtq_LastTaskID = lastID,
        rtq_Limit = limit\<rparr> (taskKeyPrefix c) = s"
      by (simp add: s_def deliveryTaskSeekKey_def)
    ultimately have "ReadDeliveryTasks U B None db c lastTS lastID limit
      = readTaskItems U c (taskKeyPrefix c) s limit items []"
      using assms(4) by (simp add: ReadDeliveryTasks_def lookupDeliveryTasks_def Let_def items_def)
    then show "ReadDeliveryTasks U B None db c lastTS lastID limit
      = Inr (take (nat limit) (List.map_filter (taskOfItem U c) rows))"
      using readTaskItems_skip [OF form sorted ge \<open>0 < limit\<close>] by (simp add: rows_def)
  qed
qed

section \<open>Updating a queue\<close>

lemma row_wf_task: "nul_free c \<Longrightarrow> pos_ok p \<Longrightarrow> row_wf U (rowKey prefixTask c p) (KTask tv)"
  unfolding row_wf_def kvValue.case by blast

lemma row_wf_shareTask: "nul_free c \<Longrightarrow> pos_ok p \<Longrightarrow> row_wf U (rowKey prefixShareTask c p) (KShareTask tv)"
  unfolding row_wf_def kvValue.case by blast

lemma tasks_upd:
  assumes "nul_free c" "pos_ok p" "nul_free d"
  shows "tasks (g(rowKey prefixTask c p := v)) d =
    (if d = c then (tasks g d)(p := (case v of Some (KTask tv) \<Rightarrow> Some tv | _ \<Rightarrow> None)) else tasks g d)"
  using assms by (auto simp: tasks_def fun_eq_iff rowKey_inject)

lemma tasks_upd_other:
  "tasks (g(cursorKey c := v)) d = tasks g d" "tasks (g(rowKey prefixShareTask c p := v)) d = tasks g d"
  "tasks (g(shareCursorKey c := v)) d = tasks g d"
  by (simp_all add: tasks_def fun_eq_iff)

lemma cursor_of_upd:
  "cursor_of U (g(rowKey prefixTask c p := v)) d = cursor_of U g d"
  "cursor_of U (g(rowKey prefixShareTask c p := v)) d = cursor_of U g d"
  "cursor_of U (g(shareCursorKey c := v)) d = cursor_of U g d"
  by (simp_all add: cursor_of_def)

lemma store_wf_upd: "store_wf U g \<Longrightarrow> (\<And>x. v = Some x \<Longrightarrow> row_wf U k x) \<Longrightarrow> store_wf U (g(k := v))"
  by (simp add: store_wf_def)

lemma store_wf_sub: "store_wf U g \<Longrightarrow> (\<And>k v. h k = Some v \<Longrightarrow> g k = Some v) \<Longrightarrow> store_wf U h"
  by (simp add: store_wf_def)

lemma taskItemsContain_rows:
  assumes "\<forall>it \<in> set items. \<exists>k tv. it = (k, KTask tv)"
  shows "taskItemsContain m items = Inr (\<exists>k tv. (k, KTask tv) \<in> set items \<and> tv_MessageID tv = m)"
  using assms
proof (induction items)
  case (Cons it items)
  then obtain k tv where "it = (k, KTask tv)"
    by auto
  then show ?case
    using Cons by (auto simp: unmarshalTask_def)
qed simp

definition holds_message :: "(bytes \<Rightarrow> kvValue option) \<Rightarrow> string \<Rightarrow> string \<Rightarrow> bool" where
  "holds_message g c m \<longleftrightarrow> (\<exists>p tv. tasks g c p = Some tv \<and> tv_MessageID tv = m)"

lemma deliveryTaskExistsInTxn_iff:
  assumes "badger_ok B" "store_wf U (bd_Get B db)" "nul_free c" "c \<noteq> []" "m \<noteq> []"
  shows "deliveryTaskExistsInTxn B db c m = Inr (holds_message (bd_Get B db) c m)"
proof -
  let ?items = "iterPrefix B db (taskKeyPrefix c) (taskKeyPrefix c)"
  note rows = client_rows [OF assms(1-3)]
  have "\<forall>it \<in> set ?items. \<exists>k tv. it = (k, KTask tv)"
  proof
    fix it
    assume "it \<in> set ?items"
    then show "\<exists>k tv. it = (k, KTask tv)"
      using rows [of "fst it" "snd it"] by (metis prod.collapse)
  qed
  moreover have "(\<exists>k tv. (k, KTask tv) \<in> set ?items \<and> tv_MessageID tv = m) \<longleftrightarrow> holds_message (bd_Get B db) c m"
    using rows by (auto simp: holds_message_def)
  ultimately show ?thesis
    using assms(4, 5) taskItemsContain_rows by (simp add: deliveryTaskExistsInTxn_def Let_def)
qed

lemma db_Update_cases:
  assumes "db_Update commit fn db = (c, err, db')"
  shows "c = fst (fn db)"
    and "err = None \<longleftrightarrow> (\<exists>d. snd (fn db) = Inr d) \<and> commit = None"
    and "err = None \<Longrightarrow> snd (fn db) = Inr db'"
    and "err \<noteq> None \<Longrightarrow> db' = db"
  using assms by (auto simp: db_Update_def split_beta split: sum.splits option.splits)

lemma valueResult_eq: "valueResult r = (v, e, d) \<longleftrightarrow> r = (v = 1, e, d) \<and> (v = 0 \<or> v = 1)"
  by (cases r) (auto simp: valueResult_def)

lemma append_outcome:
  assumes "badger_ok B" "store_wf U (bd_Get B db)" "nul_free (at_ClientID r)" "at_ClientID r \<noteq> []" "at_MessageID r \<noteq> []"
    and "ua_Parse U (at_TaskID r) = Some u" "updateAppendTask U B commit r db = (v, err, db')"
  shows "v = (if holds_message (bd_Get B db) (at_ClientID r) (at_MessageID r) then 0 else 1)"
    and "err \<noteq> None \<Longrightarrow> db' = db"
    and "err = None \<Longrightarrow> bd_Get B db' =
      (if v = 1 then (bd_Get B db)(taskKey (at_ClientID r) (at_TSUnixNano r) u := Some (KTask (taskValueOf r)))
       else bd_Get B db)"
    and "(\<And>n. commit n = None) \<Longrightarrow> (\<And>k x. \<exists>d. bd_Set B db k x = Inr d) \<Longrightarrow> err = None"
proof -
  let ?dup = "holds_message (bd_Get B db) (at_ClientID r) (at_MessageID r)"
  let ?key = "taskKey (at_ClientID r) (at_TSUnixNano r) u"
  let ?val = "KTask (taskValueOf r)"
  define fn where "fn txn = (case deliveryTaskExistsInTxn B txn (at_ClientID r) (at_MessageID r) of
      Inl e \<Rightarrow> (False, Inl e)
    | Inr exists \<Rightarrow> (if exists then (False, Inr txn) else (True, bd_Set B txn ?key ?val)))" for txn
  have fn: "fn db = (if ?dup then (False, Inr db) else (True, bd_Set B db ?key ?val))"
    using deliveryTaskExistsInTxn_iff [OF assms(1-5)] by (simp add: fn_def)
  define up where "up n = db_Update (commit n) fn" for n
  have all: "up n db = (fst (up n db), fst (snd (up n db)), snd (snd (up n db)))" for n
    by simp
  have keep: "snd (snd (up n db)) = db" if "isBadgerUpdateRetryable (fst (snd (up n db)))" for n
    using db_Update_cases(4) [OF all [unfolded up_def]] that by (auto simp: isBadgerUpdateRetryable_def up_def)
  have res: "updateAppendTask U B commit r db = valueResult (withBadgerUpdateRetryConfig up defaultBadgerUpdateRetryBackoff 0 db)"
    using assms(4, 6) unfolding up_def fn_def
    by (simp add: updateAppendTask_def withBadgerUpdateRetry_def Let_def)
  obtain n where n: "updateAppendTask U B commit r db = valueResult (up n db)"
    using retry_some_attempt [of up db "\<lambda>n. fst (up n db)" "\<lambda>n. fst (snd (up n db))" "\<lambda>n. snd (snd (up n db))"]
      keep all res by (metis prod.collapse)
  have "valueResult (up n db) = (v, err, db')"
    using n assms(7) by simp
  then have at: "db_Update (commit n) fn db = (v = 1, err, db')" "v = 0 \<or> v = 1"
    by (simp_all add: valueResult_eq up_def)
  note cs = db_Update_cases [OF at(1)]
  show v: "v = (if ?dup then 0 else 1)"
    using cs(1) at(2) by (auto simp: fn)
  show "err \<noteq> None \<Longrightarrow> db' = db"
    by (rule cs(4))
  show "err = None \<Longrightarrow> bd_Get B db' = (if v = 1 then (bd_Get B db)(?key := Some ?val) else bd_Get B db)"
    using cs(3) badger_okD(1) [OF assms(1)] by (simp add: fn v split: if_splits)
  show "(\<And>n. commit n = None) \<Longrightarrow> (\<And>k x. \<exists>d. bd_Set B db k x = Inr d) \<Longrightarrow> err = None"
    using cs(2) by (simp add: fn)
qed

lemma deletes_sub:
  assumes "badger_ok B" "deleteKeys B ks db = Inr db'" "bd_Get B db' k = Some v"
  shows "bd_Get B db k = Some v"
  using deleteKeys_get [OF assms(1, 2), of k] assms(3) by (simp split: if_splits)

lemma deleteThrough_sub:
  assumes "badger_ok B" "deleteDeliveryTasksThroughCursor U B db c t s = Inr db'" "bd_Get B db' k = Some v"
  shows "bd_Get B db k = Some v"
  using assms(2) deletes_sub [OF assms(1) _ assms(3)]
  by (auto simp: deleteDeliveryTasksThroughCursor_def Let_def split: option.splits)

lemma cursor_lookup:
  assumes "store_wf U g" "g = bd_Get B db"
  shows "\<exists>cur. lookupDeliveryCursorInTxn U B db c = Inr cur
    \<and> (\<forall>t u. deliveryPositionAfter t u cur \<longleftrightarrow> (case cursor_of U g c of None \<Rightarrow> True | Some q \<Rightarrow> pos_less q (t, u)))"
proof (cases "g (cursorKey c)")
  case None
  then show ?thesis
    using assms(2) by (simp add: lookupDeliveryCursorInTxn_def cursor_of_def deliveryPositionAfter_def)
next
  case (Some v)
  then have "row_wf U (cursorKey c) v"
    using assms(1) by (simp add: store_wf_def)
  then obtain cv u where v: "v = KCursor cv" "ua_Parse U (cv_LastTaskID cv) = Some u"
    by (cases v) (auto simp: row_wf_def)
  show ?thesis
    using Some v assms(2)
    by (auto simp: lookupDeliveryCursorInTxn_def cursor_of_def deliveryPositionAfter_def deliveryCursorFromValue_def
        unmarshalCursor_def pos_less_def UnixNano_def time_Unix0_def)
qed

lemma takeWhile_le_sorted:
  assumes "sorted_wrt (<) ks"
  shows "takeWhile (\<lambda>k. \<not> k > e) ks = filter (\<lambda>k. k \<le> e) (ks :: bytes list)"
  using takeWhile_all_iff [of "(<)" ks "\<lambda>k. \<not> k > e"] assms by (auto simp: not_less)

lemma client_keys:
  assumes "badger_ok B" "store_wf U (bd_Get B db)" "nul_free c"
  shows "k \<in> fst ` set (iterPrefix B db (taskKeyPrefix c) (taskKeyPrefix c))
    \<longleftrightarrow> (\<exists>p tv. k = rowKey prefixTask c p \<and> tasks (bd_Get B db) c p = Some tv)"
proof -
  have "k \<in> fst ` set (iterPrefix B db (taskKeyPrefix c) (taskKeyPrefix c))
    \<longleftrightarrow> (\<exists>v. (k, v) \<in> set (iterPrefix B db (taskKeyPrefix c) (taskKeyPrefix c)))"
    by force
  then show ?thesis
    unfolding client_rows [OF assms] by blast
qed

lemma deleteThrough_get:
  assumes "badger_ok B" "store_wf U (bd_Get B db)" "nul_free c" "ua_Parse U s = Some u" "pos_ok (t, u)"
    and "deleteDeliveryTasksThroughCursor U B db c t s = Inr db'"
  shows "bd_Get B db' k = (if \<exists>p tv. k = rowKey prefixTask c p \<and> tasks (bd_Get B db) c p = Some tv \<and> \<not> pos_less (t, u) p
     then None else bd_Get B db k)"
proof -
  let ?items = "iterPrefix B db (taskKeyPrefix c) (taskKeyPrefix c)"
  let ?e = "rowKey prefixTask c (t, u)"
  have "sorted_wrt (<) (map fst ?items)"
    using iterPrefix_sorted [OF assms(1)] by (simp add: sorted_wrt_map)
  then have "deleteKeys B (filter (\<lambda>k. k \<le> ?e) (map fst ?items)) db = Inr db'"
    using assms(4, 6) by (simp add: deleteDeliveryTasksThroughCursor_def Let_def takeWhile_le_sorted taskKey_row)
  note get = deleteKeys_get [OF assms(1) this, of k]
  have "k \<in> set (filter (\<lambda>k. k \<le> ?e) (map fst ?items))
    \<longleftrightarrow> (\<exists>p tv. k = rowKey prefixTask c p \<and> tasks (bd_Get B db) c p = Some tv \<and> k \<le> ?e)"
    using client_keys [OF assms(1-3), of k] by (simp only: set_filter set_map mem_Collect_eq) blast
  also have "\<dots> \<longleftrightarrow> (\<exists>p tv. k = rowKey prefixTask c p \<and> tasks (bd_Get B db) c p = Some tv \<and> \<not> pos_less (t, u) p)"
    using rowKey_less_iff [OF assms(5) tasks_Some(1)] by (metis not_less)
  finally show ?thesis
    using get by simp
qed

lemma deleteThrough_tasks:
  assumes "badger_ok B" "store_wf U (bd_Get B db)" "nul_free c" "ua_Parse U s = Some u" "pos_ok (t, u)"
    and "deleteDeliveryTasksThroughCursor U B db c t s = Inr db'" "nul_free d"
  shows "tasks (bd_Get B db') d p = (if d = c \<and> \<not> pos_less (t, u) p then None else tasks (bd_Get B db) d p)"
    and "cursor_of U (bd_Get B db') d = cursor_of U (bd_Get B db) d"
    and "bd_Get B db' (rowKey prefixShareTask d p) = bd_Get B db (rowKey prefixShareTask d p)"
proof -
  note get = deleteThrough_get [OF assms(1-6)]
  show "cursor_of U (bd_Get B db') d = cursor_of U (bd_Get B db) d"
    by (simp add: cursor_of_def get)
  show "bd_Get B db' (rowKey prefixShareTask d p) = bd_Get B db (rowKey prefixShareTask d p)"
    by (simp add: get)
  show "tasks (bd_Get B db') d p = (if d = c \<and> \<not> pos_less (t, u) p then None else tasks (bd_Get B db) d p)"
  proof (cases "pos_ok p")
    case True
    have "(\<exists>q tv. rowKey prefixTask d p = rowKey prefixTask c q \<and> tasks (bd_Get B db) c q = Some tv \<and> \<not> pos_less (t, u) q)
      \<longleftrightarrow> d = c \<and> \<not> pos_less (t, u) p \<and> (\<exists>tv. tasks (bd_Get B db) c p = Some tv)"
      using rowKey_inject [OF True tasks_Some(1) assms(7, 3)] by metis
    then show ?thesis
      using True by (auto simp: tasks_def get)
  qed (simp add: tasks_def)
qed

lemma advance_outcome:
  assumes "badger_ok B" "store_wf U (bd_Get B db)" "nul_free (ac_ClientID r)" "ac_ClientID r \<noteq> []"
    and "ac_LastTaskID r \<noteq> []" "ua_Parse U (ac_LastTaskID r) = Some u" "pos_ok (ac_LastTSUnixNano r, u)"
    and "updateAdvanceCursor U B commit r db = (v, err, db')" "err = None" "nul_free d"
  shows "v = (case cursor_of U (bd_Get B db) (ac_ClientID r) of None \<Rightarrow> 1
              | Some q \<Rightarrow> if pos_less q (ac_LastTSUnixNano r, u) then 1 else 0)"
    and "v = 0 \<Longrightarrow> db' = db"
    and "v = 1 \<Longrightarrow> tasks (bd_Get B db') d p =
      (if d = ac_ClientID r \<and> \<not> pos_less (ac_LastTSUnixNano r, u) p then None else tasks (bd_Get B db) d p)"
    and "v = 1 \<Longrightarrow> cursor_of U (bd_Get B db') d =
      (if d = ac_ClientID r then Some (ac_LastTSUnixNano r, u) else cursor_of U (bd_Get B db) d)"
    and "v = 1 \<Longrightarrow> store_wf U (bd_Get B db')"
    and "bd_Get B db' (rowKey prefixShareTask d p) = bd_Get B db (rowKey prefixShareTask d p)"
proof -
  let ?c = "ac_ClientID r"
  let ?val = "KCursor (cursorValueOf r)"
  obtain cur where cur: "lookupDeliveryCursorInTxn U B db ?c = Inr cur"
    "\<And>t u. deliveryPositionAfter t u cur \<longleftrightarrow> (case cursor_of U (bd_Get B db) ?c of None \<Rightarrow> True | Some q \<Rightarrow> pos_less q (t, u))"
    using cursor_lookup [OF assms(2) refl, of ?c] by blast
  define fn where "fn txn = (case lookupDeliveryCursorInTxn U B txn ?c of
      Inl e \<Rightarrow> (False, Inl e)
    | Inr current \<Rightarrow>
        (if \<not> deliveryPositionAfter (ac_LastTSUnixNano r) u current then (False, Inr txn)
         else (case bd_Set B txn (cursorKey ?c) ?val of
                 Inl e \<Rightarrow> (False, Inl e)
               | Inr txn \<Rightarrow> (True, deleteDeliveryTasksThroughCursor U B txn ?c (ac_LastTSUnixNano r) (ac_LastTaskID r)))))" for txn
  have up: "db_Update commit fn db = (v = 1, err, db')" and v01: "v = 0 \<or> v = 1"
    using assms(4-6, 8) unfolding fn_def by (simp_all add: updateAdvanceCursor_def Let_def valueResult_eq cong: sum.case_cong)
  note cs = db_Update_cases [OF up]
  have out: "snd (fn db) = Inr db'"
    using cs(3) assms(9) by simp
  let ?after = "deliveryPositionAfter (ac_LastTSUnixNano r) u cur"
  have v: "v = (if ?after then 1 else 0)"
    using cs(1) out v01 by (auto simp: fn_def cur(1) split: sum.splits)
  then show "v = (case cursor_of U (bd_Get B db) ?c of None \<Rightarrow> 1
    | Some q \<Rightarrow> if pos_less q (ac_LastTSUnixNano r, u) then 1 else 0)"
    by (simp add: cur(2) split: option.split)
  show same: "v = 0 \<Longrightarrow> db' = db"
    using out v by (simp add: fn_def cur(1) split: if_splits)
  obtain mid where mid: "v = 1 \<longrightarrow> bd_Set B db (cursorKey ?c) ?val = Inr mid
      \<and> deleteDeliveryTasksThroughCursor U B mid ?c (ac_LastTSUnixNano r) (ac_LastTaskID r) = Inr db'"
    using out v by (auto simp: fn_def cur(1) split: if_splits sum.splits)
  have get: "v = 1 \<Longrightarrow> bd_Get B mid = (bd_Get B db)(cursorKey ?c := Some ?val)"
    using mid badger_okD(1) [OF assms(1)] by blast
  have row: "row_wf U (cursorKey ?c) ?val"
    using assms(6, 7) by (auto simp: row_wf_def cursorValueOf_def pos_ok_def)
  have wf: "v = 1 \<Longrightarrow> store_wf U (bd_Get B mid)"
    unfolding get by (rule store_wf_upd [OF assms(2)]) (use row in auto)
  have del: "v = 1 \<Longrightarrow> deleteDeliveryTasksThroughCursor U B mid ?c (ac_LastTSUnixNano r) (ac_LastTaskID r) = Inr db'"
    using mid by blast
  note eff = deleteThrough_tasks [OF assms(1) wf assms(3, 6, 7) del assms(10)]
  show "v = 1 \<Longrightarrow> tasks (bd_Get B db') d p =
      (if d = ?c \<and> \<not> pos_less (ac_LastTSUnixNano r, u) p then None else tasks (bd_Get B db) d p)"
    using eff(1) get by (simp add: tasks_upd_other)
  show "v = 1 \<Longrightarrow> cursor_of U (bd_Get B db') d = (if d = ?c then Some (ac_LastTSUnixNano r, u) else cursor_of U (bd_Get B db) d)"
    using eff(2) get assms(6) by (auto simp: cursor_of_def cursorValueOf_def)
  show "v = 1 \<Longrightarrow> store_wf U (bd_Get B db')"
    by (rule store_wf_sub [OF wf]) (simp_all add: deleteThrough_sub [OF assms(1) del])
  show "bd_Get B db' (rowKey prefixShareTask d p) = bd_Get B db (rowKey prefixShareTask d p)"
    using v01 same eff(3) [of p] get by auto
qed

lemma deleteClient_get:
  assumes "badger_ok B" "store_wf U (bd_Get B db)" "nul_free c" "deleteClientDeliveryState B db c = Inr db'"
  shows "bd_Get B db' k = (if k = cursorKey c \<or> (\<exists>p tv. k = rowKey prefixTask c p \<and> tasks (bd_Get B db) c p = Some tv)
     then None else bd_Get B db k)"
proof -
  obtain mid where mid: "deleteKeys B (map fst (iterPrefix B db (taskKeyPrefix c) (taskKeyPrefix c))) db = Inr mid"
    "bd_Delete B mid (cursorKey c) = Inr db'"
    using assms(4) by (auto simp: deleteClientDeliveryState_def Let_def rbind_eq_Inr)
  have "bd_Get B mid k = (if \<exists>p tv. k = rowKey prefixTask c p \<and> tasks (bd_Get B db) c p = Some tv then None else bd_Get B db k)"
    using deleteKeys_get [OF assms(1) mid(1), of k] unfolding set_map client_keys [OF assms(1-3)] .
  then show ?thesis
    unfolding badger_okD(2) [OF assms(1) mid(2)] by (simp only: fun_upd_apply simp_thms if_True if_False split: if_split) blast
qed

lemma deleteClient_tasks:
  assumes "badger_ok B" "store_wf U (bd_Get B db)" "nul_free c" "deleteClientDeliveryState B db c = Inr db'" "nul_free d"
  shows "tasks (bd_Get B db') d p = (if d = c then None else tasks (bd_Get B db) d p)"
    and "cursor_of U (bd_Get B db') d = (if d = c then None else cursor_of U (bd_Get B db) d)"
proof -
  note get = deleteClient_get [OF assms(1-4)]
  show "cursor_of U (bd_Get B db') d = (if d = c then None else cursor_of U (bd_Get B db) d)"
    by (simp add: cursor_of_def get)
  show "tasks (bd_Get B db') d p = (if d = c then None else tasks (bd_Get B db) d p)"
  proof (cases "pos_ok p")
    case True
    have "(\<exists>q tv. rowKey prefixTask d p = rowKey prefixTask c q \<and> tasks (bd_Get B db) c q = Some tv)
      \<longleftrightarrow> d = c \<and> (\<exists>tv. tasks (bd_Get B db) c p = Some tv)"
      using rowKey_inject [OF True tasks_Some(1) assms(5, 3)] by metis
    then show ?thesis
      using True by (auto simp: tasks_def get)
  qed (simp add: tasks_def)
qed

lemma deleteSharedItems_get:
  assumes "badger_ok B" "\<forall>it \<in> set items. \<exists>k tv. it = (k, KTask tv)" "deleteSharedItems B g items db = Inr db'"
  shows "bd_Get B db' k =
    (if \<exists>tv. (k, KTask tv) \<in> set items \<and> tv_ShareGroup tv = g \<and> tv_SharedTaskID tv \<noteq> [] then None else bd_Get B db k)"
  using assms(2, 3)
proof (induction items arbitrary: db)
  case (Cons it items)
  obtain k' tv where it: "it = (k', KTask tv)"
    using Cons.prems(1) by auto
  obtain mid where mid: "(if tv_ShareGroup tv = g \<and> tv_SharedTaskID tv \<noteq> [] then bd_Delete B db k' else Inr db) = Inr mid"
    "deleteSharedItems B g items mid = Inr db'"
    using Cons.prems(2) by (cases "tv_ShareGroup tv = g \<and> tv_SharedTaskID tv \<noteq> []") (auto simp: it unmarshalTask_def rbind_eq_Inr)
  have "bd_Get B mid k = (if k = k' \<and> tv_ShareGroup tv = g \<and> tv_SharedTaskID tv \<noteq> [] then None else bd_Get B db k)"
    using mid(1) badger_okD(2) [OF assms(1)] by (auto split: if_splits)
  then show ?case
    using Cons.IH [OF _ mid(2)] Cons.prems(1) by (auto simp: it)
qed simp

lemma deleteShared_get:
  assumes "badger_ok B" "store_wf U (bd_Get B db)" "nul_free c" "deleteClientSharedDeliveryTasks B db c g = Inr db'"
  shows "bd_Get B db' k = (if \<exists>p tv. k = rowKey prefixTask c p \<and> tasks (bd_Get B db) c p = Some tv
      \<and> tv_ShareGroup tv = g \<and> tv_SharedTaskID tv \<noteq> [] then None else bd_Get B db k)"
proof -
  let ?items = "iterPrefix B db (taskKeyPrefix c) (taskKeyPrefix c)"
  note rows = client_rows [OF assms(1-3)]
  have form: "\<forall>it \<in> set ?items. \<exists>k tv. it = (k, KTask tv)"
    using rows by (metis prod.collapse)
  have "(\<exists>tv. (k, KTask tv) \<in> set ?items \<and> tv_ShareGroup tv = g \<and> tv_SharedTaskID tv \<noteq> []) \<longleftrightarrow>
    (\<exists>p tv. k = rowKey prefixTask c p \<and> tasks (bd_Get B db) c p = Some tv \<and> tv_ShareGroup tv = g \<and> tv_SharedTaskID tv \<noteq> [])"
    unfolding rows by blast
  then show ?thesis
    using deleteSharedItems_get [OF assms(1) form, of g db db' k] assms(4)
    by (simp add: deleteClientSharedDeliveryTasks_def Let_def)
qed

lemma deleteKeys_accepted: "(\<And>d k. \<exists>d'. bd_Delete B d k = Inr d') \<Longrightarrow> \<exists>d. deleteKeys B ks db = Inr d"
proof (induction ks arbitrary: db)
  case (Cons k ks)
  then obtain d where "bd_Delete B db k = Inr d"
    by blast
  then show ?case
    using Cons by simp
qed simp

lemma advance_error:
  assumes "updateAdvanceCursor U B commit r db = (v, err, db')"
  shows "err \<noteq> None \<Longrightarrow> db' = db"
    and "store_wf U (bd_Get B db) \<Longrightarrow> ac_ClientID r \<noteq> [] \<Longrightarrow> ac_LastTaskID r \<noteq> [] \<Longrightarrow> ua_Parse U (ac_LastTaskID r) = Some u
      \<Longrightarrow> commit = None \<Longrightarrow> (\<And>d k x. \<exists>d'. bd_Set B d k x = Inr d') \<Longrightarrow> (\<And>d k. \<exists>d'. bd_Delete B d k = Inr d') \<Longrightarrow> err = None"
proof -
  show "err \<noteq> None \<Longrightarrow> db' = db"
    using assms by (auto simp: updateAdvanceCursor_def Let_def valueResult_eq split: if_splits dest: db_Update_cases(4))
  assume a: "store_wf U (bd_Get B db)" "ac_ClientID r \<noteq> []" "ac_LastTaskID r \<noteq> []" "ua_Parse U (ac_LastTaskID r) = Some u"
    "commit = None" "\<And>d k x. \<exists>d'. bd_Set B d k x = Inr d'" "\<And>d k. \<exists>d'. bd_Delete B d k = Inr d'"
  obtain cur where cur: "lookupDeliveryCursorInTxn U B db (ac_ClientID r) = Inr cur"
    using cursor_lookup [OF a(1) refl] by blast
  obtain mid where mid: "bd_Set B db (cursorKey (ac_ClientID r)) (KCursor (cursorValueOf r)) = Inr mid"
    using a(6) by blast
  obtain d where d: "deleteDeliveryTasksThroughCursor U B mid (ac_ClientID r) (ac_LastTSUnixNano r) (ac_LastTaskID r) = Inr d"
    using deleteKeys_accepted [OF a(7)] a(4) by (simp add: deleteDeliveryTasksThroughCursor_def Let_def) blast
  show "err = None"
    using assms a(2-5) cur mid d
    by (auto simp: updateAdvanceCursor_def Let_def valueResult_eq db_Update_def split: if_splits)
qed

section \<open>Properties of a queue\<close>

text \<open>C22: A read of a client's queue returns the first rows, at most the limit of them, of the list of all rows of this
  client after the given position, ordered by position; rows of other clients and rows at or before the position are
  never returned.\<close>

theorem delivery_read_exact:
  assumes "badger_ok B" "store_wf U (bd_Get B db)" "nul_free c" "c \<noteq> []" "readPosition lastTS lastID" "0 < limit"
  shows "\<exists>all. sorted_wrt (\<lambda>s t. pos_less (task_pos s) (task_pos t)) all
    \<and> (\<forall>d. d \<in> set all \<longleftrightarrow> (\<exists>p. queued U (bd_Get B db) c p d \<and> readsAfter lastTS lastID p))
    \<and> ReadDeliveryTasks U B None db c lastTS lastID limit = Inr (take (nat limit) all)"
  using ReadDeliveryTasks_rows [OF assms(1-5)] assms(6) by metis

definition example_value :: taskValue where
  "example_value = \<lparr>tv_MessageID = replicate 16 (CHR ''m''), tv_DeliveryQoS = 1, tv_SubscriptionIDs = [], tv_NoLocal = False,
    tv_RetainAsPublished = False, tv_ShareGroup = [], tv_SharedTaskID = []\<rparr>"

definition example_rows :: "(bytes \<times> kvValue) list" where
  "example_rows = [(rowKey prefixTask ''c'' (7, replicate 16 9), KTask example_value)]"

lemma example_rows_wf: "store_wf raw_uuid (bd_Get list_badger example_rows)"
  by (auto simp: store_wf_def example_rows_def list_badger_def row_wf_def nul_free_def pos_ok_def ts_ok_def
      intro!: exI [of _ "''c''"] exI [of _ "7 :: int"] exI [of _ "replicate 16 (9 :: byte)"] split: if_splits)

theorem delivery_read_exact_witness:
  "\<exists>all. sorted_wrt (\<lambda>s t. pos_less (task_pos s) (task_pos t)) all
    \<and> (\<forall>d. d \<in> set all
         \<longleftrightarrow> (\<exists>p. queued raw_uuid (bd_Get list_badger example_rows) ''c'' p d \<and> readsAfter None uuid_Nil p))
    \<and> ReadDeliveryTasks raw_uuid list_badger None example_rows ''c'' None uuid_Nil 10 = Inr (take 10 all)"
  using delivery_read_exact [OF list_badger_ok example_rows_wf, of "''c''" None uuid_Nil 10]
  by (simp add: nul_free_def readPosition_def UnixNano_def)

lemma queued_round_trip:
  assumes "uuid_ok U" "pos_ok (task_pos t)" "length (dt_MessageID t) = 16" "length (dt_SharedTaskID t) = 16"
    and "tasks g (dt_ClientID t) (task_pos t) = Some
      \<lparr>tv_MessageID = ua_String U (dt_MessageID t), tv_DeliveryQoS = dt_DeliveryQoS t,
       tv_SubscriptionIDs = cloneSubscriptionIDs (dt_SubscriptionIDs t), tv_NoLocal = dt_NoLocal t,
       tv_RetainAsPublished = dt_RetainAsPublished t, tv_ShareGroup = dt_ShareGroup t,
       tv_SharedTaskID = (if dt_SharedTaskID t \<noteq> uuid_Nil then ua_String U (dt_SharedTaskID t) else [])\<rparr>"
  shows "queued U g (dt_ClientID t) (task_pos t) (t\<lparr>dt_Generation := 0\<rparr>)"
proof -
  have "\<exists>n. dt_TS t = Some n"
    using assms(2) by (cases "dt_TS t") (simp_all add: pos_ok_def ts_ok_def task_pos_def UnixNano_def)
  then show ?thesis
    using assms uuid_okD [OF assms(1)]
    by (cases t) (auto simp: queued_def deliveryTaskFromValue_def task_pos_def UnixNano_def time_Unix0_def
        cloneSubscriptionIDs_def Let_def)
qed

lemma append_effect:
  assumes "uuid_ok U" "badger_ok B" "store_wf U (bd_Get B db)" "dt_ClientID t \<noteq> []" "nul_free (dt_ClientID t)"
    and "pos_ok (task_pos t)" "length (dt_MessageID t) = 16" "length (dt_SharedTaskID t) = 16"
    and "AppendDeliveryTask U B commit None t db = (ins, err, db')"
  shows "ins = (\<not> holds_message (bd_Get B db) (dt_ClientID t) (ua_String U (dt_MessageID t)))"
    and "err \<noteq> None \<Longrightarrow> db' = db"
    and "err = None \<Longrightarrow> store_wf U (bd_Get B db')"
    and "err = None \<Longrightarrow> ins \<Longrightarrow> queued U (bd_Get B db') (dt_ClientID t) (task_pos t) (t\<lparr>dt_Generation := 0\<rparr>)"
    and "err = None \<Longrightarrow> nul_free c \<Longrightarrow> \<not> ins \<or> c \<noteq> dt_ClientID t \<or> p \<noteq> task_pos t
      \<Longrightarrow> tasks (bd_Get B db') c p = tasks (bd_Get B db) c p"
    and "err = None \<Longrightarrow> cursor_of U (bd_Get B db') c = cursor_of U (bd_Get B db) c"
    and "(\<And>n. commit n = None) \<Longrightarrow> (\<And>k x. \<exists>d. bd_Set B db k x = Inr d) \<Longrightarrow> err = None"
proof -
  let ?r = "\<lparr>at_TSUnixNano = UnixNano (dt_TS t), at_TaskID = ua_String U (dt_TaskID t), at_ClientID = dt_ClientID t,
    at_MessageID = ua_String U (dt_MessageID t), at_DeliveryQoS = dt_DeliveryQoS t,
    at_SubscriptionIDs = dt_SubscriptionIDs t, at_NoLocal = dt_NoLocal t, at_RetainAsPublished = dt_RetainAsPublished t,
    at_ShareGroup = dt_ShareGroup t,
    at_SharedTaskID = (if dt_SharedTaskID t \<noteq> uuid_Nil then ua_String U (dt_SharedTaskID t) else [])\<rparr>"
  let ?k = "rowKey prefixTask (dt_ClientID t) (task_pos t)"
  let ?tv = "taskValueOf ?r"
  obtain v where v: "updateAppendTask U B commit ?r db = (v, err, db')" "ins = (v = 1)"
    using assms(9) by (auto simp: AppendDeliveryTask_def Let_def split: prod.splits)
  have u: "ua_Parse U (at_TaskID ?r) = Some (dt_TaskID t)"
    using assms(6) uuid_okD(1) [OF assms(1)] by (simp add: pos_ok_def task_pos_def)
  have m: "at_MessageID ?r \<noteq> []"
    using uuid_okD(2) [OF assms(1, 7)] by simp
  note out = append_outcome [where r = ?r, OF assms(2, 3) _ _ m u v(1), simplified, OF assms(5, 4)]
  have get: "bd_Get B db' = (if ins then (bd_Get B db)(?k := Some (KTask ?tv)) else bd_Get B db)" if "err = None"
    using out(3) [OF that] by (simp add: v(2) taskKey_row task_pos_def)
  have row: "row_wf U ?k (KTask ?tv)"
    by (rule row_wf_task [OF assms(5, 6)])
  show "ins = (\<not> holds_message (bd_Get B db) (dt_ClientID t) (ua_String U (dt_MessageID t)))"
    using out(1) v(2) by simp
  show "err \<noteq> None \<Longrightarrow> db' = db"
    using out(2) by simp
  show "err = None \<Longrightarrow> store_wf U (bd_Get B db')"
    using get row assms(3) store_wf_upd [OF assms(3), of "Some (KTask ?tv)" ?k] by auto
  show "err = None \<Longrightarrow> ins \<Longrightarrow> queued U (bd_Get B db') (dt_ClientID t) (task_pos t) (t\<lparr>dt_Generation := 0\<rparr>)"
    by (rule queued_round_trip [OF assms(1, 6-8)]) (simp add: get tasks_upd [OF assms(5, 6, 5)] taskValueOf_def)
  show "err = None \<Longrightarrow> nul_free c \<Longrightarrow> \<not> ins \<or> c \<noteq> dt_ClientID t \<or> p \<noteq> task_pos t
      \<Longrightarrow> tasks (bd_Get B db') c p = tasks (bd_Get B db) c p"
    by (auto simp: get tasks_upd [OF assms(5, 6)])
  show "err = None \<Longrightarrow> cursor_of U (bd_Get B db') c = cursor_of U (bd_Get B db) c"
    by (simp add: get cursor_of_upd)
  show "(\<And>n. commit n = None) \<Longrightarrow> (\<And>k x. \<exists>d. bd_Set B db k x = Inr d) \<Longrightarrow> err = None"
    using out(4) by simp
qed
text \<open>C23: Appending a task reports whether it was new. It is new exactly when no row of the client holds its message;
  then its row, which reads back as the task (without its generation), is all that changes in any queue, no cursor
  changes, and the database stays well formed. On an error nothing is changed, and there is no error while the
  database accepts the write and the commit.\<close>

theorem delivery_append:
  assumes "uuid_ok U" "badger_ok B" "store_wf U (bd_Get B db)" "dt_ClientID t \<noteq> []" "nul_free (dt_ClientID t)"
    and "pos_ok (task_pos t)" "length (dt_MessageID t) = 16" "length (dt_SharedTaskID t) = 16"
    and "AppendDeliveryTask U B commit None t db = (ins, err, db')"
  shows "(ins \<longleftrightarrow> \<not> holds_message (bd_Get B db) (dt_ClientID t) (ua_String U (dt_MessageID t)))
    \<and> (err \<noteq> None \<longrightarrow> db' = db)
    \<and> (err = None \<longrightarrow> store_wf U (bd_Get B db')
        \<and> (ins \<longrightarrow> queued U (bd_Get B db') (dt_ClientID t) (task_pos t) (t\<lparr>dt_Generation := 0\<rparr>))
        \<and> (\<forall>c p. nul_free c \<longrightarrow> \<not> ins \<or> c \<noteq> dt_ClientID t \<or> p \<noteq> task_pos t
              \<longrightarrow> tasks (bd_Get B db') c p = tasks (bd_Get B db) c p)
        \<and> (\<forall>c. cursor_of U (bd_Get B db') c = cursor_of U (bd_Get B db) c))
    \<and> ((\<forall>n. commit n = None) \<and> (\<forall>k x. \<exists>d. bd_Set B db k x = Inr d) \<longrightarrow> err = None)"
  using append_effect [OF assms] by (intro conjI impI allI) simp_all

definition example_task :: DeliveryTask where
  "example_task = \<lparr>dt_TS = Some 8, dt_TaskID = replicate 16 1, dt_ClientID = ''c'', dt_MessageID = replicate 16 2,
    dt_Generation = 0, dt_DeliveryQoS = 1, dt_SubscriptionIDs = [5], dt_NoLocal = False, dt_RetainAsPublished = True,
    dt_ShareGroup = [], dt_SharedTaskID = uuid_Nil\<rparr>"

theorem delivery_append_witness:
  "\<exists>ins err db'. AppendDeliveryTask raw_uuid list_badger (\<lambda>n. None) None example_task example_rows = (ins, err, db')
    \<and> err = None \<and> (ins \<longrightarrow> queued raw_uuid (bd_Get list_badger db') ''c'' (8, replicate 16 1) example_task)"
proof -
  obtain ins err db' where r: "AppendDeliveryTask raw_uuid list_badger (\<lambda>n. None) None example_task example_rows = (ins, err, db')"
    by (metis prod.collapse)
  have "\<exists>d. bd_Set list_badger example_rows k x = Inr d" for k :: bytes and x
    by (simp add: list_badger_def)
  then show ?thesis
    using delivery_append [OF raw_uuid_ok list_badger_ok example_rows_wf _ _ _ _ _ r] r
    by (simp add: example_task_def nul_free_def pos_ok_def ts_ok_def task_pos_def UnixNano_def uuid_Nil_def)
qed

text \<open>C24: Advancing a cursor reports whether it moved. It moves exactly when the client has no cursor or the new position
  is after it, so a cursor never moves backwards; then the rows of this client up to the position are gone, every other
  row of every client is kept, no other cursor changes, and the database stays well formed. When the cursor does not
  move, and on an error, nothing is changed; there is no error while the database accepts the writes and the commit.\<close>

theorem delivery_advance:
  assumes "uuid_ok U" "badger_ok B" "store_wf U (bd_Get B db)" "dc_ClientID cur \<noteq> []" "nul_free (dc_ClientID cur)"
    and "pos = (UnixNano (dc_LastTS cur), dc_LastTaskID cur)" "pos_ok pos"
    and "AdvanceDeliveryCursor U B commit None cur db = (moved, err, db')"
  shows "(err \<noteq> None \<or> \<not> moved \<longrightarrow> db' = db)
    \<and> (err = None \<longrightarrow> (moved \<longleftrightarrow> (case cursor_of U (bd_Get B db) (dc_ClientID cur) of None \<Rightarrow> True | Some q \<Rightarrow> pos_less q pos)))
    \<and> (err = None \<and> moved \<longrightarrow> store_wf U (bd_Get B db')
        \<and> (\<forall>c. nul_free c \<longrightarrow> cursor_of U (bd_Get B db') c =
              (if c = dc_ClientID cur then Some pos else cursor_of U (bd_Get B db) c))
        \<and> (\<forall>c p. nul_free c \<longrightarrow> tasks (bd_Get B db') c p =
              (if c = dc_ClientID cur \<and> \<not> pos_less pos p then None else tasks (bd_Get B db) c p)))
    \<and> (commit = None \<and> (\<forall>d k x. \<exists>d'. bd_Set B d k x = Inr d') \<and> (\<forall>d k. \<exists>d'. bd_Delete B d k = Inr d') \<longrightarrow> err = None)"
proof -
  let ?r = "\<lparr>ac_UpdatedTSUnixNano = UnixNano (dc_UpdatedTS cur), ac_ClientID = dc_ClientID cur,
    ac_LastTSUnixNano = UnixNano (dc_LastTS cur), ac_LastTaskID = ua_String U (dc_LastTaskID cur)\<rparr>"
  obtain v where v: "updateAdvanceCursor U B commit ?r db = (v, err, db')" "moved = (v = 1)"
    using assms(8) by (auto simp: AdvanceDeliveryCursor_def Let_def split: prod.splits)
  have len: "length (dc_LastTaskID cur) = 16"
    using assms(6, 7) by (simp add: pos_ok_def)
  note id = uuid_okD(2) [OF assms(1) len] uuid_okD(1) [OF assms(1) len]
  note out = advance_outcome [where r = ?r and u = "dc_LastTaskID cur", OF assms(2, 3) _ _ _ _ _ v(1), simplified,
      OF assms(5, 4) id assms(7) [unfolded assms(6)]]
  have v01: "err = None \<Longrightarrow> v = 0 \<or> v = 1"
    using out(1) [OF _ assms(5)] by (auto split: option.splits)
  show ?thesis
    unfolding assms(6)
  proof (intro conjI impI)
    show "err \<noteq> None \<or> \<not> moved \<Longrightarrow> db' = db"
      using advance_error(1) [OF v(1)] out(2) [OF _ assms(5)] v01 v(2) by blast
    show "err = None \<Longrightarrow> moved \<longleftrightarrow> (case cursor_of U (bd_Get B db) (dc_ClientID cur) of None \<Rightarrow> True | Some q \<Rightarrow> pos_less q (UnixNano (dc_LastTS cur), dc_LastTaskID cur))"
      using out(1) [OF _ assms(5)] v(2) by (simp split: option.splits)
    show "err = None \<and> moved \<Longrightarrow> store_wf U (bd_Get B db')"
      using out(5) [OF _ assms(5)] v(2) by simp
    show "err = None \<and> moved \<Longrightarrow> \<forall>c. nul_free c \<longrightarrow> cursor_of U (bd_Get B db') c =
        (if c = dc_ClientID cur then Some (UnixNano (dc_LastTS cur), dc_LastTaskID cur) else cursor_of U (bd_Get B db) c)"
      using out(4) v(2) by simp
    show "err = None \<and> moved \<Longrightarrow> \<forall>c p. nul_free c \<longrightarrow> tasks (bd_Get B db') c p =
        (if c = dc_ClientID cur \<and> \<not> pos_less (UnixNano (dc_LastTS cur), dc_LastTaskID cur) p then None else tasks (bd_Get B db) c p)"
      using out(3) v(2) by simp
    show "commit = None \<and> (\<forall>d k x. \<exists>d'. bd_Set B d k x = Inr d') \<and> (\<forall>d k. \<exists>d'. bd_Delete B d k = Inr d') \<Longrightarrow> err = None"
      using advance_error(2) [OF v(1) assms(3), of "dc_LastTaskID cur"] assms(4) id by simp
  qed
qed

theorem delivery_advance_witness:
  "\<exists>db'. AdvanceDeliveryCursor raw_uuid list_badger None None
      \<lparr>dc_UpdatedTS = Some 9, dc_ClientID = ''c'', dc_Generation = 0, dc_LastTS = Some 7, dc_LastTaskID = replicate 16 9\<rparr> example_rows
      = (True, None, db')
    \<and> tasks (bd_Get list_badger db') ''c'' (7, replicate 16 9) = None"
proof -
  let ?cur = "\<lparr>dc_UpdatedTS = Some 9, dc_ClientID = ''c'', dc_Generation = 0, dc_LastTS = Some 7, dc_LastTaskID = replicate 16 9\<rparr>"
  obtain moved err db' where r: "AdvanceDeliveryCursor raw_uuid list_badger None None ?cur example_rows = (moved, err, db')"
    by (metis prod.collapse)
  have "\<exists>d'. bd_Set list_badger d k x = Inr d'" "\<exists>d'. bd_Delete list_badger d k = Inr d'"
    for d :: "(bytes \<times> kvValue) list" and k x
    by (simp_all add: list_badger_def)
  moreover have "cursor_of raw_uuid (bd_Get list_badger example_rows) ''c'' = None"
    by (simp add: cursor_of_def list_badger_def example_rows_def)
  ultimately show ?thesis
    using delivery_advance [OF raw_uuid_ok list_badger_ok example_rows_wf _ _ _ _ r, of "(7, replicate 16 9)"] r
    by (simp add: nul_free_def pos_ok_def ts_ok_def UnixNano_def pos_less_def)
qed
end
