(* ===== verification/Share_Store.thy ===== *)
theory Share_Store
  imports Delivery_Store
begin

text \<open>
  The shared-subscription rows of the Badger store: \<open>state_machine_shared.go\<close> and \<open>shared_store.go\<close> under
  \<open>src/pkg/storage/delivery/metadata/badgerstore\<close>, with the dispatcher \<open>applyUpdate\<close> of \<open>state_machine.go\<close> over every
  update of the store. A task of a share group is pending, processing, completed or rolled back, and several nodes
  compete for it by changing its status atomically.

  \<open>now\<close> is what \<open>time.Now().UnixNano()\<close> returns.
\<close>

section \<open>Status, tasks and requests\<close>

definition TaskStatusPending :: TaskStatus where "TaskStatusPending = ''pending''"

definition TaskStatusProcessing :: TaskStatus where "TaskStatusProcessing = ''processing''"

definition TaskStatusCompleted :: TaskStatus where "TaskStatusCompleted = ''completed''"

definition TaskStatusRolledBack :: TaskStatus where "TaskStatusRolledBack = ''rolled_back''"

lemmas status_defs = TaskStatusPending_def TaskStatusProcessing_def TaskStatusCompleted_def TaskStatusRolledBack_def

record ShareGroupTask =
  sgt_TaskID :: UUID
  sgt_ShareGroup :: string
  sgt_TopicFilter :: string
  sgt_MessageID :: UUID
  sgt_DeliveryQoS :: int
  sgt_PublishQoS :: int
  sgt_PublisherClient :: string
  sgt_SubscriptionIDs :: string
  sgt_WinnerNoLocal :: bool
  sgt_WinnerRAP :: bool
  sgt_Status :: TaskStatus
  sgt_ProcessedByNode :: u64
  sgt_ProcessedAt :: GoTime
  sgt_RollbackReason :: string
  sgt_Timestamp :: GoTime

record ShareGroupCursor =
  sgc_ShareGroup :: string
  sgc_LastProcessedTS :: GoTime
  sgc_LastProcessedTaskID :: UUID
  sgc_LeaderNodeID :: u64
  sgc_LastRenewal :: GoTime

record appendShareTaskRequest =
  ast_TSUnixNano :: int
  ast_TaskID :: string
  ast_ShareGroup :: string
  ast_TopicFilter :: string
  ast_MessageID :: string
  ast_DeliveryQoS :: int
  ast_PublishQoS :: int
  ast_PublisherClient :: string
  ast_SubscriptionIDs :: string
  ast_WinnerNoLocal :: bool
  ast_WinnerRAP :: bool
  ast_Status :: TaskStatus
  ast_ProcessedByNode :: u64
  ast_ProcessedAtNano :: int
  ast_RollbackReason :: string

record updateShareTaskStatusRequest =
  uss_TaskID :: string
  uss_ShareGroup :: string
  uss_OldStatus :: TaskStatus
  uss_NewStatus :: TaskStatus
  uss_NowNano :: int

record appendShareGroupCursorRequest =
  asc_ShareGroup :: string
  asc_LastProcessedTSNano :: int
  asc_LastProcessedTaskID :: string
  asc_LeaderNodeID :: u64
  asc_LastRenewalNano :: int

record readShareTasksQuery =
  rsq_ShareGroup :: string
  rsq_LastTSUnixNano :: int
  rsq_LastTaskID :: UUID
  rsq_Limit :: int

definition unmarshalShareTask :: "kvValue \<Rightarrow> store_error + shareTaskValue" where
  "unmarshalShareTask v = (case v of KShareTask tv \<Rightarrow> Inr tv | _ \<Rightarrow> Inl ErrJSON)"

definition unmarshalShareCursor :: "kvValue \<Rightarrow> store_error + shareCursorValue" where
  "unmarshalShareCursor v = (case v of KShareCursor cv \<Rightarrow> Inr cv | _ \<Rightarrow> Inl ErrJSON)"

section \<open>Lookups\<close>

definition shareTaskFromValue :: "uuid_api \<Rightarrow> string \<Rightarrow> int \<Rightarrow> UUID \<Rightarrow> shareTaskValue \<Rightarrow> ShareGroupTask option" where
  "shareTaskFromValue U shareGroup tsUnixNano taskID tv =
     (case ua_Parse U (stv_MessageID tv) of
        None \<Rightarrow> None
      | Some messageID \<Rightarrow>
          Some \<lparr>sgt_TaskID = taskID, sgt_ShareGroup = shareGroup, sgt_TopicFilter = stv_TopicFilter tv,
                sgt_MessageID = messageID, sgt_DeliveryQoS = stv_DeliveryQoS tv, sgt_PublishQoS = stv_PublishQoS tv,
                sgt_PublisherClient = stv_PublisherClient tv, sgt_SubscriptionIDs = stv_SubscriptionIDs tv,
                sgt_WinnerNoLocal = stv_WinnerNoLocal tv, sgt_WinnerRAP = stv_WinnerRAP tv, sgt_Status = stv_Status tv,
                sgt_ProcessedByNode = stv_ProcessedByNode tv, sgt_ProcessedAt = time_Unix0 (stv_ProcessedAtNano tv),
                sgt_RollbackReason = stv_RollbackReason tv, sgt_Timestamp = time_Unix0 tsUnixNano\<rparr>)"

text \<open>One item of a loop over the rows of a group: \<open>None\<close> is \<open>continue\<close>. Rows the filter rejects are skipped.\<close>

definition shareItem :: "uuid_api \<Rightarrow> string \<Rightarrow> (shareTaskValue \<Rightarrow> bool) \<Rightarrow> bytes \<times> kvValue
    \<Rightarrow> store_error + ShareGroupTask option" where
  "shareItem U shareGroup wanted item =
     (case parseShareTaskKey (fst item) (shareTaskKeyPrefix shareGroup) of
        None \<Rightarrow> Inr None
      | Some (tsUnixNano, taskUUID) \<Rightarrow>
          rbind (unmarshalShareTask (snd item)) (\<lambda>tv.
            Inr (if wanted tv then shareTaskFromValue U shareGroup tsUnixNano taskUUID tv else None)))"

fun readShareItems :: "uuid_api \<Rightarrow> string \<Rightarrow> bytes \<Rightarrow> int \<Rightarrow> (bytes \<times> kvValue) list \<Rightarrow> ShareGroupTask list
    \<Rightarrow> store_error + ShareGroupTask list" where
  "readShareItems U shareGroup seekKey limit [] out = Inr out"
| "readShareItems U shareGroup seekKey limit (item # items) out =
     (if \<not> int (length out) < limit then Inr out
      else if out = [] \<and> fst item = seekKey then readShareItems U shareGroup seekKey limit items out
      else rbind (shareItem U shareGroup (\<lambda>tv. stv_Status tv = TaskStatusPending) item) (\<lambda>task.
        readShareItems U shareGroup seekKey limit items (case task of Some t \<Rightarrow> out @ [t] | None \<Rightarrow> out)))"

definition readShareGroupTasks :: "uuid_api \<Rightarrow> 'db badger \<Rightarrow> 'db \<Rightarrow> readShareTasksQuery
    \<Rightarrow> store_error + ShareGroupTask list" where
  "readShareGroupTasks U B db q =
     (let groupPrefix = shareTaskKeyPrefix (rsq_ShareGroup q);
          seekKey = (if rsq_LastTaskID q = uuid_Nil \<and> rsq_LastTSUnixNano q \<le> 0 then groupPrefix
                     else shareTaskKey (rsq_ShareGroup q) (rsq_LastTSUnixNano q) (rsq_LastTaskID q))
      in readShareItems U (rsq_ShareGroup q) seekKey (rsq_Limit q) (iterPrefix B db seekKey groupPrefix) [])"

fun collectShareItems :: "uuid_api \<Rightarrow> string \<Rightarrow> (shareTaskValue \<Rightarrow> bool) \<Rightarrow> (bytes \<times> kvValue) list
    \<Rightarrow> store_error + ShareGroupTask list" where
  "collectShareItems U shareGroup wanted [] = Inr []"
| "collectShareItems U shareGroup wanted (item # items) =
     rbind (shareItem U shareGroup wanted item) (\<lambda>task.
       rbind (collectShareItems U shareGroup wanted items) (\<lambda>out.
         Inr (case task of Some t \<Rightarrow> t # out | None \<Rightarrow> out)))"

definition queryProcessingShareTasksBefore :: "uuid_api \<Rightarrow> 'db badger \<Rightarrow> 'db \<Rightarrow> string \<Rightarrow> int
    \<Rightarrow> store_error + ShareGroupTask list" where
  "queryProcessingShareTasksBefore U B db shareGroup beforeNano =
     collectShareItems U shareGroup
       (\<lambda>tv. stv_Status tv = TaskStatusProcessing \<and> \<not> stv_ProcessedAtNano tv > beforeNano)
       (iterPrefix B db (shareTaskKeyPrefix shareGroup) (shareTaskKeyPrefix shareGroup))"

fun firstShareItem :: "uuid_api \<Rightarrow> string \<Rightarrow> (shareTaskValue \<Rightarrow> bool) \<Rightarrow> (bytes \<times> kvValue) list
    \<Rightarrow> store_error + ShareGroupTask option" where
  "firstShareItem U shareGroup wanted [] = Inr None"
| "firstShareItem U shareGroup wanted (item # items) =
     rbind (shareItem U shareGroup wanted item) (\<lambda>task.
       case task of Some t \<Rightarrow> Inr (Some t) | None \<Rightarrow> firstShareItem U shareGroup wanted items)"

definition queryShareTaskByMessageID :: "uuid_api \<Rightarrow> 'db badger \<Rightarrow> 'db \<Rightarrow> string \<Rightarrow> UUID \<Rightarrow> TaskStatus list
    \<Rightarrow> store_error + ShareGroupTask option" where
  "queryShareTaskByMessageID U B db shareGroup messageID statuses =
     firstShareItem U shareGroup
       (\<lambda>tv. \<not> (length statuses > 0 \<and> stv_Status tv \<notin> set statuses) \<and> stv_MessageID tv = ua_String U messageID)
       (iterPrefix B db (shareTaskKeyPrefix shareGroup) (shareTaskKeyPrefix shareGroup))"

definition readShareGroupCursor :: "uuid_api \<Rightarrow> 'db badger \<Rightarrow> 'db \<Rightarrow> string \<Rightarrow> store_error + ShareGroupCursor option" where
  "readShareGroupCursor U B db shareGroup =
     (case bd_Get B db (shareCursorKey shareGroup) of
        None \<Rightarrow> Inr None
      | Some val \<Rightarrow>
          rbind (unmarshalShareCursor val) (\<lambda>cv.
            rbind (if scv_LastProcessedTaskID cv \<noteq> []
                   then (case ua_Parse U (scv_LastProcessedTaskID cv) of None \<Rightarrow> Inl ErrUUID | Some u \<Rightarrow> Inr u)
                   else Inr uuid_Nil) (\<lambda>lastTaskID.
              Inr (Some \<lparr>sgc_ShareGroup = scv_ShareGroup cv, sgc_LastProcessedTS = time_Unix0 (scv_LastProcessedTSNano cv),
                         sgc_LastProcessedTaskID = lastTaskID, sgc_LeaderNodeID = scv_LeaderNodeID cv,
                         sgc_LastRenewal = time_Unix0 (scv_LastRenewalNano cv)\<rparr>))))"

section \<open>Updates\<close>

text \<open>\<open>findShareTask\<close> returns the key, the time and the value of the first row of the group with the task's identifier.\<close>

fun findShareItem :: "string \<Rightarrow> UUID \<Rightarrow> (bytes \<times> kvValue) list \<Rightarrow> store_error + (bytes \<times> int \<times> shareTaskValue) option" where
  "findShareItem shareGroup want [] = Inr None"
| "findShareItem shareGroup want (item # items) =
     (case parseShareTaskKey (fst item) (shareTaskKeyPrefix shareGroup) of
        None \<Rightarrow> findShareItem shareGroup want items
      | Some (ts, taskIDBytes) \<Rightarrow>
          (if taskIDBytes \<noteq> want then findShareItem shareGroup want items
           else rbind (unmarshalShareTask (snd item)) (\<lambda>tv. Inr (Some (fst item, ts, tv)))))"

definition findShareTask :: "'db badger \<Rightarrow> 'db \<Rightarrow> string \<Rightarrow> UUID \<Rightarrow> store_error + (bytes \<times> int \<times> shareTaskValue) option" where
  "findShareTask B txn shareGroup taskID =
     findShareItem shareGroup taskID (iterPrefix B txn (shareTaskKeyPrefix shareGroup) (shareTaskKeyPrefix shareGroup))"

definition setShareTaskStatus :: "'db badger \<Rightarrow> bytes \<Rightarrow> string \<Rightarrow> UUID \<Rightarrow> int \<Rightarrow> shareTaskValue \<Rightarrow> TaskStatus \<Rightarrow> int \<Rightarrow> 'db
    \<Rightarrow> bool \<times> (store_error + 'db)" where
  "setShareTaskStatus B oldKey shareGroup taskID tsUnixNano tv newStatus nowNano txn =
     (let newTS = (if newStatus = TaskStatusPending then nowNano else tsUnixNano);
          tv = tv\<lparr>stv_Status := newStatus\<rparr>;
          tv = (if newStatus = TaskStatusPending then tv\<lparr>stv_ProcessedAtNano := 0, stv_ProcessedByNode := 0\<rparr>
                else if newStatus \<in> {TaskStatusProcessing, TaskStatusCompleted, TaskStatusRolledBack}
                then tv\<lparr>stv_ProcessedAtNano := nowNano\<rparr>
                else tv);
          newKey = shareTaskKey shareGroup newTS taskID
      in case (if oldKey \<noteq> newKey then bd_Delete B txn oldKey else Inr txn) of
           Inl e \<Rightarrow> (False, Inl e)
         | Inr txn \<Rightarrow> (True, bd_Set B txn newKey (KShareTask tv)))"

definition updateShareTaskStatus :: "'db badger \<Rightarrow> int \<Rightarrow> string \<Rightarrow> UUID \<Rightarrow> TaskStatus \<Rightarrow> TaskStatus \<Rightarrow> int \<Rightarrow> 'db
    \<Rightarrow> bool \<times> (store_error + 'db)" where
  "updateShareTaskStatus B now shareGroup taskID oldStatus newStatus nowNano txn =
     (let nowNano = (if nowNano \<le> 0 then now else nowNano)
      in case findShareTask B txn shareGroup taskID of
           Inl e \<Rightarrow> (False, Inl e)
         | Inr None \<Rightarrow> (False, Inr txn)
         | Inr (Some (key, tsUnixNano, tv)) \<Rightarrow>
             (if stv_Status tv \<noteq> oldStatus then (False, Inr txn)
              else setShareTaskStatus B key shareGroup taskID tsUnixNano tv newStatus nowNano txn))"

definition rollbackValue :: "appendShareTaskRequest \<Rightarrow> shareTaskValue" where
  "rollbackValue req =
     \<lparr>stv_ShareGroup = ast_ShareGroup req, stv_TopicFilter = ast_TopicFilter req, stv_MessageID = ast_MessageID req,
      stv_DeliveryQoS = ast_DeliveryQoS req, stv_PublishQoS = ast_PublishQoS req,
      stv_PublisherClient = ast_PublisherClient req, stv_SubscriptionIDs = ast_SubscriptionIDs req,
      stv_WinnerNoLocal = ast_WinnerNoLocal req, stv_WinnerRAP = ast_WinnerRAP req, stv_Status = TaskStatusPending,
      stv_ProcessedByNode = 0, stv_ProcessedAtNano = 0, stv_RollbackReason = ast_RollbackReason req\<rparr>"

definition rollbackShareTask :: "uuid_api \<Rightarrow> 'db badger \<Rightarrow> int \<Rightarrow> appendShareTaskRequest \<Rightarrow> 'db \<Rightarrow> store_error + 'db" where
  "rollbackShareTask U B now req txn =
     (case ua_Parse U (ast_TaskID req) of
        None \<Rightarrow> Inl ErrUUID
      | Some taskID \<Rightarrow>
          (let nowNano = (if ast_TSUnixNano req \<le> 0 then now else ast_TSUnixNano req)
           in rbind (findShareTask B txn (ast_ShareGroup req) taskID) (\<lambda>found.
             case found of
               Some (key, tsUnixNano, tv) \<Rightarrow>
                 (if stv_Status tv = TaskStatusCompleted then Inr txn
                  else snd (setShareTaskStatus B key (ast_ShareGroup req) taskID tsUnixNano tv TaskStatusPending nowNano txn))
             | None \<Rightarrow>
                 bd_Set B txn (shareTaskKey (ast_ShareGroup req) nowNano taskID)
                   (KShareTask (rollbackValue req)))))"

definition updateAppendShareTask :: "uuid_api \<Rightarrow> 'db badger \<Rightarrow> store_error option \<Rightarrow> appendShareTaskRequest \<Rightarrow> 'db
    \<Rightarrow> 'db update_result" where
  "updateAppendShareTask U B commit r db =
     (if ast_ShareGroup r = [] then (0, Some (ErrMsg ''share_group is empty''), db)
      else
        (case ua_Parse U (ast_TaskID r) of
           None \<Rightarrow> (0, Some ErrUUID, db)
         | Some taskUUID \<Rightarrow>
             (let status = (if ast_Status r = [] then TaskStatusPending else ast_Status r);
                  val = KShareTask
                    \<lparr>stv_ShareGroup = ast_ShareGroup r, stv_TopicFilter = ast_TopicFilter r,
                     stv_MessageID = ast_MessageID r, stv_DeliveryQoS = ast_DeliveryQoS r,
                     stv_PublishQoS = ast_PublishQoS r, stv_PublisherClient = ast_PublisherClient r,
                     stv_SubscriptionIDs = ast_SubscriptionIDs r, stv_WinnerNoLocal = ast_WinnerNoLocal r,
                     stv_WinnerRAP = ast_WinnerRAP r, stv_Status = status, stv_ProcessedByNode = ast_ProcessedByNode r,
                     stv_ProcessedAtNano = ast_ProcessedAtNano r, stv_RollbackReason = ast_RollbackReason r\<rparr>;
                  key = shareTaskKey (ast_ShareGroup r) (ast_TSUnixNano r) taskUUID
              in valueResult (db_Update commit (\<lambda>txn. (False, bd_Set B txn key val)) db))))"

definition SM_updateShareTaskStatus :: "uuid_api \<Rightarrow> 'db badger \<Rightarrow> store_error option \<Rightarrow> int \<Rightarrow> updateShareTaskStatusRequest
    \<Rightarrow> 'db \<Rightarrow> 'db update_result" where
  "SM_updateShareTaskStatus U B commit now r db =
     (if uss_ShareGroup r = [] then (0, Some (ErrMsg ''share_group is empty''), db)
      else
        (case ua_Parse U (uss_TaskID r) of
           None \<Rightarrow> (0, Some ErrUUID, db)
         | Some taskUUID \<Rightarrow>
             valueResult (db_Update commit
               (updateShareTaskStatus B now (uss_ShareGroup r) taskUUID (uss_OldStatus r) (uss_NewStatus r) (uss_NowNano r)) db)))"

definition updateRollbackShareGroupTask :: "uuid_api \<Rightarrow> 'db badger \<Rightarrow> store_error option \<Rightarrow> int \<Rightarrow> appendShareTaskRequest
    \<Rightarrow> 'db \<Rightarrow> 'db update_result" where
  "updateRollbackShareGroupTask U B commit now r db =
     (if ast_ShareGroup r = [] then (0, Some (ErrMsg ''share_group is empty''), db)
      else valueResult (db_Update commit (\<lambda>txn. (False, rollbackShareTask U B now r txn)) db))"

definition updateAppendShareGroupCursor :: "'db badger \<Rightarrow> store_error option \<Rightarrow> appendShareGroupCursorRequest \<Rightarrow> 'db
    \<Rightarrow> 'db update_result" where
  "updateAppendShareGroupCursor B commit r db =
     (if asc_ShareGroup r = [] then (0, Some (ErrMsg ''share_group is empty''), db)
      else
        (let val = KShareCursor
               \<lparr>scv_ShareGroup = asc_ShareGroup r, scv_LastProcessedTSNano = asc_LastProcessedTSNano r,
                scv_LastProcessedTaskID = asc_LastProcessedTaskID r, scv_LeaderNodeID = asc_LeaderNodeID r,
                scv_LastRenewalNano = asc_LastRenewalNano r\<rparr>
         in valueResult (db_Update commit (\<lambda>txn. (False, bd_Set B txn (shareCursorKey (asc_ShareGroup r)) val)) db)))"

datatype updateRequest =
    opEnsureSchema
  | opAppendTask appendTaskRequest
  | opAdvanceCursor advanceCursorRequest
  | opDeleteClientState deleteClientStateRequest
  | opDeleteSharedTasks deleteSharedTasksRequest
  | opAppendShareTask appendShareTaskRequest
  | opUpdateShareTaskStatus updateShareTaskStatusRequest
  | opRollbackShareGroupTask appendShareTaskRequest
  | opAppendShareGroupCursor appendShareGroupCursorRequest
  | opUnknown string

definition applyUpdate :: "uuid_api \<Rightarrow> 'db badger \<Rightarrow> (nat \<Rightarrow> store_error option) \<Rightarrow> int \<Rightarrow> updateRequest \<Rightarrow> 'db
    \<Rightarrow> 'db update_result" where
  "applyUpdate U B commit now req db =
     (case req of
        opEnsureSchema \<Rightarrow> (0, None, db)
      | opAppendTask r \<Rightarrow> updateAppendTask U B commit r db
      | opAdvanceCursor r \<Rightarrow> updateAdvanceCursor U B (commit 0) r db
      | opDeleteClientState r \<Rightarrow> updateDeleteClientState B (commit 0) r db
      | opDeleteSharedTasks r \<Rightarrow> updateDeleteSharedTasks B (commit 0) r db
      | opAppendShareTask r \<Rightarrow> updateAppendShareTask U B (commit 0) r db
      | opUpdateShareTaskStatus r \<Rightarrow> SM_updateShareTaskStatus U B (commit 0) now r db
      | opRollbackShareGroupTask r \<Rightarrow> updateRollbackShareGroupTask U B (commit 0) now r db
      | opAppendShareGroupCursor r \<Rightarrow> updateAppendShareGroupCursor B (commit 0) r db
      | opUnknown op \<Rightarrow> (0, Some (ErrMsg (''unknown op '' @ op)), db))"

section \<open>The local store\<close>

definition appendShareTaskRequestFromTask :: "uuid_api \<Rightarrow> GoTime \<Rightarrow> GoTime \<Rightarrow> ShareGroupTask option
    \<Rightarrow> store_error + appendShareTaskRequest" where
  "appendShareTaskRequestFromTask U nowTime ts mtask =
     (case mtask of
        None \<Rightarrow> Inl (ErrMsg ''shared subscription task is nil'')
      | Some task \<Rightarrow>
          (if sgt_TaskID task = uuid_Nil then Inl (ErrMsg ''shared subscription taskID is empty'')
           else if sgt_ShareGroup task = [] then Inl (ErrMsg ''shareGroup is empty'')
           else if sgt_MessageID task = uuid_Nil then Inl (ErrMsg ''messageID is empty'')
           else
             (let status = (if sgt_Status task = [] then TaskStatusPending else sgt_Status task);
                  ts = (if ts = None then sgt_Timestamp task else ts);
                  ts = (if ts = None then nowTime else ts)
              in Inr \<lparr>ast_TSUnixNano = UnixNano ts, ast_TaskID = ua_String U (sgt_TaskID task),
                      ast_ShareGroup = sgt_ShareGroup task, ast_TopicFilter = sgt_TopicFilter task,
                      ast_MessageID = ua_String U (sgt_MessageID task), ast_DeliveryQoS = sgt_DeliveryQoS task,
                      ast_PublishQoS = sgt_PublishQoS task, ast_PublisherClient = sgt_PublisherClient task,
                      ast_SubscriptionIDs = sgt_SubscriptionIDs task, ast_WinnerNoLocal = sgt_WinnerNoLocal task,
                      ast_WinnerRAP = sgt_WinnerRAP task, ast_Status = status,
                      ast_ProcessedByNode = sgt_ProcessedByNode task,
                      ast_ProcessedAtNano = UnixNano (sgt_ProcessedAt task),
                      ast_RollbackReason = sgt_RollbackReason task\<rparr>)))"

definition AppendShareGroupTask :: "uuid_api \<Rightarrow> 'db badger \<Rightarrow> store_error option \<Rightarrow> store_error option \<Rightarrow> GoTime \<Rightarrow> GoTime
    \<Rightarrow> ShareGroupTask option \<Rightarrow> 'db \<Rightarrow> store_error option \<times> 'db" where
  "AppendShareGroupTask U B commit ctxErr nowTime ts task db =
     (if ctxErr \<noteq> None then (ctxErr, db)
      else
        (case appendShareTaskRequestFromTask U nowTime ts task of
           Inl e \<Rightarrow> (Some e, db)
         | Inr req \<Rightarrow> snd (updateAppendShareTask U B commit req db)))"

definition ReadShareGroupTasks :: "uuid_api \<Rightarrow> 'db badger \<Rightarrow> store_error option \<Rightarrow> 'db \<Rightarrow> string \<Rightarrow> GoTime \<Rightarrow> UUID \<Rightarrow> int
    \<Rightarrow> store_error + ShareGroupTask list" where
  "ReadShareGroupTasks U B ctxErr db shareGroup lastTS lastTaskID limit =
     (case ctxErr of
        Some e \<Rightarrow> Inl e
      | None \<Rightarrow>
          (if shareGroup = [] \<or> limit \<le> 0 then Inr []
           else readShareGroupTasks U B db \<lparr>rsq_ShareGroup = shareGroup, rsq_LastTSUnixNano = UnixNano lastTS,
                  rsq_LastTaskID = lastTaskID, rsq_Limit = limit\<rparr>))"

definition AtomicUpdateTaskStatus :: "uuid_api \<Rightarrow> 'db badger \<Rightarrow> store_error option \<Rightarrow> store_error option \<Rightarrow> int \<Rightarrow> UUID
    \<Rightarrow> string \<Rightarrow> TaskStatus \<Rightarrow> TaskStatus \<Rightarrow> 'db \<Rightarrow> bool \<times> store_error option \<times> 'db" where
  "AtomicUpdateTaskStatus U B commit ctxErr now taskID shareGroup oldStatus newStatus db =
     (if ctxErr \<noteq> None then (False, ctxErr, db)
      else
        (let (val, err, db) =
               SM_updateShareTaskStatus U B commit now
                 \<lparr>uss_TaskID = ua_String U taskID, uss_ShareGroup = shareGroup, uss_OldStatus = oldStatus,
                  uss_NewStatus = newStatus, uss_NowNano = now\<rparr> db
         in (val = 1, err, db)))"

text \<open>The calls of \<open>AtomicUpdateTaskStatus\<close> come one after the other; the \<open>i\<close>-th has its own commit and clock.\<close>

fun markShareGroupTaskProcessed :: "(nat \<Rightarrow> UUID \<Rightarrow> string \<Rightarrow> TaskStatus \<Rightarrow> TaskStatus \<Rightarrow> 'db \<Rightarrow> bool \<times> store_error option \<times> 'db)
    \<Rightarrow> nat \<Rightarrow> TaskStatus list \<Rightarrow> UUID \<Rightarrow> string \<Rightarrow> 'db \<Rightarrow> store_error option \<times> 'db" where
  "markShareGroupTaskProcessed updater i [] taskID shareGroup db = (None, db)"
| "markShareGroupTaskProcessed updater i (oldStatus # rest) taskID shareGroup db =
     (let (updated, err, db) = updater i taskID shareGroup oldStatus TaskStatusCompleted db
      in if err \<noteq> None \<or> updated then (err, db)
         else markShareGroupTaskProcessed updater (i + 1) rest taskID shareGroup db)"

definition MarkShareGroupTaskProcessed :: "uuid_api \<Rightarrow> 'db badger \<Rightarrow> (nat \<Rightarrow> store_error option) \<Rightarrow> (nat \<Rightarrow> int) \<Rightarrow> UUID \<Rightarrow> string
    \<Rightarrow> 'db \<Rightarrow> store_error option \<times> 'db" where
  "MarkShareGroupTaskProcessed U B commit now taskID shareGroup db =
     markShareGroupTaskProcessed (\<lambda>i. AtomicUpdateTaskStatus U B (commit i) None (now i)) 0
       [TaskStatusProcessing, TaskStatusPending, TaskStatusRolledBack] taskID shareGroup db"

definition RollbackSharedSubscriptionTask :: "uuid_api \<Rightarrow> 'db badger \<Rightarrow> store_error option \<Rightarrow> store_error option \<Rightarrow> int
    \<Rightarrow> ShareGroupTask option \<Rightarrow> 'db \<Rightarrow> store_error option \<times> 'db" where
  "RollbackSharedSubscriptionTask U B commit ctxErr now task db =
     (if ctxErr \<noteq> None then (ctxErr, db)
      else
        (case appendShareTaskRequestFromTask U (Some now) (Some now) task of
           Inl e \<Rightarrow> (Some e, db)
         | Inr req \<Rightarrow> snd (updateRollbackShareGroupTask U B commit now req db)))"

definition QueryProcessingTasksBefore :: "uuid_api \<Rightarrow> 'db badger \<Rightarrow> store_error option \<Rightarrow> 'db \<Rightarrow> string \<Rightarrow> GoTime
    \<Rightarrow> store_error + ShareGroupTask list" where
  "QueryProcessingTasksBefore U B ctxErr db shareGroup beforeTime =
     (case ctxErr of
        Some e \<Rightarrow> Inl e
      | None \<Rightarrow> (if shareGroup = [] then Inr []
                 else queryProcessingShareTasksBefore U B db shareGroup (UnixNano beforeTime)))"

definition ReadShareGroupCursor :: "uuid_api \<Rightarrow> 'db badger \<Rightarrow> store_error option \<Rightarrow> 'db \<Rightarrow> string
    \<Rightarrow> store_error + ShareGroupCursor option" where
  "ReadShareGroupCursor U B ctxErr db shareGroup =
     (case ctxErr of
        Some e \<Rightarrow> Inl e
      | None \<Rightarrow> (if shareGroup = [] then Inr None else readShareGroupCursor U B db shareGroup))"

definition appendShareGroupCursorRequestFromCursor :: "uuid_api \<Rightarrow> string \<Rightarrow> ShareGroupCursor option
    \<Rightarrow> store_error + appendShareGroupCursorRequest" where
  "appendShareGroupCursorRequestFromCursor U shareGroup mcursor =
     (case mcursor of
        None \<Rightarrow> Inl (ErrMsg ''share group cursor is nil'')
      | Some cursor \<Rightarrow>
          (let shareGroup = (if shareGroup = [] then sgc_ShareGroup cursor else shareGroup)
           in if shareGroup = [] then Inl (ErrMsg ''shareGroup is empty'')
              else Inr \<lparr>asc_ShareGroup = shareGroup, asc_LastProcessedTSNano = UnixNano (sgc_LastProcessedTS cursor),
                        asc_LastProcessedTaskID = ua_String U (sgc_LastProcessedTaskID cursor),
                        asc_LeaderNodeID = sgc_LeaderNodeID cursor,
                        asc_LastRenewalNano = UnixNano (sgc_LastRenewal cursor)\<rparr>))"

definition AppendShareGroupCursor :: "uuid_api \<Rightarrow> 'db badger \<Rightarrow> store_error option \<Rightarrow> store_error option \<Rightarrow> string
    \<Rightarrow> ShareGroupCursor option \<Rightarrow> 'db \<Rightarrow> store_error option \<times> 'db" where
  "AppendShareGroupCursor U B commit ctxErr shareGroup cursor db =
     (if ctxErr \<noteq> None then (ctxErr, db)
      else
        (case appendShareGroupCursorRequestFromCursor U shareGroup cursor of
           Inl e \<Rightarrow> (Some e, db)
         | Inr req \<Rightarrow> snd (updateAppendShareGroupCursor B commit req db)))"

definition QueryShareGroupTaskByMessageID :: "uuid_api \<Rightarrow> 'db badger \<Rightarrow> store_error option \<Rightarrow> 'db \<Rightarrow> string \<Rightarrow> UUID
    \<Rightarrow> TaskStatus list \<Rightarrow> store_error + ShareGroupTask option" where
  "QueryShareGroupTaskByMessageID U B ctxErr db shareGroup messageID statuses =
     (case ctxErr of
        Some e \<Rightarrow> Inl e
      | None \<Rightarrow> (if shareGroup = [] \<or> messageID = uuid_Nil then Inr None
                 else queryShareTaskByMessageID U B db shareGroup messageID statuses))"

section \<open>Reading a queue in batches\<close>

lemma rowKey_same_inject: "pos_ok p \<Longrightarrow> pos_ok q \<Longrightarrow> rowKey base n p = rowKey base n q \<longleftrightarrow> p = q"
  by (auto simp: rowKey_def pos_ok_def PutUint64_inject uint64_of_inject prod_eq_iff)

definition sharedDeliveryReadBatchSize :: int where
  "sharedDeliveryReadBatchSize = 200"

definition subscriptionIDsJSON :: "int list \<Rightarrow> string" where
  "subscriptionIDsJSON ids =
     (if length ids = 0 then []
      else ''['' @ itoa (hd ids) @ concat (map (\<lambda>i. '','' @ itoa i) (tl ids)) @ '']'')"

definition shareGroupTaskFromDeliveryTask :: "DeliveryTask \<Rightarrow> ShareGroupTask" where
  "shareGroupTaskFromDeliveryTask task =
     (let taskID = (if dt_SharedTaskID task = uuid_Nil then dt_TaskID task else dt_SharedTaskID task)
      in \<lparr>sgt_TaskID = taskID, sgt_ShareGroup = dt_ShareGroup task, sgt_TopicFilter = [], sgt_MessageID = dt_MessageID task,
          sgt_DeliveryQoS = dt_DeliveryQoS task, sgt_PublishQoS = 0, sgt_PublisherClient = [],
          sgt_SubscriptionIDs = subscriptionIDsJSON (dt_SubscriptionIDs task), sgt_WinnerNoLocal = dt_NoLocal task,
          sgt_WinnerRAP = dt_RetainAsPublished task, sgt_Status = [], sgt_ProcessedByNode = 0, sgt_ProcessedAt = None,
          sgt_RollbackReason = [], sgt_Timestamp = dt_TS task\<rparr>)"

type_synonym task_reader = "string \<Rightarrow> GoTime \<Rightarrow> UUID \<Rightarrow> int \<Rightarrow> store_error + DeliveryTask list"

text \<open>The two loops have no bound of their own, so a loop that does not return is \<open>None\<close>.\<close>

partial_function (option) readUnackedSharedSubscriptionTasks :: "task_reader \<Rightarrow> string \<Rightarrow> string \<Rightarrow> GoTime \<Rightarrow> UUID
    \<Rightarrow> ShareGroupTask list \<Rightarrow> (store_error + ShareGroupTask list) option" where
  "readUnackedSharedSubscriptionTasks reader clientID shareGroup lastTS lastTaskID out =
     (case reader clientID lastTS lastTaskID sharedDeliveryReadBatchSize of
        Inl e \<Rightarrow> Some (Inl e)
      | Inr batch \<Rightarrow>
          (if length batch = 0 then Some (Inr out)
           else
             (let out' = out @ map shareGroupTaskFromDeliveryTask
                    (filter (\<lambda>task. \<not> (dt_ShareGroup task \<noteq> shareGroup \<or> dt_SharedTaskID task = uuid_Nil)) batch)
              in if int (length batch) < sharedDeliveryReadBatchSize then Some (Inr out')
                 else readUnackedSharedSubscriptionTasks reader clientID shareGroup (dt_TS (last batch)) (dt_TaskID (last batch)) out')))"

partial_function (option) checkDeliveryTaskExists :: "task_reader \<Rightarrow> string \<Rightarrow> UUID \<Rightarrow> GoTime \<Rightarrow> UUID
    \<Rightarrow> (store_error + bool) option" where
  "checkDeliveryTaskExists reader clientID messageID lastTS lastTaskID =
     (case reader clientID lastTS lastTaskID sharedDeliveryReadBatchSize of
        Inl e \<Rightarrow> Some (Inl e)
      | Inr batch \<Rightarrow>
          (if length batch = 0 then Some (Inr False)
           else if \<exists>task \<in> set batch. dt_MessageID task = messageID then Some (Inr True)
           else if int (length batch) < sharedDeliveryReadBatchSize then Some (Inr False)
           else checkDeliveryTaskExists reader clientID messageID (dt_TS (last batch)) (dt_TaskID (last batch))))"

definition GetUnAckedSharedSubscriptionTasks :: "uuid_api \<Rightarrow> 'db badger \<Rightarrow> store_error option \<Rightarrow> 'db \<Rightarrow> string \<Rightarrow> string \<Rightarrow> GoTime
    \<Rightarrow> UUID \<Rightarrow> (store_error + ShareGroupTask list) option" where
  "GetUnAckedSharedSubscriptionTasks U B ctxErr db clientID shareGroup lastTS lastTaskID =
     readUnackedSharedSubscriptionTasks (ReadDeliveryTasks U B ctxErr db) clientID shareGroup lastTS lastTaskID []"

definition DeliveryTaskExists :: "uuid_api \<Rightarrow> 'db badger \<Rightarrow> store_error option \<Rightarrow> 'db \<Rightarrow> string \<Rightarrow> UUID
    \<Rightarrow> (store_error + bool) option" where
  "DeliveryTaskExists U B ctxErr db clientID messageID =
     checkDeliveryTaskExists (ReadDeliveryTasks U B ctxErr db) clientID messageID None uuid_Nil"

text \<open>What the loops rely on: a read returns the first rows after the position, in the order of the positions.\<close>

definition rows_after :: "('x \<Rightarrow> string \<Rightarrow> position \<Rightarrow> DeliveryTask \<Rightarrow> bool) \<Rightarrow> 'x \<Rightarrow> string \<Rightarrow> GoTime \<Rightarrow> UUID \<Rightarrow> DeliveryTask list \<Rightarrow> bool" where
  "rows_after row x c lastTS lastID all \<longleftrightarrow>
     sorted_wrt (\<lambda>s t. pos_less (task_pos s) (task_pos t)) all \<and>
     (\<forall>d. d \<in> set all \<longleftrightarrow> (\<exists>p. row x c p d \<and> readsAfter lastTS lastID p))"

lemma sorted_wrt_unique:
  assumes "\<And>a b. R a b \<Longrightarrow> \<not> R b a"
  shows "sorted_wrt R xs \<Longrightarrow> sorted_wrt R ys \<Longrightarrow> set xs = set ys \<Longrightarrow> xs = ys"
proof (induction xs arbitrary: ys)
  case (Cons a xs)
  then obtain b zs where ys: "ys = b # zs"
    by (cases ys) auto
  have ab: "a = b"
    using Cons.prems assms unfolding ys by (metis insertE list.set(2) list.set_intros(1) sorted_wrt.simps(2))
  have "a \<notin> set xs" "a \<notin> set zs"
    using Cons.prems(1, 2) assms unfolding ys ab by auto
  then have "set xs = set zs"
    using Cons.prems(3) unfolding ys ab by auto
  then show ?case
    using Cons.IH [of zs] Cons.prems unfolding ys ab by simp
qed simp

lemma pos_less_asym: "pos_less p q \<Longrightarrow> \<not> pos_less q p"
  by (auto simp: pos_less_def)

locale delivery_task_reader =
  fixes read :: "'x \<Rightarrow> task_reader"
    and valid :: "'x \<Rightarrow> bool"
    and row :: "'x \<Rightarrow> string \<Rightarrow> position \<Rightarrow> DeliveryTask \<Rightarrow> bool"
  assumes read_rows: "valid x \<Longrightarrow> nul_free c \<Longrightarrow> c \<noteq> [] \<Longrightarrow> readPosition lastTS lastID \<Longrightarrow>
      \<exists>all. rows_after row x c lastTS lastID all \<and> (\<forall>limit > 0. read x c lastTS lastID limit = Inr (take (nat limit) all))"
    and row_position: "valid x \<Longrightarrow> row x c p d \<Longrightarrow> task_pos d = p \<and> pos_ok p"
begin

lemma sorted_drop_iff:
  assumes "sorted_wrt (\<lambda>s t. pos_less (task_pos s) (task_pos t)) all" "0 < n" "n \<le> length all"
  shows "d \<in> set (drop n all) \<longleftrightarrow> d \<in> set all \<and> pos_less (task_pos (last (take n all))) (task_pos d)"
proof -
  let ?l = "last (take n all)"
  have all: "all = butlast (take n all) @ ?l # drop n all"
    using assms(2, 3) by (metis append_butlast_last_id append_take_drop_id append.assoc append_Cons append_Nil
        length_greater_0_conv length_take list.size(3) min.absorb2 not_less0)
  have "sorted_wrt (\<lambda>s t. pos_less (task_pos s) (task_pos t)) (butlast (take n all) @ ?l # drop n all)"
    using assms(1) all by simp
  then have "\<And>d. d \<in> set (drop n all) \<Longrightarrow> pos_less (task_pos ?l) (task_pos d)"
    and "\<And>d. d \<in> set (butlast (take n all)) \<Longrightarrow> pos_less (task_pos d) (task_pos ?l)"
    by (auto simp: sorted_wrt_append)
  moreover have "set all = set (butlast (take n all)) \<union> {?l} \<union> set (drop n all)"
    using arg_cong [OF all, of set] by auto
  moreover have "\<not> pos_less (task_pos ?l) (task_pos ?l)"
    by (simp add: pos_less_def)
  moreover have "\<not> (pos_less p q \<and> pos_less q p)" for p q
    by (auto simp: pos_less_def)
  ultimately show ?thesis
    by blast
qed

lemma rows_after_unique:
  assumes "rows_after row x c lastTS lastID xs" "rows_after row x c lastTS lastID ys"
  shows "xs = ys"
proof (rule sorted_wrt_unique [of "\<lambda>s t. pos_less (task_pos s) (task_pos t)"])
  show "set xs = set ys"
    using assms by (simp add: rows_after_def set_eq_iff)
qed (use assms in \<open>simp_all add: rows_after_def pos_less_asym\<close>)

lemma next_batch:
  assumes "valid x" "rows_after row x c lastTS lastID all" "0 < n" "n \<le> length all" "l = last (take n all)"
    and "\<forall>p d. row x c p d \<longrightarrow> 0 < fst p"
  shows "rows_after row x c (dt_TS l) (dt_TaskID l) (drop n all)" "readPosition (dt_TS l) (dt_TaskID l)"
proof -
  have "l \<in> set all"
    using assms(3-5) by (metis in_set_takeD last_in_set length_0_conv length_take min.absorb2 not_less0)
  then obtain p where p: "row x c p l" "readsAfter lastTS lastID p"
    using assms(2) by (auto simp: rows_after_def)
  have pos: "task_pos l = p" "pos_ok p" "0 < fst p"
    using row_position [OF assms(1) p(1)] assms(6) p(1) by blast+
  then show "readPosition (dt_TS l) (dt_TaskID l)"
    by (simp add: readPosition_def task_pos_def)
  have after: "readsAfter (dt_TS l) (dt_TaskID l) q \<longleftrightarrow> pos_less p q" for q
    using pos by (auto simp: readsAfter_def task_pos_def)
  have sorted: "sorted_wrt (\<lambda>s t. pos_less (task_pos s) (task_pos t)) all"
    using assms(2) by (simp add: rows_after_def)
  have trans: "readsAfter lastTS lastID q" if "pos_less p q" for q
    using p(2) that by (auto simp: readsAfter_def pos_less_def)
  have "d \<in> set (drop n all) \<longleftrightarrow> (\<exists>q. row x c q d \<and> readsAfter (dt_TS l) (dt_TaskID l) q)" for d
    using sorted_drop_iff [OF sorted assms(3, 4), of d] assms(2) row_position [OF assms(1), of c] trans pos(1)
    unfolding after rows_after_def assms(5) [symmetric] by metis
  then show "rows_after row x c (dt_TS l) (dt_TaskID l) (drop n all)"
    using sorted by (simp add: rows_after_def sorted_wrt_drop)
qed

lemma take_batch: "take (nat sharedDeliveryReadBatchSize) xs = take 200 xs"
  by (simp add: sharedDeliveryReadBatchSize_def)

lemma batch_full: "\<not> int (length (take 200 xs)) < sharedDeliveryReadBatchSize \<longleftrightarrow> 200 \<le> length xs"
  by (simp add: sharedDeliveryReadBatchSize_def) linarith

lemma unacked_loop:
  assumes "valid x" "nul_free c" "c \<noteq> []" "\<forall>p d. row x c p d \<longrightarrow> 0 < fst p"
  shows "readPosition lastTS lastID \<Longrightarrow> rows_after row x c lastTS lastID all \<Longrightarrow>
    readUnackedSharedSubscriptionTasks (read x) c g lastTS lastID out =
      Some (Inr (out @ map shareGroupTaskFromDeliveryTask
        (filter (\<lambda>t. dt_ShareGroup t = g \<and> dt_SharedTaskID t \<noteq> uuid_Nil) all)))"
proof (induction "length all" arbitrary: all lastTS lastID out rule: less_induct)
  case less
  obtain all' where "rows_after row x c lastTS lastID all'"
    "\<forall>limit > 0. read x c lastTS lastID limit = Inr (take (nat limit) all')"
    using read_rows [OF assms(1-3) less(2)] by blast
  then have "read x c lastTS lastID sharedDeliveryReadBatchSize = Inr (take (nat sharedDeliveryReadBatchSize) all)"
    using rows_after_unique [OF _ less(3)] by (simp add: sharedDeliveryReadBatchSize_def)
  then have batch: "read x c lastTS lastID sharedDeliveryReadBatchSize = Inr (take 200 all)"
    unfolding take_batch .
  show ?case
  proof (cases "200 \<le> length all")
    case False
    then show ?thesis
      using batch by (simp add: readUnackedSharedSubscriptionTasks.simps sharedDeliveryReadBatchSize_def)
  next
    case True
    let ?l = "last (take 200 all)"
    note nb = next_batch [OF assms(1) less(3) _ True refl assms(4), simplified]
    have split: "filter P all = filter P (take 200 all) @ filter P (drop 200 all)" for P
      by (metis append_take_drop_id filter_append)
    have "readUnackedSharedSubscriptionTasks (read x) c g lastTS lastID out =
      readUnackedSharedSubscriptionTasks (read x) c g (dt_TS ?l) (dt_TaskID ?l) (out @ map shareGroupTaskFromDeliveryTask
        (filter (\<lambda>t. dt_ShareGroup t = g \<and> dt_SharedTaskID t \<noteq> uuid_Nil) (take 200 all)))"
      using batch batch_full [of all] True
      by (subst readUnackedSharedSubscriptionTasks.simps) (auto simp: Let_def)
    also have "\<dots> = Some (Inr ((out @ map shareGroupTaskFromDeliveryTask
        (filter (\<lambda>t. dt_ShareGroup t = g \<and> dt_SharedTaskID t \<noteq> uuid_Nil) (take 200 all)))
      @ map shareGroupTaskFromDeliveryTask (filter (\<lambda>t. dt_ShareGroup t = g \<and> dt_SharedTaskID t \<noteq> uuid_Nil) (drop 200 all))))"
      by (rule less(1) [OF _ nb(2) nb(1)]) (use True in simp)
    finally show ?thesis
      using split by simp
  qed
qed

lemma exists_loop:
  assumes "valid x" "nul_free c" "c \<noteq> []" "\<forall>p d. row x c p d \<longrightarrow> 0 < fst p"
  shows "readPosition lastTS lastID \<Longrightarrow> rows_after row x c lastTS lastID all \<Longrightarrow>
    checkDeliveryTaskExists (read x) c m lastTS lastID = Some (Inr (\<exists>t \<in> set all. dt_MessageID t = m))"
proof (induction "length all" arbitrary: all lastTS lastID rule: less_induct)
  case less
  obtain all' where "rows_after row x c lastTS lastID all'"
    "\<forall>limit > 0. read x c lastTS lastID limit = Inr (take (nat limit) all')"
    using read_rows [OF assms(1-3) less(2)] by blast
  then have "read x c lastTS lastID sharedDeliveryReadBatchSize = Inr (take (nat sharedDeliveryReadBatchSize) all)"
    using rows_after_unique [OF _ less(3)] by (simp add: sharedDeliveryReadBatchSize_def)
  then have batch: "read x c lastTS lastID sharedDeliveryReadBatchSize = Inr (take 200 all)"
    unfolding take_batch .
  show ?case
  proof (cases "200 \<le> length all")
    case False
    then show ?thesis
      using batch by (simp add: checkDeliveryTaskExists.simps sharedDeliveryReadBatchSize_def)
  next
    case True
    let ?l = "last (take 200 all)"
    note nb = next_batch [OF assms(1) less(3) _ True refl assms(4), simplified]
    have split: "set all = set (take 200 all) \<union> set (drop 200 all)"
      by (metis append_take_drop_id set_append)
    have "checkDeliveryTaskExists (read x) c m lastTS lastID =
      (if \<exists>t \<in> set (take 200 all). dt_MessageID t = m then Some (Inr True)
       else checkDeliveryTaskExists (read x) c m (dt_TS ?l) (dt_TaskID ?l))"
      using batch batch_full [of all] True by (subst checkDeliveryTaskExists.simps) auto
    moreover have "checkDeliveryTaskExists (read x) c m (dt_TS ?l) (dt_TaskID ?l)
      = Some (Inr (\<exists>t \<in> set (drop 200 all). dt_MessageID t = m))"
      by (rule less(1) [OF _ nb(2) nb(1)]) (use True in simp)
    ultimately show ?thesis
      unfolding split by auto
  qed
qed

end

interpretation local_reader: delivery_task_reader
  "\<lambda>(U, B, db). ReadDeliveryTasks U B None db"
  "\<lambda>(U, B, db). badger_ok B \<and> store_wf U (bd_Get B db)"
  "\<lambda>(U, B, db). queued U (bd_Get B db)"
proof (unfold_locales, goal_cases)
  case (1 x c lastTS lastID)
  obtain U B db where x: "x = (U, B, db)"
    by (cases x) blast
  obtain all where "sorted_wrt (\<lambda>s t. pos_less (task_pos s) (task_pos t)) all"
    "\<And>d. d \<in> set all \<longleftrightarrow> (\<exists>p. queued U (bd_Get B db) c p d \<and> readsAfter lastTS lastID p)"
    "\<And>limit. 0 < limit \<Longrightarrow> ReadDeliveryTasks U B None db c lastTS lastID limit = Inr (take (nat limit) all)"
    using ReadDeliveryTasks_rows [of B U db c lastTS lastID] 1 by (auto simp: x)
  then show ?case
    by (intro exI [of _ all]) (simp add: x rows_after_def)
next
  case (2 x c p d)
  obtain U B db where x: "x = (U, B, db)"
    by (cases x) blast
  obtain tv where tv: "tasks (bd_Get B db) c p = Some tv" "deliveryTaskFromValue U c (fst p) (snd p) tv = Some d"
    using 2(2) by (auto simp: x queued_def)
  show ?case
    using tasks_Some(1) [OF tv(1)] task_pos_from_value [OF tv(2)] by simp
qed

text \<open>C25: The loops that read a queue in batches of 200 return on every well-formed store whose rows have positive times:
  \<open>GetUnAckedSharedSubscriptionTasks\<close> returns the rows after the position that belong to the share group, in order and
  none twice, and \<open>DeliveryTaskExists\<close> tells whether a row of the client holds the message.\<close>

theorem batched_reads_return:
  assumes "badger_ok B" "store_wf U (bd_Get B db)" "nul_free c" "c \<noteq> []" "readPosition lastTS lastID"
    and "\<forall>p d. queued U (bd_Get B db) c p d \<longrightarrow> 0 < fst p"
  shows "(\<exists>all. sorted_wrt (\<lambda>s t. pos_less (task_pos s) (task_pos t)) all
      \<and> (\<forall>d. d \<in> set all \<longleftrightarrow> (\<exists>p. queued U (bd_Get B db) c p d \<and> readsAfter lastTS lastID p))
      \<and> GetUnAckedSharedSubscriptionTasks U B None db c g lastTS lastID =
          Some (Inr (map shareGroupTaskFromDeliveryTask
            (filter (\<lambda>t. dt_ShareGroup t = g \<and> dt_SharedTaskID t \<noteq> uuid_Nil) all))))
    \<and> DeliveryTaskExists U B None db c m = Some (Inr (\<exists>p d. queued U (bd_Get B db) c p d \<and> dt_MessageID d = m))"
proof
  let ?x = "(U, B, db)"
  have valid: "case ?x of (U, B, db) \<Rightarrow> badger_ok B \<and> store_wf U (bd_Get B db)"
    using assms(1, 2) by simp
  have pos: "\<forall>p d. (case ?x of (U, B, db) \<Rightarrow> queued U (bd_Get B db)) c p d \<longrightarrow> 0 < fst p"
    unfolding split by (rule assms(6))
  note unacked = local_reader.unacked_loop [OF valid assms(3, 4) pos, simplified]
    and exists = local_reader.exists_loop [OF valid assms(3, 4) pos, simplified]
  obtain all where all: "rows_after (\<lambda>(U, B, db). queued U (bd_Get B db)) ?x c lastTS lastID all"
    using local_reader.read_rows [OF valid assms(3-5)] by blast
  have "GetUnAckedSharedSubscriptionTasks U B None db c g lastTS lastID = Some (Inr (map shareGroupTaskFromDeliveryTask
      (filter (\<lambda>t. dt_ShareGroup t = g \<and> dt_SharedTaskID t \<noteq> uuid_Nil) all)))"
    unfolding GetUnAckedSharedSubscriptionTasks_def using unacked [OF assms(5) all, of g "[]"] by simp
  then show "\<exists>all. sorted_wrt (\<lambda>s t. pos_less (task_pos s) (task_pos t)) all
      \<and> (\<forall>d. d \<in> set all \<longleftrightarrow> (\<exists>p. queued U (bd_Get B db) c p d \<and> readsAfter lastTS lastID p))
      \<and> GetUnAckedSharedSubscriptionTasks U B None db c g lastTS lastID =
          Some (Inr (map shareGroupTaskFromDeliveryTask
            (filter (\<lambda>t. dt_ShareGroup t = g \<and> dt_SharedTaskID t \<noteq> uuid_Nil) all)))"
    using all by (intro exI [of _ all]) (simp add: rows_after_def)
  have start: "readPosition None uuid_Nil"
    by (simp add: readPosition_def UnixNano_def)
  obtain every where every: "rows_after (\<lambda>(U, B, db). queued U (bd_Get B db)) ?x c None uuid_Nil every"
    using local_reader.read_rows [OF valid assms(3, 4) start] by blast
  have "t \<in> set every \<longleftrightarrow> (\<exists>p. queued U (bd_Get B db) c p t)" for t
    using every by (simp add: rows_after_def readsAfter_def UnixNano_def)
  then have "(\<exists>t \<in> set every. dt_MessageID t = m) \<longleftrightarrow> (\<exists>p d. queued U (bd_Get B db) c p d \<and> dt_MessageID d = m)"
    by metis
  then show "DeliveryTaskExists U B None db c m = Some (Inr (\<exists>p d. queued U (bd_Get B db) c p d \<and> dt_MessageID d = m))"
    unfolding DeliveryTaskExists_def using exists [OF start every, of m] by simp
qed

theorem batched_reads_return_witness:
  "(\<exists>all. sorted_wrt (\<lambda>s t. pos_less (task_pos s) (task_pos t)) all
      \<and> (\<forall>d. d \<in> set all \<longleftrightarrow> (\<exists>p. queued raw_uuid (bd_Get list_badger example_rows) ''c'' p d \<and> readsAfter None uuid_Nil p))
      \<and> GetUnAckedSharedSubscriptionTasks raw_uuid list_badger None example_rows ''c'' ''g'' None uuid_Nil =
          Some (Inr (map shareGroupTaskFromDeliveryTask
            (filter (\<lambda>t. dt_ShareGroup t = ''g'' \<and> dt_SharedTaskID t \<noteq> uuid_Nil) all))))
    \<and> DeliveryTaskExists raw_uuid list_badger None example_rows ''c'' uuid_Nil =
        Some (Inr (\<exists>p d. queued raw_uuid (bd_Get list_badger example_rows) ''c'' p d \<and> dt_MessageID d = uuid_Nil))"
proof (rule batched_reads_return [OF list_badger_ok example_rows_wf])
  show "\<forall>p d. queued raw_uuid (bd_Get list_badger example_rows) ''c'' p d \<longrightarrow> 0 < fst p"
  proof (intro allI impI)
    fix p d
    assume "queued raw_uuid (bd_Get list_badger example_rows) ''c'' p d"
    then have "pos_ok p" "rowKey prefixTask ''c'' p = rowKey prefixTask ''c'' (7, replicate 16 9)"
      by (auto simp: queued_def tasks_def list_badger_def example_rows_def split: if_splits)
    then have "p = (7, replicate 16 9)"
      by (simp add: rowKey_same_inject pos_ok_def ts_ok_def)
    then show "0 < fst p"
      by simp
  qed
qed (simp_all add: nul_free_def readPosition_def UnixNano_def)

section \<open>The rows of a share group\<close>

definition share_rows :: "(bytes \<Rightarrow> kvValue option) \<Rightarrow> string \<Rightarrow> position \<Rightarrow> shareTaskValue option" where
  "share_rows g grp p =
     (if pos_ok p then (case g (rowKey prefixShareTask grp p) of Some (KShareTask tv) \<Rightarrow> Some tv | _ \<Rightarrow> None) else None)"

definition share_unique :: "(bytes \<Rightarrow> kvValue option) \<Rightarrow> bool" where
  "share_unique g \<longleftrightarrow> (\<forall>grp u s t. nul_free grp \<longrightarrow> share_rows g grp (s, u) \<noteq> None \<longrightarrow> share_rows g grp (t, u) \<noteq> None \<longrightarrow> s = t)"

lemma share_rows_Some:
  assumes "share_rows g c p = Some tv"
  shows "pos_ok p" "g (rowKey prefixShareTask c p) = Some (KShareTask tv)"
  using assms by (auto simp: share_rows_def split: if_splits option.splits kvValue.splits)

lemma share_uniqueD:
  "share_unique g \<Longrightarrow> nul_free grp \<Longrightarrow> share_rows g grp (s, u) = Some v \<Longrightarrow> share_rows g grp (t, u) = Some w \<Longrightarrow> s = t \<and> v = w"
  unfolding share_unique_def by (metis option.distinct(1) option.inject)

lemma wf_share_row:
  assumes "store_wf U g" "g k = Some v" "prefix (shareTaskKeyPrefix c) k" "nul_free c"
  obtains p tv where "pos_ok p" "k = rowKey prefixShareTask c p" "v = KShareTask tv" "share_rows g c p = Some tv"
proof -
  have wf: "row_wf U k v"
    using assms by (simp add: store_wf_def)
  obtain z where z: "k = prefixShareTask @ z"
    using assms(3) by (auto simp: shareTaskKeyPrefix_def prefix_def)
  obtain tv where v: "v = KShareTask tv"
    using wf z
    by (cases v) (auto simp: row_wf_def rowKey_def cursorKey_def shareCursorKey_def dest: sym)
  then obtain d p where "nul_free d" "pos_ok p" "k = rowKey prefixShareTask d p"
    using wf by (auto simp: row_wf_def)
  moreover have "d = c"
    using calculation assms(3, 4) rowKey_prefix_iff [of c d prefixShareTask p] by (simp add: shareTaskKeyPrefix_def)
  ultimately show ?thesis
    using that v assms(2) by (simp add: share_rows_def)
qed

lemma group_rows:
  assumes "badger_ok B" "store_wf U (bd_Get B db)" "nul_free c"
  shows "(k, v) \<in> set (iterPrefix B db (shareTaskKeyPrefix c) (shareTaskKeyPrefix c))
    \<longleftrightarrow> (\<exists>p tv. k = rowKey prefixShareTask c p \<and> v = KShareTask tv \<and> share_rows (bd_Get B db) c p = Some tv)"
proof -
  have pre: "prefix (shareTaskKeyPrefix c) (rowKey prefixShareTask c p)" for p
    by (simp add: shareTaskKeyPrefix_def rowKey_prefix)
  show ?thesis
    unfolding in_iterPrefix_iff [OF assms(1) prefix_order.refl]
    using wf_share_row [OF assms(2) _ _ assms(3)] share_rows_Some pre prefix_le [OF pre] by metis
qed

lemma share_rows_upd:
  assumes "nul_free c" "pos_ok p" "nul_free d"
  shows "share_rows (g(rowKey prefixShareTask c p := v)) d =
    (if d = c then (share_rows g d)(p := (case v of Some (KShareTask tv) \<Rightarrow> Some tv | _ \<Rightarrow> None)) else share_rows g d)"
  using assms by (auto simp: share_rows_def fun_eq_iff rowKey_inject)

lemma share_rows_upd_other:
  "share_rows (g(cursorKey c := v)) d = share_rows g d" "share_rows (g(rowKey prefixTask c p := v)) d = share_rows g d"
  "share_rows (g(shareCursorKey c := v)) d = share_rows g d"
  by (simp_all add: share_rows_def fun_eq_iff)

lemma share_rows_cong:
  "(\<And>p. g (rowKey prefixShareTask c p) = h (rowKey prefixShareTask c p)) \<Longrightarrow> share_rows g c = share_rows h c"
  by (simp add: share_rows_def fun_eq_iff)

lemma findShareItem_rows:
  assumes "\<forall>it \<in> set items. \<exists>p tv. pos_ok p \<and> it = (rowKey prefixShareTask grp p, KShareTask tv)"
  shows "(findShareItem grp u items = Inr None \<and> (\<forall>t tv. (rowKey prefixShareTask grp (t, u), KShareTask tv) \<in> set items \<longrightarrow> \<not> pos_ok (t, u)))
    \<or> (\<exists>t tv. findShareItem grp u items = Inr (Some (rowKey prefixShareTask grp (t, u), t, tv))
          \<and> (rowKey prefixShareTask grp (t, u), KShareTask tv) \<in> set items \<and> pos_ok (t, u))"
  using assms
proof (induction items)
  case (Cons it items)
  then obtain t w tv where it: "pos_ok (t, w)" "it = (rowKey prefixShareTask grp (t, w), KShareTask tv)"
    by (auto)
  have parse: "parseShareTaskKey (fst it) (shareTaskKeyPrefix grp) = Some (t, w)"
    using parse_rowKey(2) [OF it(1)] it(2) by simp
  show ?case
  proof (cases "w = u")
    case True
    then show ?thesis
      using parse it by (auto simp: unmarshalShareTask_def)
  next
    case False
    have "rowKey prefixShareTask grp (s, u) \<noteq> rowKey prefixShareTask grp (t, w)" if "pos_ok (s, u)" for s
      using that False by (simp add: rowKey_same_inject [OF that it(1)])
    then show ?thesis
      using Cons parse it False by auto
  qed
qed simp

lemma findShareTask_cases:
  assumes "badger_ok B" "store_wf U (bd_Get B db)" "nul_free grp"
  obtains (none) "findShareTask B db grp u = Inr None" "\<And>t. share_rows (bd_Get B db) grp (t, u) = None"
  | (found) t tv where "findShareTask B db grp u = Inr (Some (rowKey prefixShareTask grp (t, u), t, tv))"
      "share_rows (bd_Get B db) grp (t, u) = Some tv"
proof -
  let ?items = "iterPrefix B db (shareTaskKeyPrefix grp) (shareTaskKeyPrefix grp)"
  note rows = group_rows [OF assms]
  have form: "\<forall>it \<in> set ?items. \<exists>p tv. pos_ok p \<and> it = (rowKey prefixShareTask grp p, KShareTask tv)"
    using rows share_rows_Some(1) by (metis prod.collapse)
  have row: "(rowKey prefixShareTask grp (t, u), KShareTask tv) \<in> set ?items
    \<longleftrightarrow> share_rows (bd_Get B db) grp (t, u) = Some tv" if "pos_ok (t, u)" for t tv
    unfolding rows using rowKey_same_inject [OF that share_rows_Some(1)] by (metis kvValue.inject(3))
  from findShareItem_rows [OF form, of u] show thesis
  proof
    assume a: "findShareItem grp u ?items = Inr None \<and> (\<forall>t tv. (rowKey prefixShareTask grp (t, u), KShareTask tv) \<in> set ?items \<longrightarrow> \<not> pos_ok (t, u))"
    have "share_rows (bd_Get B db) grp (t, u) = None" for t
      using a row share_rows_Some(1) by (metis option.exhaust)
    then show thesis
      using none a by (simp add: findShareTask_def)
  next
    assume "\<exists>t tv. findShareItem grp u ?items = Inr (Some (rowKey prefixShareTask grp (t, u), t, tv))
          \<and> (rowKey prefixShareTask grp (t, u), KShareTask tv) \<in> set ?items \<and> pos_ok (t, u)"
    then show thesis
      using found row by (auto simp: findShareTask_def)
  qed
qed

text \<open>The row a status change leaves.\<close>

definition statusRow :: "shareTaskValue \<Rightarrow> TaskStatus \<Rightarrow> int \<Rightarrow> shareTaskValue" where
  "statusRow tv newStatus nowNano =
     (if newStatus = TaskStatusPending
      then tv\<lparr>stv_Status := newStatus, stv_ProcessedAtNano := 0, stv_ProcessedByNode := 0\<rparr>
      else if newStatus \<in> {TaskStatusProcessing, TaskStatusCompleted, TaskStatusRolledBack}
      then tv\<lparr>stv_Status := newStatus, stv_ProcessedAtNano := nowNano\<rparr>
      else tv\<lparr>stv_Status := newStatus\<rparr>)"

definition statusTime :: "TaskStatus \<Rightarrow> int \<Rightarrow> int \<Rightarrow> int" where
  "statusTime newStatus t nowNano = (if newStatus = TaskStatusPending then nowNano else t)"

lemma stv_Status_statusRow [simp]: "stv_Status (statusRow tv new now) = new"
  by (simp add: statusRow_def)

lemma setShareTaskStatus_get:
  assumes "badger_ok B" "setShareTaskStatus B (rowKey prefixShareTask grp (t, u)) grp u t tv new now db = (b, r)" "r = Inr db'"
  shows "b" "bd_Get B db' = (bd_Get B db)(rowKey prefixShareTask grp (t, u) := None,
      rowKey prefixShareTask grp (statusTime new t now, u) := Some (KShareTask (statusRow tv new now)))"
proof -
  let ?old = "rowKey prefixShareTask grp (t, u)"
  let ?new = "rowKey prefixShareTask grp (statusTime new t now, u)"
  obtain mid where mid: "(if ?old \<noteq> ?new then bd_Delete B db ?old else Inr db) = Inr mid"
    "bd_Set B mid ?new (KShareTask (statusRow tv new now)) = Inr db'" "b"
    using assms(2, 3)
    by (auto simp: setShareTaskStatus_def Let_def shareTaskKey_row statusTime_def statusRow_def split: sum.splits if_splits)
  show b
    by (rule mid(3))
  have "(bd_Get B mid)(?new := x) = (bd_Get B db)(?old := None, ?new := x)" for x
    using mid(1) badger_okD(2) [OF assms(1)] by (auto split: if_splits)
  then show "bd_Get B db' = (bd_Get B db)(?old := None, ?new := Some (KShareTask (statusRow tv new now)))"
    using badger_okD(1) [OF assms(1) mid(2)] by simp
qed

lemma move_row:
  assumes "nul_free grp" "pos_ok (t, u)" "pos_ok (t', u)"
    and "g' = g(rowKey prefixShareTask grp (t, u) := None, rowKey prefixShareTask grp (t', u) := Some (KShareTask v))"
  shows "nul_free d \<Longrightarrow> share_rows g' d = (if d = grp then (share_rows g d)((t, u) := None, (t', u) := Some v) else share_rows g d)"
    and "tasks g' = tasks g" "cursor_of U g' = cursor_of U g"
    and "store_wf U g \<Longrightarrow> store_wf U g'"
    and "share_unique g \<Longrightarrow> share_rows g grp (t, u) \<noteq> None \<Longrightarrow> share_unique g'"
proof -
  show rows: "share_rows g' d = (if d = grp then (share_rows g d)((t, u) := None, (t', u) := Some v) else share_rows g d)"
    if "nul_free d" for d
    using that assms(1-3) by (simp add: assms(4) share_rows_upd)
  show "tasks g' = tasks g" "cursor_of U g' = cursor_of U g"
    by (simp_all add: assms(4) fun_eq_iff tasks_upd_other cursor_of_upd)
  show "store_wf U g'" if "store_wf U g"
    unfolding assms(4) by (intro store_wf_upd that) (use row_wf_shareTask [OF assms(1, 3)] in auto)
  show "share_unique g'" if "share_unique g" "share_rows g grp (t, u) \<noteq> None"
    unfolding share_unique_def
  proof (intro allI impI)
    fix d w a b
    assume d: "nul_free d" "share_rows g' d (a, w) \<noteq> None" "share_rows g' d (b, w) \<noteq> None"
    show "a = b"
    proof (cases "d = grp \<and> w = u")
      case True
      have "x = t" if "share_rows g grp (x, u) \<noteq> None" for x
        using \<open>share_unique g\<close> \<open>share_rows g grp (t, u) \<noteq> None\<close> assms(1) that unfolding share_unique_def by blast
      then have "x = t'" if "share_rows g' grp (x, u) \<noteq> None" for x
        using that rows [OF assms(1)] by (auto split: if_splits)
      then show ?thesis
        using d True by blast
    next
      case False
      then have "share_rows g' d (x, w) = share_rows g d (x, w)" for x
        using rows [OF d(1)] by auto
      then show ?thesis
        using d \<open>share_unique g\<close> unfolding share_unique_def by metis
    qed
  qed
qed

lemma status_outcome:
  assumes "badger_ok B" "store_wf U (bd_Get B db)" "share_unique (bd_Get B db)" "nul_free grp" "grp \<noteq> []"
    and "ts_ok now" "ua_Parse U s = Some u" "ts_ok nowNano" "0 < nowNano"
    and "SM_updateShareTaskStatus U B commit now
      \<lparr>uss_TaskID = s, uss_ShareGroup = grp, uss_OldStatus = old, uss_NewStatus = new, uss_NowNano = nowNano\<rparr> db = (v, err, db')"
  shows "err \<noteq> None \<Longrightarrow> db' = db"
    and "err = None \<Longrightarrow> v = 0 \<and> db' = db \<and> (\<nexists>t tv. share_rows (bd_Get B db) grp (t, u) = Some tv \<and> stv_Status tv = old)
      \<or> v = 1 \<and> (\<exists>t tv. share_rows (bd_Get B db) grp (t, u) = Some tv \<and> stv_Status tv = old \<and>
            bd_Get B db' = (bd_Get B db)(rowKey prefixShareTask grp (t, u) := None,
              rowKey prefixShareTask grp (statusTime new t nowNano, u) := Some (KShareTask (statusRow tv new nowNano))))"
proof -
  let ?fn = "updateShareTaskStatus B now grp u old new nowNano"
  have up: "db_Update commit ?fn db = (v = 1, err, db')" and v01: "v = 0 \<or> v = 1"
    using assms(5, 7, 10) by (simp_all add: SM_updateShareTaskStatus_def valueResult_eq)
  note cs = db_Update_cases [OF up]
  show "err \<noteq> None \<Longrightarrow> db' = db"
    by (rule cs(4))
  assume "err = None"
  then have out: "?fn db = (v = 1, Inr db')"
    using cs(1) cs(3) by (simp add: prod_eq_iff)
  show "v = 0 \<and> db' = db \<and> (\<nexists>t tv. share_rows (bd_Get B db) grp (t, u) = Some tv \<and> stv_Status tv = old)
      \<or> v = 1 \<and> (\<exists>t tv. share_rows (bd_Get B db) grp (t, u) = Some tv \<and> stv_Status tv = old \<and>
            bd_Get B db' = (bd_Get B db)(rowKey prefixShareTask grp (t, u) := None,
              rowKey prefixShareTask grp (statusTime new t nowNano, u) := Some (KShareTask (statusRow tv new nowNano))))"
  proof (cases rule: findShareTask_cases [OF assms(1, 2, 4), of u])
    case 1
    then show ?thesis
      using out v01 by (simp add: updateShareTaskStatus_def Let_def)
  next
    case (2 t tv)
    show ?thesis
    proof (cases "stv_Status tv = old")
      case False
      then have "\<nexists>t tv. share_rows (bd_Get B db) grp (t, u) = Some tv \<and> stv_Status tv = old"
        using share_uniqueD [OF assms(3, 4) 2(2)] by metis
      then show ?thesis
        using out v01 2 False by (simp add: updateShareTaskStatus_def Let_def)
    next
      case True
      then have "setShareTaskStatus B (rowKey prefixShareTask grp (t, u)) grp u t tv new nowNano db = (v = 1, Inr db')"
        using out 2 assms(9) by (simp add: updateShareTaskStatus_def Let_def)
      note set = setShareTaskStatus_get [OF assms(1) this refl]
      show ?thesis
        by (intro disjI2 conjI exI [of _ t] exI [of _ tv] set 2(2) True)
    qed
  qed
qed

lemma claim_outcome:
  assumes "uuid_ok U" "badger_ok B" "store_wf U (bd_Get B db)" "share_unique (bd_Get B db)" "nul_free grp" "grp \<noteq> []"
    and "length u = 16" "ts_ok now" "0 < now"
    and "AtomicUpdateTaskStatus U B commit None now u grp old new db = (won, None, db')"
  shows "\<not> won \<and> db' = db \<and> (\<nexists>t tv. share_rows (bd_Get B db) grp (t, u) = Some tv \<and> stv_Status tv = old)
    \<or> won \<and> (\<exists>t tv. share_rows (bd_Get B db) grp (t, u) = Some tv \<and> stv_Status tv = old \<and>
          bd_Get B db' = (bd_Get B db)(rowKey prefixShareTask grp (t, u) := None,
            rowKey prefixShareTask grp (statusTime new t now, u) := Some (KShareTask (statusRow tv new now))))"
proof -
  obtain v where v: "SM_updateShareTaskStatus U B commit now
      \<lparr>uss_TaskID = ua_String U u, uss_ShareGroup = grp, uss_OldStatus = old, uss_NewStatus = new, uss_NowNano = now\<rparr> db
      = (v, None, db')" "won = (v = 1)"
    using assms(10) by (auto simp: AtomicUpdateTaskStatus_def Let_def split: prod.splits)
  from status_outcome(2) [OF assms(2-6, 8) uuid_okD(1) [OF assms(1, 7)] assms(8, 9) v(1) refl] show ?thesis
    unfolding v(2) by (elim disjE) simp_all
qed

text \<open>C26: Claiming a shared task is exclusive. An atomic status change succeeds exactly when the task's row has the old
  status; the task then has one row, with the new status, and no other row of any group, no queue and no cursor is
  touched, and the database stays well formed. So of two nodes that try the same change one after the other at most one
  succeeds.\<close>

theorem share_claim_exclusive:
  assumes "uuid_ok U" "badger_ok B" "store_wf U (bd_Get B db)" "share_unique (bd_Get B db)" "nul_free grp" "grp \<noteq> []"
    and "length u = 16" "ts_ok now" "0 < now" "old \<noteq> new"
    and "AtomicUpdateTaskStatus U B commit None now u grp old new db = (won, None, db')"
  shows "(won \<longleftrightarrow> (\<exists>t tv. share_rows (bd_Get B db) grp (t, u) = Some tv \<and> stv_Status tv = old))
    \<and> (won \<longrightarrow> (\<exists>t tv. share_rows (bd_Get B db') grp (t, u) = Some tv \<and> stv_Status tv = new))
    \<and> (\<not> won \<longrightarrow> db' = db)
    \<and> store_wf U (bd_Get B db') \<and> share_unique (bd_Get B db')
    \<and> tasks (bd_Get B db') = tasks (bd_Get B db) \<and> cursor_of U (bd_Get B db') = cursor_of U (bd_Get B db)
    \<and> (\<forall>g p. nul_free g \<longrightarrow> g \<noteq> grp \<or> snd p \<noteq> u \<longrightarrow> share_rows (bd_Get B db') g p = share_rows (bd_Get B db) g p)
    \<and> (\<forall>commit' now' won' db''. ts_ok now' \<longrightarrow> 0 < now' \<longrightarrow>
         AtomicUpdateTaskStatus U B commit' None now' u grp old new db' = (won', None, db'') \<longrightarrow> \<not> (won \<and> won'))"
proof -
  have one: "\<not> (share_rows g grp (t, u) = Some tv \<and> stv_Status tv = new \<and> share_rows g grp (s, u) = Some tw \<and> stv_Status tw = old)"
    if "share_unique g" for g t tv s tw
    using share_uniqueD [OF that assms(5)] assms(10) by blast
  from claim_outcome [OF assms(1-9, 11)] show ?thesis
  proof
    assume "\<not> won \<and> db' = db \<and> (\<nexists>t tv. share_rows (bd_Get B db) grp (t, u) = Some tv \<and> stv_Status tv = old)"
    then show ?thesis
      using assms(3, 4) by simp
  next
    assume "won \<and> (\<exists>t tv. share_rows (bd_Get B db) grp (t, u) = Some tv \<and> stv_Status tv = old \<and>
          bd_Get B db' = (bd_Get B db)(rowKey prefixShareTask grp (t, u) := None,
            rowKey prefixShareTask grp (statusTime new t now, u) := Some (KShareTask (statusRow tv new now))))"
    then obtain t tv where won and t: "share_rows (bd_Get B db) grp (t, u) = Some tv" "stv_Status tv = old"
      "bd_Get B db' = (bd_Get B db)(rowKey prefixShareTask grp (t, u) := None,
         rowKey prefixShareTask grp (statusTime new t now, u) := Some (KShareTask (statusRow tv new now)))"
      by blast
    have ok: "pos_ok (t, u)" "pos_ok (statusTime new t now, u)"
      using share_rows_Some(1) [OF t(1)] assms(7, 8) by (simp_all add: statusTime_def pos_ok_def)
    note moved = move_row [OF assms(5) ok t(3)]
    have row: "share_rows (bd_Get B db') grp (statusTime new t now, u) = Some (statusRow tv new now)"
      using moved(1) [OF assms(5)] by simp
    have wf: "store_wf U (bd_Get B db')" and un: "share_unique (bd_Get B db')"
      using moved(4) [OF assms(3)] moved(5) [OF assms(4)] t(1) by simp_all
    have again: "\<not> won'" if "ts_ok now'" "0 < now'"
      "AtomicUpdateTaskStatus U B commit' None now' u grp old new db' = (won', None, db'')" for commit' now' won' db''
      using claim_outcome [OF assms(1, 2) wf un assms(5-7) that] one [OF un] row stv_Status_statusRow by metis
    have other: "share_rows (bd_Get B db') g p = share_rows (bd_Get B db) g p" if "nul_free g" "g \<noteq> grp \<or> snd p \<noteq> u" for g p
      using moved(1) [OF that(1)] that(2) by auto
    have new: "\<exists>t tv. share_rows (bd_Get B db') grp (t, u) = Some tv \<and> stv_Status tv = new"
      using row stv_Status_statusRow by blast
    have old: "\<exists>t tv. share_rows (bd_Get B db) grp (t, u) = Some tv \<and> stv_Status tv = old"
      using t(1, 2) by blast
    show ?thesis
      using \<open>won\<close> again other by (simp add: old new wf un moved(2, 3)) blast
  qed
qed

definition example_share :: "(bytes \<times> kvValue) list" where
  "example_share = [(rowKey prefixShareTask ''g'' (7, replicate 16 9),
     KShareTask \<lparr>stv_ShareGroup = ''g'', stv_TopicFilter = ''a'', stv_MessageID = replicate 16 (CHR ''m''), stv_DeliveryQoS = 1,
       stv_PublishQoS = 1, stv_PublisherClient = [], stv_SubscriptionIDs = [], stv_WinnerNoLocal = False,
       stv_WinnerRAP = False, stv_Status = TaskStatusPending, stv_ProcessedByNode = 0, stv_ProcessedAtNano = 0,
       stv_RollbackReason = []\<rparr>)]"

lemma example_share_get: "bd_Get list_badger example_share k = (if k = rowKey prefixShareTask ''g'' (7, replicate 16 9)
    then Some (snd (hd example_share)) else None)"
  by (simp add: list_badger_def example_share_def)

lemma example_share_wf: "store_wf raw_uuid (bd_Get list_badger example_share)"
  unfolding store_wf_def example_share_get
  using row_wf_shareTask [of "''g''" "(7, replicate 16 9)"]
  by (auto simp: example_share_def nul_free_def pos_ok_def ts_ok_def split: if_splits)

lemma example_share_unique: "share_unique (bd_Get list_badger example_share)"
proof -
  have "grp = ''g'' \<and> s = 7" if "nul_free grp" "share_rows (bd_Get list_badger example_share) grp (s, u) \<noteq> None" for grp s u
  proof -
    have "rowKey prefixShareTask grp (s, u) = rowKey prefixShareTask ''g'' (7, replicate 16 9)" "pos_ok (s, u)"
      using that(2) by (auto simp: share_rows_def example_share_get split: if_splits)
    then show ?thesis
      using rowKey_inject [of "(s, u)" "(7, replicate 16 9)" grp "''g''" prefixShareTask] that(1)
      by (simp add: nul_free_def pos_ok_def ts_ok_def)
  qed
  then show ?thesis
    unfolding share_unique_def by metis
qed

lemma example_claim: "fst (snd (AtomicUpdateTaskStatus raw_uuid list_badger None None 8 (replicate 16 9) ''g''
    TaskStatusPending TaskStatusProcessing example_share)) = None"
  by code_simp

theorem share_claim_exclusive_witness:
  "\<exists>won db'. AtomicUpdateTaskStatus raw_uuid list_badger None None 8 (replicate 16 9) ''g'' TaskStatusPending
       TaskStatusProcessing example_share = (won, None, db')
    \<and> won \<and> (\<exists>t tv. share_rows (bd_Get list_badger db') ''g'' (t, replicate 16 9) = Some tv \<and> stv_Status tv = TaskStatusProcessing)
    \<and> (\<forall>won' db''. AtomicUpdateTaskStatus raw_uuid list_badger None None 9 (replicate 16 9) ''g'' TaskStatusPending
         TaskStatusProcessing db' = (won', None, db'') \<longrightarrow> \<not> won')"
proof -
  obtain won db' where r: "AtomicUpdateTaskStatus raw_uuid list_badger None None 8 (replicate 16 9) ''g''
      TaskStatusPending TaskStatusProcessing example_share = (won, None, db')"
    using example_claim by (metis prod.collapse)
  have row: "\<exists>t tv. share_rows (bd_Get list_badger example_share) ''g'' (t, replicate 16 9) = Some tv \<and> stv_Status tv = TaskStatusPending"
    unfolding share_rows_def example_share_get
    by (intro exI [of _ 7]) (simp add: pos_ok_def ts_ok_def, simp add: example_share_def)
  have ne: "TaskStatusPending \<noteq> TaskStatusProcessing"
    by (simp add: status_defs)
  have "ts_ok 8" "ts_ok 9" "(0 :: int) < 8" "(0 :: int) < 9" "nul_free ''g''" "''g'' \<noteq> []" "length (replicate 16 (9 :: byte)) = 16"
    by (simp_all add: ts_ok_def nul_free_def)
  then show ?thesis
    using share_claim_exclusive [OF raw_uuid_ok list_badger_ok example_share_wf example_share_unique _ _ _ _ _ ne r] row r
    by metis
qed

lemma add_row:
  assumes "nul_free grp" "pos_ok (t, u)" "\<And>s. share_rows g grp (s, u) = None"
    and "g' = g(rowKey prefixShareTask grp (t, u) := Some (KShareTask v))"
  shows "nul_free d \<Longrightarrow> share_rows g' d = (if d = grp then (share_rows g d)((t, u) := Some v) else share_rows g d)"
    and "tasks g' = tasks g" "cursor_of U g' = cursor_of U g"
    and "store_wf U g \<Longrightarrow> store_wf U g'"
    and "share_unique g \<Longrightarrow> share_unique g'"
proof -
  show rows: "share_rows g' d = (if d = grp then (share_rows g d)((t, u) := Some v) else share_rows g d)" if "nul_free d" for d
    using that assms(1, 2) by (simp add: assms(4) share_rows_upd)
  show "tasks g' = tasks g" "cursor_of U g' = cursor_of U g"
    by (simp_all add: assms(4) fun_eq_iff tasks_upd_other cursor_of_upd)
  show "store_wf U g'" if "store_wf U g"
    unfolding assms(4) by (intro store_wf_upd that) (use row_wf_shareTask [OF assms(1, 2)] in auto)
  show "share_unique g'" if "share_unique g"
    unfolding share_unique_def
  proof (intro allI impI)
    fix d w a b
    assume d: "nul_free d" "share_rows g' d (a, w) \<noteq> None" "share_rows g' d (b, w) \<noteq> None"
    show "a = b"
    proof (cases "d = grp \<and> w = u")
      case True
      have "x = t" if "share_rows g' grp (x, u) \<noteq> None" for x
        using that rows [OF assms(1)] assms(3) by (auto split: if_splits)
      then show ?thesis
        using d True by blast
    next
      case False
      then have "share_rows g' d (x, w) = share_rows g d (x, w)" for x
        using rows [OF d(1)] by auto
      then show ?thesis
        using d \<open>share_unique g\<close> unfolding share_unique_def by metis
    qed
  qed
qed

definition share_completed :: "(bytes \<Rightarrow> kvValue option) \<Rightarrow> string \<Rightarrow> UUID \<Rightarrow> bool" where
  "share_completed g grp u \<longleftrightarrow> (\<exists>t tv. share_rows g grp (t, u) = Some tv \<and> stv_Status tv = TaskStatusCompleted)"

lemma rollback_outcome:
  assumes "badger_ok B" "store_wf U (bd_Get B db)" "share_unique (bd_Get B db)" "nul_free (ast_ShareGroup r)"
    and "ua_Parse U (ast_TaskID r) = Some u" "length u = 16" "ts_ok (ast_TSUnixNano r)" "0 < ast_TSUnixNano r"
    and "rollbackShareTask U B now r db = Inr db'"
  shows "share_completed (bd_Get B db) (ast_ShareGroup r) u \<and> db' = db
    \<or> \<not> share_completed (bd_Get B db) (ast_ShareGroup r) u
      \<and> (\<exists>t tv v. share_rows (bd_Get B db) (ast_ShareGroup r) (t, u) = Some tv \<and> stv_Status v = TaskStatusPending
           \<and> bd_Get B db' = (bd_Get B db)(rowKey prefixShareTask (ast_ShareGroup r) (t, u) := None,
               rowKey prefixShareTask (ast_ShareGroup r) (ast_TSUnixNano r, u) := Some (KShareTask v)))
    \<or> (\<forall>t. share_rows (bd_Get B db) (ast_ShareGroup r) (t, u) = None)
      \<and> (\<exists>v. stv_Status v = TaskStatusPending
           \<and> bd_Get B db' = (bd_Get B db)(rowKey prefixShareTask (ast_ShareGroup r) (ast_TSUnixNano r, u) := Some (KShareTask v)))"
proof (cases rule: findShareTask_cases [OF assms(1, 2, 4), of u])
  case 1
  then have "bd_Set B db (rowKey prefixShareTask (ast_ShareGroup r) (ast_TSUnixNano r, u)) (KShareTask (rollbackValue r)) = Inr db'"
    using assms(5, 8, 9) by (simp add: rollbackShareTask_def Let_def shareTaskKey_row)
  note get = badger_okD(1) [OF assms(1) this]
  have "stv_Status (rollbackValue r) = TaskStatusPending"
    by (simp add: rollbackValue_def)
  then show ?thesis
    using 1(2) get by blast
next
  case (2 t tv)
  have completed: "share_completed (bd_Get B db) (ast_ShareGroup r) u \<longleftrightarrow> stv_Status tv = TaskStatusCompleted"
    using share_uniqueD [OF assms(3, 4) 2(2)] 2(2) unfolding share_completed_def by metis
  show ?thesis
  proof (cases "stv_Status tv = TaskStatusCompleted")
    case True
    then show ?thesis
      using 2 assms(5, 9) completed by (simp add: rollbackShareTask_def Let_def)
  next
    case False
    let ?s = "setShareTaskStatus B (rowKey prefixShareTask (ast_ShareGroup r) (t, u)) (ast_ShareGroup r) u t tv
        TaskStatusPending (ast_TSUnixNano r) db"
    have "snd ?s = Inr db'"
      using 2 assms(5, 8, 9) False by (simp add: rollbackShareTask_def Let_def)
    then have "?s = (fst ?s, Inr db')"
      by (simp add: prod_eq_iff)
    note get = setShareTaskStatus_get(2) [OF assms(1) this refl]
    have "\<not> share_completed (bd_Get B db) (ast_ShareGroup r) u"
      using completed False by simp
    moreover have "bd_Get B db' = (bd_Get B db)(rowKey prefixShareTask (ast_ShareGroup r) (t, u) := None,
        rowKey prefixShareTask (ast_ShareGroup r) (ast_TSUnixNano r, u) :=
          Some (KShareTask (statusRow tv TaskStatusPending (ast_TSUnixNano r))))"
      using get by (simp add: statusTime_def)
    ultimately show ?thesis
      by (intro disjI2 disjI1 conjI exI [of _ t] exI [of _ tv] exI [of _ "statusRow tv TaskStatusPending (ast_TSUnixNano r)"]
          2(2) stv_Status_statusRow)
  qed
qed

text \<open>C27: Rolling back a shared task never revives a completed one: then nothing changes. Otherwise the task has exactly
  one row afterwards, it is pending at the time of the rollback, whether or not it had a row before; no other row of any
  group, no queue and no cursor is touched, and the database stays well formed.\<close>

theorem share_rollback:
  assumes "uuid_ok U" "badger_ok B" "store_wf U (bd_Get B db)" "share_unique (bd_Get B db)"
    and "nul_free (sgt_ShareGroup task)" "length (sgt_TaskID task) = 16" "ts_ok now" "0 < now"
    and "RollbackSharedSubscriptionTask U B commit None now (Some task) db = (None, db')"
  shows "(share_completed (bd_Get B db) (sgt_ShareGroup task) (sgt_TaskID task) \<longrightarrow> db' = db)
    \<and> (\<not> share_completed (bd_Get B db) (sgt_ShareGroup task) (sgt_TaskID task) \<longrightarrow>
         (\<forall>t. map_option stv_Status (share_rows (bd_Get B db') (sgt_ShareGroup task) (t, sgt_TaskID task)) =
            (if t = now then Some TaskStatusPending else None)))
    \<and> store_wf U (bd_Get B db') \<and> share_unique (bd_Get B db')
    \<and> tasks (bd_Get B db') = tasks (bd_Get B db) \<and> cursor_of U (bd_Get B db') = cursor_of U (bd_Get B db)
    \<and> (\<forall>g p. nul_free g \<longrightarrow> g \<noteq> sgt_ShareGroup task \<or> snd p \<noteq> sgt_TaskID task
         \<longrightarrow> share_rows (bd_Get B db') g p = share_rows (bd_Get B db) g p)"
proof -
  let ?grp = "sgt_ShareGroup task" and ?u = "sgt_TaskID task"
  obtain r where r: "appendShareTaskRequestFromTask U (Some now) (Some now) (Some task) = Inr r"
    "snd (updateRollbackShareGroupTask U B commit now r db) = (None, db')"
    using assms(9) by (auto simp: RollbackSharedSubscriptionTask_def split: sum.splits)
  then have req: "ast_ShareGroup r = ?grp" "ua_Parse U (ast_TaskID r) = Some ?u" "ast_TSUnixNano r = now" "?grp \<noteq> []"
    using uuid_okD(1) [OF assms(1, 6)]
    by (auto simp: appendShareTaskRequestFromTask_def Let_def UnixNano_def split: if_splits)
  have "valueResult (db_Update commit (\<lambda>txn. (False, rollbackShareTask U B now r txn)) db)
      = (fst (valueResult (db_Update commit (\<lambda>txn. (False, rollbackShareTask U B now r txn)) db)), None, db')"
    using r(2) req by (simp add: updateRollbackShareGroupTask_def prod_eq_iff)
  then have rb: "rollbackShareTask U B now r db = Inr db'"
    using db_Update_cases(3) by (fastforce simp: valueResult_eq)
  have ok: "pos_ok (now, ?u)"
    using assms(6, 7) by (simp add: pos_ok_def)
  from rollback_outcome [OF assms(2-4) _ req(2) assms(6) _ _ rb, unfolded req, OF assms(5, 7, 8)]
  consider (same) "share_completed (bd_Get B db) ?grp ?u" "db' = db"
    | (moved) t tv v where "\<not> share_completed (bd_Get B db) ?grp ?u" "share_rows (bd_Get B db) ?grp (t, ?u) = Some tv"
        "stv_Status v = TaskStatusPending" "bd_Get B db' = (bd_Get B db)(rowKey prefixShareTask ?grp (t, ?u) := None,
          rowKey prefixShareTask ?grp (now, ?u) := Some (KShareTask v))"
    | (added) v where "\<And>t. share_rows (bd_Get B db) ?grp (t, ?u) = None" "stv_Status v = TaskStatusPending"
        "bd_Get B db' = (bd_Get B db)(rowKey prefixShareTask ?grp (now, ?u) := Some (KShareTask v))"
    by blast
  then show ?thesis
  proof cases
    case same
    then show ?thesis using assms(3, 4) by simp
  next
    case moved
    have only: "share_rows (bd_Get B db) ?grp (s, ?u) = None" if "s \<noteq> t" for s
      using share_uniqueD [OF assms(4, 5) moved(2), of s] that
      by (cases "share_rows (bd_Get B db) ?grp (s, ?u)") auto
    note m = move_row [OF assms(5) share_rows_Some(1) [OF moved(2)] ok moved(4)]
    show ?thesis
      using moved(1-3) m(2, 3) m(4) [OF assms(3)] m(5) [OF assms(4)] m(1) only assms(5) by auto
  next
    case added
    note a = add_row [OF assms(5) ok added(1, 3)]
    have "\<not> share_completed (bd_Get B db) ?grp ?u"
      by (simp add: share_completed_def added(1))
    then show ?thesis
      using added(1, 2) a(2, 3) a(4) [OF assms(3)] a(5) [OF assms(4)] a(1) assms(5) by auto
  qed
qed

definition example_share_task :: ShareGroupTask where
  "example_share_task = \<lparr>sgt_TaskID = replicate 16 9, sgt_ShareGroup = ''g'', sgt_TopicFilter = ''a'', sgt_MessageID = replicate 16 3,
     sgt_DeliveryQoS = 1, sgt_PublishQoS = 1, sgt_PublisherClient = [], sgt_SubscriptionIDs = [], sgt_WinnerNoLocal = False,
     sgt_WinnerRAP = False, sgt_Status = [], sgt_ProcessedByNode = 0, sgt_ProcessedAt = None, sgt_RollbackReason = [],
     sgt_Timestamp = None\<rparr>"

lemma example_rollback: "fst (RollbackSharedSubscriptionTask raw_uuid list_badger None None 8 (Some example_share_task) example_share) = None"
  by code_simp

theorem share_rollback_witness:
  "\<exists>db'. RollbackSharedSubscriptionTask raw_uuid list_badger None None 8 (Some example_share_task) example_share = (None, db')
    \<and> map_option stv_Status (share_rows (bd_Get list_badger db') ''g'' (8, replicate 16 9)) = Some TaskStatusPending"
proof -
  obtain db' where r: "RollbackSharedSubscriptionTask raw_uuid list_badger None None 8 (Some example_share_task) example_share
      = (None, db')"
    using example_rollback by (metis prod.collapse)
  have "stv_Status tv = TaskStatusPending"
    if "share_rows (bd_Get list_badger example_share) ''g'' (t, replicate 16 9) = Some tv" for t tv
    using that unfolding share_rows_def example_share_get
    by (auto simp: example_share_def split: if_splits)
  then have "\<not> share_completed (bd_Get list_badger example_share) ''g'' (replicate 16 9)"
    by (auto simp: share_completed_def status_defs)
  then show ?thesis
    using share_rollback [OF raw_uuid_ok list_badger_ok example_share_wf example_share_unique _ _ _ _ r] r
    by (simp add: example_share_task_def nul_free_def ts_ok_def del: map_option_eq_Some)
qed

section \<open>The invariant of the store\<close>

definition one_row_per_message :: "(bytes \<Rightarrow> kvValue option) \<Rightarrow> bool" where
  "one_row_per_message g \<longleftrightarrow> (\<forall>c p q v w. nul_free c \<longrightarrow> tasks g c p = Some v \<longrightarrow> tasks g c q = Some w
     \<longrightarrow> tv_MessageID v = tv_MessageID w \<longrightarrow> p = q)"

definition store_inv :: "uuid_api \<Rightarrow> (bytes \<Rightarrow> kvValue option) \<Rightarrow> bool" where
  "store_inv U g \<longleftrightarrow> store_wf U g \<and> one_row_per_message g \<and> share_unique g"

text \<open>What the callers provide: names without NUL, positive times, the message of a task, and a new identifier for a new
  shared task.\<close>

definition request_ok :: "uuid_api \<Rightarrow> (bytes \<Rightarrow> kvValue option) \<Rightarrow> updateRequest \<Rightarrow> bool" where
  "request_ok U g req \<longleftrightarrow>
     (case req of
        opAppendTask r \<Rightarrow> nul_free (at_ClientID r) \<and> at_MessageID r \<noteq> [] \<and> ts_ok (at_TSUnixNano r)
      | opAdvanceCursor r \<Rightarrow> nul_free (ac_ClientID r) \<and> ts_ok (ac_LastTSUnixNano r)
      | opDeleteClientState r \<Rightarrow> nul_free (dcs_ClientID r)
      | opDeleteSharedTasks r \<Rightarrow> nul_free (dst_ClientID r)
      | opAppendShareTask r \<Rightarrow> nul_free (ast_ShareGroup r) \<and> ts_ok (ast_TSUnixNano r)
          \<and> (\<forall>u t. ua_Parse U (ast_TaskID r) = Some u \<longrightarrow> share_rows g (ast_ShareGroup r) (t, u) = None)
      | opUpdateShareTaskStatus r \<Rightarrow> nul_free (uss_ShareGroup r) \<and> ts_ok (uss_NowNano r) \<and> 0 < uss_NowNano r
      | opRollbackShareGroupTask r \<Rightarrow> nul_free (ast_ShareGroup r) \<and> ts_ok (ast_TSUnixNano r) \<and> 0 < ast_TSUnixNano r
      | _ \<Rightarrow> True)"

inductive store_run :: "uuid_api \<Rightarrow> 'db badger \<Rightarrow> 'db \<Rightarrow> 'db \<Rightarrow> bool" for U B db where
  start: "store_run U B db db"
| update: "store_run U B db d \<Longrightarrow> request_ok U (bd_Get B d) req \<Longrightarrow> applyUpdate U B commit now req d = (v, err, d')
    \<Longrightarrow> store_run U B db d'"

lemma inv_sub:
  assumes "store_inv U g" "\<And>k v. h k = Some v \<Longrightarrow> g k = Some v" "\<And>c p. h (rowKey prefixShareTask c p) = g (rowKey prefixShareTask c p)"
  shows "store_inv U h"
proof -
  have g: "store_wf U g" "one_row_per_message g" "share_unique g"
    using assms(1) by (simp_all add: store_inv_def)
  have "share_rows h = share_rows g"
    by (simp add: share_rows_def fun_eq_iff assms(3))
  then have "share_unique h"
    using g(3) by (simp add: share_unique_def)
  moreover have sub: "tasks g c p = Some v" if "tasks h c p = Some v" for c p v
    using assms(2) [OF tasks_Some(2) [OF that]] tasks_Some(1) [OF that] by (simp add: tasks_def)
  have "one_row_per_message h"
    unfolding one_row_per_message_def
  proof (intro allI impI)
    fix c p q v w
    assume "nul_free c" "tasks h c p = Some v" "tasks h c q = Some w" "tv_MessageID v = tv_MessageID w"
    then show "p = q"
      using g(2) sub [of c p v] sub [of c q w] unfolding one_row_per_message_def by blast
  qed
  moreover have "store_wf U h"
    by (rule store_wf_sub [OF g(1) assms(2)])
  ultimately show ?thesis
    by (simp add: store_inv_def)
qed

lemma append_inv:
  assumes "uuid_ok U" "badger_ok B" "store_inv U (bd_Get B db)" "nul_free (at_ClientID r)" "at_MessageID r \<noteq> []"
    "ts_ok (at_TSUnixNano r)" "updateAppendTask U B commit r db = (v, err, db')"
  shows "store_inv U (bd_Get B db')"
proof (cases "at_ClientID r = [] \<or> ua_Parse U (at_TaskID r) = None \<or> err \<noteq> None")
  case True
  have "db' = db"
  proof (cases "at_ClientID r = [] \<or> ua_Parse U (at_TaskID r) = None")
    case True
    then show ?thesis using assms(7) by (auto simp: updateAppendTask_def split: if_splits)
  next
    case False
    then show ?thesis
      using append_outcome(2) [OF assms(2) _ assms(4) _ assms(5) _ assms(7)] assms(3) True by (auto simp: store_inv_def)
  qed
  then show ?thesis using assms(3) by simp
next
  case False
  then obtain u where u: "ua_Parse U (at_TaskID r) = Some u" "at_ClientID r \<noteq> []" "err = None"
    by auto
  have wf: "store_wf U (bd_Get B db)"
    using assms(3) by (simp add: store_inv_def)
  have ok: "pos_ok (at_TSUnixNano r, u)"
    using uuid_okD(3) [OF assms(1) u(1)] assms(6) by (simp add: pos_ok_def)
  note out = append_outcome [OF assms(2) wf assms(4) u(2) assms(5) u(1) assms(7)]
  let ?k = "rowKey prefixTask (at_ClientID r) (at_TSUnixNano r, u)"
  show ?thesis
  proof (cases "v = 1")
    case False
    then show ?thesis using out(3) [OF u(3)] assms(3) by simp
  next
    case True
    then have get: "bd_Get B db' = (bd_Get B db)(?k := Some (KTask (taskValueOf r)))"
      using out(3) [OF u(3)] by (simp add: taskKey_row)
    have new: "\<not> holds_message (bd_Get B db) (at_ClientID r) (at_MessageID r)"
    proof
      assume "holds_message (bd_Get B db) (at_ClientID r) (at_MessageID r)"
      then have "v = 0"
        using out(1) by (simp only: if_True)
      then show False
        using True by simp
    qed
    have rows: "tasks (bd_Get B db') c = (if c = at_ClientID r then (tasks (bd_Get B db) c)((at_TSUnixNano r, u) := Some (taskValueOf r))
        else tasks (bd_Get B db) c)" if "nul_free c" for c
      unfolding get using tasks_upd [OF assms(4) ok that] by simp
    have "one_row_per_message (bd_Get B db')"
      unfolding one_row_per_message_def
    proof (intro allI impI)
      fix c p q x y
      assume a: "nul_free c" "tasks (bd_Get B db') c p = Some x" "tasks (bd_Get B db') c q = Some y" "tv_MessageID x = tv_MessageID y"
      have step: "c = at_ClientID r \<and> z = (at_TSUnixNano r, u) \<and> tv_MessageID w = at_MessageID r \<or> tasks (bd_Get B db) c z = Some w"
        if "tasks (bd_Get B db') c z = Some w" for z w
        using that rows [OF a(1)] by (auto simp: taskValueOf_def split: if_splits)
      have fresh: "tv_MessageID w \<noteq> at_MessageID r" if "tasks (bd_Get B db) (at_ClientID r) z = Some w" for z w
        using that new unfolding holds_message_def by blast
      have "p = q" if "tasks (bd_Get B db) c p = Some x" "tasks (bd_Get B db) c q = Some y"
        using that a(1, 4) assms(3) unfolding store_inv_def one_row_per_message_def by blast
      then show "p = q"
        using step [OF a(2)] step [OF a(3)] fresh [of p x] fresh [of q y] a(4) by metis
    qed
    moreover have "share_rows (bd_Get B db') = share_rows (bd_Get B db)"
      unfolding get by (simp add: fun_eq_iff share_rows_upd_other)
    moreover have "store_wf U (bd_Get B db')"
      unfolding get by (rule store_wf_upd [OF wf]) (use row_wf_task [OF assms(4) ok] in auto)
    ultimately show ?thesis
      using assms(3) by (simp add: store_inv_def share_unique_def)
  qed
qed

lemma store_inv_wf: "store_inv U g \<Longrightarrow> store_wf U g" "store_inv U g \<Longrightarrow> share_unique g"
  by (simp_all add: store_inv_def)

lemma advance_inv:
  assumes "uuid_ok U" "badger_ok B" "store_inv U (bd_Get B db)" "nul_free (ac_ClientID r)" "ts_ok (ac_LastTSUnixNano r)"
    "updateAdvanceCursor U B commit r db = (v, err, db')"
  shows "store_inv U (bd_Get B db')"
proof (cases "ac_ClientID r = [] \<or> ac_LastTaskID r = [] \<or> ua_Parse U (ac_LastTaskID r) = None \<or> err \<noteq> None")
  case True
  have "err \<noteq> None" if "ac_ClientID r = [] \<or> ac_LastTaskID r = []"
    using that assms(6) by (auto simp: updateAdvanceCursor_def split: if_splits)
  moreover have "err \<noteq> None" if "ua_Parse U (ac_LastTaskID r) = None" "ac_ClientID r \<noteq> []" "ac_LastTaskID r \<noteq> []"
    using that assms(6)
    by (auto simp: updateAdvanceCursor_def valueResult_eq db_Update_def split: sum.splits)
  ultimately have "err \<noteq> None"
    using True by (cases "ac_ClientID r = [] \<or> ac_LastTaskID r = []") auto
  then show ?thesis
    using advance_error(1) [OF assms(6)] assms(3) by simp
next
  case False
  then obtain u where u: "ua_Parse U (ac_LastTaskID r) = Some u" "ac_ClientID r \<noteq> []" "ac_LastTaskID r \<noteq> []" "err = None"
    by auto
  have ok: "pos_ok (ac_LastTSUnixNano r, u)"
    using uuid_okD(3) [OF assms(1) u(1)] assms(5) by (simp add: pos_ok_def)
  note out = advance_outcome [OF assms(2) store_inv_wf(1) [OF assms(3)] assms(4) u(2, 3, 1) ok assms(6) u(4)]
  show ?thesis
  proof (cases "v = 1")
    case True
    have rows: "tasks (bd_Get B db) c p = Some x" if "nul_free c" "tasks (bd_Get B db') c p = Some x" for c p x
      using out(3) [OF that(1) True, of p] that(2) by (cases "c = ac_ClientID r \<and> \<not> pos_less (ac_LastTSUnixNano r, u) p") simp_all
    have "one_row_per_message (bd_Get B db')"
      unfolding one_row_per_message_def
    proof (intro allI impI)
      fix c p q x y
      assume "nul_free c" "tasks (bd_Get B db') c p = Some x" "tasks (bd_Get B db') c q = Some y" "tv_MessageID x = tv_MessageID y"
      then show "p = q"
        using assms(3) rows [of c p x] rows [of c q y] unfolding store_inv_def one_row_per_message_def by blast
    qed
    moreover have "share_rows (bd_Get B db') c = share_rows (bd_Get B db) c" if "nul_free c" for c
      by (rule share_rows_cong) (rule out(6) [OF that])
    then have "share_unique (bd_Get B db')"
      using store_inv_wf(2) [OF assms(3)] by (simp add: share_unique_def)
    ultimately show ?thesis
      using out(5) [OF assms(4) True] by (simp add: store_inv_def)
  next
    case False
    then have "v = 0"
      using out(1) [OF assms(4)] by (auto split: option.splits if_splits)
    then show ?thesis
      using out(2) [OF assms(4)] assms(3) by simp
  qed
qed

lemma update_inv:
  assumes "valueResult (db_Update commit fn db) = (v, err, db')" "store_inv U (bd_Get B db)"
    and "\<And>d. snd (fn db) = Inr d \<Longrightarrow> store_inv U (bd_Get B d)"
  shows "store_inv U (bd_Get B db')"
proof -
  have "db_Update commit fn db = (v = 1, err, db')"
    using assms(1) by (simp add: valueResult_eq)
  note cs = db_Update_cases(3, 4) [OF this]
  show ?thesis
    using cs assms(2, 3) by (cases "err = None") auto
qed

lemma deleteClientState_inv:
  assumes "badger_ok B" "store_inv U (bd_Get B db)" "nul_free c" "deleteClientDeliveryState B db c = Inr d"
  shows "store_inv U (bd_Get B d)"
proof (rule inv_sub [OF assms(2)])
  note get = deleteClient_get [OF assms(1) store_inv_wf(1) [OF assms(2)] assms(3, 4)]
  show "bd_Get B d k = Some v \<Longrightarrow> bd_Get B db k = Some v" for k v
    using get [of k] by (metis option.distinct(1))
  show "bd_Get B d (rowKey prefixShareTask x p) = bd_Get B db (rowKey prefixShareTask x p)" for x p
    by (simp add: get)
qed

lemma deleteShared_inv:
  assumes "badger_ok B" "store_inv U (bd_Get B db)" "nul_free c" "deleteClientSharedDeliveryTasks B db c g = Inr d"
  shows "store_inv U (bd_Get B d)"
proof (rule inv_sub [OF assms(2)])
  note get = deleteShared_get [OF assms(1) store_inv_wf(1) [OF assms(2)] assms(3, 4)]
  show "bd_Get B d k = Some v \<Longrightarrow> bd_Get B db k = Some v" for k v
    using get [of k] by (metis option.distinct(1))
  show "bd_Get B d (rowKey prefixShareTask x p) = bd_Get B db (rowKey prefixShareTask x p)" for x p
    by (simp add: get)
qed

lemma row_change_inv:
  assumes "store_inv U g" "tasks h = tasks g" "store_wf U h" "share_unique h"
  shows "store_inv U h"
  using assms by (simp add: store_inv_def one_row_per_message_def)

lemma status_inv:
  assumes "uuid_ok U" "badger_ok B" "store_inv U (bd_Get B db)" "nul_free (uss_ShareGroup r)" "ts_ok (uss_NowNano r)"
    "0 < uss_NowNano r" "SM_updateShareTaskStatus U B commit now r db = (v, err, db')"
  shows "store_inv U (bd_Get B db')"
proof (cases "uss_ShareGroup r = [] \<or> ua_Parse U (uss_TaskID r) = None")
  case True
  then show ?thesis
    using assms(3, 7) by (auto simp: SM_updateShareTaskStatus_def split: if_splits)
next
  case False
  then obtain u where u: "ua_Parse U (uss_TaskID r) = Some u" "uss_ShareGroup r \<noteq> []"
    by auto
  have up: "valueResult (db_Update commit (updateShareTaskStatus B now (uss_ShareGroup r) u (uss_OldStatus r) (uss_NewStatus r)
      (uss_NowNano r)) db) = (v, err, db')"
    using assms(7) u by (simp add: SM_updateShareTaskStatus_def)
  show ?thesis
  proof (rule update_inv [OF up assms(3)])
    fix d
    assume d: "snd (updateShareTaskStatus B now (uss_ShareGroup r) u (uss_OldStatus r) (uss_NewStatus r) (uss_NowNano r) db) = Inr d"
    show "store_inv U (bd_Get B d)"
    proof (cases rule: findShareTask_cases [OF assms(2) store_inv_wf(1) [OF assms(3)] assms(4), of u])
      case 1
      then show ?thesis
        using d assms(3) by (simp add: updateShareTaskStatus_def Let_def)
    next
      case (2 t tv)
      let ?s = "setShareTaskStatus B (rowKey prefixShareTask (uss_ShareGroup r) (t, u)) (uss_ShareGroup r) u t tv (uss_NewStatus r)
        (uss_NowNano r) db"
      show ?thesis
      proof (cases "stv_Status tv = uss_OldStatus r")
        case False
        then show ?thesis
          using d 2 assms(3) by (simp add: updateShareTaskStatus_def Let_def)
      next
        case True
        then have "?s = (fst ?s, Inr d)"
          using d 2 assms(6) by (simp add: updateShareTaskStatus_def Let_def prod_eq_iff)
        note get = setShareTaskStatus_get(2) [OF assms(2) this refl]
        have ok: "pos_ok (t, u)" "pos_ok (statusTime (uss_NewStatus r) t (uss_NowNano r), u)"
          using share_rows_Some(1) [OF 2(2)] assms(5) by (simp_all add: statusTime_def pos_ok_def)
        note m = move_row [OF assms(4) ok get]
        show ?thesis
          by (rule row_change_inv [OF assms(3) m(2)])
            (use m(4, 5) store_inv_wf [OF assms(3)] 2(2) in simp_all)
      qed
    qed
  qed
qed

lemma rollback_inv:
  assumes "uuid_ok U" "badger_ok B" "store_inv U (bd_Get B db)" "nul_free (ast_ShareGroup r)" "ts_ok (ast_TSUnixNano r)"
    "0 < ast_TSUnixNano r" "rollbackShareTask U B now r db = Inr d"
  shows "store_inv U (bd_Get B d)"
proof -
  obtain u where u: "ua_Parse U (ast_TaskID r) = Some u"
    using assms(7) by (auto simp: rollbackShareTask_def split: option.splits)
  have len: "length u = 16"
    by (rule uuid_okD(3) [OF assms(1) u])
  have ok: "pos_ok (ast_TSUnixNano r, u)"
    using len assms(5) by (simp add: pos_ok_def)
  let ?grp = "ast_ShareGroup r" and ?now = "ast_TSUnixNano r"
  from rollback_outcome [OF assms(2) store_inv_wf [OF assms(3)] assms(4) u len assms(5-7)]
  consider (same) "d = db"
    | (moved) t tv v where "share_rows (bd_Get B db) ?grp (t, u) = Some tv"
        "bd_Get B d = (bd_Get B db)(rowKey prefixShareTask ?grp (t, u) := None,
          rowKey prefixShareTask ?grp (?now, u) := Some (KShareTask v))"
    | (added) v where "\<And>t. share_rows (bd_Get B db) ?grp (t, u) = None"
        "bd_Get B d = (bd_Get B db)(rowKey prefixShareTask ?grp (?now, u) := Some (KShareTask v))"
    by blast
  then show ?thesis
  proof cases
    case same
    then show ?thesis using assms(3) by simp
  next
    case moved
    note m = move_row [OF assms(4) share_rows_Some(1) [OF moved(1)] ok moved(2)]
    show ?thesis
      by (rule row_change_inv [OF assms(3) m(2)]) (use m(4, 5) store_inv_wf [OF assms(3)] moved(1) in simp_all)
  next
    case added
    note a = add_row [OF assms(4) ok added]
    show ?thesis
      by (rule row_change_inv [OF assms(3) a(2)]) (use a(4, 5) store_inv_wf [OF assms(3)] in simp_all)
  qed
qed

lemma appendShare_inv:
  assumes "uuid_ok U" "badger_ok B" "store_inv U (bd_Get B db)" "nul_free (ast_ShareGroup r)" "ts_ok (ast_TSUnixNano r)"
    and "\<forall>u t. ua_Parse U (ast_TaskID r) = Some u \<longrightarrow> share_rows (bd_Get B db) (ast_ShareGroup r) (t, u) = None"
    and "updateAppendShareTask U B commit r db = (v, err, db')"
  shows "store_inv U (bd_Get B db')"
proof (cases "ast_ShareGroup r = [] \<or> ua_Parse U (ast_TaskID r) = None")
  case True
  then show ?thesis
    using assms(3, 7) by (auto simp: updateAppendShareTask_def split: if_splits)
next
  case False
  then obtain u where u: "ua_Parse U (ast_TaskID r) = Some u" "ast_ShareGroup r \<noteq> []"
    by auto
  have none: "\<And>t. share_rows (bd_Get B db) (ast_ShareGroup r) (t, u) = None"
    using assms(6) u(1) by blast
  have ok: "pos_ok (ast_TSUnixNano r, u)"
    using uuid_okD(3) [OF assms(1) u(1)] assms(5) by (simp add: pos_ok_def)
  obtain w where up: "valueResult (db_Update commit (\<lambda>txn. (False, bd_Set B txn
      (rowKey prefixShareTask (ast_ShareGroup r) (ast_TSUnixNano r, u)) (KShareTask w))) db) = (v, err, db')"
    using assms(7) u by (simp add: updateAppendShareTask_def Let_def shareTaskKey_row)
  show ?thesis
  proof (rule update_inv [OF up assms(3)])
    fix d
    assume "snd (False, bd_Set B db (rowKey prefixShareTask (ast_ShareGroup r) (ast_TSUnixNano r, u)) (KShareTask w)) = Inr d"
    then have "bd_Get B d = (bd_Get B db)(rowKey prefixShareTask (ast_ShareGroup r) (ast_TSUnixNano r, u) := Some (KShareTask w))"
      using badger_okD(1) [OF assms(2)] by simp
    note a = add_row [OF assms(4) ok none this]
    show "store_inv U (bd_Get B d)"
      by (rule row_change_inv [OF assms(3) a(2)]) (use a(4, 5) store_inv_wf [OF assms(3)] in simp_all)
  qed
qed

lemma shareCursor_inv:
  assumes "badger_ok B" "store_inv U (bd_Get B db)" "bd_Set B db (shareCursorKey g) (KShareCursor cv) = Inr d"
  shows "store_inv U (bd_Get B d)"
proof (rule row_change_inv [OF assms(2)])
  note get = badger_okD(1) [OF assms(1, 3)]
  show "tasks (bd_Get B d) = tasks (bd_Get B db)"
    by (simp add: get fun_eq_iff tasks_upd_other)
  have "share_rows (bd_Get B d) = share_rows (bd_Get B db)"
    by (simp add: get fun_eq_iff share_rows_upd_other)
  then show "share_unique (bd_Get B d)"
    using store_inv_wf(2) [OF assms(2)] by (simp add: share_unique_def)
  show "store_wf U (bd_Get B d)"
    unfolding get by (rule store_wf_upd [OF store_inv_wf(1) [OF assms(2)]]) (auto simp: row_wf_def)
qed

lemma applyUpdate_inv:
  assumes "uuid_ok U" "badger_ok B" "store_inv U (bd_Get B db)" "request_ok U (bd_Get B db) req"
    and "applyUpdate U B commit now req db = (v, err, db')"
  shows "store_inv U (bd_Get B db')"
proof (cases req)
  case (opAppendTask r)
  then show ?thesis
    using append_inv [OF assms(1-3), of r commit v err db'] assms(4, 5) by (simp add: applyUpdate_def request_ok_def)
next
  case (opAdvanceCursor r)
  then show ?thesis
    using advance_inv [OF assms(1-3), of r "commit 0" v err db'] assms(4, 5) by (simp add: applyUpdate_def request_ok_def)
next
  case (opDeleteClientState r)
  then have c: "nul_free (dcs_ClientID r)" "updateDeleteClientState B (commit 0) r db = (v, err, db')"
    using assms(4, 5) by (simp_all add: applyUpdate_def request_ok_def)
  show ?thesis
  proof (cases "dcs_ClientID r = []")
    case False
    then have up: "valueResult (db_Update (commit 0) (\<lambda>txn. (False, deleteClientDeliveryState B txn (dcs_ClientID r))) db) = (v, err, db')"
      using c(2) by (simp add: updateDeleteClientState_def)
    show ?thesis
      by (rule update_inv [OF up assms(3)]) (simp add: deleteClientState_inv [OF assms(2, 3) c(1)])
  qed (use c(2) assms(3) in \<open>simp add: updateDeleteClientState_def\<close>)
next
  case (opDeleteSharedTasks r)
  then have c: "nul_free (dst_ClientID r)" "updateDeleteSharedTasks B (commit 0) r db = (v, err, db')"
    using assms(4, 5) by (simp_all add: applyUpdate_def request_ok_def)
  show ?thesis
  proof (cases "dst_ClientID r = [] \<or> dst_ShareGroup r = []")
    case False
    then have up: "valueResult (db_Update (commit 0) (\<lambda>txn. (False, deleteClientSharedDeliveryTasks B txn (dst_ClientID r) (dst_ShareGroup r))) db) = (v, err, db')"
      using c(2) by (simp add: updateDeleteSharedTasks_def)
    show ?thesis
      by (rule update_inv [OF up assms(3)]) (simp add: deleteShared_inv [OF assms(2, 3) c(1)])
  qed (use c(2) assms(3) in \<open>auto simp: updateDeleteSharedTasks_def split: if_splits\<close>)
next
  case (opAppendShareTask r)
  then show ?thesis
    using appendShare_inv [OF assms(1-3), of r "commit 0" v err db'] assms(4, 5) by (simp add: applyUpdate_def request_ok_def)
next
  case (opUpdateShareTaskStatus r)
  then show ?thesis
    using status_inv [OF assms(1-3), of r "commit 0" now v err db'] assms(4, 5) by (simp add: applyUpdate_def request_ok_def)
next
  case (opRollbackShareGroupTask r)
  then have c: "nul_free (ast_ShareGroup r)" "ts_ok (ast_TSUnixNano r)" "0 < ast_TSUnixNano r"
    "updateRollbackShareGroupTask U B (commit 0) now r db = (v, err, db')"
    using assms(4, 5) by (simp_all add: applyUpdate_def request_ok_def)
  show ?thesis
  proof (cases "ast_ShareGroup r = []")
    case False
    then have up: "valueResult (db_Update (commit 0) (\<lambda>txn. (False, rollbackShareTask U B now r txn)) db) = (v, err, db')"
      using c(4) by (simp add: updateRollbackShareGroupTask_def)
    show ?thesis
      by (rule update_inv [OF up assms(3)]) (simp add: rollback_inv [OF assms(1-3) c(1-3)])
  qed (use c(4) assms(3) in \<open>simp add: updateRollbackShareGroupTask_def\<close>)
next
  case (opAppendShareGroupCursor r)
  then have c: "updateAppendShareGroupCursor B (commit 0) r db = (v, err, db')"
    using assms(5) by (simp add: applyUpdate_def)
  show ?thesis
  proof (cases "asc_ShareGroup r = []")
    case False
    then obtain cv where up: "valueResult (db_Update (commit 0) (\<lambda>txn. (False, bd_Set B txn (shareCursorKey (asc_ShareGroup r))
        (KShareCursor cv))) db) = (v, err, db')"
      using c by (simp add: updateAppendShareGroupCursor_def Let_def)
    show ?thesis
      by (rule update_inv [OF up assms(3)]) (simp add: shareCursor_inv [OF assms(2, 3)])
  qed (use c assms(3) in \<open>simp add: updateAppendShareGroupCursor_def\<close>)
qed (use assms(3, 5) in \<open>simp_all add: applyUpdate_def\<close>)


lemma empty_store_inv: "store_inv U (bd_Get list_badger [])"
  by (simp add: list_badger_def store_inv_def store_wf_def one_row_per_message_def share_unique_def tasks_def share_rows_def)


end
