(* ===== verification/Client_Write.thy ===== *)
theory Client_Write
  imports Wire_Codec Topic_Alias Packet_Id
begin

text \<open>
  The write path of one connection (\<open>src/internal/broker/client/client_io.go\<close>): hooks and topic alias, the client's
  wish for problem information (\<open>problem_info.go\<close>), trimming of optional properties, the client's Maximum Packet Size,
  and the socket; and the DISCONNECT packets of \<open>internal/disconnect\<close>.

  The state is the record \<open>conn\<close>: \<open>co_wire\<close> lists the packets the socket has taken. The plugin hooks and the socket are
  arguments of type \<open>write_env\<close>. \<open>write\<close> and \<open>Write\<close> differ only in the lock they hold. \<open>close\<close> cancels the context and
  closes the socket; what it saves for the next connection is in \<open>Outgoing_Flow\<close>.
\<close>

section \<open>DISCONNECT packets\<close>

text \<open>\<open>strings.TrimSpace\<close>: leading and trailing white space of Unicode, in UTF-8.\<close>

definition spaceSeqs :: "string list" where
  "spaceSeqs =
     map (\<lambda>i. [char_of (i :: nat)]) [9, 10, 11, 12, 13, 32] @
     map (map (char_of :: nat \<Rightarrow> char))
       ([[0xC2, 0x85], [0xC2, 0xA0], [0xE1, 0x9A, 0x80], [0xE2, 0x80, 0xA8], [0xE2, 0x80, 0xA9], [0xE2, 0x80, 0xAF],
         [0xE2, 0x81, 0x9F], [0xE3, 0x80, 0x80]] @ map (\<lambda>i. [0xE2, 0x80, i]) [0x80..<0x8B])"

fun stripLeft :: "nat \<Rightarrow> string list \<Rightarrow> string \<Rightarrow> string" where
  "stripLeft 0 seqs s = s"
| "stripLeft (Suc n) seqs s =
     (case find (\<lambda>w. w \<noteq> [] \<and> take (length w) s = w) seqs of
        None \<Rightarrow> s
      | Some w \<Rightarrow> stripLeft n seqs (drop (length w) s))"

definition TrimSpace :: "string \<Rightarrow> string" where
  "TrimSpace s =
     (let s = stripLeft (length s) spaceSeqs s
      in rev (stripLeft (length s) (map rev spaceSeqs) (rev s)))"

definition NewServerDisconnect :: "byte \<Rightarrow> string \<Rightarrow> Disconnect" where
  "NewServerDisconnect code reason =
     \<lparr>ds_Properties = (if reason \<noteq> [] then Some (DisconnectProperties0\<lparr>dsp_ReasonString := TrimSpace reason\<rparr>) else None),
      ds_ReasonCode = code\<rparr>"

definition NewServerDisconnectMinimal :: "byte \<Rightarrow> Disconnect" where
  "NewServerDisconnectMinimal code = \<lparr>ds_Properties = None, ds_ReasonCode = code\<rparr>"

text \<open>The verb \<open>%d\<close> of \<open>fmt.Sprintf\<close>.\<close>

definition Sprint_d :: "int \<Rightarrow> string" where
  "Sprint_d i = (if i < 0 then CHR ''-'' # showNat (nat (- i)) else showNat (nat i))"

definition ForPacketTooLarge :: "int \<Rightarrow> int \<Rightarrow> Disconnect" where
  "ForPacketTooLarge packetSize maxSize =
     NewServerDisconnect DisconnectPacketTooLarge
       (''packet size '' @ Sprint_d packetSize @ '' exceeds maximum '' @ Sprint_d maxSize)"

definition MinimalForPacketTooLarge :: Disconnect where
  "MinimalForPacketTooLarge = NewServerDisconnectMinimal DisconnectPacketTooLarge"

definition ForProtocolError :: "string \<Rightarrow> Disconnect" where
  "ForProtocolError reason =
     (if reason = [] then NewServerDisconnect DisconnectProtocolError ''protocol error''
      else NewServerDisconnect DisconnectProtocolError (''protocol error: '' @ reason))"

definition ForQuotaExceeded :: "string \<Rightarrow> Disconnect" where
  "ForQuotaExceeded reason =
     (if reason = [] then NewServerDisconnect DisconnectQuotaExceeded ''quota exceeded''
      else NewServerDisconnect DisconnectQuotaExceeded (''quota exceeded: '' @ reason))"

definition ForReceiveMaximumExceeded :: "int \<Rightarrow> int \<Rightarrow> Disconnect" where
  "ForReceiveMaximumExceeded inflight maximum =
     NewServerDisconnect DisconnectReceiveMaximumExceeded
       (''receive maximum exceeded: inflight '' @ Sprint_d inflight @ '' >= maximum '' @ Sprint_d maximum)"

section \<open>The connection\<close>

record write_env =
  we_SendConnAck :: "ConnAck \<Rightarrow> ConnAck"
  we_SendSubAck :: "Suback \<Rightarrow> Suback"
  we_SendUnsubAck :: "Unsuback \<Rightarrow> Unsuback"
  we_SendPublish :: "Publish \<Rightarrow> Publish"
  we_SendPubAck :: "Puback \<Rightarrow> Puback"
  we_SendPubRec :: "Pubrec \<Rightarrow> Pubrec"
  we_SendPubRel :: "Pubrel \<Rightarrow> Pubrel"
  we_SendPubComp :: "Pubcomp \<Rightarrow> Pubcomp"
  we_socket :: "bytes \<Rightarrow> bool"

record conn =
  co_topicAliasManager :: "TopicAliasManager option"
  co_packetIdentifierIDTopic :: PacketIDTopic
  co_requestProblemInfo :: bool
  co_clientMaximumPacketSize :: "u32 option"
  co_connAckAccepted :: bool
  co_cancelled :: bool
  co_closed :: bool
  co_wire :: "bytes list"

datatype write_error = errOversizedOutboundPublish | WriteFailed

text \<open>The control packet of a content, as \<open>NewControlPacket\<close> followed by \<open>cp.Content = ...\<close> makes it.\<close>

definition controlPacket :: "Packet \<Rightarrow> ControlPacket option" where
  "controlPacket p = map_option (\<lambda>cp. cp\<lparr>cp_Content := Some p\<rparr>) (NewControlPacket (PacketType_of p))"

definition fits :: "int \<Rightarrow> Packet \<Rightarrow> bool" where
  "fits maxSize p \<longleftrightarrow> CheckPacketSizeWithMax (controlPacket p) maxSize = Inr ()"

definition conn_cancel :: "conn \<Rightarrow> conn" where
  "conn_cancel c = c\<lparr>co_cancelled := True\<rparr>"

definition conn_close :: "conn \<Rightarrow> conn" where
  "conn_close c = c\<lparr>co_cancelled := True, co_closed := True\<rparr>"

definition canSendDisconnect :: "conn \<Rightarrow> bool" where
  "canSendDisconnect c = co_connAckAccepted c"

definition outboundMaxPacketSize :: "conn \<Rightarrow> int" where
  "outboundMaxPacketSize c = (case co_clientMaximumPacketSize c of Some m \<Rightarrow> uint m | None \<Rightarrow> 0)"

text \<open>\<open>wire.Write\<close> on the socket: the flag tells whether it succeeded. A closed socket takes nothing.\<close>

definition wire_Write :: "write_env \<Rightarrow> Packet \<Rightarrow> conn \<Rightarrow> bool \<times> conn" where
  "wire_Write env p c =
     (case Encode (controlPacket p) \<lparr>eo_MaxPacketSize = 0\<rparr> of
        Inl err \<Rightarrow> (False, c)
      | Inr encoded \<Rightarrow>
          (if co_closed c \<or> \<not> we_socket env encoded then (False, c)
           else (True, c\<lparr>co_wire := co_wire c @ [encoded]\<rparr>)))"

section \<open>Before the packet is measured\<close>

definition prepareOutboundPublish :: "write_env \<Rightarrow> Publish \<Rightarrow> conn \<Rightarrow> Publish \<times> conn" where
  "prepareOutboundPublish env p c =
     (let (p, c) = (case co_topicAliasManager c of
                      None \<Rightarrow> (p, c)
                    | Some m \<Rightarrow> (let (m, p) = ApplyDownlink m p in (p, c\<lparr>co_topicAliasManager := Some m\<rparr>)))
      in (we_SendPublish env p, c))"

definition prepareOutboundPacket :: "write_env \<Rightarrow> string \<Rightarrow> Packet \<Rightarrow> conn \<Rightarrow> Packet \<times> conn" where
  "prepareOutboundPacket env fullTopic packet c =
     (case packet of
        PConnAck p \<Rightarrow> (PConnAck (we_SendConnAck env p), c)
      | PSuback p \<Rightarrow> (PSuback (we_SendSubAck env p), c)
      | PUnsuback p \<Rightarrow> (PUnsuback (we_SendUnsubAck env p), c)
      | PPublish p \<Rightarrow>
          (let (p, c) = prepareOutboundPublish env p c
           in (PPublish p,
               c\<lparr>co_packetIdentifierIDTopic := SetPacketIDTopic (pub_PacketID p) fullTopic (co_packetIdentifierIDTopic c)\<rparr>))
      | PPuback p \<Rightarrow> (PPuback (we_SendPubAck env p), c)
      | PPubrec p \<Rightarrow> (PPubrec (we_SendPubRec env p), c)
      | PPubrel p \<Rightarrow> (PPubrel (we_SendPubRel env p), c)
      | PPubcomp p \<Rightarrow> (PPubcomp (we_SendPubComp env p), c)
      | _ \<Rightarrow> (packet, c))"

text \<open>\<open>applyProblemInfoPreference\<close>: without the client's wish, these packets carry no reason string and no user property.\<close>

definition applyProblemInfoPreference :: "conn \<Rightarrow> Packet \<Rightarrow> Packet" where
  "applyProblemInfoPreference c cp =
     (if co_requestProblemInfo c then cp
      else
        (case cp of
           PPuback p \<Rightarrow>
             PPuback (p\<lparr>pa_Properties := map_option (\<lambda>q. q\<lparr>pap_ReasonString := [], pap_User := []\<rparr>) (pa_Properties p)\<rparr>)
         | PPubrec p \<Rightarrow>
             PPubrec (p\<lparr>pr_Properties := map_option (\<lambda>q. q\<lparr>prp_ReasonString := [], prp_User := []\<rparr>) (pr_Properties p)\<rparr>)
         | PPubrel p \<Rightarrow>
             PPubrel (p\<lparr>pl_Properties := map_option (\<lambda>q. q\<lparr>plp_ReasonString := [], plp_User := []\<rparr>) (pl_Properties p)\<rparr>)
         | PPubcomp p \<Rightarrow>
             PPubcomp (p\<lparr>pc_Properties := map_option (\<lambda>q. q\<lparr>pcp_ReasonString := [], pcp_User := []\<rparr>) (pc_Properties p)\<rparr>)
         | PSuback p \<Rightarrow>
             PSuback (p\<lparr>sa_Properties := map_option (\<lambda>q. q\<lparr>sap_ReasonString := [], sap_User := []\<rparr>) (sa_Properties p)\<rparr>)
         | PUnsuback p \<Rightarrow>
             PUnsuback (p\<lparr>ua_Properties := map_option (\<lambda>q. q\<lparr>uap_ReasonString := [], uap_User := []\<rparr>) (ua_Properties p)\<rparr>)
         | PAuth p \<Rightarrow>
             PAuth (p\<lparr>au_Properties := map_option (\<lambda>q. q\<lparr>aup_ReasonString := [], aup_User := []\<rparr>) (au_Properties p)\<rparr>)
         | _ \<Rightarrow> cp))"

section \<open>Trimming optional properties\<close>

text \<open>The shape of the functions \<open>trim...PropertiesToFit\<close>: clear one field after the other, if it is there, until the packet
  fits.\<close>

fun trimSteps :: "('a \<Rightarrow> bool) \<Rightarrow> (('a \<Rightarrow> bool) \<times> ('a \<Rightarrow> 'a)) list \<Rightarrow> 'a \<Rightarrow> 'a" where
  "trimSteps ok [] x = x"
| "trimSteps ok ((present, clear) # steps) x =
     (if present x then (let x = clear x in if ok x then x else trimSteps ok steps x)
      else trimSteps ok steps x)"

definition connAckUsesServerReference :: "byte \<Rightarrow> bool" where
  "connAckUsesServerReference reasonCode \<longleftrightarrow> reasonCode = ConnAckUseAnotherServer \<or> reasonCode = ConnAckServerMoved"

definition disconnectUsesServerReference :: "byte \<Rightarrow> bool" where
  "disconnectUsesServerReference reasonCode \<longleftrightarrow>
     reasonCode = DisconnectUseAnotherServer \<or> reasonCode = DisconnectServerMoved"

definition trimConnAckPropertiesToFit :: "int \<Rightarrow> ConnAck \<Rightarrow> ConnAck" where
  "trimConnAckPropertiesToFit maxSize p =
     (case ca_Properties p of
        None \<Rightarrow> p
      | Some props \<Rightarrow>
          p\<lparr>ca_Properties := Some (trimSteps (\<lambda>q. fits maxSize (PConnAck (p\<lparr>ca_Properties := Some q\<rparr>)))
            [(\<lambda>q. length (cap_User q) > 0, \<lambda>q. q\<lparr>cap_User := []\<rparr>),
             (\<lambda>q. cap_ReasonString q \<noteq> [], \<lambda>q. q\<lparr>cap_ReasonString := []\<rparr>),
             (\<lambda>q. cap_ResponseInfo q \<noteq> [], \<lambda>q. q\<lparr>cap_ResponseInfo := []\<rparr>),
             (\<lambda>q. cap_ServerReference q \<noteq> [] \<and> \<not> connAckUsesServerReference (ca_ReasonCode p),
              \<lambda>q. q\<lparr>cap_ServerReference := []\<rparr>)] props)\<rparr>)"

definition trimAuthPropertiesToFit :: "int \<Rightarrow> Auth \<Rightarrow> Auth" where
  "trimAuthPropertiesToFit maxSize p =
     (case au_Properties p of
        None \<Rightarrow> p
      | Some props \<Rightarrow>
          p\<lparr>au_Properties := Some (trimSteps (\<lambda>q. fits maxSize (PAuth (p\<lparr>au_Properties := Some q\<rparr>)))
            [(\<lambda>q. length (aup_User q) > 0, \<lambda>q. q\<lparr>aup_User := []\<rparr>),
             (\<lambda>q. aup_ReasonString q \<noteq> [], \<lambda>q. q\<lparr>aup_ReasonString := []\<rparr>)] props)\<rparr>)"

definition trimDisconnectPropertiesToFit :: "int \<Rightarrow> Disconnect \<Rightarrow> Disconnect" where
  "trimDisconnectPropertiesToFit maxSize p =
     (case ds_Properties p of
        None \<Rightarrow> p
      | Some props \<Rightarrow>
          p\<lparr>ds_Properties := Some (trimSteps (\<lambda>q. fits maxSize (PDisconnect (p\<lparr>ds_Properties := Some q\<rparr>)))
            [(\<lambda>q. length (dsp_User q) > 0, \<lambda>q. q\<lparr>dsp_User := []\<rparr>),
             (\<lambda>q. dsp_ReasonString q \<noteq> [], \<lambda>q. q\<lparr>dsp_ReasonString := []\<rparr>),
             (\<lambda>q. dsp_ServerReference q \<noteq> [] \<and> \<not> disconnectUsesServerReference (ds_ReasonCode p),
              \<lambda>q. q\<lparr>dsp_ServerReference := []\<rparr>)] props)\<rparr>)"

text \<open>\<open>trimReasonAndUserPropertiesToFit\<close> works on pointers to the two fields; here it gets the packet as a function of them.\<close>

definition trimReasonAndUserPropertiesToFit :: "(string \<times> User list \<Rightarrow> Packet) \<Rightarrow> int \<Rightarrow> string \<times> User list \<Rightarrow> string \<times> User list" where
  "trimReasonAndUserPropertiesToFit packet maxSize reasonUser =
     trimSteps (\<lambda>ru. fits maxSize (packet ru))
       [(\<lambda>ru. length (snd ru) > 0, \<lambda>ru. (fst ru, [])), (\<lambda>ru. fst ru \<noteq> [], \<lambda>ru. ([], snd ru))] reasonUser"

definition trimPubackPropertiesToFit :: "int \<Rightarrow> Puback \<Rightarrow> Puback" where
  "trimPubackPropertiesToFit maxSize p =
     (case pa_Properties p of
        None \<Rightarrow> p
      | Some props \<Rightarrow>
          (let put = (\<lambda>(r, u). p\<lparr>pa_Properties := Some (props\<lparr>pap_ReasonString := r, pap_User := u\<rparr>)\<rparr>)
           in put (trimReasonAndUserPropertiesToFit (\<lambda>ru. PPuback (put ru)) maxSize
                (pap_ReasonString props, pap_User props))))"

definition trimPubrecPropertiesToFit :: "int \<Rightarrow> Pubrec \<Rightarrow> Pubrec" where
  "trimPubrecPropertiesToFit maxSize p =
     (case pr_Properties p of
        None \<Rightarrow> p
      | Some props \<Rightarrow>
          (let put = (\<lambda>(r, u). p\<lparr>pr_Properties := Some (props\<lparr>prp_ReasonString := r, prp_User := u\<rparr>)\<rparr>)
           in put (trimReasonAndUserPropertiesToFit (\<lambda>ru. PPubrec (put ru)) maxSize
                (prp_ReasonString props, prp_User props))))"

definition trimPubrelPropertiesToFit :: "int \<Rightarrow> Pubrel \<Rightarrow> Pubrel" where
  "trimPubrelPropertiesToFit maxSize p =
     (case pl_Properties p of
        None \<Rightarrow> p
      | Some props \<Rightarrow>
          (let put = (\<lambda>(r, u). p\<lparr>pl_Properties := Some (props\<lparr>plp_ReasonString := r, plp_User := u\<rparr>)\<rparr>)
           in put (trimReasonAndUserPropertiesToFit (\<lambda>ru. PPubrel (put ru)) maxSize
                (plp_ReasonString props, plp_User props))))"

definition trimPubcompPropertiesToFit :: "int \<Rightarrow> Pubcomp \<Rightarrow> Pubcomp" where
  "trimPubcompPropertiesToFit maxSize p =
     (case pc_Properties p of
        None \<Rightarrow> p
      | Some props \<Rightarrow>
          (let put = (\<lambda>(r, u). p\<lparr>pc_Properties := Some (props\<lparr>pcp_ReasonString := r, pcp_User := u\<rparr>)\<rparr>)
           in put (trimReasonAndUserPropertiesToFit (\<lambda>ru. PPubcomp (put ru)) maxSize
                (pcp_ReasonString props, pcp_User props))))"

definition trimSubackPropertiesToFit :: "int \<Rightarrow> Suback \<Rightarrow> Suback" where
  "trimSubackPropertiesToFit maxSize p =
     (case sa_Properties p of
        None \<Rightarrow> p
      | Some props \<Rightarrow>
          (let put = (\<lambda>(r, u). p\<lparr>sa_Properties := Some (props\<lparr>sap_ReasonString := r, sap_User := u\<rparr>)\<rparr>)
           in put (trimReasonAndUserPropertiesToFit (\<lambda>ru. PSuback (put ru)) maxSize
                (sap_ReasonString props, sap_User props))))"

definition trimUnsubackPropertiesToFit :: "int \<Rightarrow> Unsuback \<Rightarrow> Unsuback" where
  "trimUnsubackPropertiesToFit maxSize p =
     (case ua_Properties p of
        None \<Rightarrow> p
      | Some props \<Rightarrow>
          (let put = (\<lambda>(r, u). p\<lparr>ua_Properties := Some (props\<lparr>uap_ReasonString := r, uap_User := u\<rparr>)\<rparr>)
           in put (trimReasonAndUserPropertiesToFit (\<lambda>ru. PUnsuback (put ru)) maxSize
                (uap_ReasonString props, uap_User props))))"

definition trimOutboundOptionalProperties :: "conn \<Rightarrow> Packet \<Rightarrow> Packet" where
  "trimOutboundOptionalProperties c packet =
     (let maxSize = outboundMaxPacketSize c
      in if maxSize \<le> 0 \<or> fits maxSize packet then packet
         else
           (case packet of
              PConnAck p \<Rightarrow> PConnAck (trimConnAckPropertiesToFit maxSize p)
            | PAuth p \<Rightarrow> PAuth (trimAuthPropertiesToFit maxSize p)
            | PDisconnect p \<Rightarrow> PDisconnect (trimDisconnectPropertiesToFit maxSize p)
            | PPuback p \<Rightarrow> PPuback (trimPubackPropertiesToFit maxSize p)
            | PPubrec p \<Rightarrow> PPubrec (trimPubrecPropertiesToFit maxSize p)
            | PPubrel p \<Rightarrow> PPubrel (trimPubrelPropertiesToFit maxSize p)
            | PPubcomp p \<Rightarrow> PPubcomp (trimPubcompPropertiesToFit maxSize p)
            | PSuback p \<Rightarrow> PSuback (trimSubackPropertiesToFit maxSize p)
            | PUnsuback p \<Rightarrow> PUnsuback (trimUnsubackPropertiesToFit maxSize p)
            | _ \<Rightarrow> packet))"

section \<open>The size limit and the socket\<close>

definition discardOversizedOutboundPublish :: "string \<Rightarrow> Publish \<Rightarrow> conn \<Rightarrow> write_error option \<times> conn" where
  "discardOversizedOutboundPublish fullTopic pubContent c =
     (Some errOversizedOutboundPublish,
      c\<lparr>co_topicAliasManager := map_option (revertDownlinkAlias fullTopic (pub_Topic pubContent)) (co_topicAliasManager c)\<rparr>)"

definition closeForProtocolViolation :: "conn \<Rightarrow> conn" where
  "closeForProtocolViolation c = conn_close (conn_cancel c)"

definition closeForOversizedOutboundPacket :: "write_env \<Rightarrow> Packet \<Rightarrow> int \<Rightarrow> conn \<Rightarrow> write_error option \<times> conn" where
  "closeForOversizedOutboundPacket env packet maxSize c =
     (if \<not> canSendDisconnect c then (Some WriteFailed, closeForProtocolViolation c)
      else
        (let packetSize = (case calculatePacketSize (controlPacket packet) of Inl err \<Rightarrow> 0 | Inr n \<Rightarrow> n);
             disconnectPacket = applyProblemInfoPreference c (PDisconnect (ForPacketTooLarge packetSize maxSize));
             disconnectPacket = (if \<not> fits maxSize disconnectPacket then PDisconnect MinimalForPacketTooLarge
                                 else disconnectPacket)
         in if \<not> fits maxSize disconnectPacket then (Some WriteFailed, conn_close (conn_cancel c))
            else (Some WriteFailed, conn_close (conn_cancel (snd (wire_Write env disconnectPacket c))))))"

definition enforceOutboundMaxPacketSize :: "write_env \<Rightarrow> string \<Rightarrow> Packet \<Rightarrow> conn \<Rightarrow> write_error option \<times> conn" where
  "enforceOutboundMaxPacketSize env fullTopic packet c =
     (let maxSize = outboundMaxPacketSize c
      in if maxSize \<le> 0 then (None, c)
         else if \<not> fits maxSize packet
         then
           (case packet of
              PPublish pubContent \<Rightarrow> discardOversizedOutboundPublish fullTopic pubContent c
            | _ \<Rightarrow> closeForOversizedOutboundPacket env packet maxSize c)
         else (None, c))"

definition mqtt5ReasonCodeIsError :: "byte \<Rightarrow> bool" where
  "mqtt5ReasonCodeIsError reasonCode \<longleftrightarrow> reasonCode \<ge> 0x80"

definition markAcceptedConnAck :: "Packet \<Rightarrow> conn \<Rightarrow> conn" where
  "markAcceptedConnAck packet c =
     (case packet of
        PConnAck connAck \<Rightarrow>
          (if \<not> mqtt5ReasonCodeIsError (ca_ReasonCode connAck) then c\<lparr>co_connAckAccepted := True\<rparr> else c)
      | _ \<Rightarrow> c)"

definition Client_write :: "write_env \<Rightarrow> Packet \<Rightarrow> string \<Rightarrow> conn \<Rightarrow> write_error option \<times> conn" where
  "Client_write env packet fullTopic c =
     (let (packet, c) = prepareOutboundPacket env fullTopic packet c;
          packet = applyProblemInfoPreference c packet;
          packet = trimOutboundOptionalProperties c packet
      in case enforceOutboundMaxPacketSize env fullTopic packet c of
           (Some err, c) \<Rightarrow> (Some err, c)
         | (None, c) \<Rightarrow>
             (case wire_Write env packet c of
                (False, c) \<Rightarrow> (Some WriteFailed, conn_cancel c)
              | (True, c) \<Rightarrow> (None, markAcceptedConnAck packet c)))"

definition RetryWrite :: "write_env \<Rightarrow> Packet \<Rightarrow> string \<Rightarrow> conn \<Rightarrow> write_error option \<times> conn" where
  "RetryWrite env packet fullTopic c =
     Client_write env (case packet of PPublish p \<Rightarrow> PPublish (p\<lparr>pub_Duplicate := True\<rparr>) | _ \<Rightarrow> packet) fullTopic c"

section \<open>What is written\<close>

lemma controlPacket_Some: "\<exists>cp. controlPacket p = Some cp \<and> CanonicalPacket (Some cp) = Some p"
  by (cases p) (simp_all add: controlPacket_def NewControlPacket_def Let_def setPacket_def CanonicalPacket_def)

lemma fits_Encode:
  "fits maxSize p \<longleftrightarrow> (\<exists>b. Encode (controlPacket p) \<lparr>eo_MaxPacketSize = 0\<rparr> = Inr b \<and> int (length b) \<le> maxSize)"
  by (cases "Encode (controlPacket p) \<lparr>eo_MaxPacketSize = 0\<rparr>")
    (auto simp: fits_def CheckPacketSizeWithMax_def calculatePacketSize_def)

text \<open>What was put on the wire by a step: at most one packet, within the client's limit.\<close>

definition writes :: "conn \<Rightarrow> Packet option \<Rightarrow> conn \<Rightarrow> bool" where
  "writes c q c' \<longleftrightarrow>
     (case q of
        None \<Rightarrow> co_wire c' = co_wire c
      | Some p \<Rightarrow> (\<exists>b. Encode (controlPacket p) \<lparr>eo_MaxPacketSize = 0\<rparr> = Inr b \<and> co_wire c' = co_wire c @ [b]
          \<and> (outboundMaxPacketSize c \<le> 0 \<or> int (length b) \<le> outboundMaxPacketSize c)))"

lemma wire_Write_writes:
  assumes "wire_Write env p c = (ok, c')" "outboundMaxPacketSize c \<le> 0 \<or> fits (outboundMaxPacketSize c) p"
  shows "writes c (if ok then Some p else None) c' \<and> co_cancelled c' = co_cancelled c \<and> co_closed c' = co_closed c"
  using assms by (auto simp: wire_Write_def writes_def fits_Encode split: sum.splits if_splits)

lemma conn_simps [simp]:
  "co_wire (conn_cancel c) = co_wire c" "co_wire (conn_close c) = co_wire c" "co_cancelled (conn_cancel c)"
  "co_cancelled (conn_close c)" "co_closed (conn_close c)" "co_closed (conn_cancel c) = co_closed c"
  "outboundMaxPacketSize (conn_cancel c) = outboundMaxPacketSize c"
  "outboundMaxPacketSize (conn_close c) = outboundMaxPacketSize c"
  by (simp_all add: conn_cancel_def conn_close_def outboundMaxPacketSize_def)

lemma closeForOversized_writes:
  assumes "closeForOversizedOutboundPacket env p maxSize c = (err, c')" "maxSize = outboundMaxPacketSize c"
  shows "err = Some WriteFailed \<and> co_cancelled c' \<and> co_closed c' \<and>
    (writes c None c' \<or> (\<exists>d. writes c (Some (PDisconnect d)) c'))"
proof (cases "canSendDisconnect c")
  case False
  with assms(1) show ?thesis
    by (auto simp: closeForOversizedOutboundPacket_def closeForProtocolViolation_def writes_def)
next
  case True
  define q where "q = (let n = (case calculatePacketSize (controlPacket p) of Inl err \<Rightarrow> 0 | Inr n \<Rightarrow> n);
      d = applyProblemInfoPreference c (PDisconnect (ForPacketTooLarge n maxSize))
    in if \<not> fits maxSize d then PDisconnect MinimalForPacketTooLarge else d)"
  have d: "\<exists>d. q = PDisconnect d" by (auto simp: q_def Let_def applyProblemInfoPreference_def)
  have eq: "(err, c') = (if \<not> fits maxSize q then (Some WriteFailed, conn_close (conn_cancel c))
      else (Some WriteFailed, conn_close (conn_cancel (snd (wire_Write env q c)))))"
    using assms(1) [symmetric] True
    by (simp only: closeForOversizedOutboundPacket_def q_def Let_def not_True_eq_False if_False)
  show ?thesis
  proof (cases "fits maxSize q")
    case False
    then show ?thesis using eq by (simp add: writes_def)
  next
    case fit: True
    obtain ok c1 where w: "wire_Write env q c = (ok, c1)" by (cases "wire_Write env q c")
    have c': "err = Some WriteFailed" "c' = conn_close (conn_cancel c1)" using eq fit w by simp_all
    have "writes c (if ok then Some q else None) c1"
      using wire_Write_writes [OF w] fit assms(2) by simp
    then have "writes c (if ok then Some q else None) c'"
      by (simp add: writes_def c' split: if_splits)
    then show ?thesis using c' d by (cases ok) auto
  qed
qed

lemma prepareOutbound_frame:
  assumes "prepareOutboundPacket env topic p c = (q, c')"
  shows "PacketType_of q = PacketType_of p \<and> co_wire c' = co_wire c \<and> co_closed c' = co_closed c
    \<and> co_cancelled c' = co_cancelled c \<and> outboundMaxPacketSize c' = outboundMaxPacketSize c"
  using assms
  by (cases p) (auto simp: prepareOutboundPacket_def prepareOutboundPublish_def outboundMaxPacketSize_def Let_def
      split: option.splits prod.splits)

lemma applyProblemInfo_type: "PacketType_of (applyProblemInfoPreference c p) = PacketType_of p"
  by (cases p) (simp_all add: applyProblemInfoPreference_def)

lemma trimOutbound_type: "PacketType_of (trimOutboundOptionalProperties c p) = PacketType_of p"
  by (cases p) (simp_all add: trimOutboundOptionalProperties_def Let_def)

lemma enforce_cases:
  assumes "enforceOutboundMaxPacketSize env topic p c = (err, c')"
  shows "(err = None \<and> c' = c \<and> (outboundMaxPacketSize c \<le> 0 \<or> fits (outboundMaxPacketSize c) p))
    \<or> (err = Some errOversizedOutboundPublish \<and> (\<exists>pub. p = PPublish pub \<and>
        c' = c\<lparr>co_topicAliasManager := map_option (revertDownlinkAlias topic (pub_Topic pub)) (co_topicAliasManager c)\<rparr>))
    \<or> (err = Some WriteFailed \<and> (\<forall>pub. p \<noteq> PPublish pub) \<and> co_cancelled c' \<and> co_closed c' \<and>
        (writes c None c' \<or> (\<exists>d. writes c (Some (PDisconnect d)) c')))"
proof (cases "outboundMaxPacketSize c \<le> 0 \<or> fits (outboundMaxPacketSize c) p")
  case True
  then show ?thesis using assms by (auto simp: enforceOutboundMaxPacketSize_def Let_def split: if_splits)
next
  case False
  show ?thesis
  proof (cases "\<exists>pub. p = PPublish pub")
    case True
    with False assms show ?thesis
      by (auto simp: enforceOutboundMaxPacketSize_def discardOversizedOutboundPublish_def Let_def)
  next
    case no: False
    then have "closeForOversizedOutboundPacket env p (outboundMaxPacketSize c) c = (err, c')"
      using False assms by (cases p) (simp_all add: enforceOutboundMaxPacketSize_def Let_def)
    then show ?thesis using closeForOversized_writes no by blast
  qed
qed

lemma writes_cong:
  "co_wire c1 = co_wire c \<Longrightarrow> outboundMaxPacketSize c1 = outboundMaxPacketSize c \<Longrightarrow> writes c1 q c' = writes c q c'"
  by (simp add: writes_def split: option.splits)

lemma Client_write_cases:
  assumes "Client_write env p topic c = (err, c')"
  shows "(err = None \<and> (\<exists>q. PacketType_of q = PacketType_of p \<and> writes c (Some q) c')
      \<and> co_cancelled c' = co_cancelled c \<and> co_closed c' = co_closed c)
    \<or> (err = Some errOversizedOutboundPublish \<and> PacketType_of p = PUBLISH \<and> writes c None c'
      \<and> co_cancelled c' = co_cancelled c \<and> co_closed c' = co_closed c)
    \<or> (err = Some WriteFailed \<and> co_cancelled c' \<and> (writes c None c' \<or> (\<exists>d. writes c (Some (PDisconnect d)) c')))"
proof -
  obtain p1 c1 where pre: "prepareOutboundPacket env topic p c = (p1, c1)" by (cases "prepareOutboundPacket env topic p c")
  note frame = prepareOutbound_frame [OF pre]
  define q where "q = trimOutboundOptionalProperties c1 (applyProblemInfoPreference c1 p1)"
  have type: "PacketType_of q = PacketType_of p"
    using frame by (simp add: q_def trimOutbound_type applyProblemInfo_type)
  have wr: "writes c1 r c' = writes c r c'" for r using frame by (intro writes_cong) simp_all
  obtain e c2 where enf: "enforceOutboundMaxPacketSize env topic q c1 = (e, c2)"
    by (cases "enforceOutboundMaxPacketSize env topic q c1")
  show ?thesis
  proof (cases e)
    case None
    then have c2: "c2 = c1" "outboundMaxPacketSize c1 \<le> 0 \<or> fits (outboundMaxPacketSize c1) q"
      using enforce_cases [OF enf] by auto
    obtain ok c3 where w: "wire_Write env q c1 = (ok, c3)" by (cases "wire_Write env q c1")
    have res: "(err, c') = (if ok then (None, markAcceptedConnAck q c3) else (Some WriteFailed, conn_cancel c3))"
      using assms pre enf None c2(1) w by (simp add: Client_write_def q_def split: bool.splits)
    note w1 = wire_Write_writes [OF w c2(2)]
    have mk: "co_wire (markAcceptedConnAck q c3) = co_wire c3" "co_cancelled (markAcceptedConnAck q c3) = co_cancelled c3"
      "co_closed (markAcceptedConnAck q c3) = co_closed c3"
      by (simp_all add: markAcceptedConnAck_def split: Packet.splits)
    have "writes c1 (if ok then Some q else None) c'"
      using w1 res mk by (cases ok) (simp_all add: writes_def)
    then have wc: "writes c (if ok then Some q else None) c'" by (simp only: wr)
    show ?thesis
    proof (cases ok)
      case True
      then show ?thesis using wc res w1 mk frame type by auto
    next
      case False
      then show ?thesis using wc res by auto
    qed
  next
    case (Some e')
    have res: "err = Some e'" "c' = c2" using assms pre enf Some by (simp_all add: Client_write_def q_def)
    have wr2: "writes c1 r c2 = writes c r c2" for r using wr res(2) by simp
    from enforce_cases [OF enf] Some consider
        pub where "e' = errOversizedOutboundPublish" "q = PPublish pub"
          "c2 = c1\<lparr>co_topicAliasManager := map_option (revertDownlinkAlias topic (pub_Topic pub)) (co_topicAliasManager c1)\<rparr>"
      | "e' = WriteFailed" "co_cancelled c2" "writes c1 None c2 \<or> (\<exists>d. writes c1 (Some (PDisconnect d)) c2)"
      by auto
    then show ?thesis
    proof cases
      case 1
      have "writes c None c'" using 1(3) frame res(2) by (simp add: writes_def)
      moreover have "PacketType_of p = PUBLISH" using type 1(2) by simp
      ultimately show ?thesis using 1 res frame by simp
    next
      case 2
      then show ?thesis using res wr2 by simp
    qed
  qed
qed

text \<open>C29: A write puts at most one packet on the wire, and exactly one when it reports success; that one has the type of
  the packet that was to be written. After a failure it can only be a DISCONNECT. Whatever is written is the
  encoding of a packet, no longer than the client's Maximum Packet Size when the client has one, so that a client which
  reads with that limit decodes it. A PUBLISH that is too large is discarded without harm to the connection; every other
  failure cancels the connection.\<close>

theorem outbound_within_client_limit:
  assumes "Client_write env p topic c = (err, c')"
  shows "\<exists>ws. co_wire c' = co_wire c @ ws \<and> length ws \<le> 1 \<and> (err = None \<longrightarrow> length ws = 1)
    \<and> (\<forall>b\<in>set ws. \<exists>q. (if err = None then PacketType_of q = PacketType_of p else PacketType_of q = DISCONNECT)
        \<and> (outboundMaxPacketSize c > 0 \<longrightarrow> int (length b) \<le> outboundMaxPacketSize c)
        \<and> (qos_ok q \<longrightarrow> (\<exists>cp. cp_Content cp = Some (canonPacket q) \<and>
            Decode (reader_at e (b @ rest)) \<lparr>do_MaxPacketSize = outboundMaxPacketSize c\<rparr> = Inr (cp, reader_at e rest))))
    \<and> (err = Some errOversizedOutboundPublish \<longrightarrow>
        PacketType_of p = PUBLISH \<and> ws = [] \<and> co_cancelled c' = co_cancelled c \<and> co_closed c' = co_closed c)
    \<and> (err = Some WriteFailed \<longrightarrow> co_cancelled c')"
proof -
  let ?good = "\<lambda>q b. (outboundMaxPacketSize c > 0 \<longrightarrow> int (length b) \<le> outboundMaxPacketSize c)
        \<and> (qos_ok q \<longrightarrow> (\<exists>cp. cp_Content cp = Some (canonPacket q) \<and>
            Decode (reader_at e (b @ rest)) \<lparr>do_MaxPacketSize = outboundMaxPacketSize c\<rparr> = Inr (cp, reader_at e rest)))"
  have good: "\<exists>b. co_wire c' = co_wire c @ [b] \<and> ?good q b" if "writes c (Some q) c'" for q
  proof -
    from that obtain b where b: "Encode (controlPacket q) \<lparr>eo_MaxPacketSize = 0\<rparr> = Inr b" "co_wire c' = co_wire c @ [b]"
        "outboundMaxPacketSize c \<le> 0 \<or> int (length b) \<le> outboundMaxPacketSize c"
      by (auto simp: writes_def)
    from controlPacket_Some obtain cp where cp: "controlPacket q = Some cp" "CanonicalPacket (Some cp) = Some q" by blast
    have "\<exists>cp. cp_Content cp = Some (canonPacket q) \<and>
        Decode (reader_at e (b @ rest)) \<lparr>do_MaxPacketSize = outboundMaxPacketSize c\<rparr> = Inr (cp, reader_at e rest)"
      if "qos_ok q"
      using Decode_Encode [OF b(1) [unfolded cp(1)] cp(2) that, where
          dopts = "\<lparr>do_MaxPacketSize = outboundMaxPacketSize c\<rparr>" and e = e and rest = rest] b(3) by auto
    then show ?thesis using b by auto
  qed
  from Client_write_cases [OF assms] show ?thesis
  proof (elim disjE conjE exE)
    fix q assume q: "err = None" "PacketType_of q = PacketType_of p" "writes c (Some q) c'"
    from good [OF q(3)] obtain b where b: "co_wire c' = co_wire c @ [b]" "?good q b" by blast
    show ?thesis by (rule exI [of _ "[b]"]) (use b q in auto)
  next
    assume o: "err = Some errOversizedOutboundPublish" "PacketType_of p = PUBLISH" "writes c None c'"
      "co_cancelled c' = co_cancelled c" "co_closed c' = co_closed c"
    show ?thesis by (rule exI [of _ "[]"]) (use o in \<open>auto simp: writes_def\<close>)
  next
    assume f: "err = Some WriteFailed" "co_cancelled c'" "writes c None c'"
    show ?thesis by (rule exI [of _ "[]"]) (use f in \<open>auto simp: writes_def\<close>)
  next
    fix d assume f: "err = Some WriteFailed" "co_cancelled c'" "writes c (Some (PDisconnect d)) c'"
    from good [OF f(3)] obtain b where b: "co_wire c' = co_wire c @ [b]" "?good (PDisconnect d) b" by blast
    show ?thesis by (rule exI [of _ "[b]"]) (use b f in \<open>auto intro!: exI [of _ "PDisconnect d"]\<close>)
  qed
qed

definition example_env :: write_env where
  "example_env =
     \<lparr>we_SendConnAck = id, we_SendSubAck = id, we_SendUnsubAck = id, we_SendPublish = id, we_SendPubAck = id,
      we_SendPubRec = id, we_SendPubRel = id, we_SendPubComp = id, we_socket = (\<lambda>b. True)\<rparr>"

definition example_conn :: conn where
  "example_conn =
     \<lparr>co_topicAliasManager = None, co_packetIdentifierIDTopic = [], co_requestProblemInfo = True,
      co_clientMaximumPacketSize = Some 6, co_connAckAccepted = True, co_cancelled = False, co_closed = False, co_wire = []\<rparr>"

lemma Encode_Pingresp: "Encode (controlPacket PPingresp) \<lparr>eo_MaxPacketSize = 0\<rparr> = Inr [0xD0, 0]"
  by (simp add: controlPacket_def NewControlPacket_def setPacket_def Encode_def CanonicalPacket_def Let_def
      fixedHeaderFlags_def validateFixedHeaderFlags_def encodePacket_def encodeRemainingLength_def
      encodeRemainingLength_loop_small)

theorem outbound_within_client_limit_witness:
  "fst (Client_write example_env PPingresp [] example_conn) = None \<and>
   (\<exists>b. co_wire (snd (Client_write example_env PPingresp [] example_conn)) = [b] \<and> length b \<le> 6)"
proof -
  obtain err c' where w: "Client_write example_env PPingresp [] example_conn = (err, c')"
    by (cases "Client_write example_env PPingresp [] example_conn")
  have "fst (Client_write example_env PPingresp [] example_conn) = None"
    by (simp add: Client_write_def prepareOutboundPacket_def applyProblemInfoPreference_def trimOutboundOptionalProperties_def
        enforceOutboundMaxPacketSize_def outboundMaxPacketSize_def fits_Encode Encode_Pingresp wire_Write_def
        example_env_def example_conn_def)
  then have err: "err = None" by (simp add: w)
  have m: "outboundMaxPacketSize example_conn = 6" "co_wire example_conn = []"
    by (simp_all add: outboundMaxPacketSize_def example_conn_def)
  from outbound_within_client_limit [OF w, where rest = "[]"] err obtain ws where
      ws: "co_wire c' = ws" "length ws = 1" "\<forall>b\<in>set ws. int (length b) \<le> 6"
    by (auto simp: m)
  from ws(2) obtain b where "ws = [b]" by (cases ws) auto
  with ws err w show ?thesis by simp
qed

section \<open>What trimming leaves\<close>

text \<open>The packet without the properties a trim may remove: reason string, user properties, response information, and a server
  reference that the reason code does not call for.\<close>

definition withoutOptional :: "Packet \<Rightarrow> Packet" where
  "withoutOptional packet =
     (case packet of
        PConnAck p \<Rightarrow>
          PConnAck (p\<lparr>ca_Properties := map_option (\<lambda>q. q\<lparr>cap_User := [], cap_ReasonString := [], cap_ResponseInfo := [],
            cap_ServerReference := (if connAckUsesServerReference (ca_ReasonCode p) then cap_ServerReference q else [])\<rparr>)
            (ca_Properties p)\<rparr>)
      | PAuth p \<Rightarrow> PAuth (p\<lparr>au_Properties := map_option (\<lambda>q. q\<lparr>aup_User := [], aup_ReasonString := []\<rparr>) (au_Properties p)\<rparr>)
      | PDisconnect p \<Rightarrow>
          PDisconnect (p\<lparr>ds_Properties := map_option (\<lambda>q. q\<lparr>dsp_User := [], dsp_ReasonString := [],
            dsp_ServerReference := (if disconnectUsesServerReference (ds_ReasonCode p) then dsp_ServerReference q else [])\<rparr>)
            (ds_Properties p)\<rparr>)
      | PPuback p \<Rightarrow> PPuback (p\<lparr>pa_Properties := map_option (\<lambda>q. q\<lparr>pap_User := [], pap_ReasonString := []\<rparr>) (pa_Properties p)\<rparr>)
      | PPubrec p \<Rightarrow> PPubrec (p\<lparr>pr_Properties := map_option (\<lambda>q. q\<lparr>prp_User := [], prp_ReasonString := []\<rparr>) (pr_Properties p)\<rparr>)
      | PPubrel p \<Rightarrow> PPubrel (p\<lparr>pl_Properties := map_option (\<lambda>q. q\<lparr>plp_User := [], plp_ReasonString := []\<rparr>) (pl_Properties p)\<rparr>)
      | PPubcomp p \<Rightarrow> PPubcomp (p\<lparr>pc_Properties := map_option (\<lambda>q. q\<lparr>pcp_User := [], pcp_ReasonString := []\<rparr>) (pc_Properties p)\<rparr>)
      | PSuback p \<Rightarrow> PSuback (p\<lparr>sa_Properties := map_option (\<lambda>q. q\<lparr>sap_User := [], sap_ReasonString := []\<rparr>) (sa_Properties p)\<rparr>)
      | PUnsuback p \<Rightarrow> PUnsuback (p\<lparr>ua_Properties := map_option (\<lambda>q. q\<lparr>uap_User := [], uap_ReasonString := []\<rparr>) (ua_Properties p)\<rparr>)
      | _ \<Rightarrow> packet)"

definition trimmed :: "int \<Rightarrow> Packet \<Rightarrow> Packet \<Rightarrow> bool" where
  "trimmed maxSize p q \<longleftrightarrow> withoutOptional q = withoutOptional p \<and> (fits maxSize q \<or> q = withoutOptional p)"

lemma trim_reason_user:
  assumes "trimReasonAndUserPropertiesToFit packet maxSize (r, u) = ru"
  shows "fits maxSize (packet ru) \<or> ru = ([], [])"
  using assms by (auto simp: trimReasonAndUserPropertiesToFit_def Let_def split: if_splits)

lemma trimSteps_keeps: "(\<forall>s\<in>set steps. \<forall>x. fst s x \<longrightarrow> f (snd s x) = f x) \<Longrightarrow> f (trimSteps ok steps x) = f x"
  by (induction ok steps x rule: trimSteps.induct) (simp_all add: Let_def)

lemma trimSteps_end:
  "ok (trimSteps ok steps x) \<or> trimSteps ok steps x = fold (\<lambda>s x. if fst s x then snd s x else x) steps x"
  by (induction ok steps x rule: trimSteps.induct) (simp_all add: Let_def)

lemma trimConnAck_trimmed: "trimmed maxSize (PConnAck p) (PConnAck (trimConnAckPropertiesToFit maxSize p))"
proof (cases "ca_Properties p")
  case None
  then show ?thesis by (cases p) (simp add: trimmed_def withoutOptional_def trimConnAckPropertiesToFit_def)
next
  case (Some props)
  let ?put = "\<lambda>q. p\<lparr>ca_Properties := Some q\<rparr>"
  let ?steps = "[(\<lambda>q. length (cap_User q) > 0, \<lambda>q. q\<lparr>cap_User := []\<rparr>),
      (\<lambda>q. cap_ReasonString q \<noteq> [], \<lambda>q. q\<lparr>cap_ReasonString := []\<rparr>),
      (\<lambda>q. cap_ResponseInfo q \<noteq> [], \<lambda>q. q\<lparr>cap_ResponseInfo := []\<rparr>),
      (\<lambda>q. cap_ServerReference q \<noteq> [] \<and> \<not> connAckUsesServerReference (ca_ReasonCode p), \<lambda>q. q\<lparr>cap_ServerReference := []\<rparr>)]"
  define bare where "bare = (\<lambda>q :: ConnAckProperties. q\<lparr>cap_User := [], cap_ReasonString := [], cap_ResponseInfo := [], cap_ServerReference := (if connAckUsesServerReference (ca_ReasonCode p) then cap_ServerReference q else [])\<rparr>)"
  define q where "q = trimSteps (\<lambda>q. fits maxSize (PConnAck (?put q))) ?steps props"
  have put: "trimConnAckPropertiesToFit maxSize p = ?put q" by (simp only: trimConnAckPropertiesToFit_def Some option.case q_def)
  have fold: "fold (\<lambda>s x. if fst s x then snd s x else x) ?steps props = bare props"
    by (cases props) (simp add: bare_def)
  have "fits maxSize (PConnAck (?put q)) \<or> q = bare props"
    using trimSteps_end [of "\<lambda>q. fits maxSize (PConnAck (?put q))" ?steps props, unfolded fold, folded q_def] .
  moreover have "bare q = bare props"
    unfolding q_def by (rule trimSteps_keeps) (simp add: bare_def)
  moreover have "withoutOptional (PConnAck (?put r)) = PConnAck (?put (bare r))" for r
    by (simp add: withoutOptional_def bare_def)
  moreover have "withoutOptional (PConnAck p) = PConnAck (?put (bare props))"
    by (simp add: withoutOptional_def bare_def Some)
  ultimately show ?thesis
    unfolding trimmed_def put by auto
qed

lemma trimAuth_trimmed: "trimmed maxSize (PAuth p) (PAuth (trimAuthPropertiesToFit maxSize p))"
proof (cases "au_Properties p")
  case None
  then show ?thesis by (cases p) (simp add: trimmed_def withoutOptional_def trimAuthPropertiesToFit_def)
next
  case (Some props)
  let ?put = "\<lambda>q. p\<lparr>au_Properties := Some q\<rparr>"
  let ?steps = "[(\<lambda>q. length (aup_User q) > 0, \<lambda>q. q\<lparr>aup_User := []\<rparr>),
      (\<lambda>q. aup_ReasonString q \<noteq> [], \<lambda>q. q\<lparr>aup_ReasonString := []\<rparr>)]"
  define bare where "bare = (\<lambda>q :: AuthProperties. q\<lparr>aup_User := [], aup_ReasonString := []\<rparr>)"
  define q where "q = trimSteps (\<lambda>q. fits maxSize (PAuth (?put q))) ?steps props"
  have put: "trimAuthPropertiesToFit maxSize p = ?put q" by (simp only: trimAuthPropertiesToFit_def Some option.case q_def)
  have fold: "fold (\<lambda>s x. if fst s x then snd s x else x) ?steps props = bare props"
    by (cases props) (simp add: bare_def)
  have "fits maxSize (PAuth (?put q)) \<or> q = bare props"
    using trimSteps_end [of "\<lambda>q. fits maxSize (PAuth (?put q))" ?steps props, unfolded fold, folded q_def] .
  moreover have "bare q = bare props"
    unfolding q_def by (rule trimSteps_keeps) (simp add: bare_def)
  moreover have "withoutOptional (PAuth (?put r)) = PAuth (?put (bare r))" for r
    by (simp add: withoutOptional_def bare_def)
  moreover have "withoutOptional (PAuth p) = PAuth (?put (bare props))"
    by (simp add: withoutOptional_def bare_def Some)
  ultimately show ?thesis
    unfolding trimmed_def put by auto
qed

lemma trimDisconnect_trimmed: "trimmed maxSize (PDisconnect p) (PDisconnect (trimDisconnectPropertiesToFit maxSize p))"
proof (cases "ds_Properties p")
  case None
  then show ?thesis by (cases p) (simp add: trimmed_def withoutOptional_def trimDisconnectPropertiesToFit_def)
next
  case (Some props)
  let ?put = "\<lambda>q. p\<lparr>ds_Properties := Some q\<rparr>"
  let ?steps = "[(\<lambda>q. length (dsp_User q) > 0, \<lambda>q. q\<lparr>dsp_User := []\<rparr>),
      (\<lambda>q. dsp_ReasonString q \<noteq> [], \<lambda>q. q\<lparr>dsp_ReasonString := []\<rparr>),
      (\<lambda>q. dsp_ServerReference q \<noteq> [] \<and> \<not> disconnectUsesServerReference (ds_ReasonCode p), \<lambda>q. q\<lparr>dsp_ServerReference := []\<rparr>)]"
  define bare where "bare = (\<lambda>q :: DisconnectProperties. q\<lparr>dsp_User := [], dsp_ReasonString := [], dsp_ServerReference := (if disconnectUsesServerReference (ds_ReasonCode p) then dsp_ServerReference q else [])\<rparr>)"
  define q where "q = trimSteps (\<lambda>q. fits maxSize (PDisconnect (?put q))) ?steps props"
  have put: "trimDisconnectPropertiesToFit maxSize p = ?put q" by (simp only: trimDisconnectPropertiesToFit_def Some option.case q_def)
  have fold: "fold (\<lambda>s x. if fst s x then snd s x else x) ?steps props = bare props"
    by (cases props) (simp add: bare_def)
  have "fits maxSize (PDisconnect (?put q)) \<or> q = bare props"
    using trimSteps_end [of "\<lambda>q. fits maxSize (PDisconnect (?put q))" ?steps props, unfolded fold, folded q_def] .
  moreover have "bare q = bare props"
    unfolding q_def by (rule trimSteps_keeps) (simp add: bare_def)
  moreover have "withoutOptional (PDisconnect (?put r)) = PDisconnect (?put (bare r))" for r
    by (simp add: withoutOptional_def bare_def)
  moreover have "withoutOptional (PDisconnect p) = PDisconnect (?put (bare props))"
    by (simp add: withoutOptional_def bare_def Some)
  ultimately show ?thesis
    unfolding trimmed_def put by auto
qed

lemma trimPuback_trimmed: "trimmed maxSize (PPuback p) (PPuback (trimPubackPropertiesToFit maxSize p))"
proof (cases "pa_Properties p")
  case None
  then show ?thesis by (cases p) (simp add: trimmed_def withoutOptional_def trimPubackPropertiesToFit_def)
next
  case (Some props)
  define put where "put = (\<lambda>(r, u). p\<lparr>pa_Properties := Some (props\<lparr>pap_ReasonString := r, pap_User := u\<rparr>)\<rparr>)"
  obtain r u where ru: "trimReasonAndUserPropertiesToFit (\<lambda>ru. PPuback (put ru)) maxSize (pap_ReasonString props, pap_User props) = (r, u)"
    by fastforce
  have "trimPubackPropertiesToFit maxSize p = put (r, u)"
    using ru by (simp add: trimPubackPropertiesToFit_def Some put_def)
  then show ?thesis
    using trim_reason_user [OF ru] by (cases props) (auto simp: trimmed_def withoutOptional_def put_def Some)
qed

lemma trimPubrec_trimmed: "trimmed maxSize (PPubrec p) (PPubrec (trimPubrecPropertiesToFit maxSize p))"
proof (cases "pr_Properties p")
  case None
  then show ?thesis by (cases p) (simp add: trimmed_def withoutOptional_def trimPubrecPropertiesToFit_def)
next
  case (Some props)
  define put where "put = (\<lambda>(r, u). p\<lparr>pr_Properties := Some (props\<lparr>prp_ReasonString := r, prp_User := u\<rparr>)\<rparr>)"
  obtain r u where ru: "trimReasonAndUserPropertiesToFit (\<lambda>ru. PPubrec (put ru)) maxSize (prp_ReasonString props, prp_User props) = (r, u)"
    by fastforce
  have "trimPubrecPropertiesToFit maxSize p = put (r, u)"
    using ru by (simp add: trimPubrecPropertiesToFit_def Some put_def)
  then show ?thesis
    using trim_reason_user [OF ru] by (cases props) (auto simp: trimmed_def withoutOptional_def put_def Some)
qed

lemma trimPubrel_trimmed: "trimmed maxSize (PPubrel p) (PPubrel (trimPubrelPropertiesToFit maxSize p))"
proof (cases "pl_Properties p")
  case None
  then show ?thesis by (cases p) (simp add: trimmed_def withoutOptional_def trimPubrelPropertiesToFit_def)
next
  case (Some props)
  define put where "put = (\<lambda>(r, u). p\<lparr>pl_Properties := Some (props\<lparr>plp_ReasonString := r, plp_User := u\<rparr>)\<rparr>)"
  obtain r u where ru: "trimReasonAndUserPropertiesToFit (\<lambda>ru. PPubrel (put ru)) maxSize (plp_ReasonString props, plp_User props) = (r, u)"
    by fastforce
  have "trimPubrelPropertiesToFit maxSize p = put (r, u)"
    using ru by (simp add: trimPubrelPropertiesToFit_def Some put_def)
  then show ?thesis
    using trim_reason_user [OF ru] by (cases props) (auto simp: trimmed_def withoutOptional_def put_def Some)
qed

lemma trimPubcomp_trimmed: "trimmed maxSize (PPubcomp p) (PPubcomp (trimPubcompPropertiesToFit maxSize p))"
proof (cases "pc_Properties p")
  case None
  then show ?thesis by (cases p) (simp add: trimmed_def withoutOptional_def trimPubcompPropertiesToFit_def)
next
  case (Some props)
  define put where "put = (\<lambda>(r, u). p\<lparr>pc_Properties := Some (props\<lparr>pcp_ReasonString := r, pcp_User := u\<rparr>)\<rparr>)"
  obtain r u where ru: "trimReasonAndUserPropertiesToFit (\<lambda>ru. PPubcomp (put ru)) maxSize (pcp_ReasonString props, pcp_User props) = (r, u)"
    by fastforce
  have "trimPubcompPropertiesToFit maxSize p = put (r, u)"
    using ru by (simp add: trimPubcompPropertiesToFit_def Some put_def)
  then show ?thesis
    using trim_reason_user [OF ru] by (cases props) (auto simp: trimmed_def withoutOptional_def put_def Some)
qed

lemma trimSuback_trimmed: "trimmed maxSize (PSuback p) (PSuback (trimSubackPropertiesToFit maxSize p))"
proof (cases "sa_Properties p")
  case None
  then show ?thesis by (cases p) (simp add: trimmed_def withoutOptional_def trimSubackPropertiesToFit_def)
next
  case (Some props)
  define put where "put = (\<lambda>(r, u). p\<lparr>sa_Properties := Some (props\<lparr>sap_ReasonString := r, sap_User := u\<rparr>)\<rparr>)"
  obtain r u where ru: "trimReasonAndUserPropertiesToFit (\<lambda>ru. PSuback (put ru)) maxSize (sap_ReasonString props, sap_User props) = (r, u)"
    by fastforce
  have "trimSubackPropertiesToFit maxSize p = put (r, u)"
    using ru by (simp add: trimSubackPropertiesToFit_def Some put_def)
  then show ?thesis
    using trim_reason_user [OF ru] by (cases props) (auto simp: trimmed_def withoutOptional_def put_def Some)
qed

lemma trimUnsuback_trimmed: "trimmed maxSize (PUnsuback p) (PUnsuback (trimUnsubackPropertiesToFit maxSize p))"
proof (cases "ua_Properties p")
  case None
  then show ?thesis by (cases p) (simp add: trimmed_def withoutOptional_def trimUnsubackPropertiesToFit_def)
next
  case (Some props)
  define put where "put = (\<lambda>(r, u). p\<lparr>ua_Properties := Some (props\<lparr>uap_ReasonString := r, uap_User := u\<rparr>)\<rparr>)"
  obtain r u where ru: "trimReasonAndUserPropertiesToFit (\<lambda>ru. PUnsuback (put ru)) maxSize (uap_ReasonString props, uap_User props) = (r, u)"
    by fastforce
  have "trimUnsubackPropertiesToFit maxSize p = put (r, u)"
    using ru by (simp add: trimUnsubackPropertiesToFit_def Some put_def)
  then show ?thesis
    using trim_reason_user [OF ru] by (cases props) (auto simp: trimmed_def withoutOptional_def put_def Some)
qed

lemmas trim_trimmed =
  trimConnAck_trimmed trimAuth_trimmed trimDisconnect_trimmed trimPuback_trimmed trimPubrec_trimmed trimPubrel_trimmed
  trimPubcomp_trimmed trimSuback_trimmed trimUnsuback_trimmed



end
