(* ===== verification/Outgoing_Flow.thy ===== *)
theory Outgoing_Flow
  imports Client_Write Delivery_Store
begin

text \<open>
  The downlink of one connection, under \<open>src/internal/broker/client\<close>: the table of unacknowledged messages
  (\<open>outgoing_inflight.go\<close>), the acknowledgements (\<open>client_handler_qos_flow.go\<close>), the sending of one delivery task and
  the retransmission (\<open>delivery_runner.go\<close>), retained messages (\<open>retained_delivery.go\<close>), the rules of
  \<open>message_expiry.go\<close> and \<open>subscription_identifier.go\<close>, and what is saved for the next connection
  (\<open>client_lifecycle.go\<close>, \<open>outgoing_progress_commit.go\<close>).

  The state is a record \<open>flow\<close>. What the code does to the outside, a packet written, a cursor advanced, a shared task
  completed, is appended to the log of the state in the order it happens. What the outside answers, whether a write or
  a cursor update fails and what the payload store holds, is an argument of type \<open>flow_env\<close>.
\<close>

section \<open>The table of unacknowledged messages\<close>

datatype outgoingInflightState =
    outInflightWaitingPubAck
  | outInflightWaitingPubRec
  | outInflightWaitingPubComp

record outgoingInflightEntry =
  oe_PacketID :: u16
  oe_QoS :: byte
  oe_TaskTS :: GoTime
  oe_TaskID :: UUID
  oe_Generation :: int
  oe_MessageID :: UUID
  oe_ShareGroup :: string
  oe_SharedTaskID :: UUID
  oe_Retained :: bool
  oe_PublishPacket :: bytes
  oe_FirstPubTime :: GoTime
  oe_LastSendTime :: GoTime
  oe_RetryCount :: int
  oe_Acked :: bool
  oe_FlowTokenHeld :: bool
  oe_State :: outgoingInflightState
  oe_PersistedInSession :: bool

type_synonym outgoingInflightStore = "(u16 \<times> outgoingInflightEntry) list"

definition newOutgoingInflightStore :: outgoingInflightStore where
  "newOutgoingInflightStore = []"

definition OIS_Put :: "outgoingInflightEntry \<Rightarrow> outgoingInflightStore \<Rightarrow> bool \<times> outgoingInflightStore" where
  "OIS_Put e s =
     (if oe_PacketID e = 0 then (False, s)
      else (alist_get s (oe_PacketID e) \<noteq> None, alist_set (oe_PacketID e) e s))"

definition OIS_Get :: "outgoingInflightStore \<Rightarrow> u16 \<Rightarrow> outgoingInflightEntry option" where
  "OIS_Get s packetID = (if packetID = 0 then None else alist_get s packetID)"

definition UpdateState :: "u16 \<Rightarrow> outgoingInflightState \<Rightarrow> outgoingInflightStore \<Rightarrow> outgoingInflightStore" where
  "UpdateState packetID st s =
     (case OIS_Get s packetID of None \<Rightarrow> s | Some e \<Rightarrow> alist_set packetID (e\<lparr>oe_State := st\<rparr>) s)"

definition MarkAcked :: "u16 \<Rightarrow> byte \<Rightarrow> outgoingInflightStore \<Rightarrow> (outgoingInflightEntry \<times> outgoingInflightStore) option" where
  "MarkAcked packetID qos s =
     (case OIS_Get s packetID of
        None \<Rightarrow> None
      | Some e \<Rightarrow>
          (if oe_QoS e \<noteq> qos \<or> oe_Acked e then None
           else (let e = e\<lparr>oe_Acked := True\<rparr> in Some (e, alist_set packetID e s))))"

definition MarkFlowTokenHeld :: "u16 \<Rightarrow> outgoingInflightStore \<Rightarrow> (outgoingInflightEntry \<times> outgoingInflightStore) option" where
  "MarkFlowTokenHeld packetID s =
     (case OIS_Get s packetID of
        None \<Rightarrow> None
      | Some e \<Rightarrow>
          (if oe_FlowTokenHeld e then None
           else (let e = e\<lparr>oe_FlowTokenHeld := True\<rparr> in Some (e, alist_set packetID e s))))"

definition ClearFlowTokenHeld :: "u16 \<Rightarrow> outgoingInflightStore \<Rightarrow> outgoingInflightStore" where
  "ClearFlowTokenHeld packetID s =
     (case OIS_Get s packetID of None \<Rightarrow> s | Some e \<Rightarrow> alist_set packetID (e\<lparr>oe_FlowTokenHeld := False\<rparr>) s)"

definition OIS_Delete :: "u16 \<Rightarrow> outgoingInflightStore \<Rightarrow> bool \<times> outgoingInflightStore" where
  "OIS_Delete packetID s =
     (case OIS_Get s packetID of None \<Rightarrow> (False, s) | Some e \<Rightarrow> (True, alist_del packetID s))"

definition MarkSent :: "u16 \<Rightarrow> GoTime \<Rightarrow> outgoingInflightStore \<Rightarrow> int option \<times> outgoingInflightStore" where
  "MarkSent packetID now s =
     (case OIS_Get s packetID of
        None \<Rightarrow> (None, s)
      | Some e \<Rightarrow>
          (let e = e\<lparr>oe_LastSendTime := now, oe_RetryCount := oe_RetryCount e + 1\<rparr>
           in (Some (oe_RetryCount e), alist_set packetID e s)))"

text \<open>\<open>time.Time\<close>'s \<open>Before\<close>: the zero time is before every other.\<close>

definition time_Before :: "GoTime \<Rightarrow> GoTime \<Rightarrow> bool" where
  "time_Before a b =
     (case b of None \<Rightarrow> False | Some y \<Rightarrow> (case a of None \<Rightarrow> True | Some x \<Rightarrow> x < y))"

definition outgoingInflightLess :: "uuid_api \<Rightarrow> outgoingInflightEntry \<Rightarrow> outgoingInflightEntry \<Rightarrow> bool" where
  "outgoingInflightLess U a b =
     (if oe_TaskTS a \<noteq> oe_TaskTS b then time_Before (oe_TaskTS a) (oe_TaskTS b)
      else ua_String U (oe_TaskID a) < ua_String U (oe_TaskID b))"

text \<open>\<open>sort.Slice\<close> with this order; the order of two entries with the same position is not specified by Go.\<close>

fun insertEntry :: "uuid_api \<Rightarrow> outgoingInflightEntry \<Rightarrow> outgoingInflightEntry list \<Rightarrow> outgoingInflightEntry list" where
  "insertEntry U e [] = [e]"
| "insertEntry U e (x # xs) = (if outgoingInflightLess U x e then x # insertEntry U e xs else e # x # xs)"

definition sortEntries :: "uuid_api \<Rightarrow> outgoingInflightEntry list \<Rightarrow> outgoingInflightEntry list" where
  "sortEntries U es = foldr (insertEntry U) es []"

definition PopAckedInOrder :: "uuid_api \<Rightarrow> outgoingInflightStore \<Rightarrow> outgoingInflightEntry list \<times> outgoingInflightStore" where
  "PopAckedInOrder U s =
     (let out = takeWhile oe_Acked (sortEntries U (map snd s))
      in (out, foldl (\<lambda>s e. alist_del (oe_PacketID e) s) s out))"

definition OIS_Len :: "outgoingInflightStore \<Rightarrow> nat" where
  "OIS_Len s = length s"

definition OIS_All :: "outgoingInflightStore \<Rightarrow> outgoingInflightEntry list" where
  "OIS_All s = map snd s"

definition OIS_First :: "outgoingInflightStore \<Rightarrow> outgoingInflightEntry option" where
  "OIS_First s = (case s of [] \<Rightarrow> None | x # _ \<Rightarrow> Some (snd x))"

fun firstUnackedIn :: "uuid_api \<Rightarrow> outgoingInflightEntry option \<Rightarrow> outgoingInflightEntry list \<Rightarrow> outgoingInflightEntry option" where
  "firstUnackedIn U first [] = first"
| "firstUnackedIn U first (e # es) =
     (if oe_Acked e then firstUnackedIn U first es
      else
        (case first of
           None \<Rightarrow> firstUnackedIn U (Some e) es
         | Some f \<Rightarrow> firstUnackedIn U (if outgoingInflightLess U e f then Some e else first) es))"

definition FirstUnacked :: "uuid_api \<Rightarrow> outgoingInflightStore \<Rightarrow> outgoingInflightEntry option" where
  "FirstUnacked U s = firstUnackedIn U None (map snd s)"

fun lastTaskIn :: "uuid_api \<Rightarrow> outgoingInflightEntry option \<Rightarrow> outgoingInflightEntry list \<Rightarrow> outgoingInflightEntry option" where
  "lastTaskIn U latest [] = latest"
| "lastTaskIn U latest (e # es) =
     (case latest of
        None \<Rightarrow> lastTaskIn U (Some e) es
      | Some l \<Rightarrow> lastTaskIn U (if outgoingInflightLess U l e then Some e else latest) es)"

definition LastTask :: "uuid_api \<Rightarrow> outgoingInflightStore \<Rightarrow> outgoingInflightEntry option" where
  "LastTask U s = lastTaskIn U None (map snd s)"

section \<open>The connection\<close>

datatype flow_effect =
    EffWrite Packet
  | EffAdvanceCursor DeliveryCursor
  | EffMarkTaskProcessed string UUID
  | EffRemoveOutgoingUnfinished UUID
  | EffCommitProgress
  | EffClose

record outgoingReplayCursor =
  orc_TaskTS :: GoTime
  orc_TaskID :: UUID
  orc_Generation :: int

record flow =
  fl_ID :: string
  fl_inflight :: outgoingInflightStore
  fl_publishBucket :: "Bucket option"
  fl_packetIDFactory :: PacketIDFactory
  fl_conn :: conn
  fl_acksSinceCommit :: int
  fl_commitInFlight :: bool
  fl_wake :: bool
  fl_lastTS :: GoTime
  fl_lastTask :: UUID
  fl_outgoingReplayCursor :: "outgoingReplayCursor option"
  fl_log :: "flow_effect list"

record Message =
  bm_SendClientID :: string
  bm_MessageID :: UUID
  bm_Publish :: "Publish option"
  bm_ExpiredTime :: int
  bm_AckReasonCode :: byte
  bm_Duplicate :: bool

datatype load_error = LoadNotFound | LoadFailed

record flow_env =
  fe_now :: int
  fe_write :: write_env
  fe_advance :: "DeliveryCursor \<Rightarrow> store_error option"
  fe_load :: "UUID \<Rightarrow> load_error + bytes"
  fe_decode :: "bytes \<Rightarrow> Message option"
  fe_shared :: bool
  fe_readCursor :: "string \<Rightarrow> store_error + DeliveryCursor option"
  fe_readTasks :: "string \<Rightarrow> GoTime \<Rightarrow> UUID \<Rightarrow> int \<Rightarrow> store_error + DeliveryTask list"
  fe_newUUID :: UUID
  fe_commitMaxAcks :: int

definition emit :: "flow_effect \<Rightarrow> flow \<Rightarrow> flow" where
  "emit e c = c\<lparr>fl_log := fl_log c @ [e]\<rparr>"

definition putToken :: "flow \<Rightarrow> flow" where
  "putToken c = c\<lparr>fl_publishBucket := map_option PutToken (fl_publishBucket c)\<rparr>"

text \<open>The log has the packet as it is handed to \<open>write\<close>; what the socket takes is in the connection.\<close>

definition flow_write :: "flow_env \<Rightarrow> Packet \<Rightarrow> string \<Rightarrow> flow \<Rightarrow> write_error option \<times> flow" where
  "flow_write env p fullTopic c =
     (let (err, conn) = Client_write (fe_write env) p fullTopic (fl_conn c);
          c = c\<lparr>fl_conn := conn\<rparr>
      in (err, if err = None then emit (EffWrite p) c else c))"

definition flow_close :: "flow \<Rightarrow> flow" where
  "flow_close c = emit EffClose (c\<lparr>fl_conn := conn_close (fl_conn c)\<rparr>)"

definition forgetPacketID :: "u16 \<Rightarrow> flow \<Rightarrow> flow" where
  "forgetPacketID packetID c =
     c\<lparr>fl_conn := (fl_conn c)\<lparr>co_packetIdentifierIDTopic := DeletePacketID packetID (co_packetIdentifierIDTopic (fl_conn c))\<rparr>\<rparr>"

definition completeSharedDeliveryTask :: "flow_env \<Rightarrow> string \<Rightarrow> UUID \<Rightarrow> flow \<Rightarrow> flow" where
  "completeSharedDeliveryTask env shareGroup taskID c =
     (if \<not> fe_shared env then c
      else if shareGroup = [] \<or> taskID = uuid_Nil then c
      else emit (EffMarkTaskProcessed shareGroup taskID) c)"

section \<open>Acknowledgements\<close>

definition maybeCommitOutgoingProgress :: "flow \<Rightarrow> flow" where
  "maybeCommitOutgoingProgress c =
     (if fl_commitInFlight c then c else emit EffCommitProgress (c\<lparr>fl_commitInFlight := True\<rparr>))"

definition recordOutgoingTerminalAcks :: "flow_env \<Rightarrow> int \<Rightarrow> flow \<Rightarrow> flow" where
  "recordOutgoingTerminalAcks env n c =
     (if n \<le> 0 then c
      else
        (let c = c\<lparr>fl_acksSinceCommit := fl_acksSinceCommit c + n\<rparr>
         in if fe_commitMaxAcks env > 0 \<and> fl_acksSinceCommit c \<ge> fe_commitMaxAcks env
            then maybeCommitOutgoingProgress c else c))"

definition inflightCursor :: "flow_env \<Rightarrow> flow \<Rightarrow> outgoingInflightEntry \<Rightarrow> DeliveryCursor" where
  "inflightCursor env c e =
     \<lparr>dc_UpdatedTS = Some (fe_now env), dc_ClientID = fl_ID c, dc_Generation = oe_Generation e, dc_LastTS = oe_TaskTS e,
      dc_LastTaskID = oe_TaskID e\<rparr>"

definition advanceEntry :: "flow_env \<Rightarrow> flow \<Rightarrow> outgoingInflightEntry \<Rightarrow> flow" where
  "advanceEntry env c e =
     (let c = forgetPacketID (oe_PacketID e) c
      in if oe_Retained e
         then (if oe_PersistedInSession e then emit (EffRemoveOutgoingUnfinished (oe_MessageID e)) c else c)
         else
           (let cur = inflightCursor env c e;
                c = (case fe_advance env cur of
                       Some err \<Rightarrow> c
                     | None \<Rightarrow> completeSharedDeliveryTask env (oe_ShareGroup e) (oe_SharedTaskID e) (emit (EffAdvanceCursor cur) c))
            in if oe_PersistedInSession e then emit (EffRemoveOutgoingUnfinished (oe_MessageID e)) c else c))"

definition advanceAckedOutgoingInflight :: "uuid_api \<Rightarrow> flow_env \<Rightarrow> flow \<Rightarrow> flow" where
  "advanceAckedOutgoingInflight U env c =
     (let (entries, s) = PopAckedInOrder U (fl_inflight c);
          c = c\<lparr>fl_inflight := s\<rparr>
      in if length entries = 0 then c
         else
           (let c = foldl (advanceEntry env) c entries;
                c = recordOutgoingTerminalAcks env (int (length entries)) c
            in c\<lparr>fl_wake := True\<rparr>))"

definition completeTerminalOutgoingInflight :: "uuid_api \<Rightarrow> flow_env \<Rightarrow> u16 \<Rightarrow> byte \<Rightarrow> flow \<Rightarrow> flow" where
  "completeTerminalOutgoingInflight U env packetID qos c =
     (case MarkAcked packetID qos (fl_inflight c) of
        None \<Rightarrow> c
      | Some (ackedEntry, s) \<Rightarrow>
          (let c = c\<lparr>fl_inflight := s\<rparr>;
               c = (if fl_publishBucket c \<noteq> None \<and> oe_FlowTokenHeld ackedEntry then putToken c else c)
           in advanceAckedOutgoingInflight U env c))"

definition handlePubAck :: "uuid_api \<Rightarrow> flow_env \<Rightarrow> Puback \<Rightarrow> flow \<Rightarrow> flow" where
  "handlePubAck U env pubAck c =
     (if mqtt5ReasonCodeIsError (pa_ReasonCode pubAck)
      then completeTerminalOutgoingInflight U env (pa_PacketID pubAck) 1 c
      else completeTerminalOutgoingInflight U env (pa_PacketID pubAck) 1 c)"

definition pubrelFor :: "u16 \<Rightarrow> Packet" where
  "pubrelFor packetID = PPubrel \<lparr>pl_Properties = None, pl_PacketID = packetID, pl_ReasonCode = PubrelSuccess\<rparr>"

definition handlePubRec :: "uuid_api \<Rightarrow> flow_env \<Rightarrow> Pubrec \<Rightarrow> flow \<Rightarrow> flow" where
  "handlePubRec U env pubRec c =
     (if mqtt5ReasonCodeIsError (pr_ReasonCode pubRec)
      then completeTerminalOutgoingInflight U env (pr_PacketID pubRec) 2 c
      else
        (let c = (case OIS_Get (fl_inflight c) (pr_PacketID pubRec) of
                    Some e \<Rightarrow>
                      (if oe_QoS e = 2 \<and> oe_State e = outInflightWaitingPubRec
                       then snd (flow_write env (pubrelFor (pr_PacketID pubRec)) []
                              (c\<lparr>fl_inflight := UpdateState (pr_PacketID pubRec) outInflightWaitingPubComp (fl_inflight c)\<rparr>))
                       else c)
                  | None \<Rightarrow> c)
         in forgetPacketID (pr_PacketID pubRec) c))"

definition handlePubComp :: "uuid_api \<Rightarrow> flow_env \<Rightarrow> Pubcomp \<Rightarrow> flow \<Rightarrow> flow" where
  "handlePubComp U env pubcomp c =
     (if mqtt5ReasonCodeIsError (pc_ReasonCode pubcomp)
      then completeTerminalOutgoingInflight U env (pc_PacketID pubcomp) 2 c
      else completeTerminalOutgoingInflight U env (pc_PacketID pubcomp) 2 c)"

section \<open>The rules of an outbound PUBLISH\<close>

definition outboundPayloadFormatInvalid :: "Publish \<Rightarrow> bool" where
  "outboundPayloadFormatInvalid p =
     (case pub_Properties p of
        None \<Rightarrow> False
      | Some props \<Rightarrow>
          (case pp_PayloadFormat props of None \<Rightarrow> False | Some f \<Rightarrow> f = 1 \<and> \<not> utf8_valid (pub_Payload p)))"

definition setMessageExpiry :: "u32 option \<Rightarrow> Publish \<Rightarrow> Publish" where
  "setMessageExpiry e p = p\<lparr>pub_Properties := map_option (\<lambda>props. props\<lparr>pp_MessageExpiry := e\<rparr>) (pub_Properties p)\<rparr>"

text \<open>The result is the packet, or \<open>None\<close> when the message has expired. Go's division of positive numbers truncates.\<close>

definition applyMessageExpiryForDelivery :: "Publish \<Rightarrow> Message \<Rightarrow> int \<Rightarrow> Publish option" where
  "applyMessageExpiryForDelivery publish msg now =
     (let deadline = bm_ExpiredTime msg
      in if deadline = 0 then Some (setMessageExpiry None publish)
         else
           (let remainingNano = deadline - now
            in if remainingNano \<le> 0 then None
               else
                 (let publish = (if pub_Properties publish = None
                                 then publish\<lparr>pub_Properties := Some PublishProperties0\<rparr> else publish);
                      remaining = word_of_int ((remainingNano + 1000000000 - 1) div 1000000000) :: u32
                  in if remaining = 0 then None else Some (setMessageExpiry (Some remaining) publish))))"

definition sanitizeSubscriptionIdentifiers :: "int list \<Rightarrow> int list" where
  "sanitizeSubscriptionIdentifiers subIDs = filter (\<lambda>sid. \<not> (sid < 1 \<or> sid > 268435455)) subIDs"

definition setPublishSubscriptionIdentifiers :: "int list \<Rightarrow> Publish \<Rightarrow> Publish" where
  "setPublishSubscriptionIdentifiers subIDs p =
     (let validSubIDs = sanitizeSubscriptionIdentifiers subIDs
      in if length validSubIDs = 0
         then p\<lparr>pub_Properties := map_option (\<lambda>props. props\<lparr>pp_SubscriptionIdentifier := []\<rparr>) (pub_Properties p)\<rparr>
         else
           (let props = (case pub_Properties p of None \<Rightarrow> PublishProperties0 | Some props \<Rightarrow> props)
            in p\<lparr>pub_Properties := Some (props\<lparr>pp_SubscriptionIdentifier := validSubIDs\<rparr>)\<rparr>))"

definition deliveryQoS :: "int \<Rightarrow> byte" where
  "deliveryQoS taskQoS = (if taskQoS \<ge> 2 then 2 else if taskQoS \<le> 0 then 0 else 1)"

section \<open>Sending a delivery task\<close>

datatype flow_error =
    FlowCursor store_error
  | FlowLoad load_error
  | FlowDecode
  | FlowNoPacketID
  | FlowPacketIDReused
  | FlowWrite write_error

record deliveryInflightState =
  dis_packetID :: u16
  dis_usedFlowToken :: bool
  dis_registeredInflight :: bool

definition taskCursor :: "flow_env \<Rightarrow> flow \<Rightarrow> DeliveryTask \<Rightarrow> DeliveryCursor" where
  "taskCursor env c t =
     \<lparr>dc_UpdatedTS = Some (fe_now env), dc_ClientID = fl_ID c, dc_Generation = dt_Generation t, dc_LastTS = dt_TS t,
      dc_LastTaskID = dt_TaskID t\<rparr>"

definition advanceClientDeliveryCursor :: "flow_env \<Rightarrow> DeliveryTask \<Rightarrow> flow \<Rightarrow> flow_error option \<times> flow" where
  "advanceClientDeliveryCursor env t c =
     (let c = c\<lparr>fl_lastTS := dt_TS t, fl_lastTask := dt_TaskID t\<rparr>;
          cur = taskCursor env c t
      in case fe_advance env cur of
           Some e \<Rightarrow> (Some (FlowCursor e), c)
         | None \<Rightarrow>
             (None, completeSharedDeliveryTask env (dt_ShareGroup t) (dt_SharedTaskID t) (emit (EffAdvanceCursor cur) c)))"

text \<open>\<open>loadClientDeliveryMessage\<close>: the message, or the result of the whole delivery (\<open>handled\<close> or an error).\<close>

definition loadClientDeliveryMessage :: "flow_env \<Rightarrow> DeliveryTask \<Rightarrow> flow \<Rightarrow> (flow_error option \<times> flow) + Message \<times> Publish" where
  "loadClientDeliveryMessage env t c =
     (case fe_load env (dt_MessageID t) of
        Inl LoadNotFound \<Rightarrow> Inl (advanceClientDeliveryCursor env t c)
      | Inl LoadFailed \<Rightarrow> Inl (Some (FlowLoad LoadFailed), c)
      | Inr raw \<Rightarrow>
          (if length raw = 0 then Inl (advanceClientDeliveryCursor env t c)
           else
             (case fe_decode env raw of
                None \<Rightarrow> Inl (Some FlowDecode, c)
              | Some msg \<Rightarrow>
                  (case bm_Publish msg of None \<Rightarrow> Inl (Some FlowDecode, c) | Some publish \<Rightarrow> Inr (msg, publish)))))"

definition applyDeliveryPublishOptions :: "flow_env \<Rightarrow> DeliveryTask \<Rightarrow> Message \<Rightarrow> Publish \<Rightarrow> flow
    \<Rightarrow> (flow_error option \<times> flow) + Publish" where
  "applyDeliveryPublishOptions env t msg publish c =
     (case applyMessageExpiryForDelivery publish msg (fe_now env) of
        None \<Rightarrow> Inl (advanceClientDeliveryCursor env t c)
      | Some publish \<Rightarrow>
          (if outboundPayloadFormatInvalid publish then Inl (advanceClientDeliveryCursor env t c)
           else
             (let publish = (if dt_RetainAsPublished t then publish else publish\<lparr>pub_Retain := False\<rparr>)
              in Inr (setPublishSubscriptionIdentifiers (dt_SubscriptionIDs t) publish))))"

definition newDeliveryInflightEntry :: "flow_env \<Rightarrow> DeliveryTask \<Rightarrow> u16 \<Rightarrow> byte \<Rightarrow> bool \<Rightarrow> outgoingInflightEntry" where
  "newDeliveryInflightEntry env t packetID qos flowTokenHeld =
     \<lparr>oe_PacketID = packetID, oe_QoS = qos, oe_TaskTS = dt_TS t, oe_TaskID = dt_TaskID t, oe_Generation = dt_Generation t,
      oe_MessageID = dt_MessageID t, oe_ShareGroup = dt_ShareGroup t, oe_SharedTaskID = dt_SharedTaskID t,
      oe_Retained = False, oe_PublishPacket = [], oe_FirstPubTime = Some (fe_now env), oe_LastSendTime = Some (fe_now env),
      oe_RetryCount = 0, oe_Acked = False, oe_FlowTokenHeld = flowTokenHeld,
      oe_State = (if qos = 2 then outInflightWaitingPubRec else outInflightWaitingPubAck), oe_PersistedInSession = False\<rparr>"

definition NextPacketID :: "flow \<Rightarrow> u16 \<times> flow" where
  "NextPacketID c =
     (let (packetID, f) = Client_NextPacketID (\<lambda>i. OIS_Get (fl_inflight c) i \<noteq> None) (fl_packetIDFactory c)
      in (packetID, c\<lparr>fl_packetIDFactory := f\<rparr>))"

definition writeAndClose :: "flow_env \<Rightarrow> Disconnect \<Rightarrow> flow \<Rightarrow> flow" where
  "writeAndClose env d c = flow_close (snd (flow_write env (PDisconnect d) [] c))"

text \<open>\<open>GetToken\<close> blocks while the window is empty: then the step is not taken, and the result is \<open>None\<close>.\<close>

definition takeToken :: "flow \<Rightarrow> (bool \<times> flow) option" where
  "takeToken c =
     (case fl_publishBucket c of
        None \<Rightarrow> Some (False, c)
      | Some b \<Rightarrow> map_option (\<lambda>b. (True, c\<lparr>fl_publishBucket := Some b\<rparr>)) (GetToken b))"

definition prepareDeliveryQoSAndInflight :: "flow_env \<Rightarrow> DeliveryTask \<Rightarrow> Publish \<Rightarrow> byte \<Rightarrow> flow
    \<Rightarrow> ((flow_error + deliveryInflightState) \<times> Publish \<times> flow) option" where
  "prepareDeliveryQoSAndInflight env t publish qos c =
     (let publish = publish\<lparr>pub_QoS := qos\<rparr>
      in if qos = 0
         then Some (Inr \<lparr>dis_packetID = 0, dis_usedFlowToken = False, dis_registeredInflight = False\<rparr>,
                    publish\<lparr>pub_PacketID := 0\<rparr>, c)
         else
           (let (packetID, c) = NextPacketID c;
                publish = publish\<lparr>pub_PacketID := packetID\<rparr>
            in if packetID = 0
               then Some (Inl FlowNoPacketID, publish,
                          writeAndClose env (ForQuotaExceeded ''downlink packet identifiers exhausted'') c)
               else
                 (case takeToken c of
                    None \<Rightarrow> None
                  | Some (usedFlowToken, c) \<Rightarrow>
                      (let (replaced, s) = OIS_Put (newDeliveryInflightEntry env t packetID qos usedFlowToken) (fl_inflight c);
                           c = c\<lparr>fl_inflight := s\<rparr>
                       in if replaced
                          then Some (Inl FlowPacketIDReused, publish,
                                 writeAndClose env (ForProtocolError ''downlink packet id reused while inflight'')
                                   (if usedFlowToken then putToken c else c))
                          else Some (Inr \<lparr>dis_packetID = packetID, dis_usedFlowToken = usedFlowToken,
                                          dis_registeredInflight = True\<rparr>, publish, c)))))"

definition releaseDeliveryInflight :: "deliveryInflightState \<Rightarrow> flow \<Rightarrow> flow" where
  "releaseDeliveryInflight inflight c =
     (if dis_registeredInflight inflight
      then
        (let (ok, s) = OIS_Delete (dis_packetID inflight) (fl_inflight c);
             c = c\<lparr>fl_inflight := s\<rparr>
         in if ok \<and> dis_usedFlowToken inflight then putToken c else c)
      else if dis_usedFlowToken inflight then putToken c else c)"

definition handleDeliveryWriteError :: "flow_env \<Rightarrow> DeliveryTask \<Rightarrow> deliveryInflightState \<Rightarrow> write_error \<Rightarrow> flow
    \<Rightarrow> flow_error option \<times> flow" where
  "handleDeliveryWriteError env t inflight err c =
     (let c = releaseDeliveryInflight inflight c
      in case err of
           errOversizedOutboundPublish \<Rightarrow> advanceClientDeliveryCursor env t c
         | WriteFailed \<Rightarrow> (Some (FlowWrite WriteFailed), c))"

definition deliverSingleClientDeliveryTask :: "flow_env \<Rightarrow> DeliveryTask \<Rightarrow> flow \<Rightarrow> (flow_error option \<times> flow) option" where
  "deliverSingleClientDeliveryTask env t c =
     (case loadClientDeliveryMessage env t c of
        Inl r \<Rightarrow> Some r
      | Inr (msg, publish) \<Rightarrow>
          (if dt_NoLocal t \<and> bm_SendClientID msg \<noteq> [] \<and> bm_SendClientID msg = fl_ID c
           then Some (advanceClientDeliveryCursor env t c)
           else
             (case applyDeliveryPublishOptions env t msg publish c of
                Inl r \<Rightarrow> Some r
              | Inr publish \<Rightarrow>
                  (let fullTopic = pub_Topic publish;
                       qos = deliveryQoS (dt_DeliveryQoS t)
                   in case prepareDeliveryQoSAndInflight env t publish qos c of
                        None \<Rightarrow> None
                      | Some (Inl e, publish, c) \<Rightarrow> Some (Some e, c)
                      | Some (Inr inflight, publish, c) \<Rightarrow>
                          (case flow_write env (PPublish publish) fullTopic c of
                             (Some e, c) \<Rightarrow> Some (handleDeliveryWriteError env t inflight e c)
                           | (None, c) \<Rightarrow>
                               (if qos = 0 then Some (advanceClientDeliveryCursor env t c)
                                else Some (None, c\<lparr>fl_lastTS := dt_TS t, fl_lastTask := dt_TaskID t\<rparr>)))))))"

definition canSendMoreDownlink :: "flow \<Rightarrow> bool" where
  "canSendMoreDownlink c =
     (case fl_publishBucket c of
        Some b \<Rightarrow> RemainingToken b > 0
      | None \<Rightarrow> OIS_Len (fl_inflight c) = 0)"

fun deliverClientDeliveryTasks :: "flow_env \<Rightarrow> DeliveryTask list \<Rightarrow> flow \<Rightarrow> flow option" where
  "deliverClientDeliveryTasks env [] c = Some c"
| "deliverClientDeliveryTasks env (t # ts) c =
     (if co_cancelled (fl_conn c) \<or> \<not> canSendMoreDownlink c then Some c
      else
        (case deliverSingleClientDeliveryTask env t c of
           None \<Rightarrow> None
         | Some (Some err, c) \<Rightarrow> Some c
         | Some (None, c) \<Rightarrow> (if \<not> canSendMoreDownlink c then Some c else deliverClientDeliveryTasks env ts c)))"
end
