(* ===== verification/Session_Center.thy ===== *)
theory Session_Center
  imports Prelude
begin

text \<open>
  The session centre: \<open>src/internal/broker/sessioncenter/memory/core.go\<close> with the messages of
  \<open>src/proto/proto_session/session.proto\<close> and the dispatch of \<open>src/internal/broker/sessioncenter/statemachine/state_machine.go\<close>.
  It keeps one session and one owner per client.

  The two Go maps are association lists. Every operation runs under the lock of the centre, so it is one step from one state
  to the next. A clone is the value itself: nothing outside keeps a pointer into the state. Lists of messages have no nil
  elements here, since protobuf decodes none. \<open>time.Now().UnixNano()\<close> is the argument \<open>clock\<close>.
\<close>

section \<open>Messages\<close>

record UserProperty =
  up_Key :: string
  up_Value :: string

record WillMessage =
  wm_Topic :: string
  wm_Payload :: bytes
  wm_Qos :: u32
  wm_Retain :: bool
  wm_Properties :: "(string \<times> string) list"
  wm_ContentType :: "string option"
  wm_ResponseTopic :: "string option"
  wm_CorrelationData :: "bytes option"
  wm_MessageExpiry :: "u32 option"
  wm_UserProperties :: "UserProperty list"
  wm_PayloadFormat :: "u32 option"
  wm_WillDelayInterval :: "u32 option"

datatype MessageState = WAITING_PUBACK | WAITING_PUBREC | WAITING_PUBCOMP | WAITING_PUBREL

record UnfinishedMessage =
  um_MessageID :: string
  um_PacketID :: u32
  um_Qos :: u32
  um_State :: MessageState
  um_SubscribeTopic :: "string option"
  um_IsOutgoing :: bool
  um_FirstPubTime :: int
  um_PublishPacket :: bytes
  um_AckReasonCode :: u32

record OutgoingReplayCursor =
  rcu_TaskUnixMicro :: int
  rcu_TaskID :: string
  rcu_Generation :: int

record Session =
  se_ClientID :: string
  se_WillMessage :: "WillMessage option"
  se_UnfinishedMessages :: "UnfinishedMessage list"
  se_SessionExpiryInterval :: u32
  se_ExpireAtUnixNano :: int
  se_OutgoingReplayCursor :: "OutgoingReplayCursor option"

record SessionOwner =
  so_ClientID :: string
  so_NodeID :: u64
  so_OwnerToken :: string
  so_Online :: bool

record ClusterSessions =
  cs_Sessions :: "(string \<times> Session) list"
  cs_Owners :: "(string \<times> SessionOwner) list"

record OpenSessionForConnectRequest =
  osr_ClientID :: string
  osr_WillMessage :: "WillMessage option"
  osr_SessionExpiryInterval :: u32
  osr_NowUnixNano :: int

record OpenSessionForConnectResponse =
  osp_OldSession :: "Session option"
  osp_OldSessionExists :: bool
  osp_Session :: Session

record TakeOverSessionOwnerResponse =
  top_PreviousOwner :: "SessionOwner option"
  top_PreviousOwnerExists :: bool
  top_Owner :: SessionOwner

record ReplaceSessionStateOnCleanStartRequest =
  rsr_ClientID :: string
  rsr_WillMessage :: "WillMessage option"
  rsr_SessionExpiryInterval :: u32

record SaveOfflineStateRequest =
  sos_ClientID :: string
  sos_UnfinishedMessages :: "UnfinishedMessage list"
  sos_WillMessage :: "WillMessage option"
  sos_ClearWill :: bool
  sos_SessionExpiryInterval :: u32
  sos_NowUnixNano :: int
  sos_OwnerToken :: string
  sos_OutgoingReplayCursor :: "OutgoingReplayCursor option"

record RemoveOutgoingUnfinishedRequest =
  ror_ClientID :: string
  ror_MessageID :: string
  ror_NowUnixNano :: int

record UpsertIncomingUnfinishedRequest =
  uir_ClientID :: string
  uir_PacketID :: u32
  uir_UnfinishedMessage :: "UnfinishedMessage option"
  uir_OwnerToken :: string
  uir_NowUnixNano :: int

record RemoveIncomingUnfinishedRequest =
  rir_ClientID :: string
  rir_PacketID :: u32
  rir_OwnerToken :: string
  rir_NowUnixNano :: int

record CommitOutgoingProgressRequest =
  cop_ClientID :: string
  cop_UnfinishedMessages :: "UnfinishedMessage list"
  cop_OutgoingReplayCursor :: "OutgoingReplayCursor option"
  cop_OwnerToken :: string
  cop_NowUnixNano :: int

section \<open>The centre\<close>

datatype session_error = ClientIDRequired | OwnerRequired | MessageIDRequired | PacketIDRequired | UnfinishedRequired

definition neverExpireSessionInterval :: u32 where
  "neverExpireSessionInterval = NOT 0"

definition NewCore :: ClusterSessions where
  "NewCore = \<lparr>cs_Sessions = [], cs_Owners = []\<rparr>"

definition Session0 :: "string \<Rightarrow> Session" where
  "Session0 clientID =
     \<lparr>se_ClientID = clientID, se_WillMessage = None, se_UnfinishedMessages = [], se_SessionExpiryInterval = 0,
      se_ExpireAtUnixNano = 0, se_OutgoingReplayCursor = None\<rparr>"

definition requestNowUnixNano :: "int \<Rightarrow> int \<Rightarrow> int" where
  "requestNowUnixNano clock now = (if now > 0 then now else clock)"

definition sessionExpired :: "Session option \<Rightarrow> int \<Rightarrow> bool" where
  "sessionExpired s now =
     (case s of
        None \<Rightarrow> False
      | Some session \<Rightarrow> (let expireAt = se_ExpireAtUnixNano session in expireAt > 0 \<and> now \<ge> expireAt))"

definition sessionExpiryDeadlineUnixNano :: "u32 \<Rightarrow> int \<Rightarrow> int" where
  "sessionExpiryDeadlineUnixNano interval now =
     (if interval = 0 \<or> interval = neverExpireSessionInterval then 0 else now + uint interval * 1000000000)"

definition putSession :: "string \<Rightarrow> Session \<Rightarrow> ClusterSessions \<Rightarrow> ClusterSessions" where
  "putSession clientID session s = s\<lparr>cs_Sessions := alist_set clientID session (cs_Sessions s)\<rparr>"

definition deleteSession :: "string \<Rightarrow> ClusterSessions \<Rightarrow> ClusterSessions" where
  "deleteSession clientID s =
     s\<lparr>cs_Sessions := alist_del clientID (cs_Sessions s), cs_Owners := alist_del clientID (cs_Owners s)\<rparr>"

definition ownerTokenMatches :: "ClusterSessions \<Rightarrow> string \<Rightarrow> string \<Rightarrow> bool" where
  "ownerTokenMatches s clientID ownerToken =
     (if ownerToken = [] then True
      else (case alist_get (cs_Owners s) clientID of None \<Rightarrow> True | Some owner \<Rightarrow> so_OwnerToken owner = ownerToken))"

definition mergeOfflineUnfinishedMessages :: "UnfinishedMessage list \<Rightarrow> UnfinishedMessage list \<Rightarrow> UnfinishedMessage list" where
  "mergeOfflineUnfinishedMessages existing offline =
     (let offlineIncoming = map um_PacketID (filter (\<lambda>msg. \<not> um_IsOutgoing msg) offline)
      in filter (\<lambda>msg. \<not> um_IsOutgoing msg \<and> um_PacketID msg \<notin> set offlineIncoming) existing @ offline)"

definition upsertIncomingUnfinishedMessage :: "UnfinishedMessage list \<Rightarrow> UnfinishedMessage \<Rightarrow> UnfinishedMessage list" where
  "upsertIncomingUnfinishedMessage messages unfinished =
     filter (\<lambda>msg. \<not> (\<not> um_IsOutgoing msg \<and> um_PacketID msg = um_PacketID unfinished)) messages @ [unfinished]"

definition openSessionForConnect :: "int \<Rightarrow> OpenSessionForConnectRequest \<Rightarrow> ClusterSessions
    \<Rightarrow> (session_error + OpenSessionForConnectResponse) \<times> ClusterSessions" where
  "openSessionForConnect clock request s =
     (let clientID = osr_ClientID request
      in if clientID = [] then (Inl ClientIDRequired, s)
         else
           (let oldSession = alist_get (cs_Sessions s) clientID;
                now = requestNowUnixNano clock (osr_NowUnixNano request);
                (oldSession, s) = (if sessionExpired oldSession now then (None, deleteSession clientID s) else (oldSession, s));
                effective = (case oldSession of Some old \<Rightarrow> old | None \<Rightarrow> Session0 clientID);
                effective = effective\<lparr>se_ClientID := clientID, se_WillMessage := osr_WillMessage request,
                  se_SessionExpiryInterval := osr_SessionExpiryInterval request, se_ExpireAtUnixNano := 0\<rparr>
            in (Inr \<lparr>osp_OldSession = oldSession, osp_OldSessionExists = (oldSession \<noteq> None), osp_Session = effective\<rparr>,
                putSession clientID effective s)))"

definition takeOverSessionOwner :: "SessionOwner option \<Rightarrow> ClusterSessions
    \<Rightarrow> (session_error + TakeOverSessionOwnerResponse) \<times> ClusterSessions" where
  "takeOverSessionOwner owner s =
     (case owner of
        None \<Rightarrow> (Inl OwnerRequired, s)
      | Some newOwner \<Rightarrow>
          (let clientID = so_ClientID newOwner
           in if clientID = [] then (Inl ClientIDRequired, s)
              else
                (let oldOwner = alist_get (cs_Owners s) clientID
                 in (Inr \<lparr>top_PreviousOwner = oldOwner, top_PreviousOwnerExists = (oldOwner \<noteq> None), top_Owner = newOwner\<rparr>,
                     s\<lparr>cs_Owners := alist_set clientID newOwner (cs_Owners s)\<rparr>))))"

definition replaceSessionStateOnCleanStart :: "ReplaceSessionStateOnCleanStartRequest \<Rightarrow> ClusterSessions
    \<Rightarrow> session_error option \<times> ClusterSessions" where
  "replaceSessionStateOnCleanStart request s =
     (let clientID = rsr_ClientID request
      in if clientID = [] then (Some ClientIDRequired, s)
         else (None, putSession clientID
                 ((Session0 clientID)\<lparr>se_WillMessage := rsr_WillMessage request,
                    se_SessionExpiryInterval := rsr_SessionExpiryInterval request\<rparr>) s))"

definition saveOfflineState :: "int \<Rightarrow> SaveOfflineStateRequest \<Rightarrow> ClusterSessions \<Rightarrow> session_error option \<times> ClusterSessions" where
  "saveOfflineState clock request s =
     (let clientID = sos_ClientID request
      in if clientID = [] then (Some ClientIDRequired, s)
         else if sos_OwnerToken request \<noteq> []
           \<and> (case alist_get (cs_Owners s) clientID of None \<Rightarrow> False | Some owner \<Rightarrow> so_OwnerToken owner \<noteq> sos_OwnerToken request)
         then (None, s)
         else
           (let sessionExpiryInterval = sos_SessionExpiryInterval request
            in if sessionExpiryInterval = 0 then (None, deleteSession clientID s)
               else
                 (let sessionState = (case alist_get (cs_Sessions s) clientID of Some old \<Rightarrow> old | None \<Rightarrow> Session0 clientID);
                      sessionState = sessionState\<lparr>se_ClientID := clientID,
                        se_UnfinishedMessages :=
                          mergeOfflineUnfinishedMessages (se_UnfinishedMessages sessionState) (sos_UnfinishedMessages request),
                        se_OutgoingReplayCursor := sos_OutgoingReplayCursor request,
                        se_SessionExpiryInterval := sessionExpiryInterval,
                        se_ExpireAtUnixNano := sessionExpiryDeadlineUnixNano sessionExpiryInterval
                          (requestNowUnixNano clock (sos_NowUnixNano request))\<rparr>;
                      sessionState =
                        (if sos_ClearWill request then sessionState\<lparr>se_WillMessage := None\<rparr>
                         else if sos_WillMessage request \<noteq> None then sessionState\<lparr>se_WillMessage := sos_WillMessage request\<rparr>
                         else sessionState);
                      s = putSession clientID sessionState s;
                      s = (case alist_get (cs_Owners s) clientID of
                             None \<Rightarrow> s
                           | Some owner \<Rightarrow> s\<lparr>cs_Owners := alist_set clientID (owner\<lparr>so_Online := False\<rparr>) (cs_Owners s)\<rparr>)
                  in (None, s))))"

definition removeOutgoingUnfinished :: "int \<Rightarrow> RemoveOutgoingUnfinishedRequest \<Rightarrow> ClusterSessions
    \<Rightarrow> session_error option \<times> ClusterSessions" where
  "removeOutgoingUnfinished clock request s =
     (let clientID = ror_ClientID request; messageID = ror_MessageID request
      in if clientID = [] then (Some ClientIDRequired, s)
         else if messageID = [] then (Some MessageIDRequired, s)
         else
           (let sessionState = alist_get (cs_Sessions s) clientID
            in if sessionExpired sessionState (requestNowUnixNano clock (ror_NowUnixNano request))
               then (None, deleteSession clientID s)
               else
                 (case sessionState of
                    None \<Rightarrow> (None, s)
                  | Some session \<Rightarrow>
                      (if length (se_UnfinishedMessages session) = 0 then (None, s)
                       else (None, putSession clientID (session\<lparr>se_UnfinishedMessages :=
                          filter (\<lambda>m. \<not> (um_IsOutgoing m \<and> um_MessageID m = messageID)) (se_UnfinishedMessages session)\<rparr>) s)))))"

definition commitOutgoingProgress :: "int \<Rightarrow> CommitOutgoingProgressRequest \<Rightarrow> ClusterSessions
    \<Rightarrow> session_error option \<times> ClusterSessions" where
  "commitOutgoingProgress clock request s =
     (let clientID = cop_ClientID request
      in if clientID = [] then (Some ClientIDRequired, s)
         else if \<not> ownerTokenMatches s clientID (cop_OwnerToken request) then (None, s)
         else
           (let sessionState = alist_get (cs_Sessions s) clientID
            in if sessionExpired sessionState (requestNowUnixNano clock (cop_NowUnixNano request))
               then (None, deleteSession clientID s)
               else
                 (case sessionState of
                    None \<Rightarrow> (None, s)
                  | Some session \<Rightarrow>
                      (None, putSession clientID (session\<lparr>se_ClientID := clientID,
                         se_UnfinishedMessages :=
                           mergeOfflineUnfinishedMessages (se_UnfinishedMessages session) (cop_UnfinishedMessages request),
                         se_OutgoingReplayCursor := cop_OutgoingReplayCursor request\<rparr>) s))))"

definition upsertIncomingUnfinished :: "int \<Rightarrow> UpsertIncomingUnfinishedRequest \<Rightarrow> ClusterSessions
    \<Rightarrow> session_error option \<times> ClusterSessions" where
  "upsertIncomingUnfinished clock request s =
     (let clientID = uir_ClientID request; packetID = uir_PacketID request
      in if clientID = [] then (Some ClientIDRequired, s)
         else if packetID = 0 then (Some PacketIDRequired, s)
         else
           (case uir_UnfinishedMessage request of
              None \<Rightarrow> (Some UnfinishedRequired, s)
            | Some m \<Rightarrow>
                (if \<not> ownerTokenMatches s clientID (uir_OwnerToken request) then (None, s)
                 else
                   (let sessionState = alist_get (cs_Sessions s) clientID;
                        (sessionState, s) =
                          (if sessionExpired sessionState (requestNowUnixNano clock (uir_NowUnixNano request))
                           then (None, deleteSession clientID s) else (sessionState, s));
                        session = (case sessionState of Some old \<Rightarrow> old | None \<Rightarrow> Session0 clientID);
                        unfinished = m\<lparr>um_PacketID := packetID, um_Qos := 2, um_State := WAITING_PUBREL, um_IsOutgoing := False\<rparr>
                    in (None, putSession clientID (session\<lparr>se_ClientID := clientID,
                          se_UnfinishedMessages := upsertIncomingUnfinishedMessage (se_UnfinishedMessages session) unfinished\<rparr>) s)))))"

definition removeIncomingUnfinished :: "int \<Rightarrow> RemoveIncomingUnfinishedRequest \<Rightarrow> ClusterSessions
    \<Rightarrow> session_error option \<times> ClusterSessions" where
  "removeIncomingUnfinished clock request s =
     (let clientID = rir_ClientID request; packetID = rir_PacketID request
      in if clientID = [] then (Some ClientIDRequired, s)
         else if packetID = 0 then (Some PacketIDRequired, s)
         else if \<not> ownerTokenMatches s clientID (rir_OwnerToken request) then (None, s)
         else
           (let sessionState = alist_get (cs_Sessions s) clientID
            in if sessionExpired sessionState (requestNowUnixNano clock (rir_NowUnixNano request))
               then (None, deleteSession clientID s)
               else
                 (case sessionState of
                    None \<Rightarrow> (None, s)
                  | Some session \<Rightarrow>
                      (if length (se_UnfinishedMessages session) = 0 then (None, s)
                       else (None, putSession clientID (session\<lparr>se_UnfinishedMessages :=
                          filter (\<lambda>m. \<not> (\<not> um_IsOutgoing m \<and> um_PacketID m = packetID)) (se_UnfinishedMessages session)\<rparr>) s)))))"

definition GetSession :: "int \<Rightarrow> string \<Rightarrow> int \<Rightarrow> ClusterSessions \<Rightarrow> Session option" where
  "GetSession clock clientID now s =
     (let session = alist_get (cs_Sessions s) clientID
      in if sessionExpired session (requestNowUnixNano clock now) then None else session)"

definition GetSessionOwner :: "string \<Rightarrow> ClusterSessions \<Rightarrow> SessionOwner option" where
  "GetSessionOwner clientID s = alist_get (cs_Owners s) clientID"

fun ownerItems :: "ClusterSessions \<Rightarrow> string list \<Rightarrow> string list \<Rightarrow> (string \<times> SessionOwner option) list" where
  "ownerItems s seen [] = []"
| "ownerItems s seen (clientID # ids) =
     (if clientID = [] \<or> clientID \<in> set seen then ownerItems s seen ids
      else (clientID, alist_get (cs_Owners s) clientID) # ownerItems s (clientID # seen) ids)"

definition GetSessionOwners :: "string list \<Rightarrow> ClusterSessions \<Rightarrow> (string \<times> SessionOwner option) list" where
  "GetSessionOwners clientIDs s = ownerItems s [] clientIDs"

text \<open>The loop over the map deletes entries of the map it ranges over, which Go allows.\<close>

definition DeleteExpiredSessions :: "int \<Rightarrow> int \<Rightarrow> ClusterSessions \<Rightarrow> string list \<times> ClusterSessions" where
  "DeleteExpiredSessions clock nowUnixNano s =
     (let now = requestNowUnixNano clock nowUnixNano;
          deleted = map fst (filter (\<lambda>(clientID, session). sessionExpired (Some session) now) (cs_Sessions s))
      in (deleted, foldl (\<lambda>s clientID. deleteSession clientID s) s deleted))"

section \<open>Requests\<close>

datatype session_request =
    OPEN_SESSION_FOR_CONNECT OpenSessionForConnectRequest
  | TAKE_OVER_SESSION_OWNER "SessionOwner option"
  | REPLACE_SESSION_STATE_ON_CLEAN_START ReplaceSessionStateOnCleanStartRequest
  | SAVE_OFFLINE_STATE SaveOfflineStateRequest
  | DELETE_SESSION string
  | REMOVE_OUTGOING_UNFINISHED RemoveOutgoingUnfinishedRequest
  | DELETE_EXPIRED_SESSIONS int
  | UPSERT_INCOMING_UNFINISHED UpsertIncomingUnfinishedRequest
  | REMOVE_INCOMING_UNFINISHED RemoveIncomingUnfinishedRequest
  | COMMIT_OUTGOING_PROGRESS CommitOutgoingProgressRequest

definition StateMachine_Update :: "int \<Rightarrow> session_request \<Rightarrow> ClusterSessions \<Rightarrow> session_error option \<times> ClusterSessions" where
  "StateMachine_Update clock req s =
     (case req of
        OPEN_SESSION_FOR_CONNECT r \<Rightarrow>
          (case openSessionForConnect clock r s of (Inl e, s) \<Rightarrow> (Some e, s) | (Inr response, s) \<Rightarrow> (None, s))
      | TAKE_OVER_SESSION_OWNER owner \<Rightarrow>
          (case takeOverSessionOwner owner s of (Inl e, s) \<Rightarrow> (Some e, s) | (Inr response, s) \<Rightarrow> (None, s))
      | REPLACE_SESSION_STATE_ON_CLEAN_START r \<Rightarrow> replaceSessionStateOnCleanStart r s
      | SAVE_OFFLINE_STATE r \<Rightarrow> saveOfflineState clock r s
      | DELETE_SESSION clientID \<Rightarrow> (None, deleteSession clientID s)
      | REMOVE_OUTGOING_UNFINISHED r \<Rightarrow> removeOutgoingUnfinished clock r s
      | DELETE_EXPIRED_SESSIONS now \<Rightarrow> (None, snd (DeleteExpiredSessions clock now s))
      | UPSERT_INCOMING_UNFINISHED r \<Rightarrow> upsertIncomingUnfinished clock r s
      | REMOVE_INCOMING_UNFINISHED r \<Rightarrow> removeIncomingUnfinished clock r s
      | COMMIT_OUTGOING_PROGRESS r \<Rightarrow> commitOutgoingProgress clock r s)"


section \<open>Well-formed sessions\<close>

definition incoming_ok :: "UnfinishedMessage list \<Rightarrow> bool" where
  "incoming_ok ms \<longleftrightarrow>
     distinct (map um_PacketID (filter (\<lambda>m. \<not> um_IsOutgoing m) ms))
     \<and> (\<forall>m\<in>set ms. \<not> um_IsOutgoing m \<longrightarrow> um_PacketID m \<noteq> 0 \<and> um_Qos m = 2 \<and> um_State m = WAITING_PUBREL)"

definition expiry_ok :: "Session \<Rightarrow> bool" where
  "expiry_ok v \<longleftrightarrow> se_ExpireAtUnixNano v = 0
     \<or> 0 < se_ExpireAtUnixNano v \<and> se_SessionExpiryInterval v \<noteq> 0 \<and> se_SessionExpiryInterval v \<noteq> neverExpireSessionInterval"

definition session_ok :: "string \<Rightarrow> Session \<Rightarrow> bool" where
  "session_ok k v \<longleftrightarrow> k \<noteq> [] \<and> se_ClientID v = k \<and> incoming_ok (se_UnfinishedMessages v) \<and> expiry_ok v"

definition centre_ok :: "ClusterSessions \<Rightarrow> bool" where
  "centre_ok s \<longleftrightarrow>
     distinct (alist_keys (cs_Sessions s)) \<and> (\<forall>k v. alist_get (cs_Sessions s) k = Some v \<longrightarrow> session_ok k v)
     \<and> distinct (alist_keys (cs_Owners s)) \<and> (\<forall>k o'. alist_get (cs_Owners s) k = Some o' \<longrightarrow> k \<noteq> [] \<and> so_ClientID o' = k)"

definition session_request_ok :: "session_request \<Rightarrow> bool" where
  "session_request_ok req =
     (case req of
        SAVE_OFFLINE_STATE r \<Rightarrow> incoming_ok (sos_UnfinishedMessages r)
      | COMMIT_OUTGOING_PROGRESS r \<Rightarrow> incoming_ok (cop_UnfinishedMessages r)
      | _ \<Rightarrow> True)"

definition session_run :: "(int \<times> session_request) list \<Rightarrow> ClusterSessions \<Rightarrow> ClusterSessions" where
  "session_run reqs s = foldl (\<lambda>s (clock, req). snd (StateMachine_Update clock req s)) s reqs"

lemma incoming_ok_filter: "incoming_ok ms \<Longrightarrow> incoming_ok (filter P ms)"
proof -
  have "filter (\<lambda>m. \<not> um_IsOutgoing m) (filter P ms) = filter P (filter (\<lambda>m. \<not> um_IsOutgoing m) ms)"
    by (simp add: conj_commute)
  moreover assume "incoming_ok ms"
  ultimately show "incoming_ok (filter P ms)" unfolding incoming_ok_def by (simp only: distinct_map_filter set_filter) blast
qed

lemma incoming_ok_merge:
  assumes "incoming_ok xs" "incoming_ok ys"
  shows "incoming_ok (mergeOfflineUnfinishedMessages xs ys)"
proof -
  let ?P = "\<lambda>m. um_PacketID m \<notin> set (map um_PacketID (filter (\<lambda>m. \<not> um_IsOutgoing m) ys))"
  have "filter (\<lambda>m. \<not> um_IsOutgoing m) (filter (\<lambda>m. \<not> um_IsOutgoing m \<and> ?P m) xs) = filter ?P (filter (\<lambda>m. \<not> um_IsOutgoing m) xs)"
    by (simp add: conj_commute)
  moreover have "distinct (map um_PacketID (filter ?P (filter (\<lambda>m. \<not> um_IsOutgoing m) xs)))"
    using assms(1) unfolding incoming_ok_def by (blast intro: distinct_map_filter)
  ultimately show ?thesis
    using assms unfolding incoming_ok_def mergeOfflineUnfinishedMessages_def Let_def by auto
qed

lemma incoming_ok_upsert:
  assumes "incoming_ok ms" "\<not> um_IsOutgoing m" "um_PacketID m \<noteq> 0" "um_Qos m = 2" "um_State m = WAITING_PUBREL"
  shows "incoming_ok (upsertIncomingUnfinishedMessage ms m)"
  using incoming_ok_filter [OF assms(1), of "\<lambda>x. \<not> (\<not> um_IsOutgoing x \<and> um_PacketID x = um_PacketID m)"] assms(2-5)
  unfolding incoming_ok_def upsertIncomingUnfinishedMessage_def by auto

lemma session_ok_new: "k \<noteq> [] \<Longrightarrow> session_ok k (Session0 k)"
  by (simp add: session_ok_def Session0_def incoming_ok_def expiry_ok_def)

lemma centre_ok_put: "centre_ok s \<Longrightarrow> session_ok k v \<Longrightarrow> centre_ok (putSession k v s)"
  by (auto simp: centre_ok_def putSession_def split: if_splits)

lemma centre_ok_del: "centre_ok s \<Longrightarrow> centre_ok (deleteSession k s)"
  by (auto simp: centre_ok_def deleteSession_def split: if_splits)

lemma centre_ok_owner: "centre_ok s \<Longrightarrow> k \<noteq> [] \<Longrightarrow> so_ClientID o' = k \<Longrightarrow> centre_ok (s\<lparr>cs_Owners := alist_set k o' (cs_Owners s)\<rparr>)"
  by (auto simp: centre_ok_def split: if_splits)

lemma centre_ok_get: "centre_ok s \<Longrightarrow> alist_get (cs_Sessions s) k = Some v \<Longrightarrow> session_ok k v"
  by (simp add: centre_ok_def)

lemma centre_ok_get_owner: "centre_ok s \<Longrightarrow> alist_get (cs_Owners s) k = Some v \<Longrightarrow> k \<noteq> [] \<and> so_ClientID v = k"
  by (simp add: centre_ok_def)

lemma centre_ok_session: "centre_ok s \<Longrightarrow> k \<noteq> [] \<Longrightarrow>
    session_ok k (case alist_get (cs_Sessions s) k of Some old \<Rightarrow> old | None \<Rightarrow> Session0 k)"
  by (simp add: session_ok_new centre_ok_get split: option.splits)

lemma centre_ok_new: "centre_ok NewCore"
  by (simp add: centre_ok_def NewCore_def)

lemma deadline_ok:
  assumes "0 < clock"
  shows "expiry_ok (v\<lparr>se_SessionExpiryInterval := i,
    se_ExpireAtUnixNano := sessionExpiryDeadlineUnixNano i (requestNowUnixNano clock now)\<rparr>)"
proof -
  have "0 < requestNowUnixNano clock now + uint i * 1000000000"
    by (rule add_pos_nonneg) (use assms in \<open>simp_all add: requestNowUnixNano_def\<close>)
  then show ?thesis by (simp add: expiry_ok_def sessionExpiryDeadlineUnixNano_def)
qed

lemma openSession_ok: "centre_ok s \<Longrightarrow> centre_ok (snd (openSessionForConnect clock r s))"
  using centre_ok_session [of s "osr_ClientID r"] session_ok_new [of "osr_ClientID r"]
  by (auto simp: openSessionForConnect_def Let_def session_ok_def expiry_ok_def
      intro!: centre_ok_put centre_ok_del split: option.splits)

lemma takeOver_ok: "centre_ok s \<Longrightarrow> centre_ok (snd (takeOverSessionOwner owner s))"
  by (auto simp: takeOverSessionOwner_def Let_def intro!: centre_ok_owner split: option.splits)

lemma replace_ok: "centre_ok s \<Longrightarrow> centre_ok (snd (replaceSessionStateOnCleanStart r s))"
  using session_ok_new [of "rsr_ClientID r"]
  by (auto simp: replaceSessionStateOnCleanStart_def Let_def session_ok_def expiry_ok_def Session0_def intro!: centre_ok_put)

lemma centre_ok_offline: "centre_ok s \<Longrightarrow>
    centre_ok (case alist_get (cs_Owners s) k of None \<Rightarrow> s
      | Some owner \<Rightarrow> s\<lparr>cs_Owners := alist_set k (owner\<lparr>so_Online := False\<rparr>) (cs_Owners s)\<rparr>)"
  by (auto dest: centre_ok_get_owner intro!: centre_ok_owner split: option.splits)

lemma saveOffline_ok:
  assumes "centre_ok s" "incoming_ok (sos_UnfinishedMessages r)" "0 < clock"
  shows "centre_ok (snd (saveOfflineState clock r s))"
proof (cases "sos_ClientID r = []")
  case False
  let ?v = "case alist_get (cs_Sessions s) (sos_ClientID r) of Some old \<Rightarrow> old | None \<Rightarrow> Session0 (sos_ClientID r)"
  have v: "session_ok (sos_ClientID r) ?v" by (rule centre_ok_session [OF assms(1) False])
  have "session_ok (sos_ClientID r) (?v\<lparr>se_ClientID := sos_ClientID r,
      se_UnfinishedMessages := mergeOfflineUnfinishedMessages (se_UnfinishedMessages ?v) (sos_UnfinishedMessages r),
      se_OutgoingReplayCursor := sos_OutgoingReplayCursor r, se_SessionExpiryInterval := sos_SessionExpiryInterval r,
      se_ExpireAtUnixNano := sessionExpiryDeadlineUnixNano (sos_SessionExpiryInterval r)
        (requestNowUnixNano clock (sos_NowUnixNano r)), se_WillMessage := w\<rparr>)" for w
    using v incoming_ok_merge [OF _ assms(2)] deadline_ok [OF assms(3), where v = ?v and i = "sos_SessionExpiryInterval r" and now = "sos_NowUnixNano r"]
    by (simp add: session_ok_def expiry_ok_def)
  note w = this this [of "se_WillMessage ?v"]
  have "centre_ok (putSession (sos_ClientID r) v' s)" if "session_ok (sos_ClientID r) v'" for v'
    by (rule centre_ok_put [OF assms(1) that])
  then show ?thesis
    using False assms(1) w
    by (simp add: saveOfflineState_def Let_def centre_ok_del centre_ok_offline)
qed (use assms in \<open>simp add: saveOfflineState_def Let_def\<close>)

lemma removeOutgoing_ok: "centre_ok s \<Longrightarrow> centre_ok (snd (removeOutgoingUnfinished clock r s))"
  by (auto simp: removeOutgoingUnfinished_def Let_def session_ok_def expiry_ok_def
      intro!: centre_ok_put centre_ok_del incoming_ok_filter dest: centre_ok_get split: option.splits)

lemma removeIncoming_ok: "centre_ok s \<Longrightarrow> centre_ok (snd (removeIncomingUnfinished clock r s))"
  by (auto simp: removeIncomingUnfinished_def Let_def session_ok_def expiry_ok_def
      intro!: centre_ok_put centre_ok_del incoming_ok_filter dest: centre_ok_get split: option.splits)

lemma commitOutgoing_ok:
  "centre_ok s \<Longrightarrow> incoming_ok (cop_UnfinishedMessages r) \<Longrightarrow> centre_ok (snd (commitOutgoingProgress clock r s))"
  by (auto simp: commitOutgoingProgress_def Let_def session_ok_def expiry_ok_def
      intro!: centre_ok_put centre_ok_del incoming_ok_merge dest: centre_ok_get split: option.splits)

lemma upsertIncoming_ok:
  assumes "centre_ok s"
  shows "centre_ok (snd (upsertIncomingUnfinished clock r s))"
proof -
  have "session_ok k (v\<lparr>se_ClientID := k, se_UnfinishedMessages := upsertIncomingUnfinishedMessage (se_UnfinishedMessages v)
      (m\<lparr>um_PacketID := p, um_Qos := 2, um_State := WAITING_PUBREL, um_IsOutgoing := False\<rparr>)\<rparr>)"
    if "session_ok k v" "p \<noteq> 0" for k v p m
    using that by (simp add: session_ok_def expiry_ok_def incoming_ok_upsert)
  then show ?thesis
    using assms session_ok_new [of "uir_ClientID r"]
    by (auto simp: upsertIncomingUnfinished_def Let_def intro!: centre_ok_put centre_ok_del dest: centre_ok_get split: option.splits)
qed

lemma deleteSessions_ok: "centre_ok s \<Longrightarrow> centre_ok (foldl (\<lambda>s k. deleteSession k s) s ks)"
  by (induction ks arbitrary: s) (simp_all add: centre_ok_del)

lemma Update_ok:
  assumes "centre_ok s" "session_request_ok req" "0 < clock"
  shows "centre_ok (snd (StateMachine_Update clock req s))"
proof -
  have o1: "centre_ok (snd (case openSessionForConnect clock r s of (Inl e, s) \<Rightarrow> (Some e, s) | (Inr response, s) \<Rightarrow> (None, s)))" for r
    using openSession_ok [OF assms(1), of clock r] by (auto split: prod.splits sum.splits)
  have o2: "centre_ok (snd (case takeOverSessionOwner r s of (Inl e, s) \<Rightarrow> (Some e, s) | (Inr response, s) \<Rightarrow> (None, s)))" for r
    using takeOver_ok [OF assms(1), of r] by (auto split: prod.splits sum.splits)
  show ?thesis
    using assms(2)
    by (cases req)
      (simp_all add: StateMachine_Update_def session_request_ok_def o1 o2 replace_ok saveOffline_ok centre_ok_del removeOutgoing_ok
        removeIncoming_ok upsertIncoming_ok commitOutgoing_ok DeleteExpiredSessions_def Let_def deleteSessions_ok assms(1,3))
qed

text \<open>C35: Sessions stay well formed. After any sequence of requests on a new centre, whatever their arguments and with one
  condition on the messages a connection saves, every client has at most one session and one owner, each stored under its own
  nonempty client identifier; at most one unfinished message received from the client exists for a packet identifier, it has
  quality of service 2 and waits for PUBREL; and a session with a deadline has an interval that expires.\<close>

theorem sessions_well_formed:
  assumes "\<forall>(clock, req)\<in>set reqs. 0 < clock \<and> session_request_ok req"
  shows "centre_ok (session_run reqs NewCore)"
proof -
  have "centre_ok (session_run reqs s)" if "centre_ok s" for s
    using assms that unfolding session_run_def
  proof (induction reqs arbitrary: s)
    case (Cons q reqs)
    obtain clock req where q: "q = (clock, req)" by (cases q)
    then have "centre_ok (snd (StateMachine_Update clock req s))" using Cons.prems by (intro Update_ok) simp_all
    then show ?case using Cons.IH Cons.prems(1) by (simp add: q)
  qed simp
  then show ?thesis using centre_ok_new .
qed

definition example_will :: WillMessage where
  "example_will =
     \<lparr>wm_Topic = ''w'', wm_Payload = [1], wm_Qos = 1, wm_Retain = False, wm_Properties = [], wm_ContentType = None,
      wm_ResponseTopic = None, wm_CorrelationData = None, wm_MessageExpiry = None, wm_UserProperties = [], wm_PayloadFormat = None,
      wm_WillDelayInterval = None\<rparr>"

definition example_message :: "u32 \<Rightarrow> bool \<Rightarrow> UnfinishedMessage" where
  "example_message k out =
     \<lparr>um_MessageID = ''m'', um_PacketID = k, um_Qos = 2, um_State = (if out then WAITING_PUBREC else WAITING_PUBREL),
      um_SubscribeTopic = None, um_IsOutgoing = out, um_FirstPubTime = 3, um_PublishPacket = [], um_AckReasonCode = 0\<rparr>"

definition example_save :: SaveOfflineStateRequest where
  "example_save =
     \<lparr>sos_ClientID = ''c'', sos_UnfinishedMessages = [example_message 4 True], sos_WillMessage = None, sos_ClearWill = False,
      sos_SessionExpiryInterval = 10, sos_NowUnixNano = 100, sos_OwnerToken = ''t'', sos_OutgoingReplayCursor = None\<rparr>"

definition example_open :: "int \<Rightarrow> OpenSessionForConnectRequest" where
  "example_open now = \<lparr>osr_ClientID = ''c'', osr_WillMessage = Some example_will, osr_SessionExpiryInterval = 10, osr_NowUnixNano = now\<rparr>"

definition example_requests :: "(int \<times> session_request) list" where
  "example_requests =
     [(1, OPEN_SESSION_FOR_CONNECT (example_open 50)),
      (1, TAKE_OVER_SESSION_OWNER (Some \<lparr>so_ClientID = ''c'', so_NodeID = 1, so_OwnerToken = ''t'', so_Online = True\<rparr>)),
      (1, UPSERT_INCOMING_UNFINISHED \<lparr>uir_ClientID = ''c'', uir_PacketID = 9, uir_UnfinishedMessage = Some (example_message 3 True),
         uir_OwnerToken = ''t'', uir_NowUnixNano = 60\<rparr>)]"

lemma example_state:
  "alist_get (cs_Sessions (session_run example_requests NewCore)) ''c'' =
     Some \<lparr>se_ClientID = ''c'', se_WillMessage = Some example_will,
       se_UnfinishedMessages = [(example_message 3 True)\<lparr>um_PacketID := 9, um_State := WAITING_PUBREL, um_IsOutgoing := False\<rparr>],
       se_SessionExpiryInterval = 10, se_ExpireAtUnixNano = 0, se_OutgoingReplayCursor = None\<rparr>"
  "alist_get (cs_Owners (session_run example_requests NewCore)) ''c'' =
     Some \<lparr>so_ClientID = ''c'', so_NodeID = 1, so_OwnerToken = ''t'', so_Online = True\<rparr>"
  by (simp_all add: session_run_def example_requests_def StateMachine_Update_def openSessionForConnect_def example_open_def
      NewCore_def sessionExpired_def Session0_def putSession_def takeOverSessionOwner_def upsertIncomingUnfinished_def
      ownerTokenMatches_def upsertIncomingUnfinishedMessage_def example_message_def Let_def)

theorem sessions_well_formed_witness:
  "centre_ok (session_run example_requests NewCore)
    \<and> map um_PacketID (se_UnfinishedMessages (the (alist_get (cs_Sessions (session_run example_requests NewCore)) ''c''))) = [9]"
proof -
  have "\<forall>(clock, req)\<in>set example_requests. 0 < clock \<and> session_request_ok req"
    by (simp add: example_requests_def session_request_ok_def)
  from sessions_well_formed [OF this] show ?thesis by (simp add: example_state)
qed

section \<open>Disconnecting and coming back\<close>

fun request_client :: "session_request \<Rightarrow> string option" where
  "request_client (OPEN_SESSION_FOR_CONNECT r) = Some (osr_ClientID r)"
| "request_client (TAKE_OVER_SESSION_OWNER owner) = map_option so_ClientID owner"
| "request_client (REPLACE_SESSION_STATE_ON_CLEAN_START r) = Some (rsr_ClientID r)"
| "request_client (SAVE_OFFLINE_STATE r) = Some (sos_ClientID r)"
| "request_client (DELETE_SESSION k) = Some k"
| "request_client (REMOVE_OUTGOING_UNFINISHED r) = Some (ror_ClientID r)"
| "request_client (DELETE_EXPIRED_SESSIONS now) = None"
| "request_client (UPSERT_INCOMING_UNFINISHED r) = Some (uir_ClientID r)"
| "request_client (REMOVE_INCOMING_UNFINISHED r) = Some (rir_ClientID r)"
| "request_client (COMMIT_OUTGOING_PROGRESS r) = Some (cop_ClientID r)"

text \<open>A request that does not concern client \<open>k\<close>, whose session has the deadline \<open>d\<close>: one of another client, or a clean-up
  before the deadline.\<close>

definition leaves_alone :: "string \<Rightarrow> int \<Rightarrow> int \<Rightarrow> session_request \<Rightarrow> bool" where
  "leaves_alone k d clock req =
     (case req of
        DELETE_EXPIRED_SESSIONS now \<Rightarrow> d \<le> 0 \<or> requestNowUnixNano clock now < d
      | _ \<Rightarrow> request_client req \<noteq> Some k)"

lemma get_put_other: "k \<noteq> k' \<Longrightarrow> alist_get (cs_Sessions (putSession k' v s)) k = alist_get (cs_Sessions s) k"
  by (simp add: putSession_def)

lemma get_delete_other: "k \<noteq> k' \<Longrightarrow> alist_get (cs_Sessions (deleteSession k' s)) k = alist_get (cs_Sessions s) k"
  by (simp add: deleteSession_def)

lemma get_deletes_other: "k \<notin> set ks \<Longrightarrow>
    alist_get (cs_Sessions (foldl (\<lambda>s k'. deleteSession k' s) s ks)) k = alist_get (cs_Sessions s) k"
  by (induction ks arbitrary: s) (simp_all add: get_delete_other)

lemmas request_defs =
  openSessionForConnect_def takeOverSessionOwner_def replaceSessionStateOnCleanStart_def saveOfflineState_def
  removeOutgoingUnfinished_def commitOutgoingProgress_def upsertIncomingUnfinished_def removeIncomingUnfinished_def

lemma Update_other:
  assumes "centre_ok s" "alist_get (cs_Sessions s) k = Some v" "leaves_alone k (se_ExpireAtUnixNano v) clock req"
  shows "alist_get (cs_Sessions (snd (StateMachine_Update clock req s))) k = Some v"
proof (cases req)
  case (DELETE_EXPIRED_SESSIONS now)
  let ?ks = "map fst (filter (\<lambda>(k', v'). sessionExpired (Some v') (requestNowUnixNano clock now)) (cs_Sessions s))"
  have "distinct (alist_keys (cs_Sessions s))" using assms(1) by (simp add: centre_ok_def)
  then have "(k, v') \<in> set (cs_Sessions s) \<Longrightarrow> v' = v" for v'
    using assms(2) alist_get_eq_Some_iff [of "cs_Sessions s" k] by fastforce
  then have "k \<notin> set ?ks"
    using assms(3) DELETE_EXPIRED_SESSIONS by (auto simp: leaves_alone_def sessionExpired_def Let_def)
  then show ?thesis
    using assms(2) DELETE_EXPIRED_SESSIONS
    by (simp add: StateMachine_Update_def DeleteExpiredSessions_def Let_def get_deletes_other)
qed (use assms(2,3) in \<open>auto simp: StateMachine_Update_def leaves_alone_def request_defs Let_def get_put_other get_delete_other
      split: option.splits prod.splits sum.splits if_splits\<close>)

lemma run_other:
  assumes "centre_ok s" "alist_get (cs_Sessions s) k = Some v"
    and "\<forall>(clock, req)\<in>set reqs. 0 < clock \<and> session_request_ok req \<and> leaves_alone k (se_ExpireAtUnixNano v) clock req"
  shows "alist_get (cs_Sessions (session_run reqs s)) k = Some v"
  using assms unfolding session_run_def
proof (induction reqs arbitrary: s)
  case (Cons q reqs)
  obtain clock req where q: "q = (clock, req)" by (cases q)
  have "centre_ok (snd (StateMachine_Update clock req s))" using Cons.prems by (intro Update_ok) (simp_all add: q)
  moreover have "alist_get (cs_Sessions (snd (StateMachine_Update clock req s))) k = Some v"
    using Cons.prems by (intro Update_other) (simp_all add: q)
  ultimately show ?case using Cons.IH Cons.prems(3) by (simp add: q)
qed simp

text \<open>The session a connection leaves behind.\<close>

definition offlineSession :: "int \<Rightarrow> SaveOfflineStateRequest \<Rightarrow> ClusterSessions \<Rightarrow> Session" where
  "offlineSession clock r s =
     (let v = (case alist_get (cs_Sessions s) (sos_ClientID r) of Some old \<Rightarrow> old | None \<Rightarrow> Session0 (sos_ClientID r))
      in v\<lparr>se_ClientID := sos_ClientID r,
           se_UnfinishedMessages := mergeOfflineUnfinishedMessages (se_UnfinishedMessages v) (sos_UnfinishedMessages r),
           se_OutgoingReplayCursor := sos_OutgoingReplayCursor r, se_SessionExpiryInterval := sos_SessionExpiryInterval r,
           se_ExpireAtUnixNano := sessionExpiryDeadlineUnixNano (sos_SessionExpiryInterval r)
             (requestNowUnixNano clock (sos_NowUnixNano r)),
           se_WillMessage := (if sos_ClearWill r then None else if sos_WillMessage r \<noteq> None then sos_WillMessage r
             else se_WillMessage v)\<rparr>)"

lemma saveOffline_outcome:
  assumes "sos_ClientID r \<noteq> []" "sos_SessionExpiryInterval r \<noteq> 0"
  shows "\<not> ownerTokenMatches s (sos_ClientID r) (sos_OwnerToken r) \<Longrightarrow> saveOfflineState clock r s = (None, s)"
    and "ownerTokenMatches s (sos_ClientID r) (sos_OwnerToken r) \<Longrightarrow>
      alist_get (cs_Sessions (snd (saveOfflineState clock r s))) (sos_ClientID r) = Some (offlineSession clock r s)"
  using assms
  by (auto simp: saveOfflineState_def ownerTokenMatches_def Let_def putSession_def offlineSession_def split: option.splits if_splits)

lemma open_outcome:
  assumes "k \<noteq> []" "osr_ClientID q = k" "alist_get (cs_Sessions s) k = Some v"
    and "old = (if se_ExpireAtUnixNano v > 0 \<and> requestNowUnixNano t (osr_NowUnixNano q) \<ge> se_ExpireAtUnixNano v then Session0 k else v)"
  shows "\<exists>resp s'. openSessionForConnect t q s = (Inr resp, s')
    \<and> osp_OldSessionExists resp = (\<not> (se_ExpireAtUnixNano v > 0 \<and> requestNowUnixNano t (osr_NowUnixNano q) \<ge> se_ExpireAtUnixNano v))
    \<and> osp_Session resp = old\<lparr>se_ClientID := k, se_WillMessage := osr_WillMessage q,
        se_SessionExpiryInterval := osr_SessionExpiryInterval q, se_ExpireAtUnixNano := 0\<rparr>
    \<and> alist_get (cs_Sessions s') k = Some (osp_Session resp)"
  using assms by (auto simp: openSessionForConnect_def sessionExpired_def putSession_def Let_def)

text \<open>C36: A client finds its session again. When a connection that owns the session saves its state, and until the client
  connects again only requests of other clients and clean-ups before the deadline follow, the next connection finds the session
  exactly when it comes before the deadline. Then it gets the messages that were saved and those it had sent and not released,
  and the cursor to replay from; otherwise it gets an empty session. The will is the one of the new CONNECT in both cases. A
  connection that no longer owns the session changes nothing when it saves.\<close>

theorem offline_state_restored:
  assumes "centre_ok s" "sos_ClientID r = k" "k \<noteq> []" "sos_SessionExpiryInterval r \<noteq> 0" "0 < clock"
    and "incoming_ok (sos_UnfinishedMessages r)"
    and "d = sessionExpiryDeadlineUnixNano (sos_SessionExpiryInterval r) (requestNowUnixNano clock (sos_NowUnixNano r))"
    and "\<forall>(t, req)\<in>set reqs. 0 < t \<and> session_request_ok req \<and> leaves_alone k d t req"
    and "osr_ClientID q = k"
    and "old = (case alist_get (cs_Sessions s) k of Some v \<Rightarrow> se_UnfinishedMessages v | None \<Rightarrow> [])"
  shows "if ownerTokenMatches s k (sos_OwnerToken r)
    then \<exists>resp s'. openSessionForConnect t q (session_run reqs (snd (saveOfflineState clock r s))) = (Inr resp, s')
      \<and> osp_OldSessionExists resp = (d = 0 \<or> requestNowUnixNano t (osr_NowUnixNano q) < d)
      \<and> se_UnfinishedMessages (osp_Session resp) =
          (if osp_OldSessionExists resp then mergeOfflineUnfinishedMessages old (sos_UnfinishedMessages r) else [])
      \<and> se_OutgoingReplayCursor (osp_Session resp) = (if osp_OldSessionExists resp then sos_OutgoingReplayCursor r else None)
      \<and> se_WillMessage (osp_Session resp) = osr_WillMessage q
      \<and> alist_get (cs_Sessions s') k = Some (osp_Session resp)
    else saveOfflineState clock r s = (None, s)"
proof (cases "ownerTokenMatches s k (sos_OwnerToken r)")
  case True
  let ?s = "snd (saveOfflineState clock r s)" and ?v = "offlineSession clock r s"
  have v: "se_ExpireAtUnixNano ?v = d" "se_UnfinishedMessages ?v = mergeOfflineUnfinishedMessages old (sos_UnfinishedMessages r)"
      "se_OutgoingReplayCursor ?v = sos_OutgoingReplayCursor r"
    using assms(2,7,10) by (simp_all add: offlineSession_def Let_def Session0_def split: option.splits)
  have ok: "centre_ok ?s" by (rule saveOffline_ok [OF assms(1,6,5)])
  then have get: "alist_get (cs_Sessions (session_run reqs ?s)) k = Some ?v"
    using run_other [of ?s k ?v reqs] saveOffline_outcome(2) [of r s clock] True assms(2-4,8) v(1) by simp
  have d: "0 \<le> d" using centre_ok_get [OF ok, of k ?v] saveOffline_outcome(2) [of r s clock] True assms(2-4) v(1)
    by (auto simp: session_ok_def expiry_ok_def)
  show ?thesis
    using open_outcome [OF assms(3,9) get refl, where t = t] True d v by (force simp: Session0_def)
qed (use saveOffline_outcome(1) assms in simp)

theorem offline_state_restored_witness:
  "\<exists>resp s'. openSessionForConnect 1 (example_open 200) (snd (saveOfflineState 1 example_save (session_run example_requests NewCore)))
      = (Inr resp, s')
    \<and> osp_OldSessionExists resp \<and> map um_PacketID (se_UnfinishedMessages (osp_Session resp)) = [9, 4]"
proof -
  let ?s = "session_run example_requests NewCore"
  have reqs: "\<forall>(clock, req)\<in>set example_requests. 0 < clock \<and> session_request_ok req"
    by (simp add: example_requests_def session_request_ok_def)
  then have ok: "centre_ok ?s"
    using Update_ok centre_ok_new by (simp add: session_run_def example_requests_def)
  have run_nil: "session_run [] s = s" for s by (simp add: session_run_def)
  have "ownerTokenMatches ?s ''c'' ''t''" by (simp add: ownerTokenMatches_def example_state)
  then show ?thesis
    using offline_state_restored [OF ok, of example_save "''c''" 1 10000000100 "[]" "example_open 200", OF _ _ _ _ _ _ _ _ refl, of 1]
    by (auto simp: example_save_def example_open_def incoming_ok_def example_message_def sessionExpiryDeadlineUnixNano_def
        neverExpireSessionInterval_def requestNowUnixNano_def run_nil example_state mergeOfflineUnfinishedMessages_def)
qed

end
