(* ===== verification/Outgoing_Restore.thy ===== *)
theory Outgoing_Restore
  imports Outgoing_Flow Session_Center
begin

text \<open>
  The rest of the downlink of a connection: retransmission (\<open>delivery_runner.go\<close>), retained messages
  (\<open>retained_delivery.go\<close>), what is saved when the connection ends (\<open>client_lifecycle.go\<close>,
  \<open>outgoing_progress_commit.go\<close>) and how the next connection restores it (\<open>outgoing_inflight_restore.go\<close>).

  Then the steps of a connection as a relation, and its window: tokens are neither lost nor made.
\<close>

section \<open>Configuration\<close>

record DeliveryRunner =
  dr_WakeMaxWait :: int
  dr_WakeReadRetryMaxAttempts :: int
  dr_WakeReadRetryBackoffInitial :: int
  dr_WakeReadRetryBackoffMax :: int
  dr_InflightWaitTick :: int
  dr_InflightRetransmitInterval :: int
  dr_InflightMaxRetries :: int
  dr_InflightMaxAge :: int
  dr_OutgoingCommitInterval :: int
  dr_OutgoingCommitMaxAcks :: int

definition DefaultDeliveryRunner :: DeliveryRunner where
  "DefaultDeliveryRunner =
     \<lparr>dr_WakeMaxWait = 180000000000, dr_WakeReadRetryMaxAttempts = 6, dr_WakeReadRetryBackoffInitial = 50000000,
      dr_WakeReadRetryBackoffMax = 1000000000, dr_InflightWaitTick = 1000000000,
      dr_InflightRetransmitInterval = 5000000000, dr_InflightMaxRetries = 5, dr_InflightMaxAge = 120000000000,
      dr_OutgoingCommitInterval = 5000000000, dr_OutgoingCommitMaxAcks = 500\<rparr>"

definition getDeliveryRunnerConfig :: "DeliveryRunner \<Rightarrow> DeliveryRunner" where
  "getDeliveryRunnerConfig cfg =
     (let cfg = (if dr_WakeMaxWait cfg \<le> 0 then cfg\<lparr>dr_WakeMaxWait := 180000000000\<rparr> else cfg);
          cfg = (if dr_InflightWaitTick cfg \<le> 0 then cfg\<lparr>dr_InflightWaitTick := 1000000000\<rparr> else cfg);
          cfg = (if dr_InflightRetransmitInterval cfg \<le> 0 then cfg\<lparr>dr_InflightRetransmitInterval := 5000000000\<rparr> else cfg);
          cfg = (if dr_InflightMaxRetries cfg < 0 then cfg\<lparr>dr_InflightMaxRetries := 0\<rparr> else cfg);
          cfg = (if dr_InflightMaxAge cfg \<le> 0 then cfg\<lparr>dr_InflightMaxAge := 120000000000\<rparr> else cfg);
          cfg = (if dr_WakeReadRetryMaxAttempts cfg < 0 then cfg\<lparr>dr_WakeReadRetryMaxAttempts := 0\<rparr> else cfg);
          cfg = (if dr_WakeReadRetryBackoffInitial cfg \<le> 0 then cfg\<lparr>dr_WakeReadRetryBackoffInitial := 50000000\<rparr> else cfg);
          cfg = (if dr_WakeReadRetryBackoffMax cfg \<le> 0 then cfg\<lparr>dr_WakeReadRetryBackoffMax := 1000000000\<rparr> else cfg);
          cfg = (if dr_OutgoingCommitInterval cfg < 0 then cfg\<lparr>dr_OutgoingCommitInterval := 0\<rparr> else cfg)
      in if dr_OutgoingCommitMaxAcks cfg < 0 then cfg\<lparr>dr_OutgoingCommitMaxAcks := 0\<rparr> else cfg)"

section \<open>Retransmission\<close>

record storeDeliveryTask =
  sdt_TS :: GoTime
  sdt_TaskID :: UUID
  sdt_MessageID :: UUID
  sdt_Generation :: int
  sdt_SubscriptionIDs :: "int list"
  sdt_RetainAsPublished :: bool

datatype resend_error = ResendWrite write_error | ResendOther

definition findDeliveryTaskByMessageID :: "flow_env \<Rightarrow> flow \<Rightarrow> UUID \<Rightarrow> storeDeliveryTask option" where
  "findDeliveryTaskByMessageID env c messageID =
     (if fl_ID c = [] then None
      else
        (let (lastTS, lastTask) =
               (case fe_readCursor env (fl_ID c) of
                  Inr (Some cur) \<Rightarrow> (dc_LastTS cur, dc_LastTaskID cur)
                | _ \<Rightarrow> (Some 0, uuid_Nil))
         in case fe_readTasks env (fl_ID c) lastTS lastTask 200 of
              Inl err \<Rightarrow> None
            | Inr ts \<Rightarrow>
                map_option (\<lambda>t. \<lparr>sdt_TS = dt_TS t, sdt_TaskID = dt_TaskID t, sdt_MessageID = dt_MessageID t,
                    sdt_Generation = dt_Generation t, sdt_SubscriptionIDs = dt_SubscriptionIDs t,
                    sdt_RetainAsPublished = dt_RetainAsPublished t\<rparr>)
                  (find (\<lambda>t. dt_MessageID t = messageID) ts)))"

definition validateRetransmitPublishArgs :: "storeDeliveryTask \<Rightarrow> byte \<Rightarrow> u16 \<Rightarrow> bool" where
  "validateRetransmitPublishArgs t qos packetID \<longleftrightarrow>
     sdt_MessageID t \<noteq> uuid_Nil \<and> (qos = 1 \<or> qos = 2) \<and> packetID \<noteq> 0"

definition loadRetransmitPublishMessage :: "flow_env \<Rightarrow> storeDeliveryTask \<Rightarrow> Publish option" where
  "loadRetransmitPublishMessage env t =
     (case fe_load env (sdt_MessageID t) of
        Inl err \<Rightarrow> None
      | Inr raw \<Rightarrow>
          (if length raw = 0 then None
           else (case fe_decode env raw of None \<Rightarrow> None | Some msg \<Rightarrow> bm_Publish msg)))"

definition applyRetransmitPublishOptions :: "storeDeliveryTask \<Rightarrow> byte \<Rightarrow> u16 \<Rightarrow> Publish \<Rightarrow> Publish" where
  "applyRetransmitPublishOptions t qos packetID p =
     (let p = (if sdt_RetainAsPublished t then p else p\<lparr>pub_Retain := False\<rparr>);
          p = setPublishSubscriptionIdentifiers (sdt_SubscriptionIDs t) p
      in p\<lparr>pub_QoS := qos, pub_PacketID := packetID, pub_Duplicate := True\<rparr>)"

definition resendResult :: "write_error option \<times> flow \<Rightarrow> resend_error option \<times> flow" where
  "resendResult r = (map_option ResendWrite (fst r), snd r)"

definition retransmitPublishFromTask :: "flow_env \<Rightarrow> storeDeliveryTask \<Rightarrow> byte \<Rightarrow> u16 \<Rightarrow> flow \<Rightarrow> resend_error option \<times> flow" where
  "retransmitPublishFromTask env t qos packetID c =
     (if \<not> validateRetransmitPublishArgs t qos packetID then (Some ResendOther, c)
      else
        (case loadRetransmitPublishMessage env t of
           None \<Rightarrow> (Some ResendOther, c)
         | Some pub \<Rightarrow>
             resendResult (flow_write env (PPublish (applyRetransmitPublishOptions t qos packetID pub)) (pub_Topic pub) c)))"

text \<open>The saved PUBLISH of a retained message, decoded again.\<close>

definition decodeSavedPublish :: "bytes \<Rightarrow> Publish option" where
  "decodeSavedPublish b =
     (case Decode \<lparr>rd_data = b, rd_end = EOF\<rparr> \<lparr>do_MaxPacketSize = 0\<rparr> of
        Inl err \<Rightarrow> None
      | Inr (cp, r) \<Rightarrow> (case cp_Content cp of Some (PPublish p) \<Rightarrow> Some p | _ \<Rightarrow> None))"

definition retransmitRetainedPublishFromEntry :: "flow_env \<Rightarrow> outgoingInflightEntry \<Rightarrow> flow \<Rightarrow> resend_error option \<times> flow" where
  "retransmitRetainedPublishFromEntry env e c =
     (if length (oe_PublishPacket e) = 0 then (Some ResendOther, c)
      else
        (case decodeSavedPublish (oe_PublishPacket e) of
           None \<Rightarrow> (Some ResendOther, c)
         | Some p \<Rightarrow>
             (let p = p\<lparr>pub_PacketID := oe_PacketID e, pub_QoS := oe_QoS e, pub_Duplicate := True\<rparr>
              in resendResult (flow_write env (PPublish p) (pub_Topic p) c))))"

definition retransmitOutgoingInflightEntry :: "flow_env \<Rightarrow> outgoingInflightEntry \<Rightarrow> flow \<Rightarrow> resend_error option \<times> flow" where
  "retransmitOutgoingInflightEntry env e c =
     (case oe_State e of
        outInflightWaitingPubComp \<Rightarrow> resendResult (flow_write env (pubrelFor (oe_PacketID e)) [] c)
      | _ \<Rightarrow>
          (if oe_Retained e \<and> length (oe_PublishPacket e) > 0 then retransmitRetainedPublishFromEntry env e c
           else
             (case findDeliveryTaskByMessageID env c (oe_MessageID e) of
                None \<Rightarrow> (Some ResendOther, c)
              | Some t \<Rightarrow> retransmitPublishFromTask env t (oe_QoS e) (oe_PacketID e) c)))"

definition firstRetransmittableInflight :: "uuid_api \<Rightarrow> flow \<Rightarrow> outgoingInflightEntry option" where
  "firstRetransmittableInflight U c =
     (case FirstUnacked U (fl_inflight c) of
        Some e \<Rightarrow> (if oe_PacketID e \<noteq> 0 then Some e else None)
      | None \<Rightarrow> None)"

definition disconnectForExpiredRetransmit :: "flow_env \<Rightarrow> DeliveryRunner \<Rightarrow> outgoingInflightEntry \<Rightarrow> flow \<Rightarrow> bool \<times> flow" where
  "disconnectForExpiredRetransmit env cfg e c =
     (if dr_InflightMaxAge cfg > 0 \<and> 
        (case oe_FirstPubTime e of None \<Rightarrow> False | Some first \<Rightarrow> fe_now env - first > dr_InflightMaxAge cfg)
      then (True, writeAndClose env (ForQuotaExceeded ''downlink inflight expired without ACK'') c)
      else if dr_InflightMaxRetries cfg \<ge> 0 \<and> oe_RetryCount e \<ge> dr_InflightMaxRetries cfg
      then (True, writeAndClose env (ForQuotaExceeded ''downlink inflight retransmission limit exceeded'') c)
      else (False, c))"

definition shouldWaitForRetransmitInterval :: "flow_env \<Rightarrow> DeliveryRunner \<Rightarrow> outgoingInflightEntry \<Rightarrow> bool" where
  "shouldWaitForRetransmitInterval env cfg e \<longleftrightarrow>
     dr_InflightRetransmitInterval cfg > 0 \<and>
     (case oe_LastSendTime e of None \<Rightarrow> False | Some t \<Rightarrow> fe_now env - t < dr_InflightRetransmitInterval cfg)"

text \<open>The result is the entry, whether a token was taken, and whether the packet may be sent.\<close>

definition acquireRetransmitFlowToken :: "outgoingInflightEntry \<Rightarrow> flow \<Rightarrow> outgoingInflightEntry \<times> bool \<times> bool \<times> flow" where
  "acquireRetransmitFlowToken e c =
     (if oe_FlowTokenHeld e then (e, False, True, c)
      else
        (case fl_publishBucket c of
           None \<Rightarrow> (e, False, True, c)
         | Some b \<Rightarrow>
             (case TryGetToken b of
                (False, b) \<Rightarrow> (e, False, False, c)
              | (True, b) \<Rightarrow>
                  (let c = c\<lparr>fl_publishBucket := Some b\<rparr>
                   in case MarkFlowTokenHeld (oe_PacketID e) (fl_inflight c) of
                        None \<Rightarrow> (e, False, False, putToken c)
                      | Some (updated, s) \<Rightarrow> (updated, True, True, c\<lparr>fl_inflight := s\<rparr>)))))"

definition handleOutgoingRetransmitError :: "outgoingInflightEntry \<Rightarrow> bool \<Rightarrow> resend_error \<Rightarrow> flow \<Rightarrow> flow" where
  "handleOutgoingRetransmitError e tokenAcquired err c =
     (if err = ResendWrite errOversizedOutboundPublish
      then
        (case OIS_Delete (oe_PacketID e) (fl_inflight c) of
           (True, s) \<Rightarrow> putToken (c\<lparr>fl_inflight := s\<rparr>)
         | (False, s) \<Rightarrow> (if tokenAcquired then putToken c else c))
      else if tokenAcquired \<and> fl_publishBucket c \<noteq> None
      then putToken (c\<lparr>fl_inflight := ClearFlowTokenHeld (oe_PacketID e) (fl_inflight c)\<rparr>)
      else c)"

definition maybeRetransmitOutgoingInflight :: "uuid_api \<Rightarrow> flow_env \<Rightarrow> DeliveryRunner \<Rightarrow> flow \<Rightarrow> flow" where
  "maybeRetransmitOutgoingInflight U env cfg c =
     (case firstRetransmittableInflight U c of
        None \<Rightarrow> c
      | Some e \<Rightarrow>
          (case disconnectForExpiredRetransmit env cfg e c of
             (True, c) \<Rightarrow> c
           | (False, c) \<Rightarrow>
               (if shouldWaitForRetransmitInterval env cfg e then c
                else
                  (case acquireRetransmitFlowToken e c of
                     (e, tokenAcquired, False, c) \<Rightarrow> c
                   | (e, tokenAcquired, True, c) \<Rightarrow>
                       (case retransmitOutgoingInflightEntry env e c of
                          (Some err, c) \<Rightarrow> handleOutgoingRetransmitError e tokenAcquired err c
                        | (None, c) \<Rightarrow>
                            c\<lparr>fl_inflight := snd (MarkSent (oe_PacketID e) (Some (fe_now env)) (fl_inflight c))\<rparr>)))))"

section \<open>Retained messages\<close>

definition retainedInflightEntry :: "flow_env \<Rightarrow> Publish \<Rightarrow> bool \<Rightarrow> outgoingInflightEntry" where
  "retainedInflightEntry env publish flowTokenHeld =
     (let now = Some (fe_now env);
          buf = (case Encode (controlPacket (PPublish publish)) \<lparr>eo_MaxPacketSize = 0\<rparr> of Inl err \<Rightarrow> [] | Inr b \<Rightarrow> b)
      in \<lparr>oe_PacketID = pub_PacketID publish, oe_QoS = pub_QoS publish, oe_TaskTS = now, oe_TaskID = fe_newUUID env,
          oe_Generation = 0, oe_MessageID = fe_newUUID env, oe_ShareGroup = [], oe_SharedTaskID = uuid_Nil,
          oe_Retained = True, oe_PublishPacket = buf, oe_FirstPubTime = now, oe_LastSendTime = now, oe_RetryCount = 0,
          oe_Acked = False, oe_FlowTokenHeld = flowTokenHeld,
          oe_State = (if pub_QoS publish = 2 then outInflightWaitingPubRec else outInflightWaitingPubAck),
          oe_PersistedInSession = False\<rparr>)"

text \<open>\<open>None\<close>: the step waits for a token.\<close>

definition writeRetainedPublish :: "flow_env \<Rightarrow> Publish \<Rightarrow> string \<Rightarrow> flow \<Rightarrow> flow option" where
  "writeRetainedPublish env publish fullTopic c =
     (if outboundPayloadFormatInvalid publish then Some c
      else if pub_QoS publish = 0
      then Some (snd (flow_write env (PPublish (publish\<lparr>pub_PacketID := 0\<rparr>)) fullTopic c))
      else
        (let (packetID, c) = NextPacketID c;
             publish = publish\<lparr>pub_PacketID := packetID\<rparr>
         in if packetID = 0 then Some c
            else
              (case takeToken c of
                 None \<Rightarrow> None
               | Some (usedFlowToken, c) \<Rightarrow>
                   (let (replaced, s) = OIS_Put (retainedInflightEntry env publish usedFlowToken) (fl_inflight c);
                        c = c\<lparr>fl_inflight := s\<rparr>
                    in if replaced
                       then Some (writeAndClose env (ForProtocolError ''downlink packet id reused while retained inflight'')
                              (putToken c))
                       else
                         (case flow_write env (PPublish publish) fullTopic c of
                            (None, c) \<Rightarrow> Some c
                          | (Some err, c) \<Rightarrow>
                              (case OIS_Delete packetID (fl_inflight c) of
                                 (True, s) \<Rightarrow> Some (putToken (c\<lparr>fl_inflight := s\<rparr>))
                               | (False, s) \<Rightarrow> Some c))))))"

section \<open>What is saved\<close>

text \<open>\<open>UnixMicro\<close> rounds down; the zero time is 62135596800 seconds before 1970.\<close>

definition UnixMicro :: "GoTime \<Rightarrow> int" where
  "UnixMicro t = (case t of None \<Rightarrow> -62135596800000000 | Some n \<Rightarrow> n div 1000)"

definition time_UnixMicro :: "int \<Rightarrow> GoTime" where
  "time_UnixMicro n = Some (n * 1000)"

definition unfinishedOf :: "uuid_api \<Rightarrow> flow_env \<Rightarrow> outgoingInflightEntry \<Rightarrow> UnfinishedMessage option" where
  "unfinishedOf U env e =
     (if oe_PacketID e = 0 \<or> (oe_QoS e = 1 \<and> \<not> oe_Retained e) then None
      else
        (let st = (if oe_QoS e = 1 then Some WAITING_PUBACK
                   else if oe_QoS e = 2
                   then Some (if oe_State e = outInflightWaitingPubComp then WAITING_PUBCOMP else WAITING_PUBREC)
                   else None);
             firstUS = (case oe_FirstPubTime e of None \<Rightarrow> UnixMicro (Some (fe_now env)) | Some n \<Rightarrow> UnixMicro (Some n))
         in map_option (\<lambda>st. \<lparr>um_MessageID = ua_String U (oe_MessageID e), um_PacketID = ucast (oe_PacketID e),
              um_Qos = ucast (oe_QoS e), um_State = st, um_SubscribeTopic = None, um_IsOutgoing = True, um_FirstPubTime = firstUS,
              um_PublishPacket = oe_PublishPacket e, um_AckReasonCode = 0\<rparr>) st))"

definition collectOutgoingUnfinishedMessages :: "uuid_api \<Rightarrow> flow_env \<Rightarrow> flow \<Rightarrow> UnfinishedMessage list" where
  "collectOutgoingUnfinishedMessages U env c = List.map_filter (unfinishedOf U env) (OIS_All (fl_inflight c))"

fun earliestReplay :: "uuid_api \<Rightarrow> outgoingInflightEntry option \<Rightarrow> outgoingInflightEntry list \<Rightarrow> outgoingInflightEntry option" where
  "earliestReplay U earliest [] = earliest"
| "earliestReplay U earliest (e # es) =
     (if oe_Acked e \<or> oe_Retained e \<or> oe_QoS e \<noteq> 1 \<or> oe_TaskID e = uuid_Nil then earliestReplay U earliest es
      else
        (case earliest of
           None \<Rightarrow> earliestReplay U (Some e) es
         | Some f \<Rightarrow> earliestReplay U (if outgoingInflightLess U e f then Some e else earliest) es))"

definition collectOutgoingReplayCursor :: "uuid_api \<Rightarrow> flow \<Rightarrow> OutgoingReplayCursor option" where
  "collectOutgoingReplayCursor U c =
     map_option (\<lambda>e. \<lparr>rcu_TaskUnixMicro = UnixMicro (oe_TaskTS e), rcu_TaskID = ua_String U (oe_TaskID e),
         rcu_Generation = oe_Generation e\<rparr>)
       (earliestReplay U None (OIS_All (fl_inflight c)))"

text \<open>\<open>commitOutgoingProgressToSession\<close>: what is sent to the session centre, and the counter when the centre accepts it.\<close>

definition commitOutgoingProgressToSession :: "uuid_api \<Rightarrow> flow_env \<Rightarrow> bool \<Rightarrow> flow
    \<Rightarrow> (UnfinishedMessage list \<times> OutgoingReplayCursor option) option \<times> flow" where
  "commitOutgoingProgressToSession U env accepted c =
     (let acks = fl_acksSinceCommit c;
          c' = c\<lparr>fl_commitInFlight := False\<rparr>
      in if fl_ID c = [] \<or> acks \<le> 0 then (None, c')
         else (Some (collectOutgoingUnfinishedMessages U env c, collectOutgoingReplayCursor U c),
               if accepted then c'\<lparr>fl_acksSinceCommit := fl_acksSinceCommit c - acks\<rparr> else c'))"

section \<open>What the next connection restores\<close>

definition restoreQoS1ReplayCursorFromSession :: "uuid_api \<Rightarrow> flow_env \<Rightarrow> OutgoingReplayCursor option \<Rightarrow> flow \<Rightarrow> flow" where
  "restoreQoS1ReplayCursorFromSession U env cursor c =
     c\<lparr>fl_outgoingReplayCursor :=
         (case cursor of
            None \<Rightarrow> None
          | Some cur \<Rightarrow>
              (case ua_Parse U (rcu_TaskID cur) of
                 None \<Rightarrow> None
               | Some taskID \<Rightarrow>
                   (if taskID = uuid_Nil \<or> rcu_TaskUnixMicro cur \<le> 0 then None
                    else
                      (let restored = Some \<lparr>orc_TaskTS = time_UnixMicro (rcu_TaskUnixMicro cur), orc_TaskID = taskID,
                             orc_Generation = rcu_Generation cur\<rparr>
                       in case fe_readCursor env (fl_ID c) of
                            Inl err \<Rightarrow> None
                          | Inr None \<Rightarrow> restored
                          | Inr (Some persisted) \<Rightarrow>
                              (if dc_Generation persisted \<noteq> rcu_Generation cur then None else restored)))))\<rparr>"

definition isRestorableOutgoingUnfinished :: "UnfinishedMessage \<Rightarrow> bool" where
  "isRestorableOutgoingUnfinished m =
     (if \<not> um_IsOutgoing m then False
      else if um_PacketID m = 0 then False
      else if um_Qos m = 1 then length (um_PublishPacket m) > 0
      else if um_Qos m = 2
      then (case um_State m of WAITING_PUBREL \<Rightarrow> False | _ \<Rightarrow> True)
      else False)"

definition unfinishedLess :: "UnfinishedMessage \<Rightarrow> UnfinishedMessage \<Rightarrow> bool" where
  "unfinishedLess a b =
     (let left = um_FirstPubTime a; right = um_FirstPubTime b
      in if left \<noteq> right
         then (if left = 0 then False else if right = 0 then True else left < right)
         else um_PacketID a < um_PacketID b)"

text \<open>\<open>sort.SliceStable\<close> with this order.\<close>

fun insertUnfinished :: "UnfinishedMessage \<Rightarrow> UnfinishedMessage list \<Rightarrow> UnfinishedMessage list" where
  "insertUnfinished m [] = [m]"
| "insertUnfinished m (x # xs) = (if unfinishedLess x m then x # insertUnfinished m xs else m # x # xs)"

definition outgoingUnfinishedMessages :: "UnfinishedMessage list \<Rightarrow> UnfinishedMessage list" where
  "outgoingUnfinishedMessages msgs = foldr insertUnfinished (filter isRestorableOutgoingUnfinished msgs) []"

definition outgoingInflightStateFromSession :: "MessageState \<Rightarrow> outgoingInflightState option" where
  "outgoingInflightStateFromSession st =
     (case st of
        WAITING_PUBACK \<Rightarrow> Some outInflightWaitingPubAck
      | WAITING_PUBREC \<Rightarrow> Some outInflightWaitingPubRec
      | WAITING_PUBCOMP \<Rightarrow> Some outInflightWaitingPubComp
      | WAITING_PUBREL \<Rightarrow> None)"

definition firstPublishTimeFromSession :: "flow_env \<Rightarrow> UnfinishedMessage \<Rightarrow> GoTime" where
  "firstPublishTimeFromSession env m =
     (if um_FirstPubTime m > 0 then time_UnixMicro (um_FirstPubTime m) else Some (fe_now env))"

text \<open>\<open>registerRestoredOutgoingInflight\<close> with the assignment of the send time that follows it for an entry with a token: the
  table holds a pointer to the entry.\<close>

definition registerRestoredOutgoingInflight :: "flow_env \<Rightarrow> outgoingInflightEntry \<Rightarrow> flow \<Rightarrow> bool \<times> flow" where
  "registerRestoredOutgoingInflight env entry c =
     (let (tokenHeld, c) =
            (case fl_publishBucket c of
               None \<Rightarrow> (True, c)
             | Some b \<Rightarrow> (let (ok, b) = TryGetToken b in (ok, c\<lparr>fl_publishBucket := Some b\<rparr>)));
          entry = entry\<lparr>oe_FlowTokenHeld := tokenHeld,
                        oe_LastSendTime := (if tokenHeld then Some (fe_now env) else None)\<rparr>
      in (tokenHeld, c\<lparr>fl_inflight := snd (OIS_Put entry (fl_inflight c))\<rparr>))"

definition restoreRetainedOutgoingInflight :: "uuid_api \<Rightarrow> flow_env \<Rightarrow> UnfinishedMessage \<Rightarrow> flow \<Rightarrow> flow" where
  "restoreRetainedOutgoingInflight U env m c =
     (case decodeSavedPublish (um_PublishPacket m) of
        None \<Rightarrow> c
      | Some publish \<Rightarrow>
          (let qos = ucast (um_Qos m) :: byte;
               packetID = ucast (um_PacketID m) :: u16;
               publish = publish\<lparr>pub_PacketID := packetID, pub_QoS := qos, pub_Duplicate := True\<rparr>
           in if qos \<noteq> 1 \<and> qos \<noteq> 2 then c
              else
                (case outgoingInflightStateFromSession (um_State m) of
                   None \<Rightarrow> c
                 | Some st \<Rightarrow>
                     (let messageID = (case ua_Parse U (um_MessageID m) of
                                         None \<Rightarrow> fe_newUUID env
                                       | Some u \<Rightarrow> if u = uuid_Nil then fe_newUUID env else u);
                          entry = \<lparr>oe_PacketID = packetID, oe_QoS = qos, oe_TaskTS = firstPublishTimeFromSession env m,
                            oe_TaskID = messageID, oe_Generation = 0, oe_MessageID = messageID, oe_ShareGroup = [],
                            oe_SharedTaskID = uuid_Nil, oe_Retained = True, oe_PublishPacket = um_PublishPacket m,
                            oe_FirstPubTime = firstPublishTimeFromSession env m, oe_LastSendTime = None, oe_RetryCount = 0,
                            oe_Acked = False, oe_FlowTokenHeld = False, oe_State = st, oe_PersistedInSession = True\<rparr>
                      in case registerRestoredOutgoingInflight env entry c of
                           (False, c) \<Rightarrow> c
                         | (True, c) \<Rightarrow>
                             (if um_State m = WAITING_PUBCOMP then snd (flow_write env (pubrelFor packetID) [] c)
                              else snd (flow_write env (PPublish publish) (pub_Topic publish) c))))))"

definition restoreOneOutgoingInflight :: "uuid_api \<Rightarrow> flow_env \<Rightarrow> UnfinishedMessage \<Rightarrow> flow \<Rightarrow> flow" where
  "restoreOneOutgoingInflight U env m c =
     (if length (um_PublishPacket m) > 0 then restoreRetainedOutgoingInflight U env m c
      else
        (case ua_Parse U (um_MessageID m) of
           None \<Rightarrow> c
         | Some msgID \<Rightarrow>
             (if msgID = uuid_Nil then c
              else
                (case findDeliveryTaskByMessageID env c msgID of
                   None \<Rightarrow> c
                 | Some t \<Rightarrow>
                     (case outgoingInflightStateFromSession (um_State m) of
                        None \<Rightarrow> c
                      | Some st \<Rightarrow>
                          (let packetID = ucast (um_PacketID m) :: u16;
                               qos = ucast (um_Qos m) :: byte;
                               entry = \<lparr>oe_PacketID = packetID, oe_QoS = qos, oe_TaskTS = sdt_TS t, oe_TaskID = sdt_TaskID t,
                                 oe_Generation = sdt_Generation t, oe_MessageID = sdt_MessageID t, oe_ShareGroup = [],
                                 oe_SharedTaskID = uuid_Nil, oe_Retained = False, oe_PublishPacket = [],
                                 oe_FirstPubTime = firstPublishTimeFromSession env m, oe_LastSendTime = None,
                                 oe_RetryCount = 0, oe_Acked = False, oe_FlowTokenHeld = False, oe_State = st,
                                 oe_PersistedInSession = True\<rparr>
                           in case registerRestoredOutgoingInflight env entry c of
                                (False, c) \<Rightarrow> c
                              | (True, c) \<Rightarrow>
                                  (if um_State m = WAITING_PUBCOMP then snd (flow_write env (pubrelFor packetID) [] c)
                                   else snd (retransmitPublishFromTask env t qos packetID c))))))))"

fun restoreUnfinished :: "uuid_api \<Rightarrow> flow_env \<Rightarrow> UnfinishedMessage list \<Rightarrow> flow \<Rightarrow> flow" where
  "restoreUnfinished U env [] c = c"
| "restoreUnfinished U env (m # ms) c =
     (if co_cancelled (fl_conn c) then c else restoreUnfinished U env ms (restoreOneOutgoingInflight U env m c))"

definition restoreOutgoingInflightFromSession :: "uuid_api \<Rightarrow> flow_env \<Rightarrow> UnfinishedMessage list \<Rightarrow> OutgoingReplayCursor option
    \<Rightarrow> flow \<Rightarrow> flow" where
  "restoreOutgoingInflightFromSession U env msgs cursor c =
     restoreUnfinished U env (outgoingUnfinishedMessages msgs) (restoreQoS1ReplayCursorFromSession U env cursor c)"

definition loadClientDeliveryCursor :: "flow_env \<Rightarrow> flow \<Rightarrow> GoTime \<times> UUID" where
  "loadClientDeliveryCursor env c =
     (case fl_outgoingReplayCursor c of
        Some replay \<Rightarrow>
          (let replayStart = map_option (\<lambda>n. n - 1000) (orc_TaskTS replay)
           in (if time_Before replayStart (Some 0) then Some 0 else replayStart, uuid_Nil))
      | None \<Rightarrow>
          (case fe_readCursor env (fl_ID c) of
             Inr (Some cur) \<Rightarrow> (dc_LastTS cur, dc_LastTaskID cur)
           | _ \<Rightarrow> (Some 0, uuid_Nil)))"

definition alignDeliveryCursorBeforeRunner :: "uuid_api \<Rightarrow> flow_env \<Rightarrow> int \<Rightarrow> flow \<Rightarrow> flow option" where
  "alignDeliveryCursorBeforeRunner U env batchSize c =
     (if fl_outgoingReplayCursor c = None \<and> OIS_Len (fl_inflight c) > 0
      then
        (case LastTask U (fl_inflight c) of
           Some e \<Rightarrow> (if oe_Retained e then Some c else Some (c\<lparr>fl_lastTS := oe_TaskTS e, fl_lastTask := oe_TaskID e\<rparr>))
         | None \<Rightarrow> Some c)
      else
        (case fe_readTasks env (fl_ID c) (fl_lastTS c) (fl_lastTask c) batchSize of
           Inl err \<Rightarrow> Some c
         | Inr ts \<Rightarrow> (if length ts > 0 then deliverClientDeliveryTasks env ts c else Some c)))"

definition hasDeferredRestoredOutgoingInflight :: "uuid_api \<Rightarrow> flow \<Rightarrow> bool" where
  "hasDeferredRestoredOutgoingInflight U c =
     (case FirstUnacked U (fl_inflight c) of Some e \<Rightarrow> \<not> oe_FlowTokenHeld e | None \<Rightarrow> False)"

end
