(* ===== verification/Outgoing_Window.thy ===== *)
theory Outgoing_Window
  imports Outgoing_Restore
begin

text \<open>
  The window of a connection. Every message that was sent and not acknowledged holds one token of the bucket whose size is the
  client's Receive Maximum. The steps of a connection are the relation \<open>flow_step\<close>: sending, acknowledgements,
  retransmission, retained messages and restored ones, each with any behaviour of the outside. Every run keeps the
  balance of tokens, so that no more than Receive Maximum messages are ever outstanding.
\<close>

section \<open>The table\<close>

definition held :: "outgoingInflightEntry \<Rightarrow> bool" where
  "held e \<longleftrightarrow> oe_FlowTokenHeld e \<and> \<not> oe_Acked e"

definition held_ids :: "outgoingInflightStore \<Rightarrow> u16 set" where
  "held_ids s = {k. \<exists>e. alist_get s k = Some e \<and> held e}"

definition entry_ok :: "u16 \<Rightarrow> outgoingInflightEntry \<Rightarrow> bool" where
  "entry_ok k e \<longleftrightarrow> oe_PacketID e = k \<and> k \<noteq> 0 \<and> (oe_FlowTokenHeld e \<or> oe_Acked e \<or> oe_LastSendTime e = None)"

definition table_ok :: "outgoingInflightStore \<Rightarrow> bool" where
  "table_ok s \<longleftrightarrow> distinct (alist_keys s) \<and> (\<forall>k e. alist_get s k = Some e \<longrightarrow> entry_ok k e)"

definition window :: "int \<Rightarrow> outgoingInflightStore \<Rightarrow> Bucket option \<Rightarrow> bool" where
  "window n s b \<longleftrightarrow> table_ok s \<and>
     (\<exists>b'. b = Some b' \<and> 0 < n \<and> bk_num b' = n \<and> int (bk_ch b') + int (card (held_ids s)) = n)"

lemma finite_held_ids [simp]: "finite (held_ids s)"
proof (rule finite_subset)
  show "held_ids s \<subseteq> fst ` set s" by (force simp: held_ids_def dest: alist_get_Some_in)
qed simp

lemma held_ids_set [simp]:
  "held_ids (alist_set k e s) = (if held e then insert k (held_ids s) else held_ids s - {k})"
  by (auto simp: held_ids_def)

lemma held_ids_del [simp]: "held_ids (alist_del k s) = held_ids s - {k}"
  by (auto simp: held_ids_def)

lemma in_held_ids: "alist_get s k = Some e \<Longrightarrow> k \<in> held_ids s \<longleftrightarrow> held e"
  by (simp add: held_ids_def)

lemma not_in_held_ids: "alist_get s k = None \<Longrightarrow> k \<notin> held_ids s"
  by (simp add: held_ids_def)

lemma table_ok_set: "table_ok s \<Longrightarrow> entry_ok k e \<Longrightarrow> table_ok (alist_set k e s)"
  by (simp add: table_ok_def)

lemma table_ok_del: "table_ok s \<Longrightarrow> table_ok (alist_del k s)"
  by (simp add: table_ok_def)

lemma table_okD: "table_ok s \<Longrightarrow> alist_get s k = Some e \<Longrightarrow> entry_ok k e"
  by (simp add: table_ok_def)

lemma OIS_Get_eq: "table_ok s \<Longrightarrow> OIS_Get s k = alist_get s k"
  by (cases "alist_get s k") (auto simp: OIS_Get_def table_ok_def entry_ok_def)

section \<open>One token more or less\<close>

lemma window_take:
  assumes "window n s (Some b)" "GetToken b = Some b'" "alist_get s k = None" "held e" "entry_ok k e"
  shows "window n (alist_set k e s) (Some b')"
proof -
  have "k \<notin> held_ids s" using assms(3) by (rule not_in_held_ids)
  moreover have "bk_num b' = bk_num b" "int (bk_ch b') = int (bk_ch b) - 1"
    using assms(1,2) by (auto simp: window_def GetToken_def split: if_splits)
  ultimately show ?thesis
    using assms by (auto simp: window_def table_ok_set)
qed

lemma window_same:
  assumes "window n s b" "alist_get s k = Some e0" "held e = held e0" "entry_ok k e"
  shows "window n (alist_set k e s) b"
proof -
  have "held_ids (alist_set k e s) = held_ids s"
    using assms(2,3) in_held_ids [OF assms(2)] by auto
  then show ?thesis using assms(1,4) by (auto simp: window_def table_ok_set)
qed

lemma window_put:
  assumes "window n s (Some b)" "k \<in> held_ids s" "table_ok s'" "held_ids s' = held_ids s - {k}"
  shows "window n s' (Some (PutToken b))"
proof -
  have "card (held_ids s) > 0" using assms(2) by (auto simp: card_gt_0_iff)
  moreover have "card (held_ids s') = card (held_ids s) - 1"
    using assms(2,4) by (simp add: card_Diff_singleton)
  moreover from assms(1) have "int (bk_ch b) + int (card (held_ids s)) = bk_num b" "bk_num b = n" "0 < n"
    by (auto simp: window_def)
  ultimately have "int (bk_ch b) < bk_num b" "int (bk_ch b + 1) + int (card (held_ids s')) = n" by linarith+
  then show ?thesis
    using assms(1,3) by (auto simp: window_def PutToken_def)
qed

lemma window_drop:
  assumes "window n s b" "\<forall>e. alist_get s k = Some e \<longrightarrow> \<not> held e"
  shows "window n (alist_del k s) b"
proof -
  have "k \<notin> held_ids s" using assms(2) by (auto simp: held_ids_def)
  then show ?thesis using assms(1) by (auto simp: window_def table_ok_del)
qed

abbreviation flow_window :: "int \<Rightarrow> flow \<Rightarrow> bool" where
  "flow_window n c \<equiv> window n (fl_inflight c) (fl_publishBucket c)"

lemma window_bucket: "window n s b \<Longrightarrow> \<exists>b'. b = Some b'"
  by (auto simp: window_def)

section \<open>What leaves table and bucket alone\<close>

definition same_window :: "flow \<Rightarrow> flow \<Rightarrow> bool" where
  "same_window c c' \<longleftrightarrow> fl_inflight c' = fl_inflight c \<and> fl_publishBucket c' = fl_publishBucket c"

lemma emit_window [simp]: "fl_inflight (emit x c) = fl_inflight c" "fl_publishBucket (emit x c) = fl_publishBucket c"
  by (simp_all add: emit_def)

lemma flow_write_window [simp]:
  "fl_inflight (snd (flow_write env p t c)) = fl_inflight c"
  "fl_publishBucket (snd (flow_write env p t c)) = fl_publishBucket c"
  by (simp_all add: flow_write_def Let_def split: prod.splits)

lemma flow_write_windowE:
  assumes "flow_write env p t c = (err, c')"
  shows "fl_inflight c' = fl_inflight c" "fl_publishBucket c' = fl_publishBucket c"
  using flow_write_window [of env p t c] assms by simp_all

lemma close_window [simp]:
  "fl_inflight (flow_close c) = fl_inflight c" "fl_publishBucket (flow_close c) = fl_publishBucket c"
  "fl_inflight (forgetPacketID k c) = fl_inflight c" "fl_publishBucket (forgetPacketID k c) = fl_publishBucket c"
  by (simp_all add: flow_close_def forgetPacketID_def)

lemma writeAndClose_window [simp]:
  "fl_inflight (writeAndClose env d c) = fl_inflight c" "fl_publishBucket (writeAndClose env d c) = fl_publishBucket c"
  by (simp_all add: writeAndClose_def)

lemma completeShared_window [simp]:
  "fl_inflight (completeSharedDeliveryTask env g u c) = fl_inflight c"
  "fl_publishBucket (completeSharedDeliveryTask env g u c) = fl_publishBucket c"
  by (simp_all add: completeSharedDeliveryTask_def)

lemma recordAcks_window [simp]:
  "fl_inflight (recordOutgoingTerminalAcks env n c) = fl_inflight c"
  "fl_publishBucket (recordOutgoingTerminalAcks env n c) = fl_publishBucket c"
  by (simp_all add: recordOutgoingTerminalAcks_def maybeCommitOutgoingProgress_def Let_def)

lemma advanceEntry_window [simp]:
  "fl_inflight (advanceEntry env c e) = fl_inflight c" "fl_publishBucket (advanceEntry env c e) = fl_publishBucket c"
  by (simp_all add: advanceEntry_def Let_def split: option.splits)

lemma advanceEntries_window [simp]:
  "fl_inflight (foldl (advanceEntry env) c es) = fl_inflight c"
  "fl_publishBucket (foldl (advanceEntry env) c es) = fl_publishBucket c"
  by (induction es arbitrary: c) simp_all

lemma advanceCursor_window [simp]:
  "fl_inflight (snd (advanceClientDeliveryCursor env t c)) = fl_inflight c"
  "fl_publishBucket (snd (advanceClientDeliveryCursor env t c)) = fl_publishBucket c"
  by (simp_all add: advanceClientDeliveryCursor_def Let_def split: option.splits)

lemma NextPacketID_window [simp]:
  "fl_inflight (snd (NextPacketID c)) = fl_inflight c" "fl_publishBucket (snd (NextPacketID c)) = fl_publishBucket c"
  by (simp_all add: NextPacketID_def Let_def split: prod.splits)


section \<open>Acknowledgements\<close>

lemma PopAcked_sub:
  assumes "table_ok s" "e \<in> set (fst (PopAckedInOrder U s))"
  shows "oe_Acked e \<and> alist_get s (oe_PacketID e) = Some e"
proof -
  have ins: "set (insertEntry U x xs) = insert x (set xs)" for x xs
    by (induction U x xs rule: insertEntry.induct) auto
  then have "set (sortEntries U es) = set es" for es
    by (induction es) (auto simp: sortEntries_def)
  then have "e \<in> snd ` set s" "oe_Acked e"
    using assms(2) by (auto simp: PopAckedInOrder_def Let_def dest: set_takeWhileD)
  then obtain k where "(k, e) \<in> set s" by auto
  then have "alist_get s k = Some e" using assms(1) by (simp add: table_ok_def alist_get_eq_Some_iff)
  with \<open>oe_Acked e\<close> assms(1) show ?thesis by (auto dest: table_okD simp: entry_ok_def)
qed

lemma window_delete_acked:
  assumes "window n s b" "\<forall>x\<in>set es. \<forall>e. alist_get s (oe_PacketID x) = Some e \<longrightarrow> \<not> held e"
  shows "window n (foldl (\<lambda>s e. alist_del (oe_PacketID e) s) s es) b"
  using assms
proof (induction es arbitrary: s)
  case (Cons x xs)
  then have "window n (alist_del (oe_PacketID x) s) b" by (intro window_drop) simp_all
  with Cons show ?case by simp
qed simp

lemma PopAcked_window:
  assumes "window n s b" shows "window n (snd (PopAckedInOrder U s)) b"
proof -
  have ok: "table_ok s" using assms by (simp add: window_def)
  have "window n (foldl (\<lambda>s e. alist_del (oe_PacketID e) s) s (fst (PopAckedInOrder U s))) b"
    by (rule window_delete_acked [OF assms]) (use PopAcked_sub [OF ok] in \<open>fastforce simp: held_def\<close>)
  then show ?thesis by (simp add: PopAckedInOrder_def Let_def)
qed

lemma advanceAcked_window: "flow_window n c \<Longrightarrow> flow_window n (advanceAckedOutgoingInflight U env c)"
  using PopAcked_window [of n "fl_inflight c" "fl_publishBucket c" U]
  by (cases "PopAckedInOrder U (fl_inflight c)") (simp add: advanceAckedOutgoingInflight_def Let_def)

lemma completeTerminal_window:
  assumes "flow_window n c"
  shows "flow_window n (completeTerminalOutgoingInflight U env k q c)"
proof (cases "MarkAcked k q (fl_inflight c)")
  case None
  then show ?thesis using assms by (simp add: completeTerminalOutgoingInflight_def)
next
  case (Some r)
  obtain e1 s where r: "r = (e1, s)" by (cases r)
  have ok: "table_ok (fl_inflight c)" using assms by (simp add: window_def)
  obtain b where b: "fl_publishBucket c = Some b" using assms window_bucket by blast
  from Some r obtain e where e: "alist_get (fl_inflight c) k = Some e" "\<not> oe_Acked e" "e1 = e\<lparr>oe_Acked := True\<rparr>"
      "s = alist_set k e1 (fl_inflight c)"
    by (auto simp: MarkAcked_def OIS_Get_eq [OF ok] Let_def split: option.splits if_splits)
  have eok: "entry_ok k e1" using table_okD [OF ok e(1)] e(3) by (simp add: entry_ok_def)
  let ?c = "c\<lparr>fl_inflight := s\<rparr>"
  have "flow_window n (if oe_FlowTokenHeld e1 then putToken ?c else ?c)"
  proof (cases "oe_FlowTokenHeld e1")
    case True
    then have "k \<in> held_ids (fl_inflight c)" using e by (simp add: in_held_ids held_def)
    then have "window n s (Some (PutToken b))"
      using assms b table_ok_set [OF ok eok] e by (intro window_put) (auto simp: held_def)
    then show ?thesis using True b by (simp add: putToken_def)
  next
    case False
    have "window n s (fl_publishBucket c)"
      unfolding e(4) by (rule window_same [OF assms e(1) _ eok]) (use False e in \<open>simp add: held_def\<close>)
    then show ?thesis using False by simp
  qed
  then have "flow_window n (advanceAckedOutgoingInflight U env (if oe_FlowTokenHeld e1 then putToken ?c else ?c))"
    by (rule advanceAcked_window)
  then show ?thesis using Some r b by (simp add: completeTerminalOutgoingInflight_def Let_def)
qed

lemma UpdateState_window:
  assumes "window n s b" shows "window n (UpdateState k st s) b"
proof (cases "alist_get s k")
  case None
  then show ?thesis using assms by (auto simp: UpdateState_def OIS_Get_def)
next
  case (Some e)
  have ok: "table_ok s" using assms by (simp add: window_def)
  have "entry_ok k (e\<lparr>oe_State := st\<rparr>)" using table_okD [OF ok Some] by (simp add: entry_ok_def)
  then have "window n (alist_set k (e\<lparr>oe_State := st\<rparr>) s) b"
    by (rule window_same [OF assms Some, rotated]) (simp add: held_def)
  then show ?thesis using Some by (simp add: UpdateState_def OIS_Get_eq [OF ok])
qed

lemma handlePubRec_window: "flow_window n c \<Longrightarrow> flow_window n (handlePubRec U env p c)"
  using completeTerminal_window [of n c U env "pr_PacketID p" 2] UpdateState_window [of n "fl_inflight c" "fl_publishBucket c"]
  by (simp add: handlePubRec_def Let_def split: option.splits)

section \<open>Sending\<close>

lemma NextPacketID_free:
  assumes "NextPacketID c = (k, c')" "k \<noteq> 0"
  shows "alist_get (fl_inflight c) k = None"
proof -
  have "fst (NextPacketID_loop 65535 (\<lambda>i. OIS_Get (fl_inflight c) i \<noteq> None) (fl_packetIDFactory c)) = k"
    using assms(1) by (simp add: NextPacketID_def Client_NextPacketID_def split: prod.splits)
  with NextPacketID_loop_spec [of 65535 "\<lambda>i. OIS_Get (fl_inflight c) i \<noteq> None" "fl_packetIDFactory c"] assms(2)
  have "OIS_Get (fl_inflight c) k = None" by auto
  with assms(2) show ?thesis by (simp add: OIS_Get_def)
qed

text \<open>A step that has taken a token and entered its message in the table.\<close>

lemma takeToken_put:
  assumes "flow_window n c" "takeToken c = Some (used, c1)" "alist_get (fl_inflight c) k = None" "k \<noteq> 0"
    and "oe_PacketID e = k" "oe_FlowTokenHeld e = used" "\<not> oe_Acked e"
  shows "used \<and> OIS_Put e (fl_inflight c1) = (False, alist_set k e (fl_inflight c))
    \<and> fl_inflight c1 = fl_inflight c
    \<and> window n (alist_set k e (fl_inflight c)) (fl_publishBucket c1)
    \<and> k \<in> held_ids (alist_set k e (fl_inflight c))"
proof -
  obtain b where b: "fl_publishBucket c = Some b" using assms(1) window_bucket by blast
  with assms(2) obtain b' where b': "GetToken b = Some b'" "used" "c1 = c\<lparr>fl_publishBucket := Some b'\<rparr>"
    by (auto simp: takeToken_def)
  have "held e" "entry_ok k e" using assms(4-7) b'(2) by (auto simp: held_def entry_ok_def)
  with assms(1) have "window n (alist_set k e (fl_inflight c)) (Some b')"
    unfolding b by (rule window_take [OF _ b'(1) assms(3)])
  then show ?thesis using b' assms(3-5) \<open>held e\<close> by (simp add: OIS_Put_def)
qed

text \<open>Taking the message out again returns its token.\<close>

lemma delete_put:
  assumes "flow_window n c" "k \<in> held_ids (fl_inflight c)"
  shows "OIS_Delete k (fl_inflight c) = (True, alist_del k (fl_inflight c))
    \<and> flow_window n (putToken (c\<lparr>fl_inflight := alist_del k (fl_inflight c)\<rparr>))"
proof -
  have ok: "table_ok (fl_inflight c)" using assms by (simp add: window_def)
  obtain b where b: "fl_publishBucket c = Some b" using assms(1) window_bucket by blast
  from assms(2) obtain e where "alist_get (fl_inflight c) k = Some e" by (auto simp: held_ids_def)
  then have "OIS_Delete k (fl_inflight c) = (True, alist_del k (fl_inflight c))"
    by (simp add: OIS_Delete_def OIS_Get_eq [OF ok])
  moreover have "window n (alist_del k (fl_inflight c)) (Some (PutToken b))"
    using assms b table_ok_del [OF ok] by (intro window_put) auto
  ultimately show ?thesis by (simp add: putToken_def b)
qed

lemma prepare_window:
  assumes "flow_window n c" "prepareDeliveryQoSAndInflight env t p q c = Some (r, p', c')"
  shows "flow_window n c' \<and> (\<forall>i. r = Inr i \<longrightarrow>
    (dis_registeredInflight i \<longrightarrow> dis_usedFlowToken i \<and> dis_packetID i \<in> held_ids (fl_inflight c'))
    \<and> (\<not> dis_registeredInflight i \<longrightarrow> \<not> dis_usedFlowToken i))"
proof (cases "q = 0")
  case True
  then show ?thesis using assms by (auto simp: prepareDeliveryQoSAndInflight_def Let_def)
next
  case False
  obtain k c1 where k: "NextPacketID c = (k, c1)" by (cases "NextPacketID c")
  have c1: "fl_inflight c1 = fl_inflight c" "fl_publishBucket c1 = fl_publishBucket c"
    using NextPacketID_window [of c] k by simp_all
  show ?thesis
  proof (cases "k = 0")
    case True
    then show ?thesis using assms False k c1 by (auto simp: prepareDeliveryQoSAndInflight_def Let_def)
  next
    case k0: False
    have win: "flow_window n c1" using assms(1) c1 by simp
    show ?thesis
    proof (cases "takeToken c1")
      case None
      then show ?thesis using assms(2) False k k0 by (simp add: prepareDeliveryQoSAndInflight_def Let_def)
    next
      case (Some uc)
      obtain used c2 where uc: "uc = (used, c2)" by (cases uc)
      let ?e = "newDeliveryInflightEntry env t k q used"
      have put: "used \<and> OIS_Put ?e (fl_inflight c2) = (False, alist_set k ?e (fl_inflight c1))
          \<and> fl_inflight c2 = fl_inflight c1
          \<and> window n (alist_set k ?e (fl_inflight c1)) (fl_publishBucket c2)
          \<and> k \<in> held_ids (alist_set k ?e (fl_inflight c1))"
        using win Some uc NextPacketID_free [OF k k0] k0 c1
        by (intro takeToken_put) (simp_all add: newDeliveryInflightEntry_def)
      then have used: "used = True" and eq: "OIS_Put ?e (fl_inflight c2) = (False, alist_set k ?e (fl_inflight c1))" by blast+
      have "r = Inr \<lparr>dis_packetID = k, dis_usedFlowToken = True, dis_registeredInflight = True\<rparr>"
          "c' = c2\<lparr>fl_inflight := alist_set k ?e (fl_inflight c1)\<rparr>"
        using assms(2) False k k0 Some uc eq unfolding used by (simp_all add: prepareDeliveryQoSAndInflight_def Let_def)
      then show ?thesis using put unfolding used by (simp del: held_ids_set)
    qed
  qed
qed

lemma release_window:
  assumes "flow_window n c" "dis_registeredInflight i \<longrightarrow> dis_usedFlowToken i \<and> dis_packetID i \<in> held_ids (fl_inflight c)"
    and "\<not> dis_registeredInflight i \<longrightarrow> \<not> dis_usedFlowToken i"
  shows "flow_window n (releaseDeliveryInflight i c)"
proof (cases "dis_registeredInflight i")
  case True
  with assms(2) have "dis_usedFlowToken i" "dis_packetID i \<in> held_ids (fl_inflight c)" by simp_all
  with delete_put [OF assms(1)] True show ?thesis by (simp add: releaseDeliveryInflight_def Let_def)
next
  case False
  then show ?thesis using assms by (simp add: releaseDeliveryInflight_def)
qed

lemma load_window:
  "loadClientDeliveryMessage env t c = Inl r \<Longrightarrow> flow_window n c \<Longrightarrow> flow_window n (snd r)"
  by (auto simp: loadClientDeliveryMessage_def split: sum.splits load_error.splits option.splits if_splits)

lemma options_window:
  "applyDeliveryPublishOptions env t msg p c = Inl r \<Longrightarrow> flow_window n c \<Longrightarrow> flow_window n (snd r)"
  by (auto simp: applyDeliveryPublishOptions_def Let_def split: option.splits if_splits)

lemma writeError_window:
  assumes "flow_window n (releaseDeliveryInflight i c)"
  shows "flow_window n (snd (handleDeliveryWriteError env t i e c))"
  using assms by (cases e) (simp_all add: handleDeliveryWriteError_def)

lemma deliverSingle_window:
  assumes "flow_window n c" "deliverSingleClientDeliveryTask env t c = Some (err, c')"
  shows "flow_window n c'"
proof (cases "loadClientDeliveryMessage env t c")
  case (Inl r)
  then show ?thesis using assms load_window [OF Inl assms(1)] by (simp add: deliverSingleClientDeliveryTask_def)
next
  case (Inr mp)
  obtain msg publish where mp: "mp = (msg, publish)" by (cases mp)
  show ?thesis
  proof (cases "dt_NoLocal t \<and> bm_SendClientID msg \<noteq> [] \<and> bm_SendClientID msg = fl_ID c")
    case True
    have "advanceClientDeliveryCursor env t c = (err, c')"
      using assms(2) Inr mp by (simp add: deliverSingleClientDeliveryTask_def if_P [OF True])
    then show ?thesis using assms(1) advanceCursor_window [of env t c] by simp
  next
    case nl: False
    show ?thesis
    proof (cases "applyDeliveryPublishOptions env t msg publish c")
      case (Inl r)
      then have "(err, c') = r"
        using assms(2) Inr mp by (simp add: deliverSingleClientDeliveryTask_def if_not_P [OF nl])
      then show ?thesis using options_window [OF Inl assms(1)] by auto
    next
      case p2: (Inr p2)
      let ?prep = "prepareDeliveryQoSAndInflight env t p2 (deliveryQoS (dt_DeliveryQoS t)) c"
      obtain r p3 c1 where prep: "?prep = Some (r, p3, c1)"
        using assms(2) Inr mp p2
        by (cases ?prep) (auto simp: deliverSingleClientDeliveryTask_def if_not_P [OF nl] Let_def)
      note win = prepare_window [OF assms(1) prep]
      show ?thesis
      proof (cases r)
        case (Inl e)
        then have "c' = c1"
          using assms(2) Inr mp p2 prep by (simp add: deliverSingleClientDeliveryTask_def if_not_P [OF nl] Let_def)
        then show ?thesis using win by simp
      next
        case i: (Inr i)
        obtain we c2 where w: "flow_write env (PPublish p3) (pub_Topic p2) c1 = (we, c2)"
          by (cases "flow_write env (PPublish p3) (pub_Topic p2) c1")
        note c2 = flow_write_windowE [OF w]
        have win2: "flow_window n c2" using win c2 by simp
        have rel: "flow_window n (releaseDeliveryInflight i c2)"
          by (rule release_window) (use win win2 c2 i in simp_all)
        have "(err, c') = (case we of Some e \<Rightarrow> handleDeliveryWriteError env t i e c2
            | None \<Rightarrow> (if deliveryQoS (dt_DeliveryQoS t) = 0 then advanceClientDeliveryCursor env t c2
                       else (None, c2\<lparr>fl_lastTS := dt_TS t, fl_lastTask := dt_TaskID t\<rparr>)))"
          using assms(2) Inr mp p2 prep i w
          by (simp add: deliverSingleClientDeliveryTask_def if_not_P [OF nl] Let_def split: option.splits if_splits)
        then show ?thesis
          using writeError_window [OF rel] advanceCursor_window [of env t c2] win2
          by (cases we) (auto split: if_splits dest: arg_cong [where f = snd])
      qed
    qed
  qed
qed

lemma writeRetained_window:
  assumes "flow_window n c" "writeRetainedPublish env p t c = Some c'"
  shows "flow_window n c'"
proof (cases "outboundPayloadFormatInvalid p \<or> pub_QoS p = 0")
  case True
  then show ?thesis
    using assms by (cases "outboundPayloadFormatInvalid p") (auto simp: writeRetainedPublish_def)
next
  case False
  obtain k c1 where k: "NextPacketID c = (k, c1)" by (cases "NextPacketID c")
  have c1: "fl_inflight c1 = fl_inflight c" "fl_publishBucket c1 = fl_publishBucket c"
    using NextPacketID_window [of c] k by simp_all
  show ?thesis
  proof (cases "k = 0 \<or> takeToken c1 = None")
    case True
    then show ?thesis using assms False k c1 by (cases "k = 0") (auto simp: writeRetainedPublish_def Let_def)
  next
    case k0: False
    then obtain used c2 where tk: "takeToken c1 = Some (used, c2)" by auto
    define p' where "p' = p\<lparr>pub_PacketID := k\<rparr>"
    define e where "e = retainedInflightEntry env p' used"
    have "flow_window n c1" "k \<noteq> 0" "alist_get (fl_inflight c1) k = None"
      using assms(1) c1 k0 NextPacketID_free [OF k] by simp_all
    then have put: "used \<and> OIS_Put e (fl_inflight c2) = (False, alist_set k e (fl_inflight c1))
        \<and> fl_inflight c2 = fl_inflight c1 \<and> window n (alist_set k e (fl_inflight c1)) (fl_publishBucket c2)
        \<and> k \<in> held_ids (alist_set k e (fl_inflight c1))"
      using tk by (intro takeToken_put) (simp_all add: e_def p'_def retainedInflightEntry_def Let_def)
    then have eq: "OIS_Put e (fl_inflight c2) = (False, alist_set k e (fl_inflight c1))" by blast
    let ?c = "c2\<lparr>fl_inflight := alist_set k e (fl_inflight c1)\<rparr>"
    obtain err c3 where w: "flow_write env (PPublish p') t ?c = (err, c3)"
      by (cases "flow_write env (PPublish p') t ?c")
    note c3 = flow_write_windowE [OF w]
    have c': "c' = (if err = None then c3 else
        (case OIS_Delete k (fl_inflight c3) of (True, s) \<Rightarrow> putToken (c3\<lparr>fl_inflight := s\<rparr>) | (False, s) \<Rightarrow> c3))"
      using assms(2) False k k0 tk eq w
      by (simp add: writeRetainedPublish_def Let_def p'_def [symmetric] e_def [symmetric]
          split: option.splits prod.splits bool.splits)
    have "flow_window n c3" "k \<in> held_ids (fl_inflight c3)" using put c3 by (simp_all del: held_ids_set)
    then show ?thesis using delete_put [of n c3 k] c' by auto
  qed
qed

section \<open>Retransmission\<close>

lemma firstUnackedIn_sub: "firstUnackedIn U f es = Some e \<Longrightarrow> f = Some e \<or> (e \<in> set es \<and> \<not> oe_Acked e)"
  by (induction U f es rule: firstUnackedIn.induct) (auto split: if_splits option.splits)

lemma FirstUnacked_in:
  assumes "FirstUnacked U s = Some e" "table_ok s"
  shows "alist_get s (oe_PacketID e) = Some e \<and> \<not> oe_Acked e \<and> entry_ok (oe_PacketID e) e"
proof -
  from assms(1) have "e \<in> snd ` set s" "\<not> oe_Acked e"
    using firstUnackedIn_sub [of U None "map snd s" e] by (auto simp: FirstUnacked_def)
  then obtain k where "(k, e) \<in> set s" by auto
  then have "alist_get s k = Some e" using assms(2) by (simp add: table_ok_def alist_get_eq_Some_iff)
  with assms(2) \<open>\<not> oe_Acked e\<close> show ?thesis by (auto dest: table_okD simp: entry_ok_def)
qed

lemma resendResult_window:
  assumes "resendResult (flow_write env p t c) = (err, c')"
  shows "fl_inflight c' = fl_inflight c" "fl_publishBucket c' = fl_publishBucket c"
  using assms by (auto simp: resendResult_def)

lemma retransmitTask_window:
  assumes "retransmitPublishFromTask env t q k c = (err, c')"
  shows "fl_inflight c' = fl_inflight c \<and> fl_publishBucket c' = fl_publishBucket c"
  using assms by (auto simp: retransmitPublishFromTask_def dest: resendResult_window split: if_splits option.splits)

lemma retransmitEntry_window:
  assumes "retransmitOutgoingInflightEntry env e c = (err, c')"
  shows "fl_inflight c' = fl_inflight c \<and> fl_publishBucket c' = fl_publishBucket c"
  using assms
  by (auto simp: retransmitOutgoingInflightEntry_def retransmitRetainedPublishFromEntry_def Let_def
      dest: resendResult_window retransmitTask_window split: outgoingInflightState.splits if_splits option.splits)

text \<open>After a token was acquired the entry holds one; it is the entry of the table.\<close>

lemma acquire_window:
  assumes "flow_window n c" "alist_get (fl_inflight c) (oe_PacketID e) = Some e" "\<not> oe_Acked e"
    and "acquireRetransmitFlowToken e c = (e1, tok, ok, c1)"
  shows "flow_window n c1 \<and> (ok \<longrightarrow> oe_PacketID e1 = oe_PacketID e \<and> oe_PacketID e \<in> held_ids (fl_inflight c1)
    \<and> alist_get (fl_inflight c1) (oe_PacketID e) = Some e1 \<and> (tok \<longrightarrow> oe_LastSendTime e1 = None))"
proof -
  let ?k = "oe_PacketID e"
  have ok: "table_ok (fl_inflight c)" using assms(1) by (simp add: window_def)
  obtain b where b: "fl_publishBucket c = Some b" using assms(1) window_bucket by blast
  have eok: "entry_ok ?k e" by (rule table_okD [OF ok assms(2)])
  show ?thesis
  proof (cases "oe_FlowTokenHeld e")
    case True
    then show ?thesis using assms by (auto simp: acquireRetransmitFlowToken_def in_held_ids held_def)
  next
    case nh: False
    have last: "oe_LastSendTime e = None" using eok nh assms(3) by (simp add: entry_ok_def)
    have num: "0 < bk_num b" using assms(1) b by (auto simp: window_def)
    show ?thesis
    proof (cases "bk_ch b = 0")
      case True
      then show ?thesis using assms(1,4) nh b num by (auto simp: acquireRetransmitFlowToken_def TryGetToken_def)
    next
      case False
      define e2 where "e2 = e\<lparr>oe_FlowTokenHeld := True\<rparr>"
      define b2 where "b2 = b\<lparr>bk_ch := bk_ch b - 1\<rparr>"
      have res: "e1 = e2" "tok" "ok" "c1 = c\<lparr>fl_publishBucket := Some b2, fl_inflight := alist_set ?k e2 (fl_inflight c)\<rparr>"
        using assms(2,4) nh b num False
        by (auto simp: acquireRetransmitFlowToken_def TryGetToken_def MarkFlowTokenHeld_def OIS_Get_eq [OF ok] Let_def
            e2_def b2_def)
      have h: "held e2" "entry_ok ?k e2" "\<not> held e"
        using assms(3) nh eok by (auto simp: held_def e2_def entry_ok_def)
      have "?k \<notin> held_ids (fl_inflight c)" using in_held_ids [OF assms(2)] h(3) by simp
      then have "window n (alist_set ?k e2 (fl_inflight c)) (Some b2)"
        using assms(1) b False h table_ok_set [OF ok h(2)] by (auto simp: window_def b2_def)
      then show ?thesis using res h last by (simp add: e2_def)
    qed
  qed
qed

lemma retransmitError_window:
  assumes "flow_window n c" "oe_PacketID e \<in> held_ids (fl_inflight c)"
    and "alist_get (fl_inflight c) (oe_PacketID e) = Some e" "tok \<longrightarrow> oe_LastSendTime e = None"
  shows "flow_window n (handleOutgoingRetransmitError e tok err c)"
proof -
  let ?k = "oe_PacketID e"
  have ok: "table_ok (fl_inflight c)" using assms(1) by (simp add: window_def)
  obtain b where b: "fl_publishBucket c = Some b" using assms(1) window_bucket by blast
  let ?e = "e\<lparr>oe_FlowTokenHeld := False\<rparr>"
  have "window n (alist_set ?k ?e (fl_inflight c)) (Some (PutToken b))" if tok
  proof (rule window_put)
    show "window n (fl_inflight c) (Some b)" using assms(1) b by simp
    have "entry_ok ?k ?e" using table_okD [OF ok assms(3)] assms(4) that by (simp add: entry_ok_def)
    then show "table_ok (alist_set ?k ?e (fl_inflight c))" by (rule table_ok_set [OF ok])
  qed (use assms(2) in \<open>simp_all add: held_def\<close>)
  then show ?thesis
    using delete_put [OF assms(1,2)] assms(1,3) b
    by (auto simp: handleOutgoingRetransmitError_def ClearFlowTokenHeld_def OIS_Get_eq [OF ok] putToken_def)
qed

lemma MarkSent_window:
  assumes "window n s b" "k \<in> held_ids s"
  shows "window n (snd (MarkSent k now s)) b"
proof -
  have ok: "table_ok s" using assms(1) by (simp add: window_def)
  from assms(2) obtain e where e: "alist_get s k = Some e" "held e" by (auto simp: held_ids_def)
  let ?e = "e\<lparr>oe_LastSendTime := now, oe_RetryCount := oe_RetryCount e + 1\<rparr>"
  have "entry_ok k ?e" using table_okD [OF ok e(1)] e(2) by (simp add: entry_ok_def held_def)
  then have "window n (alist_set k ?e s) b"
    by (rule window_same [OF assms(1) e(1), rotated]) (simp add: held_def)
  then show ?thesis using e by (simp add: MarkSent_def OIS_Get_eq [OF ok] Let_def)
qed

lemma retransmit_window:
  assumes "flow_window n c" shows "flow_window n (maybeRetransmitOutgoingInflight U env cfg c)"
proof (cases "firstRetransmittableInflight U c")
  case None
  then show ?thesis using assms by (simp add: maybeRetransmitOutgoingInflight_def)
next
  case (Some e)
  have ok: "table_ok (fl_inflight c)" using assms(1) by (simp add: window_def)
  from Some have "FirstUnacked U (fl_inflight c) = Some e"
    by (auto simp: firstRetransmittableInflight_def split: option.splits if_splits)
  from FirstUnacked_in [OF this ok] have e: "alist_get (fl_inflight c) (oe_PacketID e) = Some e" "\<not> oe_Acked e" by simp_all
  obtain gone c0 where d: "disconnectForExpiredRetransmit env cfg e c = (gone, c0)" by fastforce
  then have c0: "fl_inflight c0 = fl_inflight c" "fl_publishBucket c0 = fl_publishBucket c" "\<not> gone \<longrightarrow> c0 = c"
    by (auto simp: disconnectForExpiredRetransmit_def split: if_splits)
  show ?thesis
  proof (cases "gone \<or> shouldWaitForRetransmitInterval env cfg e")
    case True
    then show ?thesis
      using assms c0 Some d by (auto simp: maybeRetransmitOutgoingInflight_def split: bool.splits)
  next
    case False
    then have c0c: "c0 = c" using c0(3) by simp
    obtain e1 tok sendOk c1 where a: "acquireRetransmitFlowToken e c = (e1, tok, sendOk, c1)"
      by (metis prod_cases4)
    note acq = acquire_window [OF assms e a]
    show ?thesis
    proof (cases sendOk)
      case False
      then show ?thesis
        using acq a Some d \<open>\<not> (gone \<or> _)\<close> c0c by (simp add: maybeRetransmitOutgoingInflight_def)
    next
      case True
      obtain err c2 where r: "retransmitOutgoingInflightEntry env e1 c1 = (err, c2)"
        by (cases "retransmitOutgoingInflightEntry env e1 c1")
      note c2 = retransmitEntry_window [OF r]
      have "flow_window n (case err of Some er \<Rightarrow> handleOutgoingRetransmitError e1 tok er c2
          | None \<Rightarrow> c2\<lparr>fl_inflight := snd (MarkSent (oe_PacketID e1) (Some (fe_now env)) (fl_inflight c2))\<rparr>)"
        using acq True c2 MarkSent_window retransmitError_window [of n c2 e1 tok] by (cases err) simp_all
      then show ?thesis
        using r a True Some d \<open>\<not> (gone \<or> _)\<close> c0c
        by (simp add: maybeRetransmitOutgoingInflight_def split: option.splits)
    qed
  qed
qed

section \<open>Restored messages\<close>

lemma register_window:
  assumes "flow_window n c" "registerRestoredOutgoingInflight env e c = (ok, c')"
    and "alist_get (fl_inflight c) (oe_PacketID e) = None" "oe_PacketID e \<noteq> 0" "\<not> oe_Acked e"
  shows "flow_window n c'"
proof -
  let ?k = "oe_PacketID e"
  have tok: "table_ok (fl_inflight c)" using assms(1) by (simp add: window_def)
  obtain b where b: "fl_publishBucket c = Some b" using assms(1) window_bucket by blast
  have num: "0 < bk_num b" using assms(1) b by (auto simp: window_def)
  define e2 where "e2 = e\<lparr>oe_FlowTokenHeld := ok, oe_LastSendTime := (if ok then Some (fe_now env) else None)\<rparr>"
  have eok: "entry_ok ?k e2" "held e2 = ok" using assms(4,5) by (auto simp: entry_ok_def held_def e2_def)
  have put: "snd (OIS_Put e2 (fl_inflight c)) = alist_set ?k e2 (fl_inflight c)"
    using assms(4) by (simp add: OIS_Put_def e2_def)
  show ?thesis
  proof (cases "bk_ch b = 0")
    case True
    then have res: "\<not> ok" "c' = c\<lparr>fl_inflight := alist_set ?k e2 (fl_inflight c)\<rparr>"
      using assms(2) b num put
      by (auto simp: registerRestoredOutgoingInflight_def TryGetToken_def Let_def e2_def)
    have "held_ids (alist_set ?k e2 (fl_inflight c)) = held_ids (fl_inflight c)"
      using eok(2) res(1) not_in_held_ids [OF assms(3)] by simp
    then show ?thesis using assms(1) res table_ok_set [OF tok eok(1)] by (auto simp: window_def)
  next
    case False
    let ?b = "b\<lparr>bk_ch := bk_ch b - 1\<rparr>"
    have res: "ok" "c' = c\<lparr>fl_publishBucket := Some ?b, fl_inflight := alist_set ?k e2 (fl_inflight c)\<rparr>"
      using assms(2) b num False put
      by (auto simp: registerRestoredOutgoingInflight_def TryGetToken_def Let_def e2_def)
    have "GetToken b = Some ?b" using num False by (simp add: GetToken_def not_le)
    then have "window n (alist_set ?k e2 (fl_inflight c)) (Some ?b)"
      using assms(1) b res(1) eok window_take [OF _ _ assms(3)] by simp
    then show ?thesis using res by simp
  qed
qed

lemma restoreRetained_window:
  assumes "flow_window n c" "alist_get (fl_inflight c) (ucast (um_PacketID m)) = None" "ucast (um_PacketID m) \<noteq> (0 :: u16)"
  shows "flow_window n (restoreRetainedOutgoingInflight U env m c)"
proof -
  have reg: "flow_window n c'" if "registerRestoredOutgoingInflight env e c = (ok, c')" "oe_PacketID e = ucast (um_PacketID m)"
    "\<not> oe_Acked e" for e ok c'
    using register_window [OF assms(1) that(1)] assms(2,3) that(2,3) by simp
  show ?thesis
    using assms(1) by (auto simp: restoreRetainedOutgoingInflight_def Let_def intro: reg
        split: option.splits if_splits prod.splits bool.splits)
qed

lemma restoreOne_window:
  assumes "flow_window n c" "alist_get (fl_inflight c) (ucast (um_PacketID m)) = None" "ucast (um_PacketID m) \<noteq> (0 :: u16)"
  shows "flow_window n (restoreOneOutgoingInflight U env m c)"
proof -
  have reg: "flow_window n c'" if "registerRestoredOutgoingInflight env e c = (ok, c')" "oe_PacketID e = ucast (um_PacketID m)"
    "\<not> oe_Acked e" for e ok c'
    using register_window [OF assms(1) that(1)] assms(2,3) that(2,3) by simp
  have resend: "flow_window n (snd (retransmitPublishFromTask env t q k c')) = flow_window n c'" for t q k c'
    by (cases "retransmitPublishFromTask env t q k c'") (use retransmitTask_window in fastforce)
  show ?thesis
    using assms(1) restoreRetained_window [OF assms]
    by (auto simp: restoreOneOutgoingInflight_def Let_def resend intro: reg
        split: option.splits if_splits prod.splits bool.splits)
qed

section \<open>Runs of a connection\<close>

inductive flow_step :: "uuid_api \<Rightarrow> flow \<Rightarrow> flow \<Rightarrow> bool" for U where
  send: "deliverSingleClientDeliveryTask env t c = Some (err, c') \<Longrightarrow> flow_step U c c'"
| retained: "writeRetainedPublish env p topic c = Some c' \<Longrightarrow> flow_step U c c'"
| puback: "flow_step U c (handlePubAck U env a c)"
| pubrec: "flow_step U c (handlePubRec U env r c)"
| pubcomp: "flow_step U c (handlePubComp U env p c)"
| retransmit: "flow_step U c (maybeRetransmitOutgoingInflight U env cfg c)"
| restore: "OIS_Get (fl_inflight c) (ucast (um_PacketID m)) = None \<Longrightarrow> ucast (um_PacketID m) \<noteq> (0 :: u16) \<Longrightarrow>
    flow_step U c (restoreOneOutgoingInflight U env m c)"
| commit: "flow_step U c (snd (commitOutgoingProgressToSession U env accepted c))"

inductive flow_run :: "uuid_api \<Rightarrow> flow \<Rightarrow> flow \<Rightarrow> bool" for U where
  start: "flow_run U c c"
| step: "flow_run U c c1 \<Longrightarrow> flow_step U c1 c2 \<Longrightarrow> flow_run U c c2"

lemma flow_step_window: "flow_step U c c' \<Longrightarrow> flow_window n c \<Longrightarrow> flow_window n c'"
proof (induction rule: flow_step.induct)
  case (send env t c err c')
  then show ?case by (blast intro: deliverSingle_window)
next
  case (retained env p topic c c')
  then show ?case by (blast intro: writeRetained_window)
next
  case (puback c env a)
  then show ?case unfolding handlePubAck_def by (simp add: completeTerminal_window)
next
  case (pubrec c env r)
  then show ?case by (rule handlePubRec_window)
next
  case (pubcomp c env p)
  then show ?case unfolding handlePubComp_def by (simp add: completeTerminal_window)
next
  case (retransmit c env cfg)
  then show ?case by (rule retransmit_window)
next
  case (restore c m env)
  then show ?case by (intro restoreOne_window) (simp_all add: OIS_Get_def split: if_splits)
next
  case (commit c env accepted)
  then show ?case by (simp add: commitOutgoingProgressToSession_def Let_def)
qed

lemma flow_run_window: "flow_run U c c' \<Longrightarrow> flow_window n c \<Longrightarrow> flow_window n c'"
  by (induction rule: flow_run.induct) (auto intro: flow_step_window)

lemma window_outstanding:
  assumes "window n s b"
  shows "int (card {k. \<exists>e. alist_get s k = Some e \<and> \<not> oe_Acked e \<and> oe_LastSendTime e \<noteq> None}) \<le> n"
proof -
  have "{k. \<exists>e. alist_get s k = Some e \<and> \<not> oe_Acked e \<and> oe_LastSendTime e \<noteq> None} \<subseteq> held_ids s"
    using assms by (force simp: window_def table_ok_def entry_ok_def held_ids_def held_def)
  then have "card {k. \<exists>e. alist_get s k = Some e \<and> \<not> oe_Acked e \<and> oe_LastSendTime e \<noteq> None} \<le> card (held_ids s)"
    by (intro card_mono) simp_all
  moreover have "int (card (held_ids s)) \<le> n" using assms by (auto simp: window_def)
  ultimately show ?thesis by linarith
qed


definition example_flow_env :: flow_env where
  "example_flow_env =
     \<lparr>fe_now = 100, fe_write = example_env, fe_advance = (\<lambda>cur. None), fe_load = (\<lambda>u. Inl LoadNotFound), fe_decode = (\<lambda>b. None),
      fe_shared = False, fe_readCursor = (\<lambda>k. Inr None), fe_readTasks = (\<lambda>k ts u n. Inr [example_task]),
      fe_newUUID = replicate 16 9, fe_commitMaxAcks = 0\<rparr>"

definition example_flow :: flow where
  "example_flow =
     \<lparr>fl_ID = ''c'', fl_inflight = [], fl_publishBucket = Some (setupPublishBucket (Some 2) None 0),
      fl_packetIDFactory = \<lparr>pif_id = 0\<rparr>, fl_conn = example_conn, fl_acksSinceCommit = 0, fl_commitInFlight = False, fl_wake = False,
      fl_lastTS = None, fl_lastTask = uuid_Nil, fl_outgoingReplayCursor = None, fl_log = []\<rparr>"

definition example_unfinished :: UnfinishedMessage where
  "example_unfinished =
     \<lparr>um_MessageID = ua_String raw_uuid (replicate 16 2), um_PacketID = 7, um_Qos = 2, um_State = WAITING_PUBCOMP,
      um_SubscribeTopic = None, um_IsOutgoing = True, um_FirstPubTime = 0, um_PublishPacket = [], um_AckReasonCode = 0\<rparr>"

lemma example_restored:
  "\<exists>e. fl_inflight (restoreOneOutgoingInflight raw_uuid example_flow_env example_unfinished example_flow) = [(7, e)]
    \<and> oe_PacketID e = 7 \<and> oe_FlowTokenHeld e \<and> \<not> oe_Acked e \<and> oe_LastSendTime e = Some 100"
proof -
  have "ua_Parse raw_uuid (ua_String raw_uuid (replicate 16 2)) = Some (replicate 16 2)"
    using uuid_okD(1) [OF raw_uuid_ok] by simp
  moreover have "replicate 16 2 \<noteq> uuid_Nil" by (simp add: uuid_Nil_def)
  ultimately show ?thesis
    by (simp add: restoreOneOutgoingInflight_def example_unfinished_def example_flow_def example_flow_env_def
        findDeliveryTaskByMessageID_def example_task_def outgoingInflightStateFromSession_def registerRestoredOutgoingInflight_def
        setupPublishBucket_def NewBucket_def TryGetToken_def OIS_Put_def Let_def)
qed


end
