(* ===== verification/Outgoing_Acks.thy ===== *)
theory Outgoing_Acks
  imports Outgoing_Window
begin

text \<open>
  Acknowledgements and the delivery cursor. Acknowledgements arrive in any order; the persisted cursor moves in the order of
  the queue, and only past messages that are acknowledged. The table is compared with the sorted list of its entries: an
  acknowledgement marks an entry of the list and takes the marked entries from its front.
\<close>

section \<open>The order of the queue\<close>

definition entry_pos :: "outgoingInflightEntry \<Rightarrow> GoTime \<times> UUID" where
  "entry_pos e = (oe_TaskTS e, oe_TaskID e)"

definition entries :: "outgoingInflightStore \<Rightarrow> outgoingInflightEntry set" where
  "entries s = {e. \<exists>k. alist_get s k = Some e}"

definition queue_ok :: "uuid_api \<Rightarrow> outgoingInflightStore \<Rightarrow> bool" where
  "queue_ok U s \<longleftrightarrow> table_ok s \<and> inj_on entry_pos (entries s) \<and> (\<forall>e\<in>entries s. length (oe_TaskID e) = 16)"

lemma time_Before_linear:
  "\<not> time_Before a a" "time_Before a b \<Longrightarrow> time_Before b c \<Longrightarrow> time_Before a c" "a \<noteq> b \<Longrightarrow> time_Before a b \<or> time_Before b a"
  by (auto simp: time_Before_def split: option.splits)

lemma Less_irrefl: "\<not> outgoingInflightLess U e e"
  by (simp add: outgoingInflightLess_def)

lemma Less_trans:
  assumes "outgoingInflightLess U a b" "outgoingInflightLess U b c"
  shows "outgoingInflightLess U a c"
proof -
  consider "oe_TaskTS a = oe_TaskTS b" "oe_TaskTS b = oe_TaskTS c" | "oe_TaskTS a = oe_TaskTS b" "oe_TaskTS b \<noteq> oe_TaskTS c"
    | "oe_TaskTS a \<noteq> oe_TaskTS b" "oe_TaskTS b = oe_TaskTS c"
    | "time_Before (oe_TaskTS a) (oe_TaskTS b)" "time_Before (oe_TaskTS b) (oe_TaskTS c)"
    using assms by (auto simp: outgoingInflightLess_def split: if_splits)
  then show ?thesis
  proof cases
    case 4
    then have "time_Before (oe_TaskTS a) (oe_TaskTS c)" "oe_TaskTS a \<noteq> oe_TaskTS c"
      using time_Before_linear by metis+
    then show ?thesis by (simp add: outgoingInflightLess_def)
  qed (use assms in \<open>auto simp: outgoingInflightLess_def dest: less_trans\<close>)
qed

lemma Less_total:
  assumes "uuid_ok U" "entry_pos a \<noteq> entry_pos b" "length (oe_TaskID a) = 16" "length (oe_TaskID b) = 16"
  shows "outgoingInflightLess U a b \<or> outgoingInflightLess U b a"
proof (cases "oe_TaskTS a = oe_TaskTS b")
  case True
  then have "oe_TaskID a \<noteq> oe_TaskID b" using assms(2) by (simp add: entry_pos_def)
  then have "ua_String U (oe_TaskID a) \<noteq> ua_String U (oe_TaskID b)"
    using uuid_okD(1) [OF assms(1) assms(3)] uuid_okD(1) [OF assms(1) assms(4)] by auto
  then show ?thesis using True by (auto simp: outgoingInflightLess_def neq_iff)
next
  case False
  then show ?thesis using time_Before_linear(3) by (auto simp: outgoingInflightLess_def)
qed

lemma Less_cong: "entry_pos a = entry_pos a' \<Longrightarrow> entry_pos b = entry_pos b' \<Longrightarrow>
    outgoingInflightLess U a b = outgoingInflightLess U a' b'"
  by (simp add: outgoingInflightLess_def entry_pos_def)

lemma set_insertEntry: "set (insertEntry U x xs) = insert x (set xs)"
  by (induction U x xs rule: insertEntry.induct) auto

lemma set_sortEntries: "set (sortEntries U es) = set es"
  by (induction es) (auto simp: sortEntries_def set_insertEntry)

lemma insertEntry_sorted:
  assumes "sorted_wrt (outgoingInflightLess U) xs" "\<forall>y\<in>set xs. outgoingInflightLess U x y \<or> outgoingInflightLess U y x"
  shows "sorted_wrt (outgoingInflightLess U) (insertEntry U x xs)"
  using assms
proof (induction U x xs rule: insertEntry.induct)
  case (2 U x y ys)
  show ?case
  proof (cases "outgoingInflightLess U y x")
    case True
    then show ?thesis using 2 by (auto simp: set_insertEntry)
  next
    case False
    then have "outgoingInflightLess U x y" using 2 by simp
    then show ?thesis using False 2 by (auto intro: Less_trans)
  qed
qed simp

lemma sortEntries_sorted:
  assumes "uuid_ok U" "distinct (map entry_pos es)" "\<forall>e\<in>set es. length (oe_TaskID e) = 16"
  shows "sorted_wrt (outgoingInflightLess U) (sortEntries U es)"
  using assms(2,3)
proof (induction es)
  case (Cons e es)
  have "outgoingInflightLess U e y \<or> outgoingInflightLess U y e" if "y \<in> set (sortEntries U es)" for y
    using that Cons.prems by (intro Less_total [OF assms(1)]) (auto simp: set_sortEntries)
  with Cons show ?case by (simp add: sortEntries_def insertEntry_sorted)
qed (simp add: sortEntries_def)

lemma sorted_entries_unique:
  assumes "sorted_wrt (outgoingInflightLess U) xs" "sorted_wrt (outgoingInflightLess U) ys" "set xs = set ys"
  shows "xs = ys"
  using assms
proof (induction xs arbitrary: ys)
  case (Cons x xs)
  then obtain y zs where ys: "ys = y # zs" by (cases ys) auto
  have xy: "x = y"
  proof (rule ccontr)
    assume "x \<noteq> y"
    then have "x \<in> set zs" "y \<in> set xs" using Cons.prems(3) ys by auto
    then have "outgoingInflightLess U y x" "outgoingInflightLess U x y" using Cons.prems(1,2) ys by auto
    then show False using Less_trans Less_irrefl by blast
  qed
  have "x \<notin> set xs" "x \<notin> set zs" using Cons.prems(1,2) ys xy Less_irrefl by auto
  then have "set xs = set zs" using Cons.prems(3) ys xy by auto
  then show ?case using Cons ys xy by simp
qed simp

definition inOrder :: "uuid_api \<Rightarrow> outgoingInflightStore \<Rightarrow> outgoingInflightEntry list" where
  "inOrder U s = sortEntries U (map snd s)"

lemma entries_eq: "table_ok s \<Longrightarrow> entries s = snd ` set s"
  by (force simp: entries_def table_ok_def alist_get_eq_Some_iff)

lemma inOrder_facts:
  assumes "uuid_ok U" "queue_ok U s"
  shows "set (inOrder U s) = entries s" "sorted_wrt (outgoingInflightLess U) (inOrder U s)"
proof -
  have ok: "table_ok s" using assms(2) by (simp add: queue_ok_def)
  show "set (inOrder U s) = entries s" by (simp add: inOrder_def set_sortEntries entries_eq [OF ok])
  have "inj_on (entry_pos \<circ> snd) (set s)"
  proof (rule inj_onI)
    fix x y assume xy: "x \<in> set s" "y \<in> set s" "(entry_pos \<circ> snd) x = (entry_pos \<circ> snd) y"
    then have "snd x = snd y" using assms(2) entries_eq [OF ok] by (auto simp: queue_ok_def inj_on_def)
    moreover have "fst z = oe_PacketID (snd z)" if "z \<in> set s" for z
      using that ok alist_get_eq_Some_iff [of s "fst z" "snd z"] by (auto simp: table_ok_def entry_ok_def)
    ultimately show "x = y" using xy by (simp add: prod_eq_iff)
  qed
  then have "distinct (map (entry_pos \<circ> snd) s)" using ok by (simp add: distinct_map table_ok_def)
  then show "sorted_wrt (outgoingInflightLess U) (inOrder U s)"
    unfolding inOrder_def using assms entries_eq [OF ok]
    by (intro sortEntries_sorted) (auto simp: queue_ok_def)
qed

lemma inOrder_eqI:
  assumes "uuid_ok U" "queue_ok U s" "sorted_wrt (outgoingInflightLess U) xs" "set xs = entries s"
  shows "inOrder U s = xs"
  using inOrder_facts [OF assms(1,2)] assms(3,4) by (intro sorted_entries_unique) simp_all

section \<open>Marking and taking entries\<close>

lemma entries_set:
  assumes "table_ok s" "alist_get s k = Some e"
  shows "entries (alist_set k e' s) = insert e' (entries s - {e})"
proof -
  have id: "oe_PacketID x = j" if "alist_get s j = Some x" for j x
    using table_okD [OF assms(1) that] by (simp add: entry_ok_def)
  have "(\<exists>j. (if j = k then Some e' else alist_get s j) = Some x) \<longleftrightarrow> x = e' \<or> ((\<exists>j. alist_get s j = Some x) \<and> x \<noteq> e)" for x
  proof
    assume "\<exists>j. (if j = k then Some e' else alist_get s j) = Some x"
    then obtain j where "(if j = k then Some e' else alist_get s j) = Some x" by blast
    then show "x = e' \<or> ((\<exists>j. alist_get s j = Some x) \<and> x \<noteq> e)"
      using id [of j x] id [OF assms(2)] by (cases "j = k") auto
  next
    assume x: "x = e' \<or> ((\<exists>j. alist_get s j = Some x) \<and> x \<noteq> e)"
    then show "\<exists>j. (if j = k then Some e' else alist_get s j) = Some x"
    proof
      assume "x = e'"
      then show ?thesis by (intro exI [of _ k]) simp
    next
      assume "(\<exists>j. alist_get s j = Some x) \<and> x \<noteq> e"
      then obtain j where "alist_get s j = Some x" "x \<noteq> e" by blast
      then show ?thesis using assms(2) by (intro exI [of _ j]) auto
    qed
  qed
  then show ?thesis by (auto simp: entries_def)
qed

lemma queue_ok_set:
  assumes "queue_ok U s" "alist_get s k = Some e" "entry_pos e' = entry_pos e" "entry_ok k e'"
  shows "queue_ok U (alist_set k e' s)"
proof -
  have tab: "table_ok (alist_set k e' s)" using assms(1,4) by (simp add: queue_ok_def table_ok_set)
  have ent: "entries (alist_set k e' s) = insert e' (entries s - {e})"
    using assms(1,2) by (intro entries_set) (simp_all add: queue_ok_def)
  have "inj_on entry_pos (insert e' (entries s - {e}))"
    using assms(1,2,3) by (auto simp: queue_ok_def inj_on_def entries_def)
  moreover have "length (oe_TaskID x) = 16" if "x \<in> insert e' (entries s - {e})" for x
    using that assms(1,2,3) by (auto simp: queue_ok_def entries_def entry_pos_def)
  ultimately show ?thesis using tab ent by (simp add: queue_ok_def)
qed

lemma inOrder_set:
  assumes "uuid_ok U" "queue_ok U s" "alist_get s k = Some e" "entry_pos e' = entry_pos e" "entry_ok k e'"
  shows "inOrder U (alist_set k e' s) = map (\<lambda>x. if oe_PacketID x = k then e' else x) (inOrder U s)"
proof (rule inOrder_eqI [OF assms(1) queue_ok_set [OF assms(2-5)]])
  have id: "x = e \<longleftrightarrow> oe_PacketID x = k" "alist_get s (oe_PacketID x) = Some x" if "x \<in> entries s" for x
    using that assms(2,3) by (auto simp: queue_ok_def table_ok_def entry_ok_def entries_def)
  have pos: "entry_pos (if oe_PacketID x = k then e' else x) = entry_pos x" if "x \<in> entries s" for x
    using id(1) [OF that] assms(4) by auto
  note facts = inOrder_facts [OF assms(1,2)]
  show "sorted_wrt (outgoingInflightLess U) (map (\<lambda>x. if oe_PacketID x = k then e' else x) (inOrder U s))"
    unfolding sorted_wrt_map
  proof (rule sorted_wrt_mono_rel [OF _ facts(2)])
    fix x y assume "x \<in> set (inOrder U s)" "y \<in> set (inOrder U s)" "outgoingInflightLess U x y"
    then show "outgoingInflightLess U (if oe_PacketID x = k then e' else x) (if oe_PacketID y = k then e' else y)"
      using Less_cong [OF pos pos] facts(1) by blast
  qed
  show "set (map (\<lambda>x. if oe_PacketID x = k then e' else x) (inOrder U s)) = entries (alist_set k e' s)"
  proof -
    have "entries (alist_set k e' s) = insert e' (entries s - {e})"
      using assms(2,3) by (intro entries_set) (simp_all add: queue_ok_def)
    moreover have "e \<in> entries s" using assms(3) by (auto simp: entries_def)
    ultimately show ?thesis using id(1) facts(1) by (auto simp: image_iff)
  qed
qed

lemma get_delete_all:
  "alist_get (foldl (\<lambda>s e. alist_del (oe_PacketID e) s) s es) k = (if k \<in> oe_PacketID ` set es then None else alist_get s k)"
  by (induction es arbitrary: s) auto

lemma distinct_delete_all:
  "distinct (alist_keys s) \<Longrightarrow> distinct (alist_keys (foldl (\<lambda>s e. alist_del (oe_PacketID e) s) s es))"
  by (induction es arbitrary: s) auto

lemma Pop_inOrder:
  assumes "uuid_ok U" "queue_ok U s" "PopAckedInOrder U s = (out, s')"
  shows "out = takeWhile oe_Acked (inOrder U s) \<and> queue_ok U s' \<and> inOrder U s' = dropWhile oe_Acked (inOrder U s)"
proof -
  have out: "out = takeWhile oe_Acked (inOrder U s)" "s' = foldl (\<lambda>s e. alist_del (oe_PacketID e) s) s out"
    using assms(3) by (auto simp: PopAckedInOrder_def inOrder_def Let_def)
  have id: "alist_get s (oe_PacketID x) = Some x" if "x \<in> entries s" for x
    using that assms(2) by (auto simp: queue_ok_def table_ok_def entry_ok_def entries_def)
  note facts = inOrder_facts [OF assms(1,2)]
  have sub: "set out \<subseteq> entries s" using out(1) facts(1) set_takeWhileD by fastforce
  have ent: "entries s' = entries s - set out"
  proof -
    have key: "oe_PacketID x \<in> oe_PacketID ` set out \<longleftrightarrow> x \<in> set out" if "x \<in> entries s" for x
      using that sub id by (metis (no_types, lifting) image_iff option.inject subsetD)
    have num: "oe_PacketID x = j" if "alist_get s j = Some x" for j x
      using that assms(2) by (auto simp: queue_ok_def table_ok_def entry_ok_def)
    have "x \<in> entries s' \<longleftrightarrow> x \<in> entries s \<and> oe_PacketID x \<notin> oe_PacketID ` set out" for x
      unfolding out(2) entries_def get_delete_all using num by (auto split: if_splits)
    then show ?thesis using key by auto
  qed
  have "table_ok s'"
    using assms(2) unfolding out(2) by (simp add: queue_ok_def table_ok_def distinct_delete_all get_delete_all)
  then have q: "queue_ok U s'"
    using assms(2) ent by (auto simp: queue_ok_def intro: inj_on_subset)
  have srt: "sorted_wrt (outgoingInflightLess U) (out @ dropWhile oe_Acked (inOrder U s))"
    unfolding out(1) by (simp add: facts(2))
  have "set (dropWhile oe_Acked (inOrder U s)) = entries s'"
  proof -
    have un: "entries s = set out \<union> set (dropWhile oe_Acked (inOrder U s))"
      unfolding facts(1) [symmetric] out(1) by (metis set_append takeWhile_dropWhile_id)
    moreover have "set out \<inter> set (dropWhile oe_Acked (inOrder U s)) = {}"
      using srt Less_irrefl by (fastforce simp: sorted_wrt_append)
    ultimately show ?thesis using ent by auto
  qed
  then have "inOrder U s' = dropWhile oe_Acked (inOrder U s)"
    using srt by (intro inOrder_eqI [OF assms(1) q]) (auto simp: sorted_wrt_append)
  then show ?thesis using out(1) q by simp
qed
section \<open>Acknowledgements in any order\<close>

datatype client_ack = CPubAck Puback | CPubRec Pubrec | CPubComp Pubcomp

definition handleAck :: "uuid_api \<Rightarrow> flow_env \<Rightarrow> flow \<Rightarrow> client_ack \<Rightarrow> flow" where
  "handleAck U env c a =
     (case a of
        CPubAck p \<Rightarrow> handlePubAck U env p c
      | CPubRec p \<Rightarrow> handlePubRec U env p c
      | CPubComp p \<Rightarrow> handlePubComp U env p c)"

text \<open>The last packet of the exchange for a message: PUBACK, PUBCOMP, or a PUBREC that refuses it.\<close>

definition terminal :: "client_ack \<Rightarrow> outgoingInflightEntry \<Rightarrow> bool" where
  "terminal a e =
     (case a of
        CPubAck p \<Rightarrow> oe_PacketID e = pa_PacketID p \<and> oe_QoS e = 1
      | CPubRec p \<Rightarrow> mqtt5ReasonCodeIsError (pr_ReasonCode p) \<and> oe_PacketID e = pr_PacketID p \<and> oe_QoS e = 2
      | CPubComp p \<Rightarrow> oe_PacketID e = pc_PacketID p \<and> oe_QoS e = 2)"

definition cursors :: "flow_effect list \<Rightarrow> DeliveryCursor list" where
  "cursors log = List.map_filter (\<lambda>x. case x of EffAdvanceCursor cur \<Rightarrow> Some cur | _ \<Rightarrow> None) log"

definition cursorsOf :: "flow_env \<Rightarrow> flow \<Rightarrow> outgoingInflightEntry list \<Rightarrow> DeliveryCursor list" where
  "cursorsOf env c es = map (inflightCursor env c) (filter (\<lambda>e. \<not> oe_Retained e) es)"

definition core :: "outgoingInflightEntry \<Rightarrow> outgoingInflightEntry" where
  "core e = e\<lparr>oe_Acked := False, oe_State := outInflightWaitingPubAck\<rparr>"

lemma coreD:
  assumes "core x = core e"
  shows "oe_PacketID x = oe_PacketID e" "oe_QoS x = oe_QoS e" "oe_Retained x = oe_Retained e" "entry_pos x = entry_pos e"
    "inflightCursor env c x = inflightCursor env c e"
  using assms by (cases x; cases e; simp add: core_def entry_pos_def inflightCursor_def)+

lemma cursors_append [simp]: "cursors (xs @ ys) = cursors xs @ cursors ys"
  by (simp add: cursors_def List.map_filter_def)

lemma cursors_simps [simp]:
  "cursors [] = []" "cursors (EffAdvanceCursor cur # xs) = cur # cursors xs" "cursors (EffWrite p # xs) = cursors xs"
  "cursors (EffMarkTaskProcessed g u # xs) = cursors xs" "cursors (EffRemoveOutgoingUnfinished u # xs) = cursors xs"
  "cursors (EffCommitProgress # xs) = cursors xs" "cursors (EffClose # xs) = cursors xs"
  by (simp_all add: cursors_def List.map_filter_def)

lemma cursorsOf_simps [simp]:
  "cursorsOf env c [] = []" "cursorsOf env c (xs @ ys) = cursorsOf env c xs @ cursorsOf env c ys"
  "cursorsOf env c (e # es) = (if oe_Retained e then [] else [inflightCursor env c e]) @ cursorsOf env c es"
  by (simp_all add: cursorsOf_def)

lemma advanceEntry_log:
  assumes "\<forall>cur. fe_advance env cur = None"
  shows "cursors (fl_log (advanceEntry env c e)) = cursors (fl_log c) @ cursorsOf env c [e]" "fl_ID (advanceEntry env c e) = fl_ID c"
  using assms
  by (simp_all add: advanceEntry_def Let_def forgetPacketID_def emit_def completeSharedDeliveryTask_def inflightCursor_def)

lemma cursorsOf_cong: "fl_ID c' = fl_ID c \<Longrightarrow> cursorsOf env c' es = cursorsOf env c es"
  by (simp add: cursorsOf_def inflightCursor_def)

lemma advanceEntries_log:
  assumes "\<forall>cur. fe_advance env cur = None"
  shows "cursors (fl_log (foldl (advanceEntry env) c es)) = cursors (fl_log c) @ cursorsOf env c es
    \<and> fl_ID (foldl (advanceEntry env) c es) = fl_ID c"
proof (induction es arbitrary: c)
  case (Cons e es)
  have "cursorsOf env (advanceEntry env c e) es = cursorsOf env c es"
    by (rule cursorsOf_cong) (simp add: advanceEntry_log [OF assms])
  then show ?case using Cons [of "advanceEntry env c e"] advanceEntry_log [OF assms, of c e] by simp
qed simp

lemma recordAcks_log [simp]:
  "cursors (fl_log (recordOutgoingTerminalAcks env n c)) = cursors (fl_log c)" "fl_ID (recordOutgoingTerminalAcks env n c) = fl_ID c"
  by (simp_all add: recordOutgoingTerminalAcks_def maybeCommitOutgoingProgress_def emit_def Let_def)

text \<open>The state after acknowledgements, told from the sorted list \<open>L\<close> at the start and the set of messages whose exchange has
  ended.\<close>

definition ack_inv :: "uuid_api \<Rightarrow> flow_env \<Rightarrow> flow \<Rightarrow> (outgoingInflightEntry \<Rightarrow> bool) \<Rightarrow> flow \<Rightarrow> bool" where
  "ack_inv U env c0 T c \<longleftrightarrow>
     (let L = inOrder U (fl_inflight c0)
      in queue_ok U (fl_inflight c) \<and> fl_ID c = fl_ID c0
         \<and> list_all2 (\<lambda>x e. core x = core e \<and> (oe_Acked x \<longleftrightarrow> T e)) (inOrder U (fl_inflight c)) (dropWhile T L)
         \<and> cursors (fl_log c) = cursors (fl_log c0) @ cursorsOf env c0 (takeWhile T L)
         \<and> (takeWhile T L \<noteq> [] \<longrightarrow> fl_wake c))"

lemma list_all2_while:
  assumes "list_all2 R xs ys" "\<And>x y. R x y \<Longrightarrow> P x = Q y"
  shows "list_all2 R (takeWhile P xs) (takeWhile Q ys) \<and> list_all2 R (dropWhile P xs) (dropWhile Q ys)"
  using assms(1) by (induction rule: list_all2_induct) (auto simp: assms(2))

lemma list_all2_in: "list_all2 R xs ys \<Longrightarrow> y \<in> set ys \<Longrightarrow> \<exists>x\<in>set xs. R x y"
  by (induction rule: list_all2_induct) auto

lemma while_mono:
  assumes "\<And>x. T x \<Longrightarrow> T' x"
  shows "dropWhile T' L = dropWhile T' (dropWhile T L)" "takeWhile T' L = takeWhile T L @ takeWhile T' (dropWhile T L)"
  by (induction L) (auto simp: assms)

lemma cursorsOf_core:
  "list_all2 (\<lambda>x e. core x = core e \<and> R x e) xs es \<Longrightarrow> cursorsOf env c xs = cursorsOf env c es"
proof (induction rule: list_all2_induct)
  case (Cons x xs e es)
  then show ?case using coreD(3) [of x e] coreD(5) [of x e env c] by simp
qed simp

lemma ack_inv_cong:
  assumes "ack_inv U env c0 T c" "\<forall>e\<in>set (inOrder U (fl_inflight c0)). T' e = T e"
  shows "ack_inv U env c0 T' c"
proof -
  let ?L = "inOrder U (fl_inflight c0)"
  have w: "takeWhile T' ?L = takeWhile T ?L" "dropWhile T' ?L = dropWhile T ?L"
    using assms(2) by (auto intro: takeWhile_cong dropWhile_cong)
  have "list_all2 (\<lambda>x e. core x = core e \<and> (oe_Acked x \<longleftrightarrow> T e)) (inOrder U (fl_inflight c)) (dropWhile T ?L)"
    using assms(1) by (simp add: ack_inv_def Let_def)
  then have "list_all2 (\<lambda>x e. core x = core e \<and> (oe_Acked x \<longleftrightarrow> T' e)) (inOrder U (fl_inflight c)) (dropWhile T ?L)"
    by (rule list.rel_mono_strong) (use assms(2) in \<open>auto dest: set_dropWhileD\<close>)
  then show ?thesis using assms(1) by (simp add: ack_inv_def Let_def w)
qed

lemma completeTerminal_ack:
  assumes "uuid_ok U" "\<forall>cur. fe_advance env cur = None" "ack_inv U env c0 T c"
  shows "ack_inv U env c0 (\<lambda>e. T e \<or> oe_PacketID e = k \<and> oe_QoS e = q) (completeTerminalOutgoingInflight U env k q c)"
proof -
  let ?L = "inOrder U (fl_inflight c0)" and ?s = "fl_inflight c" and ?T' = "\<lambda>e. T e \<or> oe_PacketID e = k \<and> oe_QoS e = q"
  from assms(3) have q: "queue_ok U ?s" and rel: "list_all2 (\<lambda>x e. core x = core e \<and> (oe_Acked x \<longleftrightarrow> T e)) (inOrder U ?s) (dropWhile T ?L)"
    and log: "cursors (fl_log c) = cursors (fl_log c0) @ cursorsOf env c0 (takeWhile T ?L)" and ID: "fl_ID c = fl_ID c0"
    and wake: "takeWhile T ?L \<noteq> [] \<longrightarrow> fl_wake c"
    by (simp_all add: ack_inv_def Let_def)
  have ok: "table_ok ?s" using q by (simp add: queue_ok_def)
  note ent = inOrder_facts(1) [OF assms(1) q]
  have get: "alist_get ?s (oe_PacketID x) = Some x" if "x \<in> set (inOrder U ?s)" for x
    using that ok by (auto simp: ent entries_def table_ok_def entry_ok_def)
  show ?thesis
  proof (cases "MarkAcked k q ?s")
    case None
    have "T e" if e: "e \<in> set ?L" "oe_PacketID e = k" "oe_QoS e = q" for e
    proof (cases "e \<in> set (dropWhile T ?L)")
      case True
      then obtain x where x: "x \<in> set (inOrder U ?s)" "core x = core e" "oe_Acked x \<longleftrightarrow> T e"
        using list_all2_in [OF rel] by blast
      have "alist_get ?s k = Some x" "oe_QoS x = q" using get [OF x(1)] coreD(1,2) [OF x(2)] e by simp_all
      then have "oe_Acked x" using None by (simp add: MarkAcked_def OIS_Get_eq [OF ok] Let_def split: if_splits)
      then show ?thesis using x by simp
    next
      case False
      moreover have "e \<in> set (takeWhile T ?L) \<union> set (dropWhile T ?L)"
        using e(1) by (simp flip: set_append)
      ultimately show ?thesis using set_takeWhileD by fastforce
    qed
    then have "ack_inv U env c0 ?T' c" by (intro ack_inv_cong [OF assms(3)]) auto
    then show ?thesis using None by (simp add: completeTerminalOutgoingInflight_def)
  next
    case (Some r)
    obtain e1 s where r: "r = (e1, s)" by (cases r)
    from Some r obtain e where e: "alist_get ?s k = Some e" "oe_QoS e = q" "e1 = e\<lparr>oe_Acked := True\<rparr>" "s = alist_set k e1 ?s"
      by (auto simp: MarkAcked_def OIS_Get_eq [OF ok] Let_def split: option.splits if_splits)
    have e1: "entry_pos e1 = entry_pos e" "entry_ok k e1"
      using table_okD [OF ok e(1)] e(3) by (simp_all add: entry_pos_def entry_ok_def)
    have q1: "queue_ok U s" unfolding e(4) by (rule queue_ok_set [OF q e(1) e1])
    have in1: "inOrder U s = map (\<lambda>x. if oe_PacketID x = k then e1 else x) (inOrder U ?s)"
      unfolding e(4) by (rule inOrder_set [OF assms(1) q e(1) e1])
    have rel1: "list_all2 (\<lambda>x e. core x = core e \<and> (oe_Acked x \<longleftrightarrow> ?T' e)) (inOrder U s) (dropWhile T ?L)"
      unfolding in1 list_all2_map1
    proof (rule list.rel_mono_strong [OF rel])
      fix x y assume xy: "x \<in> set (inOrder U ?s)" "y \<in> set (dropWhile T ?L)" "core x = core y \<and> (oe_Acked x \<longleftrightarrow> T y)"
      show "core (if oe_PacketID x = k then e1 else x) = core y \<and> (oe_Acked (if oe_PacketID x = k then e1 else x) \<longleftrightarrow> ?T' y)"
      proof (cases "oe_PacketID x = k")
        case True
        then have "x = e" using get [OF xy(1)] e(1) by simp
        then show ?thesis using xy(3) e(2,3) True coreD(1,2) [of x y] by (auto simp: core_def)
      next
        case False
        then show ?thesis using xy(3) coreD(1) [of x y] by auto
      qed
    qed
    obtain out s' where pop: "PopAckedInOrder U s = (out, s')" by (cases "PopAckedInOrder U s")
    note pf = Pop_inOrder [OF assms(1) q1 pop]
    have wh: "list_all2 (\<lambda>x e. core x = core e \<and> (oe_Acked x \<longleftrightarrow> ?T' e)) out (takeWhile ?T' (dropWhile T ?L))
        \<and> list_all2 (\<lambda>x e. core x = core e \<and> (oe_Acked x \<longleftrightarrow> ?T' e)) (inOrder U s') (dropWhile ?T' (dropWhile T ?L))"
      using list_all2_while [OF rel1, of oe_Acked ?T'] pf by simp
    have L: "dropWhile ?T' ?L = dropWhile ?T' (dropWhile T ?L)" "takeWhile ?T' ?L = takeWhile T ?L @ takeWhile ?T' (dropWhile T ?L)"
      by (rule while_mono; simp)+
    let ?c1 = "if fl_publishBucket c \<noteq> None \<and> oe_FlowTokenHeld e1 then putToken (c\<lparr>fl_inflight := s\<rparr>) else c\<lparr>fl_inflight := s\<rparr>"
    have c1: "fl_inflight ?c1 = s" "fl_log ?c1 = fl_log c" "fl_ID ?c1 = fl_ID c" "fl_wake ?c1 = fl_wake c"
      by (simp_all add: putToken_def)
    define c2 where "c2 = advanceAckedOutgoingInflight U env ?c1"
    have c2_eq: "completeTerminalOutgoingInflight U env k q c = c2"
      using Some r by (simp add: completeTerminalOutgoingInflight_def c2_def Let_def)
    have c2_tab: "fl_inflight c2 = s'" "fl_ID c2 = fl_ID c" "cursors (fl_log c2) = cursors (fl_log c) @ cursorsOf env c out"
        "fl_wake c2 \<longleftrightarrow> out \<noteq> [] \<or> fl_wake c"
      unfolding c2_def advanceAckedOutgoingInflight_def Let_def c1(1) pop prod.case
      using advanceEntries_log [OF assms(2), of "?c1\<lparr>fl_inflight := s'\<rparr>" out] c1
        cursorsOf_cong [of "?c1\<lparr>fl_inflight := s'\<rparr>" c env out]
      by (cases out; simp)+
    have "cursorsOf env c out = cursorsOf env c0 (takeWhile ?T' (dropWhile T ?L))"
      using cursorsOf_core [OF conjunct1 [OF wh]] cursorsOf_cong [OF ID] by metis
    moreover have "out = [] \<longleftrightarrow> takeWhile ?T' (dropWhile T ?L) = []" using wh by (auto dest: list_all2_lengthD)
    ultimately have "ack_inv U env c0 ?T' c2"
      using c2_tab pf wh log ID wake unfolding ack_inv_def Let_def L by auto
    then show ?thesis by (simp add: c2_eq)
  qed
qed

lemma UpdateState_ack:
  assumes "uuid_ok U" "ack_inv U env c0 T c"
  shows "ack_inv U env c0 T (c\<lparr>fl_inflight := UpdateState k st (fl_inflight c)\<rparr>)"
proof -
  let ?s = "fl_inflight c"
  have q: "queue_ok U ?s" using assms(2) by (simp add: ack_inv_def Let_def)
  then have ok: "table_ok ?s" by (simp add: queue_ok_def)
  show ?thesis
  proof (cases "alist_get ?s k")
    case None
    then have "UpdateState k st ?s = ?s" by (simp add: UpdateState_def OIS_Get_def)
    then show ?thesis using assms(2) by (simp add: ack_inv_def Let_def)
  next
    case (Some e)
    define e' where "e' = e\<lparr>oe_State := st\<rparr>"
    have e': "entry_pos e' = entry_pos e" "entry_ok k e'" "core e' = core e" "oe_Acked e' = oe_Acked e"
      using table_okD [OF ok Some] by (simp_all add: e'_def entry_pos_def entry_ok_def core_def)
    have upd: "UpdateState k st ?s = alist_set k e' ?s" using Some by (simp add: UpdateState_def OIS_Get_eq [OF ok] e'_def)
    have get: "alist_get ?s (oe_PacketID x) = Some x" if "x \<in> set (inOrder U ?s)" for x
      using that ok inOrder_facts(1) [OF assms(1) q] by (auto simp: entries_def table_ok_def entry_ok_def)
    have "list_all2 (\<lambda>x e. core x = core e \<and> (oe_Acked x \<longleftrightarrow> T e)) (inOrder U ?s) (dropWhile T (inOrder U (fl_inflight c0)))"
      using assms(2) by (simp add: ack_inv_def Let_def)
    then have "list_all2 (\<lambda>x e. core x = core e \<and> (oe_Acked x \<longleftrightarrow> T e)) (inOrder U (alist_set k e' ?s))
        (dropWhile T (inOrder U (fl_inflight c0)))"
      unfolding inOrder_set [OF assms(1) q Some e'(1,2)] list_all2_map1
    proof (rule list.rel_mono_strong)
      fix x y assume xy: "x \<in> set (inOrder U ?s)" "core x = core y \<and> (oe_Acked x \<longleftrightarrow> T y)"
      then show "core (if oe_PacketID x = k then e' else x) = core y \<and> (oe_Acked (if oe_PacketID x = k then e' else x) \<longleftrightarrow> T y)"
        using get [OF xy(1)] Some e'(3,4) by auto
    qed
    moreover have "queue_ok U (alist_set k e' ?s)" by (rule queue_ok_set [OF q Some e'(1,2)])
    ultimately show ?thesis using assms(2) unfolding upd by (simp add: ack_inv_def Let_def)
  qed
qed

lemma ack_inv_same:
  assumes "ack_inv U env c0 T c" "fl_inflight c' = fl_inflight c" "cursors (fl_log c') = cursors (fl_log c)" "fl_ID c' = fl_ID c"
    "fl_wake c' = fl_wake c"
  shows "ack_inv U env c0 T c'"
  using assms by (simp add: ack_inv_def Let_def)

lemma flow_write_log:
  "cursors (fl_log (snd (flow_write env p t c))) = cursors (fl_log c)" "fl_ID (snd (flow_write env p t c)) = fl_ID c"
  "fl_wake (snd (flow_write env p t c)) = fl_wake c"
  by (simp_all add: flow_write_def emit_def Let_def split: prod.splits)

lemma handleAck_ack:
  assumes "uuid_ok U" "\<forall>cur. fe_advance env cur = None" "ack_inv U env c0 T c"
  shows "ack_inv U env c0 (\<lambda>e. T e \<or> terminal a e) (handleAck U env c a)"
proof (cases a)
  case (CPubAck p)
  then show ?thesis
    using completeTerminal_ack [OF assms] by (simp add: handleAck_def handlePubAck_def terminal_def)
next
  case (CPubComp p)
  then show ?thesis
    using completeTerminal_ack [OF assms] by (simp add: handleAck_def handlePubComp_def terminal_def)
next
  case (CPubRec p)
  show ?thesis
  proof (cases "mqtt5ReasonCodeIsError (pr_ReasonCode p)")
    case True
    then show ?thesis
      using CPubRec completeTerminal_ack [OF assms] by (simp add: handleAck_def handlePubRec_def terminal_def)
  next
    case False
    define c1 where "c1 = (case OIS_Get (fl_inflight c) (pr_PacketID p) of
        Some e \<Rightarrow> (if oe_QoS e = 2 \<and> oe_State e = outInflightWaitingPubRec
          then snd (flow_write env (pubrelFor (pr_PacketID p)) []
            (c\<lparr>fl_inflight := UpdateState (pr_PacketID p) outInflightWaitingPubComp (fl_inflight c)\<rparr>)) else c) | None \<Rightarrow> c)"
    have "ack_inv U env c0 T c1"
      using assms(3) ack_inv_same [OF UpdateState_ack [OF assms(1,3)]]
      by (simp add: c1_def flow_write_log split: option.splits)
    then have "ack_inv U env c0 T (forgetPacketID (pr_PacketID p) c1)"
      by (rule ack_inv_same) (simp_all add: forgetPacketID_def)
    then show ?thesis
      using CPubRec False by (simp add: handleAck_def handlePubRec_def terminal_def c1_def)
  qed
qed

lemma handleAcks_ack:
  assumes "uuid_ok U" "queue_ok U (fl_inflight c)" "\<forall>e\<in>entries (fl_inflight c). \<not> oe_Acked e" "\<forall>cur. fe_advance env cur = None"
  shows "ack_inv U env c (\<lambda>e. \<exists>a\<in>set as. terminal a e) (foldl (handleAck U env) c as)"
proof (induction as rule: rev_induct)
  case Nil
  let ?L = "inOrder U (fl_inflight c)"
  have "\<not> oe_Acked e" if "e \<in> set ?L" for e using that assms(3) inOrder_facts(1) [OF assms(1,2)] by simp
  then have "list_all2 (\<lambda>x e. core x = core e \<and> (oe_Acked x \<longleftrightarrow> False)) ?L ?L" by (simp add: list.rel_refl_strong)
  moreover have "dropWhile (\<lambda>e. False) ?L = ?L" "takeWhile (\<lambda>e. False) ?L = []" by (cases ?L; simp)+
  ultimately show ?case using assms(2) by (simp add: ack_inv_def Let_def)
next
  case (snoc a as)
  have "(\<lambda>e. (\<exists>a\<in>set as. terminal a e) \<or> terminal a e) = (\<lambda>e. \<exists>b\<in>set (as @ [a]). terminal b e)" by auto
  then show ?case using handleAck_ack [OF assms(1,4) snoc, of a] by (simp only: foldl_append foldl.simps)
qed

text \<open>C32: The persisted cursor follows the acknowledgements in the order of the queue. Let acknowledgements of a connection
  arrive in any order, with repetitions and for unknown messages too. The cursor positions that are persisted are those
  of the longest run from the front of the queue whose exchanges have ended, each once and in increasing order. A
  message that is not acknowledged, and every message behind it, keeps its place in the table, and no position at or behind it is
  persisted.\<close>

theorem cursor_follows_acks:
  assumes "uuid_ok U" "queue_ok U (fl_inflight c)" "\<forall>e\<in>entries (fl_inflight c). \<not> oe_Acked e" "\<forall>cur. fe_advance env cur = None"
  shows "set (inOrder U (fl_inflight c)) = entries (fl_inflight c)
    \<and> sorted_wrt (outgoingInflightLess U) (inOrder U (fl_inflight c))
    \<and> cursors (fl_log (foldl (handleAck U env) c as)) = cursors (fl_log c) @
        map (inflightCursor env c) (filter (\<lambda>e. \<not> oe_Retained e)
          (takeWhile (\<lambda>e. \<exists>a\<in>set as. terminal a e) (inOrder U (fl_inflight c))))
    \<and> map oe_PacketID (inOrder U (fl_inflight (foldl (handleAck U env) c as))) =
        map oe_PacketID (dropWhile (\<lambda>e. \<exists>a\<in>set as. terminal a e) (inOrder U (fl_inflight c)))"
proof -
  let ?T = "\<lambda>e. \<exists>a\<in>set as. terminal a e" and ?c = "foldl (handleAck U env) c as"
  have inv: "ack_inv U env c ?T ?c" by (rule handleAcks_ack [OF assms])
  then have "list_all2 (\<lambda>x e. core x = core e \<and> (oe_Acked x \<longleftrightarrow> ?T e)) (inOrder U (fl_inflight ?c))
      (dropWhile ?T (inOrder U (fl_inflight c)))"
    by (simp add: ack_inv_def Let_def)
  then have "list_all2 (\<lambda>x e. oe_PacketID x = oe_PacketID e) (inOrder U (fl_inflight ?c)) (dropWhile ?T (inOrder U (fl_inflight c)))"
    by (rule list_all2_mono) (use coreD(1) in blast)
  then have "map oe_PacketID (inOrder U (fl_inflight ?c)) = map oe_PacketID (dropWhile ?T (inOrder U (fl_inflight c)))"
    by (simp add: list_all2_conv_all_nth list_eq_iff_nth_eq)
  moreover have "cursors (fl_log ?c) = cursors (fl_log c) @ cursorsOf env c (takeWhile ?T (inOrder U (fl_inflight c)))"
    using inv by (simp add: ack_inv_def Let_def)
  ultimately show ?thesis using inOrder_facts [OF assms(1,2)] by (simp add: cursorsOf_def)
qed

definition example_entry :: "u16 \<Rightarrow> byte \<Rightarrow> int \<Rightarrow> outgoingInflightEntry" where
  "example_entry k q ts =
     \<lparr>oe_PacketID = k, oe_QoS = q, oe_TaskTS = Some ts, oe_TaskID = replicate 16 1, oe_Generation = 0, oe_MessageID = replicate 16 2,
      oe_ShareGroup = [], oe_SharedTaskID = uuid_Nil, oe_Retained = False, oe_PublishPacket = [], oe_FirstPubTime = Some 50,
      oe_LastSendTime = Some 50, oe_RetryCount = 0, oe_Acked = False, oe_FlowTokenHeld = True,
      oe_State = (if q = 1 then outInflightWaitingPubAck else outInflightWaitingPubRec), oe_PersistedInSession = False\<rparr>"

definition example_busy :: flow where
  "example_busy = example_flow\<lparr>fl_inflight := [(2, example_entry 2 2 20), (1, example_entry 1 1 10)],
     fl_publishBucket := Some \<lparr>bk_ch = 0, bk_num = 2\<rparr>\<rparr>"

definition example_puback :: client_ack where
  "example_puback = CPubAck \<lparr>pa_Properties = None, pa_PacketID = 1, pa_ReasonCode = 0\<rparr>"

definition example_pubcomp :: client_ack where
  "example_pubcomp = CPubComp \<lparr>pc_Properties = None, pc_PacketID = 2, pc_ReasonCode = 0\<rparr>"

lemma example_busy_get: "alist_get (fl_inflight example_busy) k = Some e \<longleftrightarrow>
    k = 1 \<and> e = example_entry 1 1 10 \<or> k = 2 \<and> e = example_entry 2 2 20"
  by (auto simp: example_busy_def)

lemma example_busy_ok:
  "queue_ok raw_uuid (fl_inflight example_busy)" "\<forall>e\<in>entries (fl_inflight example_busy). \<not> oe_Acked e"
  "\<forall>cur. fe_advance example_flow_env cur = None"
  "inOrder raw_uuid (fl_inflight example_busy) = [example_entry 1 1 10, example_entry 2 2 20]"
  "fl_log example_busy = []"
proof -
  have ent: "entries (fl_inflight example_busy) = {example_entry 1 1 10, example_entry 2 2 20}"
    unfolding entries_def example_busy_get by blast
  have "table_ok (fl_inflight example_busy)"
    unfolding table_ok_def example_busy_get by (auto simp: entry_ok_def example_entry_def example_busy_def)
  then show "queue_ok raw_uuid (fl_inflight example_busy)"
    unfolding queue_ok_def ent by (simp add: entry_pos_def example_entry_def)
  show "\<forall>e\<in>entries (fl_inflight example_busy). \<not> oe_Acked e" unfolding ent by (simp add: example_entry_def)
  show "\<forall>cur. fe_advance example_flow_env cur = None" by (simp add: example_flow_env_def)
  show "inOrder raw_uuid (fl_inflight example_busy) = [example_entry 1 1 10, example_entry 2 2 20]"
    by (simp add: inOrder_def example_busy_def sortEntries_def outgoingInflightLess_def time_Before_def example_entry_def)
  show "fl_log example_busy = []" by (simp add: example_busy_def example_flow_def)
qed

theorem cursor_follows_acks_witness:
  "cursors (fl_log (foldl (handleAck raw_uuid example_flow_env) example_busy [example_pubcomp])) = []
    \<and> map oe_PacketID (inOrder raw_uuid (fl_inflight (foldl (handleAck raw_uuid example_flow_env) example_busy [example_pubcomp])))
      = [1, 2]
    \<and> map dc_LastTS (cursors (fl_log (foldl (handleAck raw_uuid example_flow_env) example_busy [example_pubcomp, example_puback])))
      = [Some 10, Some 20]"
proof -
  let ?t = "\<lambda>as e. \<exists>a\<in>set as. terminal a e"
  have t: "\<not> ?t [example_pubcomp] (example_entry 1 1 10)" "?t [example_pubcomp, example_puback] (example_entry 1 1 10)"
      "?t [example_pubcomp, example_puback] (example_entry 2 2 20)"
    by (simp_all add: terminal_def example_pubcomp_def example_puback_def example_entry_def)
  note r = cursor_follows_acks [OF raw_uuid_ok example_busy_ok(1-3)]
  show ?thesis
    using r [of "[example_pubcomp]"] r [of "[example_pubcomp, example_puback]"] t
    by (simp add: example_busy_ok(4,5) inflightCursor_def example_entry_def)
qed

text \<open>C33: Acknowledgements drain the connection. Once the exchange of every message of the table has ended, in whatever order
  the acknowledgements came, the table is empty, the whole window is free again, the delivery runner has been woken, and the
  cursor of the last message of the queue has been persisted last.\<close>

theorem acks_drain_connection:
  assumes "uuid_ok U" "queue_ok U (fl_inflight c)" "\<forall>e\<in>entries (fl_inflight c). \<not> oe_Acked e" "\<forall>cur. fe_advance env cur = None"
    and "window n (fl_inflight c) (fl_publishBucket c)" "\<forall>e\<in>entries (fl_inflight c). \<exists>a\<in>set as. terminal a e"
  shows "fl_inflight (foldl (handleAck U env) c as) = []
    \<and> (\<exists>b. fl_publishBucket (foldl (handleAck U env) c as) = Some b \<and> int (RemainingToken b) = n)
    \<and> (fl_inflight c \<noteq> [] \<longrightarrow> fl_wake (foldl (handleAck U env) c as))
    \<and> cursors (fl_log (foldl (handleAck U env) c as)) = cursors (fl_log c) @
        map (inflightCursor env c) (filter (\<lambda>e. \<not> oe_Retained e) (inOrder U (fl_inflight c)))"
proof -
  let ?T = "\<lambda>e. \<exists>a\<in>set as. terminal a e" and ?c = "foldl (handleAck U env) c as" and ?L = "inOrder U (fl_inflight c)"
  have inv: "ack_inv U env c ?T ?c" by (rule handleAcks_ack [OF assms(1-4)])
  note facts = inOrder_facts [OF assms(1,2)]
  have all: "takeWhile ?T ?L = ?L" "dropWhile ?T ?L = []"
    using assms(6) facts(1) by (simp_all add: takeWhile_eq_all_conv dropWhile_eq_Nil_conv)
  have q: "queue_ok U (fl_inflight ?c)" "inOrder U (fl_inflight ?c) = []" using inv all by (simp_all add: ack_inv_def Let_def)
  have empty: "fl_inflight ?c = []"
    using inOrder_facts(1) [OF assms(1) q(1)] q entries_eq by (auto simp: queue_ok_def)
  have "flow_window n ?c"
  proof (induction as rule: rev_induct)
    case (snoc a as)
    have "flow_step U (foldl (handleAck U env) c as) (handleAck U env (foldl (handleAck U env) c as) a)"
      by (cases a) (auto simp: handleAck_def intro: flow_step.puback flow_step.pubrec flow_step.pubcomp)
    then show ?case using flow_step_window snoc by simp
  qed (use assms(5) in simp)
  then have "\<exists>b. fl_publishBucket ?c = Some b \<and> int (RemainingToken b) = n"
    using empty by (auto simp: window_def held_ids_def RemainingToken_def)
  moreover have "?L \<noteq> []" if "fl_inflight c \<noteq> []"
    using that facts(1) entries_eq assms(2) by (auto simp: queue_ok_def)
  moreover have "(?L \<noteq> [] \<longrightarrow> fl_wake ?c) \<and> cursors (fl_log ?c) = cursors (fl_log c) @ cursorsOf env c ?L"
    using inv all(1) by (simp add: ack_inv_def Let_def)
  ultimately show ?thesis using empty by (simp add: cursorsOf_def)
qed

lemma example_busy_window: "window 2 (fl_inflight example_busy) (fl_publishBucket example_busy)"
proof -
  have held: "held (example_entry k q t)" for k q t by (simp add: held_def example_entry_def)
  have "held_ids (fl_inflight example_busy) = {1, 2}"
    unfolding held_ids_def example_busy_get using held by blast
  moreover have "table_ok (fl_inflight example_busy)" using example_busy_ok(1) by (simp only: queue_ok_def)
  moreover have "fl_publishBucket example_busy = Some \<lparr>bk_ch = 0, bk_num = 2\<rparr>" by (simp add: example_busy_def)
  ultimately show ?thesis by (simp only: window_def) simp
qed

lemma example_busy_acked:
  "\<forall>e\<in>entries (fl_inflight example_busy). \<exists>a\<in>set [example_pubcomp, example_puback]. terminal a e"
proof
  fix e assume "e \<in> entries (fl_inflight example_busy)"
  then have "e = example_entry 1 1 10 \<or> e = example_entry 2 2 20" unfolding entries_def example_busy_get by blast
  then show "\<exists>a\<in>set [example_pubcomp, example_puback]. terminal a e"
    by (elim disjE) (simp_all add: terminal_def example_pubcomp_def example_puback_def example_entry_def)
qed

theorem acks_drain_connection_witness:
  "fl_inflight (foldl (handleAck raw_uuid example_flow_env) example_busy [example_pubcomp, example_puback]) = []
    \<and> fl_wake (foldl (handleAck raw_uuid example_flow_env) example_busy [example_pubcomp, example_puback])"
proof -
  have "fl_inflight example_busy \<noteq> []" by (simp add: example_busy_def)
  then show ?thesis
    using acks_drain_connection [OF raw_uuid_ok example_busy_ok(1-3) example_busy_window example_busy_acked] by blast
qed

end
