(* ===== verification/Outgoing_Drop.thy ===== *)
theory Outgoing_Drop
  imports Outgoing_Acks
begin

text \<open>
  Tasks that are dropped while earlier messages wait for their acknowledgement. A task whose payload is gone, one that has
  expired, one that No Local excludes and one of quality of service 0 moves the persisted cursor at once
  (\<open>advanceClientDeliveryCursor\<close>), and the store deletes every row up to the cursor. The theories of the connection and of the
  store meet here: what the move does to messages that are still in flight.
\<close>

lemma drop_advances:
  assumes "fe_load env (dt_MessageID t) = Inl LoadNotFound" "fe_advance env (taskCursor env c t) = None"
  shows "\<exists>c'. deliverSingleClientDeliveryTask env t c = Some (None, c') \<and> fl_inflight c' = fl_inflight c \<and> fl_ID c' = fl_ID c
    \<and> cursors (fl_log c') = cursors (fl_log c) @ [taskCursor env c t]"
proof -
  have "taskCursor env (c\<lparr>fl_lastTS := a, fl_lastTask := b\<rparr>) t = taskCursor env c t" for a b
    by (simp add: taskCursor_def)
  then show ?thesis
    using assms
    by (simp add: deliverSingleClientDeliveryTask_def loadClientDeliveryMessage_def advanceClientDeliveryCursor_def Let_def
        completeSharedDeliveryTask_def emit_def)
qed

lemma advance_deletes:
  assumes "uuid_ok U" "badger_ok B" "store_wf U (bd_Get B db)" "dc_ClientID cur \<noteq> []" "nul_free (dc_ClientID cur)"
    and "pos_ok (UnixNano (dc_LastTS cur), dc_LastTaskID cur)"
    and "AdvanceDeliveryCursor U B commit None cur db = (True, None, db')"
  shows "store_wf U (bd_Get B db')"
    and "cursor_of U (bd_Get B db') (dc_ClientID cur) = Some (UnixNano (dc_LastTS cur), dc_LastTaskID cur)"
    and "tasks (bd_Get B db') (dc_ClientID cur) p =
      (if \<not> pos_less (UnixNano (dc_LastTS cur), dc_LastTaskID cur) p then None else tasks (bd_Get B db) (dc_ClientID cur) p)"
proof -
  let ?r = "\<lparr>ac_UpdatedTSUnixNano = UnixNano (dc_UpdatedTS cur), ac_ClientID = dc_ClientID cur,
    ac_LastTSUnixNano = UnixNano (dc_LastTS cur), ac_LastTaskID = ua_String U (dc_LastTaskID cur)\<rparr>"
  have v: "updateAdvanceCursor U B commit ?r db = (1, None, db')"
    using assms(7) by (auto simp: AdvanceDeliveryCursor_def Let_def split: prod.splits)
  have len: "length (dc_LastTaskID cur) = 16" using assms(6) by (simp add: pos_ok_def)
  have r: "nul_free (ac_ClientID ?r)" "ac_ClientID ?r \<noteq> []" "ac_LastTaskID ?r \<noteq> []"
      "ua_Parse U (ac_LastTaskID ?r) = Some (dc_LastTaskID cur)" "pos_ok (ac_LastTSUnixNano ?r, dc_LastTaskID cur)"
    using assms(4-6) uuid_okD(1) [OF assms(1) len] uuid_okD(2) [OF assms(1) len] by simp_all
  note out = advance_outcome [OF assms(2,3) r v refl assms(5)]
  show "store_wf U (bd_Get B db')" using out(5) by simp
  show "cursor_of U (bd_Get B db') (dc_ClientID cur) = Some (UnixNano (dc_LastTS cur), dc_LastTaskID cur)" using out(4) by simp
  show "tasks (bd_Get B db') (dc_ClientID cur) p =
      (if \<not> pos_less (UnixNano (dc_LastTS cur), dc_LastTaskID cur) p then None else tasks (bd_Get B db) (dc_ClientID cur) p)"
    using out(3) by simp
qed

text \<open>The connection reads its queue from a database.\<close>

definition reads_from :: "uuid_api \<Rightarrow> 'db badger \<Rightarrow> 'db \<Rightarrow> flow_env \<Rightarrow> bool" where
  "reads_from U B db env \<longleftrightarrow>
     fe_readCursor env = ReadDeliveryCursor U B None db \<and> fe_readTasks env = ReadDeliveryTasks U B None db"

lemma cursor_of_read:
  assumes "cursor_of U (bd_Get B db) c = Some (t, u)" "c \<noteq> []"
  shows "\<exists>cur. ReadDeliveryCursor U B None db c = Inr (Some cur) \<and> dc_LastTS cur = Some t \<and> dc_LastTaskID cur = u"
  using assms
  by (auto simp: cursor_of_def ReadDeliveryCursor_def lookupDeliveryCursor_def lookupDeliveryCursorInTxn_def deliveryCursorFromValue_def
      unmarshalCursor_def time_Unix0_def split: option.splits kvValue.splits)

lemma task_not_found:
  assumes "badger_ok B" "store_wf U (bd_Get B db)" "reads_from U B db env" "nul_free (fl_ID c)" "fl_ID c \<noteq> []"
    and "cursor_of U (bd_Get B db) (fl_ID c) = Some pos" "pos_ok pos"
    and "\<And>p d. queued U (bd_Get B db) (fl_ID c) p d \<Longrightarrow> dt_MessageID d \<noteq> m"
  shows "findDeliveryTaskByMessageID env c m = None"
proof -
  obtain cur where cur: "ReadDeliveryCursor U B None db (fl_ID c) = Inr (Some cur)" "(UnixNano (dc_LastTS cur), dc_LastTaskID cur) = pos"
    using cursor_of_read [of U B db "fl_ID c" "fst pos" "snd pos"] assms(5,6) by (auto simp: UnixNano_def)
  then have "readPosition (dc_LastTS cur) (dc_LastTaskID cur)" using assms(7) by (simp add: readPosition_def)
  then obtain all where all: "\<And>d. d \<in> set all \<Longrightarrow> \<exists>p. queued U (bd_Get B db) (fl_ID c) p d"
      "ReadDeliveryTasks U B None db (fl_ID c) (dc_LastTS cur) (dc_LastTaskID cur) 200 = Inr (take 200 all)"
    using ReadDeliveryTasks_rows [OF assms(1,2,4,5)] by (metis nat_numeral zero_less_numeral)
  have "find (\<lambda>t. dt_MessageID t = m) (take 200 all) = None"
    unfolding find_None_iff using all(1) assms(8) in_set_takeD by metis
  then show ?thesis
    using assms(3,5) cur(1) all(2) by (simp add: findDeliveryTaskByMessageID_def reads_from_def)
qed



definition example_waiting :: outgoingInflightEntry where
  "example_waiting = (example_entry 1 1 7)\<lparr>oe_TaskID := replicate 16 9, oe_MessageID := bytes_of_string (replicate 16 (CHR ''m''))\<rparr>"

definition example_sent :: flow where
  "example_sent = example_flow\<lparr>fl_inflight := [(1, example_waiting)], fl_publishBucket := Some \<lparr>bk_ch = 1, bk_num = 2\<rparr>\<rparr>"

lemma example_queue:
  assumes "queued raw_uuid (bd_Get list_badger example_rows) ''c'' p d"
  shows "p = (7, replicate 16 9)"
proof -
  have ok: "pos_ok p" "rowKey prefixTask ''c'' p = rowKey prefixTask ''c'' (7, replicate 16 9)"
    using assms by (auto simp: queued_def tasks_def list_badger_def example_rows_def split: if_splits)
  moreover have "pos_ok (7, replicate 16 9)" by (simp add: pos_ok_def ts_ok_def)
  ultimately show ?thesis using rowKey_inject [of p "(7, replicate 16 9)" "''c''" "''c''" prefixTask] by (simp add: nul_free_def)
qed

lemma example_advance:
  "\<exists>db'. AdvanceDeliveryCursor raw_uuid list_badger None None (taskCursor example_flow_env example_sent example_task) example_rows
    = (True, None, db')"
proof -
  let ?r = "\<lparr>ac_UpdatedTSUnixNano = 100, ac_ClientID = ''c'', ac_LastTSUnixNano = 8, ac_LastTaskID = ua_String raw_uuid (replicate 16 1)\<rparr>"
  have cur: "AdvanceDeliveryCursor raw_uuid list_badger None None (taskCursor example_flow_env example_sent example_task) example_rows
      = (let (val, err, db) = updateAdvanceCursor raw_uuid list_badger None ?r example_rows in (val = 1, err, db))"
    by (simp add: AdvanceDeliveryCursor_def taskCursor_def example_flow_env_def example_sent_def example_flow_def example_task_def
        UnixNano_def)
  obtain v err db' where r: "updateAdvanceCursor raw_uuid list_badger None ?r example_rows = (v, err, db')"
    by (metis prod.collapse)
  have id: "ua_Parse raw_uuid (ac_LastTaskID ?r) = Some (replicate 16 1)" "ac_LastTaskID ?r \<noteq> []"
    using uuid_okD(1,2) [OF raw_uuid_ok, of "replicate 16 1"] by simp_all
  have err: "err = None"
    using advance_error(2) [OF r example_rows_wf _ id(2,1)] by (simp add: list_badger_def)
  have "cursor_of raw_uuid (bd_Get list_badger example_rows) ''c'' = None"
    by (simp add: cursor_of_def list_badger_def example_rows_def)
  then have "v = 1"
    using advance_outcome(1) [OF list_badger_ok example_rows_wf _ _ id(2,1) _ r err, of "''c''"]
    by (simp add: nul_free_def pos_ok_def ts_ok_def)
  then show ?thesis using cur r err by simp
qed


end
