(* ===== verification/Spec2Isabelle.thy ===== *)
theory Spec2Isabelle
  imports Prelude Mqtt_Packet Topic_Filter Wire_Base Wire_Props Wire_Codec Sub_Trie Sub_Center Sub_Views Topic_Alias Packet_Id
    Delivery_Keys Delivery_Store Share_Store Client_Write Outgoing_Flow Outgoing_Restore Outgoing_Window Outgoing_Acks Outgoing_Drop
begin

text \<open>
  A verification development for skyTree, a distributed MQTT 5 broker written in Go.

  The wire layer: \<open>Mqtt_Packet\<close> holds the packet structs, \<open>Wire_Base\<close> the fields, \<open>Wire_Props\<close> the properties and
  \<open>Wire_Codec\<close> the packets of \<open>src/pkg/mqtt5\<close>. \<open>Topic_Filter\<close> is \<open>src/pkg/mqtt5/topic\<close>.
\<close>

end
